(* ===== verification/Go_Prelude.thy ===== *)
theory Go_Prelude
  imports Main "HOL-Library.Mapping" "HOL-Library.Word"
begin

text \<open>
  Shared prelude: the theorem collections of the development, the monad in which stateful Go
  code is written, its weakest-precondition style rules, and Go's maps, fixed-width integers
  and nil-able values.

  A Go function that reads and writes a state of type \<open>'s\<close> and returns a result of type
  \<open>'a\<close> is an \<open>('s, 'a) go\<close>: it either returns the result and the new state or, with
  \<open>None\<close>, panics at run time (nil map write, nil function call, index out of range).
  Error returns are ordinary results and never panics.
\<close>

section \<open>Theorem collections\<close>

named_theorems go_defs \<open>definitions of the monad's combinators\<close>
named_theorems go_rules \<open>introduction rules for program judgements\<close>

section \<open>The monad of stateful Go code\<close>

type_synonym ('s, 'a) go = "'s \<Rightarrow> ('a \<times> 's) option"

definition ret :: "'a \<Rightarrow> ('s, 'a) go" where
  [go_defs]: "ret x = (\<lambda>s. Some (x, s))"

definition bnd :: "('s, 'a) go \<Rightarrow> ('a \<Rightarrow> ('s, 'b) go) \<Rightarrow> ('s, 'b) go" where
  [go_defs]: "bnd m f = (\<lambda>s. case m s of None \<Rightarrow> None | Some (x, s') \<Rightarrow> f x s')"

definition panic :: "('s, 'a) go" where
  [go_defs]: "panic = (\<lambda>s. None)"

definition gets :: "('s \<Rightarrow> 'a) \<Rightarrow> ('s, 'a) go" where
  [go_defs]: "gets f = (\<lambda>s. Some (f s, s))"

definition upd :: "('s \<Rightarrow> 's) \<Rightarrow> ('s, unit) go" where
  [go_defs]: "upd f = (\<lambda>s. Some ((), f s))"

text \<open>Sequencing when the first result is not used, and the check \<open>if err != nil\<close>: \<open>on_err m h k\<close> runs
  \<open>m\<close>, hands a non-nil error to \<open>h\<close> and goes on with \<open>k\<close> otherwise.\<close>

definition seqm :: "('s, unit) go \<Rightarrow> ('s, 'b) go \<Rightarrow> ('s, 'b) go" where
  [go_defs]: "seqm m n = bnd m (\<lambda>_. n)"

definition on_err :: "('s, 'e option) go \<Rightarrow> ('e \<Rightarrow> ('s, 'b) go) \<Rightarrow> ('s, 'b) go \<Rightarrow> ('s, 'b) go" where
  [go_defs]: "on_err m h k = bnd m (\<lambda>r. case r of Some e \<Rightarrow> h e | None \<Rightarrow> k)"

lemma bnd_ret [simp]: "bnd (ret x) f = f x"
  by (simp add: go_defs)

lemma bnd_Some_iff:
  "bnd m f s = Some (y, s'') \<longleftrightarrow> (\<exists>x s'. m s = Some (x, s') \<and> f x s' = Some (y, s''))"
  by (auto simp: bnd_def split: option.splits prod.splits)

lemma bndE:
  assumes "bnd m f s = Some (y, s'')"
  obtains x s' where "m s = Some (x, s')" "f x s' = Some (y, s'')"
  using assms by (auto simp: bnd_Some_iff)

lemma seqm_Some_iff: "seqm m k s = Some (y, s'') \<longleftrightarrow> (\<exists>u s'. m s = Some (u, s') \<and> k s' = Some (y, s''))"
  by (simp add: seqm_def bnd_Some_iff)

lemma on_err_Some_iff:
  "on_err m h k s = Some (y, s'') \<longleftrightarrow>
     (\<exists>x s'. m s = Some (x, s') \<and> (case x of Some e \<Rightarrow> h e | None \<Rightarrow> k) s' = Some (y, s''))"
  unfolding on_err_def bnd_Some_iff by blast

lemma ret_Some_iff [simp]: "ret x s = Some (y, s') \<longleftrightarrow> y = x \<and> s' = s"
  by (auto simp: ret_def)

lemma gets_Some_iff [simp]: "gets f s = Some (y, s') \<longleftrightarrow> y = f s \<and> s' = s"
  by (auto simp: gets_def)

lemma upd_Some_iff [simp]: "upd f s = Some (y, s') \<longleftrightarrow> s' = f s"
  by (auto simp: upd_def)

lemma panic_Some_iff [simp]: "panic s \<noteq> Some r"
  by (simp add: panic_def)

section \<open>Judgements on programs\<close>

text \<open>
  \<open>post P m Q\<close>: whenever \<open>m\<close> starts in a state satisfying \<open>P\<close> and returns, the
  result and the new state satisfy \<open>Q\<close> (partial: nothing is said about panics).
  \<open>total P m Q\<close> also excludes panics. \<open>keeps R m\<close>: the states before and after any
  returning run of \<open>m\<close> are related by \<open>R\<close>.
\<close>

definition post :: "('s \<Rightarrow> bool) \<Rightarrow> ('s, 'a) go \<Rightarrow> ('a \<Rightarrow> 's \<Rightarrow> bool) \<Rightarrow> bool" where
  "post P m Q \<longleftrightarrow> (\<forall>s x s'. P s \<longrightarrow> m s = Some (x, s') \<longrightarrow> Q x s')"

definition total :: "('s \<Rightarrow> bool) \<Rightarrow> ('s, 'a) go \<Rightarrow> ('a \<Rightarrow> 's \<Rightarrow> bool) \<Rightarrow> bool" where
  "total P m Q \<longleftrightarrow> (\<forall>s. P s \<longrightarrow> (\<exists>x s'. m s = Some (x, s') \<and> Q x s'))"

definition keeps :: "('s \<Rightarrow> 's \<Rightarrow> bool) \<Rightarrow> ('s, 'a) go \<Rightarrow> bool" where
  "keeps R m \<longleftrightarrow> (\<forall>s x s'. m s = Some (x, s') \<longrightarrow> R s s')"

lemma postI: "(\<And>s x s'. P s \<Longrightarrow> m s = Some (x, s') \<Longrightarrow> Q x s') \<Longrightarrow> post P m Q"
  by (simp add: post_def)

lemma postD: "post P m Q \<Longrightarrow> P s \<Longrightarrow> m s = Some (x, s') \<Longrightarrow> Q x s'"
  by (simp add: post_def)

lemma totalI: "(\<And>s. P s \<Longrightarrow> \<exists>x s'. m s = Some (x, s') \<and> Q x s') \<Longrightarrow> total P m Q"
  by (simp add: total_def)

lemma totalD: "total P m Q \<Longrightarrow> P s \<Longrightarrow> \<exists>x s'. m s = Some (x, s') \<and> Q x s'"
  by (simp add: total_def)

lemma keepsI: "(\<And>s x s'. m s = Some (x, s') \<Longrightarrow> R s s') \<Longrightarrow> keeps R m"
  by (simp add: keeps_def)

lemma keepsD: "keeps R m \<Longrightarrow> m s = Some (x, s') \<Longrightarrow> R s s'"
  by (simp add: keeps_def)

lemma total_ret: "(\<And>s. P s \<Longrightarrow> Q x s) \<Longrightarrow> total P (ret x) Q"
  by (simp add: total_def ret_def)

lemma total_bnd:
  assumes "total P m M" and "\<And>x. total (M x) (f x) Q"
  shows "total P (bnd m f) Q"
  using assms unfolding total_def bnd_def by fastforce

lemma total_gets: "(\<And>s. P s \<Longrightarrow> Q (f s) s) \<Longrightarrow> total P (gets f) Q"
  by (simp add: total_def gets_def)

lemma total_upd: "(\<And>s. P s \<Longrightarrow> Q () (f s)) \<Longrightarrow> total P (upd f) Q"
  by (simp add: total_def upd_def)

lemma total_seqm: "total P m (\<lambda>_. M) \<Longrightarrow> total M n Q \<Longrightarrow> total P (seqm m n) Q"
  unfolding seqm_def by (rule total_bnd)

lemma total_on_err:
  assumes "total P m M" and "\<And>e. total (M (Some e)) (h e) Q" and "total (M None) k Q"
  shows "total P (on_err m h k) Q"
  unfolding on_err_def
proof (rule total_bnd [OF assms(1)])
  fix r show "total (M r) (case r of Some e \<Rightarrow> h e | None \<Rightarrow> k) Q"
    using assms(2,3) by (cases r) auto
qed

lemma total_conseq:
  "total P m Q \<Longrightarrow> (\<And>s. P' s \<Longrightarrow> P s) \<Longrightarrow> (\<And>x s. Q x s \<Longrightarrow> Q' x s) \<Longrightarrow> total P' m Q'"
  unfolding total_def by blast

lemma total_pre: "total P m Q \<Longrightarrow> (\<And>s. P' s \<Longrightarrow> P s) \<Longrightarrow> total P' m Q"
  by (rule total_conseq)

lemma post_bnd:
  assumes "post P m M" and "\<And>x. post (M x) (f x) Q"
  shows "post P (bnd m f) Q"
  using assms unfolding post_def bnd_def by (fastforce split: option.splits)

section \<open>Relations every program of a component keeps\<close>

text \<open>
  Many invariants of a stateful component have the form "the states before and after any
  operation are related by \<open>R\<close>", for a reflexive and transitive \<open>R\<close>. The locale proves
  once that such an \<open>R\<close> passes through the monad's combinators.
\<close>

locale kept_relation =
  fixes R :: "'s \<Rightarrow> 's \<Rightarrow> bool"
  assumes kept_refl: "R s s"
    and kept_trans: "R s t \<Longrightarrow> R t u \<Longrightarrow> R s u"
begin

lemma kept_ret: "keeps R (ret x)"
  by (simp add: keeps_def ret_def kept_refl)

lemma kept_gets: "keeps R (gets f)"
  by (simp add: keeps_def gets_def kept_refl)

lemma kept_panic: "keeps R panic"
  by (simp add: keeps_def panic_def)

lemma kept_upd: "(\<And>s. R s (f s)) \<Longrightarrow> keeps R (upd f)"
  by (simp add: keeps_def upd_def)

lemma kept_bnd: "keeps R m \<Longrightarrow> (\<And>x. keeps R (f x)) \<Longrightarrow> keeps R (bnd m f)"
  unfolding keeps_def bnd_def by (fastforce split: option.splits intro: kept_trans)

lemma kept_seqm: "keeps R m \<Longrightarrow> keeps R n \<Longrightarrow> keeps R (seqm m n)"
  unfolding seqm_def by (rule kept_bnd)

lemma kept_on_err:
  assumes "keeps R m" and "\<And>e. keeps R (h e)" and "keeps R k"
  shows "keeps R (on_err m h k)"
  unfolding on_err_def
proof (rule kept_bnd [OF assms(1)])
  fix r show "keeps R (case r of Some e \<Rightarrow> h e | None \<Rightarrow> k)"
    using assms(2,3) by (cases r) auto
qed

lemmas kept_rules = kept_ret kept_gets kept_panic kept_bnd kept_seqm kept_on_err

end

section \<open>Go maps\<close>

text \<open>
  A Go map value is nil or a finite map: \<open>('k, 'v) mapping option\<close>. Reading a missing key, or
  any key of a nil map, gives the zero value of the element type; writing to a nil map panics
  (the writing operations of the components check for it).
\<close>

type_synonym ('k, 'v) gomap = "('k, 'v) mapping option"

definition go_lookup :: "('k, 'v) gomap \<Rightarrow> 'k \<Rightarrow> 'v option" where
  "go_lookup m k = (case m of None \<Rightarrow> None | Some mp \<Rightarrow> Mapping.lookup mp k)"

definition go_get :: "'v \<Rightarrow> ('k, 'v) gomap \<Rightarrow> 'k \<Rightarrow> 'v" where
  "go_get zero m k = (case go_lookup m k of None \<Rightarrow> zero | Some v \<Rightarrow> v)"

definition go_make :: "('k, 'v) gomap \<Rightarrow> ('k, 'v) gomap" where
  \<comment> \<open>\<open>if m == nil { m = make(...) }\<close>\<close>
  "go_make m = (case m of None \<Rightarrow> Some Mapping.empty | Some mp \<Rightarrow> Some mp)"

lemma go_make_neq_None [simp]: "go_make m \<noteq> None"
  by (simp add: go_make_def split: option.splits)

lemma go_lookup_Some [simp]: "go_lookup (Some mp) k = Mapping.lookup mp k"
  by (simp add: go_lookup_def)

lemma go_lookup_None [simp]: "go_lookup None k = None"
  by (simp add: go_lookup_def)

lemma go_lookup_make [simp]: "go_lookup (go_make m) k = go_lookup m k"
  by (cases m) (simp_all add: go_make_def)

lemma lookup_update_if:
  "Mapping.lookup (Mapping.update k v m) k' = (if k' = k then Some v else Mapping.lookup m k')"
  by (simp add: lookup_update' )

lemma lookup_delete_if:
  "Mapping.lookup (Mapping.delete k m) k' = (if k' = k then None else Mapping.lookup m k')"
  by (transfer) simp

section \<open>Fixed-width integers\<close>

text \<open>
  Durations, attempt counters and iteration numbers are Go's 64-bit signed integers. They are
  modelled as \<^typ>\<open>int\<close>; wherever the code's arithmetic can leave the range, the operation
  wraps explicitly with \<open>i64\<close>.
\<close>

definition i64 :: "int \<Rightarrow> int" where
  "i64 x = (x + 2 ^ 63) mod 2 ^ 64 - 2 ^ 63"

definition max_int64 :: int where "max_int64 = 2 ^ 63 - 1"
definition min_int64 :: int where "min_int64 = - (2 ^ 63)"

definition in_i64 :: "int \<Rightarrow> bool" where
  "in_i64 x \<longleftrightarrow> min_int64 \<le> x \<and> x \<le> max_int64"

lemma i64_in_range [simp]: "in_i64 (i64 x)"
proof -
  have "0 \<le> (x + 2 ^ 63) mod 2 ^ 64" "(x + 2 ^ 63) mod 2 ^ 64 < (2 :: int) ^ 64"
    by simp_all
  then show ?thesis
    by (simp add: in_i64_def i64_def min_int64_def max_int64_def)
qed

lemma i64_id: "in_i64 x \<Longrightarrow> i64 x = x"
  by (simp add: in_i64_def i64_def min_int64_def max_int64_def)

lemma nat_int_plus_1 [simp]: "nat (int i + 1) = Suc i"
  by (simp add: nat_eq_iff)

lemma i64_idem [simp]: "i64 (i64 x) = i64 x"
  by (simp add: i64_id)

end
