(* ===== verification/Go_Time.thy ===== *)
theory Go_Time
  imports Go_Strings
begin

text \<open>
  \<open>time.Duration\<close> and \<open>time.Time\<close>. A duration is a number of nanoseconds in the 64-bit range; an
  instant is a number of nanoseconds on the UTC time line. \<open>time_sub\<close> saturates as \<open>Time.Sub\<close>
  does, and \<open>duration_string\<close> is \<open>Duration.String\<close> (\<open>1m30s\<close>, \<open>1.5s\<close>, \<open>20ms\<close>, \<open>0s\<close>).
\<close>

definition Microsecond :: int where "Microsecond = 1000"
definition Millisecond :: int where "Millisecond = 1000000"
definition Second :: int where "Second = 1000000000"
definition Minute :: int where "Minute = 60 * Second"
definition Hour :: int where "Hour = 60 * Minute"

lemmas time_units = Microsecond_def Millisecond_def Second_def Minute_def Hour_def

definition time_sub :: "int \<Rightarrow> int \<Rightarrow> int" where
  "time_sub t u = max min_int64 (min max_int64 (t - u))"

lemma in_i64_time_sub [simp]: "in_i64 (time_sub t u)"
  by (simp add: time_sub_def in_i64_def min_int64_def max_int64_def)

text \<open>The fraction of \<open>v / 10^prec\<close> without trailing zeros, and the integer part (\<open>fmtFrac\<close>).\<close>

fun frac_digits :: "nat \<Rightarrow> nat \<Rightarrow> bool \<Rightarrow> string \<Rightarrow> nat \<times> bool \<times> string" where
  "frac_digits 0 v print acc = (v, print, acc)"
| "frac_digits (Suc k) v print acc =
     (let d = v mod 10; pr = print \<or> d \<noteq> 0
      in frac_digits k (v div 10) pr (if pr then digit_char d # acc else acc))"

definition fmt_frac :: "nat \<Rightarrow> nat \<Rightarrow> nat \<times> string" where
  "fmt_frac v prec =
     (let (v', pr, ds) = frac_digits prec v False [] in (v', if pr then CHR ''.'' # ds else ds))"

definition duration_string :: "int \<Rightarrow> string" where
  "duration_string d =
     (let u = nat \<bar>d\<bar>; sign = (if d < 0 then ''-'' else '''');
          micro = [char_of (194::nat), char_of (181::nat), CHR ''s''] in
      if u = 0 then ''0s''
      else if u < 1000 then sign @ nat_digits u @ ''ns''
      else if u < 1000000 then
        (let (v, f) = fmt_frac u 3 in sign @ nat_digits v @ f @ micro)
      else if u < 1000000000 then
        (let (v, f) = fmt_frac u 6 in sign @ nat_digits v @ f @ ''ms'')
      else
        (let (secs, f) = fmt_frac u 9; s = nat_digits (secs mod 60) @ f @ ''s''; mins = secs div 60 in
         if mins = 0 then sign @ s
         else let m = nat_digits (mins mod 60) @ ''m'' @ s; hours = mins div 60 in
              if hours = 0 then sign @ m else sign @ nat_digits hours @ ''h'' @ m))"

end
