(* ===== verification/Pipeline_Errors.thy ===== *)
theory Pipeline_Errors
  imports Go_Time
begin

text \<open>
  The error values of package \<open>pipeline\<close> (\<open>pipeline/errors.go\<close>): the constructors, \<open>Error()\<close>,
  \<open>Unwrap()\<close>, the tree search of \<open>errors.Is\<close> / \<open>errors.AsType\<close>, the deferral signals and their
  normalisation (\<open>isDeferred\<close>, \<open>deferredDetails\<close> in \<open>pipeline/executor.go\<close>).

  \<open>ErrNew\<close> is \<open>errors.New\<close>, \<open>Errorf t es\<close> is the result of \<open>fmt.Errorf\<close> with text \<open>t\<close> that wraps
  \<open>es\<close>. Callbacks return any value of this type.
\<close>

section \<open>Error values\<close>

datatype err =
    ErrNew string
  | Errorf string "err list"
  | ErrNoCompensate
  | ErrSnooze int
  | ErrRetryAfter int "err option"
  | ErrSnapshotFailed string err
  | ErrRepeatLimit string int
  | ErrRepeatTimeout string int
  | ErrCompactRepeatCompensation string "string list"
  | ErrStateMigrationFailed string int int err
  | ErrCompensationFailed err err
  | ErrStepFailed string "string list" err
  | ErrPollTimeout string int
  | ErrVersionMismatch string int int int

text \<open>\<open>Unwrap\<close>: the errors an error wraps, in the order \<open>errors.Is\<close> visits them.\<close>

fun unwrap :: "err \<Rightarrow> err list" where
  "unwrap (Errorf _ es) = es"
| "unwrap (ErrRetryAfter _ c) = (case c of None \<Rightarrow> [] | Some e \<Rightarrow> [e])"
| "unwrap (ErrSnapshotFailed _ e) = [e]"
| "unwrap (ErrStateMigrationFailed _ _ _ e) = [e]"
| "unwrap (ErrCompensationFailed o' c) = [o', c]"
| "unwrap (ErrStepFailed _ _ e) = [e]"
| "unwrap _ = []"

text \<open>\<open>Error()\<close>.\<close>

fun err_text :: "err \<Rightarrow> string" where
  "err_text (ErrNew t) = t"
| "err_text (Errorf t _) = t"
| "err_text ErrNoCompensate = ''no compensate''"
| "err_text (ErrSnooze d) = ''pipeline: snooze for '' @ duration_string d"
| "err_text (ErrRetryAfter d None) = ''pipeline: retry after '' @ duration_string d"
| "err_text (ErrRetryAfter d (Some c)) =
     ''pipeline: retry after '' @ duration_string d @ '': '' @ err_text c"
| "err_text (ErrSnapshotFailed op e) =
     ''pipeline: snapshot failed during '' @ op @ '': '' @ err_text e"
| "err_text (ErrRepeatLimit n k) =
     ''pipeline: repeat step '' @ go_quote n @ '' reached maximum of '' @ itoa k @ '' iterations''"
| "err_text (ErrRepeatTimeout n d) =
     ''pipeline: repeat step '' @ go_quote n @ '' exceeded max duration '' @ duration_string d"
| "err_text (ErrCompactRepeatCompensation n path) =
     ''pipeline: compact repeat step '' @ go_quote n @ '' contains compensating action at path ''
       @ join ''/'' path @ ''; place an aggregating compensator before the repeat or use full history''"
| "err_text (ErrStateMigrationFailed n f t e) =
     ''pipeline '' @ go_quote n @ '': state migration from version '' @ itoa f @ '' to '' @ itoa t
       @ '' failed: '' @ err_text e"
| "err_text (ErrCompensationFailed o' c) =
     ''pipeline: compensation failed: '' @ err_text c @ '' (original error: '' @ err_text o' @ '')''"
| "err_text (ErrStepFailed n path e) =
     ''pipeline: step '' @ go_quote n @ '' (path: '' @ join ''/'' path @ '') failed: '' @ err_text e"
| "err_text (ErrPollTimeout n d) =
     ''pipeline: poll step '' @ go_quote n @ '' exceeded max duration '' @ duration_string d"
| "err_text (ErrVersionMismatch n sv pv mv) =
     ''pipeline '' @ go_quote n @ '': version mismatch: state version '' @ itoa sv
       @ '' not in allowed range ['' @ itoa mv @ '', '' @ itoa pv @ '']''"

text \<open>\<open>fmt.Errorf("%s", s)\<close> and \<open>fmt.Errorf("pre: %w", err)\<close>.\<close>

definition errorf :: "string \<Rightarrow> err" where
  "errorf t = Errorf t []"

definition errorf_wrap :: "string \<Rightarrow> err \<Rightarrow> err" where
  "errorf_wrap pre e = Errorf (pre @ '': '' @ err_text e) [e]"

section \<open>Searching the error tree\<close>

text \<open>The pre-order traversal \<open>errors.Is\<close> and \<open>errors.AsType\<close> make.\<close>

fun err_tree :: "err \<Rightarrow> err list" where
  "err_tree (Errorf t es) = Errorf t es # concat (map err_tree es)"
| "err_tree (ErrRetryAfter d None) = [ErrRetryAfter d None]"
| "err_tree (ErrRetryAfter d (Some c)) = ErrRetryAfter d (Some c) # err_tree c"
| "err_tree (ErrSnapshotFailed op e) = ErrSnapshotFailed op e # err_tree e"
| "err_tree (ErrStateMigrationFailed n f t e) = ErrStateMigrationFailed n f t e # err_tree e"
| "err_tree (ErrCompensationFailed o' c) = ErrCompensationFailed o' c # err_tree o' @ err_tree c"
| "err_tree (ErrStepFailed n p e) = ErrStepFailed n p e # err_tree e"
| "err_tree e = [e]"

lemma err_tree_unwrap: "err_tree e = e # concat (map err_tree (unwrap e))"
proof (cases e)
  case (ErrRetryAfter d c)
  then show ?thesis by (cases c) auto
qed auto

lemma err_tree_self [simp]: "e \<in> set (err_tree e)"
  by (subst err_tree_unwrap) simp

fun first_some :: "('b \<Rightarrow> 'a option) \<Rightarrow> 'b list \<Rightarrow> 'a option" where
  "first_some sel [] = None"
| "first_some sel (x # xs) = (case sel x of None \<Rightarrow> first_some sel xs | Some y \<Rightarrow> Some y)"

definition as_type :: "(err \<Rightarrow> 'a option) \<Rightarrow> err \<Rightarrow> 'a option" where
  "as_type sel e = first_some sel (err_tree e)"

definition errors_is :: "err \<Rightarrow> err \<Rightarrow> bool" where
  "errors_is e target \<longleftrightarrow> List.member (err_tree e) target"

fun sel_retry_after :: "err \<Rightarrow> (int \<times> err option) option" where
  "sel_retry_after (ErrRetryAfter d c) = Some (d, c)"
| "sel_retry_after _ = None"

fun sel_snooze :: "err \<Rightarrow> int option" where
  "sel_snooze (ErrSnooze d) = Some d"
| "sel_snooze _ = None"

fun sel_snapshot_failed :: "err \<Rightarrow> (string \<times> err) option" where
  "sel_snapshot_failed (ErrSnapshotFailed op e) = Some (op, e)"
| "sel_snapshot_failed _ = None"

fun sel_step_failed :: "err \<Rightarrow> (string \<times> string list \<times> err) option" where
  "sel_step_failed (ErrStepFailed n p e) = Some (n, p, e)"
| "sel_step_failed _ = None"

fun sel_repeat_timeout :: "err \<Rightarrow> (string \<times> int) option" where
  "sel_repeat_timeout (ErrRepeatTimeout n d) = Some (n, d)"
| "sel_repeat_timeout _ = None"

lemma first_some_None_iff: "first_some sel xs = None \<longleftrightarrow> (\<forall>x \<in> set xs. sel x = None)"
  by (induction xs) (auto split: option.splits)

lemma first_some_SomeD: "first_some sel xs = Some y \<Longrightarrow> \<exists>x \<in> set xs. sel x = Some y"
  by (induction xs) (auto split: option.splits)

lemma first_some_append:
  "first_some sel (xs @ ys) = (case first_some sel xs of None \<Rightarrow> first_some sel ys | Some y \<Rightarrow> Some y)"
  by (induction xs) (auto split: option.splits)

lemma as_type_here: "sel e = Some y \<Longrightarrow> as_type sel e = Some y"
  by (subst as_type_def, subst err_tree_unwrap) simp

lemma as_type_SomeD: "as_type sel e = Some x \<Longrightarrow> \<exists>e' \<in> set (err_tree e). sel e' = Some x"
  unfolding as_type_def by (rule first_some_SomeD)

lemma as_type_None_iff: "as_type sel e = None \<longleftrightarrow> (\<forall>e' \<in> set (err_tree e). sel e' = None)"
  by (simp add: as_type_def first_some_None_iff)

section \<open>Constructors and deferral\<close>

text \<open>\<open>NoCompensate\<close>, \<open>normalizeDuration\<close>, \<open>RetryAfter\<close>.\<close>

definition NoCompensate :: "err \<Rightarrow> err" where
  "NoCompensate e = Errorf (err_text ErrNoCompensate @ '': '' @ err_text e) [ErrNoCompensate, e]"

definition normalizeDuration :: "int \<Rightarrow> int" where
  "normalizeDuration d = max d 0"

definition RetryAfter :: "int \<Rightarrow> err option \<Rightarrow> err" where
  "RetryAfter d cause = ErrRetryAfter (normalizeDuration d) cause"

text \<open>
  \<open>deferredDetails\<close> finds the first \<open>*ErrRetryAfter\<close> of the tree and writes the normalised
  duration back through the pointer. \<open>normalize_retry\<close> is that write: the error with the first
  \<open>ErrRetryAfter\<close> in pre-order normalised (the flag says whether one was met).
\<close>

fun norm_first :: "err \<Rightarrow> err \<times> bool" and norm_first_list :: "err list \<Rightarrow> err list \<times> bool" where
  "norm_first (ErrRetryAfter d c) = (ErrRetryAfter (normalizeDuration d) c, True)"
| "norm_first (Errorf t es) = (let r = norm_first_list es in (Errorf t (fst r), snd r))"
| "norm_first (ErrSnapshotFailed op e) = (let r = norm_first e in (ErrSnapshotFailed op (fst r), snd r))"
| "norm_first (ErrStateMigrationFailed n f t e) =
     (let r = norm_first e in (ErrStateMigrationFailed n f t (fst r), snd r))"
| "norm_first (ErrCompensationFailed o' c) =
     (let r = norm_first o'
      in if snd r then (ErrCompensationFailed (fst r) c, True)
         else let r' = norm_first c in (ErrCompensationFailed o' (fst r'), snd r'))"
| "norm_first (ErrStepFailed n p e) = (let r = norm_first e in (ErrStepFailed n p (fst r), snd r))"
| "norm_first e = (e, False)"
| "norm_first_list [] = ([], False)"
| "norm_first_list (e # es) =
     (let r = norm_first e
      in if snd r then (fst r # es, True)
         else let r' = norm_first_list es in (e # fst r', snd r'))"

definition normalize_retry :: "err \<Rightarrow> err" where
  "normalize_retry e = fst (norm_first e)"

text \<open>\<open>deferredDetails\<close>: delay, cause, the error to return, and whether the error defers.\<close>

definition deferredDetails :: "err \<Rightarrow> int \<times> err option \<times> err \<times> bool" where
  "deferredDetails e =
     (case as_type sel_retry_after e of
        Some (d, c) \<Rightarrow> (normalizeDuration d, c, normalize_retry e, True)
      | None \<Rightarrow>
         (case as_type sel_snooze e of
            Some d \<Rightarrow> (normalizeDuration d, None, ErrSnooze (normalizeDuration d), True)
          | None \<Rightarrow> (0, None, e, False)))"

definition isDeferred :: "err \<Rightarrow> bool" where
  "isDeferred e = (case deferredDetails e of (_, _, _, ok) \<Rightarrow> ok)"

definition is_snapshot_failed :: "err \<Rightarrow> bool" where
  "is_snapshot_failed e \<longleftrightarrow> as_type sel_snapshot_failed e \<noteq> None"

lemma is_snapshot_failed_head [simp]: "is_snapshot_failed (ErrSnapshotFailed op e)"
  by (simp add: is_snapshot_failed_def as_type_def)

lemma errors_is_iff: "errors_is e t \<longleftrightarrow> t \<in> set (err_tree e)"
  by (simp add: errors_is_def)

lemma NoCompensate_is [simp]: "errors_is (NoCompensate e) ErrNoCompensate"
  by (simp add: errors_is_iff NoCompensate_def)

lemma errors_is_step_failed [simp]:
  "errors_is (ErrStepFailed n p e) ErrNoCompensate \<longleftrightarrow> errors_is e ErrNoCompensate"
  by (simp add: errors_is_iff)

lemma isDeferred_iff:
  "isDeferred e \<longleftrightarrow> as_type sel_retry_after e \<noteq> None \<or> as_type sel_snooze e \<noteq> None"
  by (auto simp: isDeferred_def deferredDetails_def split: option.splits)

lemma as_type_step_failed:
  "sel (ErrStepFailed n p e) = None \<Longrightarrow> as_type sel (ErrStepFailed n p e) = as_type sel e"
  by (simp add: as_type_def)

lemma isDeferred_step_failed [simp]: "isDeferred (ErrStepFailed n p e) = isDeferred e"
  by (simp add: isDeferred_iff as_type_step_failed)

lemma as_type_retry_after [simp]: "as_type sel_retry_after (ErrRetryAfter d c) = Some (d, c)"
  by (rule as_type_here) simp

lemma as_type_snooze [simp]: "as_type sel_snooze (ErrSnooze d) = Some d"
  by (rule as_type_here) simp

lemma isDeferred_RetryAfter [simp]: "isDeferred (RetryAfter d c)"
  by (simp add: isDeferred_iff RetryAfter_def)

lemma isDeferred_Snooze [simp]: "isDeferred (ErrSnooze d)"
  by (simp add: isDeferred_iff as_type_def)

lemma normalizeDuration_nonneg [simp]: "0 \<le> normalizeDuration d"
  by (simp add: normalizeDuration_def)

lemma as_type_simps:
  "as_type sel (Errorf t es) =
     (case sel (Errorf t es) of None \<Rightarrow> first_some sel (concat (map err_tree es)) | Some y \<Rightarrow> Some y)"
  "as_type sel (ErrSnapshotFailed op e) =
     (case sel (ErrSnapshotFailed op e) of None \<Rightarrow> as_type sel e | Some y \<Rightarrow> Some y)"
  "as_type sel (ErrStateMigrationFailed n f v e) =
     (case sel (ErrStateMigrationFailed n f v e) of None \<Rightarrow> as_type sel e | Some y \<Rightarrow> Some y)"
  "as_type sel (ErrCompensationFailed e c) =
     (case sel (ErrCompensationFailed e c) of
        None \<Rightarrow> (case as_type sel e of None \<Rightarrow> as_type sel c | Some y \<Rightarrow> Some y)
      | Some y \<Rightarrow> Some y)"
  "as_type sel (ErrStepFailed n p e) =
     (case sel (ErrStepFailed n p e) of None \<Rightarrow> as_type sel e | Some y \<Rightarrow> Some y)"
  by (simp_all add: as_type_def first_some_append split: option.splits)

text \<open>What a search for \<open>*ErrRetryAfter\<close> sees before and after the normalisation.\<close>

definition normalized_pair :: "(int \<times> err option) option \<Rightarrow> (int \<times> err option) option" where
  "normalized_pair = map_option (\<lambda>(d, c). (normalizeDuration d, c))"

lemma norm_first_spec:
  "as_type sel_retry_after (fst (norm_first e)) = normalized_pair (as_type sel_retry_after e)
     \<and> (snd (norm_first e) \<longleftrightarrow> as_type sel_retry_after e \<noteq> None)"
  "first_some sel_retry_after (concat (map err_tree (fst (norm_first_list es)))) =
       normalized_pair (first_some sel_retry_after (concat (map err_tree es)))
     \<and> (snd (norm_first_list es) \<longleftrightarrow>
          first_some sel_retry_after (concat (map err_tree es)) \<noteq> None)"
proof (induction e and es rule: norm_first_norm_first_list.induct)
  case (1 d c)
  then show ?case by (auto simp: normalized_pair_def as_type_here)
next
  case (2 t es)
  then show ?case by (auto simp: Let_def as_type_simps)
next
  case (3 op e)
  then show ?case by (auto simp: Let_def as_type_simps)
next
  case (4 n f t e)
  then show ?case by (auto simp: Let_def as_type_simps)
next
  case (5 e c)
  then show ?case
    by (cases "as_type sel_retry_after e")
      (auto simp: Let_def as_type_simps normalized_pair_def split: option.splits)
next
  case (6 n p e)
  then show ?case by (auto simp: Let_def as_type_simps)
next
  case (9 e es)
  then show ?case
    by (cases "as_type sel_retry_after e")
      (auto simp: Let_def as_type_def first_some_append normalized_pair_def split: option.splits)
qed (auto simp: normalized_pair_def as_type_def)

lemma normalize_retry_search:
  "as_type sel_retry_after (normalize_retry e) = normalized_pair (as_type sel_retry_after e)"
  using norm_first_spec(1) [of e] by (simp add: normalize_retry_def)

lemma deferredDetails_delay_nonneg: "deferredDetails e = (d, c, e', ok) \<Longrightarrow> 0 \<le> d"
  by (auto simp: deferredDetails_def split: option.splits)

lemma deferred_result_deferred:
  assumes "deferredDetails e = (d, c, e', True)"
  shows "isDeferred e'"
  using assms
  by (auto simp: deferredDetails_def isDeferred_iff normalize_retry_search normalized_pair_def
      split: option.splits if_splits)

end
