(* ===== verification/Pipeline_State.thy ===== *)
theory Pipeline_State
  imports Pipeline_Errors "HOL-Library.List_Lexorder" "HOL-Library.AList_Mapping"
begin

text \<open>
  The persistent run state of package \<open>pipeline\<close> (\<open>pipeline/state.go\<close>), the path keys of its
  journals (\<open>StepPathKey\<close> in \<open>pipeline/executor.go\<close>, \<open>stepPathFromKey\<close> in \<open>pipeline/compact.go\<close>) and
  the compaction of a finished Repeat iteration (\<open>pipeline/compact.go\<close>). Field names are the
  source's.
\<close>

section \<open>RunState\<close>

datatype run_status =
    RunStatusNew
  | RunStatusRunning
  | RunStatusPolling
  | RunStatusCompleted
  | RunStatusCompensating
  | RunStatusFailed
  | RunStatusOther string

type_synonym path = "string list"

type_synonym json = string

record step_diagnostics =
  Attempts :: int
  FirstStartedAt :: "int option"
  LastStartedAt :: "int option"
  CompletedAt :: "int option"
  LastError :: string
  NextRunAt :: "int option"

record repeat_state =
  Iteration :: int
  AwaitingCondition :: bool
  Completed :: bool
  StartedAt :: "int option"

record repeat_timeout_state =
  TimeoutStepName :: string
  TimeoutMaxDuration :: int

record completed_step =
  Path :: path
  HasCompensator :: bool

record run_state =
  Version :: int
  Status :: run_status
  CurrentPath :: path
  CompletedSteps :: "completed_step list"
  Data :: "(string, json) gomap"
  Error :: string
  FailedStepPath :: path
  ErrorContext :: json
  PollStartedAt :: "int option"
  CompensationIndex :: int
  Revision :: "64 word"
  StepDiagnostics :: "(string, step_diagnostics) gomap"
  RepeatStates :: "(string, repeat_state) gomap"
  RepeatTimeout :: "repeat_timeout_state option"

text \<open>The zero values \<open>StepDiagnostics{}\<close>, \<open>RepeatState{}\<close> and \<open>RunState{}\<close>.\<close>

definition zero_diagnostics :: step_diagnostics where
  "zero_diagnostics = \<lparr>Attempts = 0, FirstStartedAt = None, LastStartedAt = None,
     CompletedAt = None, LastError = [], NextRunAt = None\<rparr>"

definition zero_repeat_state :: repeat_state where
  "zero_repeat_state = \<lparr>Iteration = 0, AwaitingCondition = False, Completed = False,
     StartedAt = None\<rparr>"

definition zero_run_state :: run_state where
  "zero_run_state = \<lparr>Version = 0, Status = RunStatusNew, CurrentPath = [], CompletedSteps = [],
     Data = None, Error = [], FailedStepPath = [], ErrorContext = [], PollStartedAt = None,
     CompensationIndex = 0, Revision = 0, StepDiagnostics = None, RepeatStates = None,
     RepeatTimeout = None\<rparr>"

definition IsTerminal :: "run_state \<Rightarrow> bool" where
  "IsTerminal st \<longleftrightarrow> Status st = RunStatusCompleted \<or> Status st = RunStatusFailed"

definition ForceTerminate :: "string \<Rightarrow> run_state \<Rightarrow> run_state" where
  "ForceTerminate reason st = st\<lparr>Status := RunStatusFailed, Error := reason\<rparr>"

definition isStepCompleted :: "run_state \<Rightarrow> path \<Rightarrow> bool" where
  "isStepCompleted st p \<longleftrightarrow> list_ex (\<lambda>cs. Path cs = p) (CompletedSteps st)"

fun isPathPrefix :: "path \<Rightarrow> path \<Rightarrow> bool" where
  "isPathPrefix prefix p \<longleftrightarrow> length p > length prefix \<and> take (length prefix) p = prefix"

section \<open>Path keys\<close>

definition escape_part :: "string \<Rightarrow> string" where
  "escape_part s = replace_char (CHR ''/'') ''~1'' (replace_char (CHR ''~'') ''~0'' s)"

definition StepPathKey :: "path \<Rightarrow> string" where
  "StepPathKey p = (if p = [] then '''' else ''/'' @ join ''/'' (map escape_part p))"

definition unescape_part :: "string \<Rightarrow> string" where
  "unescape_part s = replace_pair (CHR ''~'') (CHR ''0'') ''~'' (replace_pair (CHR ''~'') (CHR ''1'') ''/'' s)"

definition stepPathFromKey :: "string \<Rightarrow> path" where
  "stepPathFromKey key =
     (if key = '''' then [] else map unescape_part (split_char (CHR ''/'') (trim_prefix_char (CHR ''/'') key)))"

lemma escape_part_concat:
  "escape_part s = concat (map (\<lambda>c. if c = CHR ''~'' then ''~0'' else if c = CHR ''/'' then ''~1'' else [c]) s)"
  by (induction s) (auto simp: escape_part_def replace_char_def)

lemma escape_part_no_slash: "CHR ''/'' \<notin> set (escape_part s)"
  by (auto simp: escape_part_concat split: if_splits)

lemma replace_pair_other [simp]: "c \<noteq> a \<Longrightarrow> replace_pair a b r (c # s) = c # replace_pair a b r s"
  by (cases s) auto

lemma unescape_slash:
  "replace_pair (CHR ''~'') (CHR ''1'') ''/'' (escape_part s) = replace_char (CHR ''~'') ''~0'' s"
  by (induction s) (auto simp: escape_part_concat replace_char_def)

lemma unescape_tilde:
  "replace_pair (CHR ''~'') (CHR ''0'') ''~'' (replace_char (CHR ''~'') ''~0'' s) = s"
  by (induction s) (auto simp: replace_char_def)

lemma unescape_escape [simp]: "unescape_part (escape_part s) = s"
  by (simp add: unescape_part_def unescape_slash unescape_tilde)

lemma path_key_roundtrip: "stepPathFromKey (StepPathKey p) = p"
proof (cases "p = []")
  case True
  then show ?thesis by (simp add: stepPathFromKey_def StepPathKey_def)
next
  case False
  then have "split_char (CHR ''/'') (join ''/'' (map escape_part p)) = map escape_part p"
    by (intro split_join) (auto simp: escape_part_no_slash)
  with False show ?thesis
    by (simp add: stepPathFromKey_def StepPathKey_def trim_prefix_char_def comp_def)
qed

lemma StepPathKey_inj: "StepPathKey p = StepPathKey q \<longleftrightarrow> p = q"
  by (metis path_key_roundtrip)

section \<open>Merging diagnostics and compacting an iteration\<close>

text \<open>\<open>earlierTime\<close>, \<open>laterTime\<close>; \<open>cloneTime\<close> copies a pointer's target, which is the identity on
  values.\<close>

definition earlierTime :: "int option \<Rightarrow> int option \<Rightarrow> int option" where
  "earlierTime l r =
     (case l of None \<Rightarrow> r
      | Some a \<Rightarrow> (case r of None \<Rightarrow> l | Some b \<Rightarrow> if a < b then l else r))"

definition laterTime :: "int option \<Rightarrow> int option \<Rightarrow> bool" where
  "laterTime l r =
     (case l of None \<Rightarrow> False | Some a \<Rightarrow> (case r of None \<Rightarrow> True | Some b \<Rightarrow> a > b \<or> a = b))"

definition mergeDiagnostics :: "step_diagnostics \<Rightarrow> step_diagnostics \<Rightarrow> step_diagnostics" where
  "mergeDiagnostics agg cur =
     (let a1 = agg\<lparr>Attempts := i64 (Attempts agg + Attempts cur),
                   FirstStartedAt := earlierTime (FirstStartedAt agg) (FirstStartedAt cur)\<rparr>;
          a2 = (if laterTime (LastStartedAt cur) (LastStartedAt a1)
                then a1\<lparr>LastStartedAt := LastStartedAt cur, NextRunAt := NextRunAt cur,
                        LastError := (if LastError cur \<noteq> '''' then LastError cur else LastError a1)\<rparr>
                else a1)
      in if laterTime (CompletedAt cur) (CompletedAt a2) then a2\<lparr>CompletedAt := CompletedAt cur\<rparr> else a2)"

definition hasPathPrefix :: "path \<Rightarrow> path \<Rightarrow> bool" where
  "hasPathPrefix p prefix \<longleftrightarrow> length p \<ge> length prefix \<and> take (length prefix) p = prefix"

text \<open>
  The body of the loop over \<open>StepDiagnostics\<close> for one key. A key that an earlier round of the
  loop removed is not produced by \<open>range\<close>, hence the lookup; the element read is the current one.
\<close>

definition compact_diagnostic ::
    "path \<Rightarrow> path \<Rightarrow> (string, step_diagnostics) mapping \<Rightarrow> string \<Rightarrow> (string, step_diagnostics) mapping" where
  "compact_diagnostic repeatPath iterationPath m key =
     (case Mapping.lookup m key of
        None \<Rightarrow> m
      | Some diagnostic \<Rightarrow>
          let p = stepPathFromKey key in
          if \<not> hasPathPrefix p iterationPath then m
          else let m' = Mapping.delete key m;
                   aggregateKey = StepPathKey (repeatPath @ drop (length iterationPath) p);
                   agg = (case Mapping.lookup m' aggregateKey of None \<Rightarrow> zero_diagnostics | Some d \<Rightarrow> d)
               in Mapping.update aggregateKey (mergeDiagnostics agg diagnostic) m')"

text \<open>
  \<open>compactRepeatIteration\<close>. The order in which Go ranges over the diagnostics map is unspecified:
  it is the argument \<open>order\<close>, the keys in the order the loop produces them.
\<close>

definition compactRepeatIteration ::
    "((string, step_diagnostics) mapping \<Rightarrow> string list) \<Rightarrow> path \<Rightarrow> int \<Rightarrow> run_state \<Rightarrow> run_state" where
  "compactRepeatIteration order repeatPath iteration st =
     (let iterationPath = repeatPath @ [itoa iteration];
          st1 = st\<lparr>CompletedSteps :=
                     filter (\<lambda>cs. \<not> hasPathPrefix (Path cs) iterationPath) (CompletedSteps st)\<rparr>;
          st2 = st1\<lparr>StepDiagnostics :=
                      map_option (\<lambda>m. foldl (compact_diagnostic repeatPath iterationPath) m (order m))
                        (StepDiagnostics st1)\<rparr>
      in st2\<lparr>RepeatStates :=
               map_option (Mapping.filter (\<lambda>key _. \<not> hasPathPrefix (stepPathFromKey key) iterationPath))
                 (RepeatStates st2)\<rparr>)"

lemma compact_CompletedSteps:
  "CompletedSteps (compactRepeatIteration ord rp it st) =
     filter (\<lambda>cs. \<not> hasPathPrefix (Path cs) (rp @ [itoa it])) (CompletedSteps st)"
  by (simp add: compactRepeatIteration_def Let_def)

lemma compact_frame [simp]:
  "Version (compactRepeatIteration ord rp it st) = Version st"
  "Status (compactRepeatIteration ord rp it st) = Status st"
  "CurrentPath (compactRepeatIteration ord rp it st) = CurrentPath st"
  "Data (compactRepeatIteration ord rp it st) = Data st"
  "Error (compactRepeatIteration ord rp it st) = Error st"
  "CompensationIndex (compactRepeatIteration ord rp it st) = CompensationIndex st"
  "Revision (compactRepeatIteration ord rp it st) = Revision st"
  "RepeatTimeout (compactRepeatIteration ord rp it st) = RepeatTimeout st"
  "(StepDiagnostics (compactRepeatIteration ord rp it st) = None) = (StepDiagnostics st = None)"
  "(RepeatStates (compactRepeatIteration ord rp it st) = None) = (RepeatStates st = None)"
  by (simp_all add: compactRepeatIteration_def Let_def)

lemma hasPathPrefix_iff: "hasPathPrefix p q \<longleftrightarrow> (\<exists>r. p = q @ r)"
  unfolding hasPathPrefix_def by (metis append_eq_conv_conj append_take_drop_id length_append le_add1)

lemma isPathPrefix_iff: "isPathPrefix q p \<longleftrightarrow> (\<exists>r. r \<noteq> [] \<and> p = q @ r)"
proof
  assume h: "isPathPrefix q p"
  then have "p = q @ drop (length q) p" by (metis append_take_drop_id isPathPrefix.simps)
  moreover have "drop (length q) p \<noteq> []" using h by simp
  ultimately show "\<exists>r. r \<noteq> [] \<and> p = q @ r" by blast
qed auto

end
