(* ===== verification/Pipeline_Def.thy ===== *)
theory Pipeline_Def
  imports Pipeline_State
begin

text \<open>
  Pipeline definitions (\<open>pipeline/pipeline.go\<close>, \<open>pipeline/helpers.go\<close>): steps, callbacks, the data
  store shared by the callbacks, the constructors and step options, validation, and the searches in
  the step tree (\<open>findCompensatorPath\<close>; \<open>findStepByPath\<close>, \<open>repeatIterationForPath\<close> of
  \<open>pipeline/executor.go\<close>).

  \<open>'v\<close> is the type of Go values callbacks store, \<open>'w\<close> the outside world: everything a callback can
  read or change besides the store, the cancellation state of its context included.
\<close>

section \<open>The data store\<close>

text \<open>A stored value is a \<open>json.RawMessage\<close> restored from a snapshot or a live Go value.\<close>

datatype 'v dval = RawMessage json | GoVal 'v

type_synonym 'v store = "(string, 'v dval) mapping"

definition newDataStore :: "'v store" where
  "newDataStore = Mapping.empty"

definition ds_Set :: "string \<Rightarrow> 'v dval \<Rightarrow> 'v store \<Rightarrow> 'v store" where
  "ds_Set k v d = Mapping.update k v d"

definition ds_Get :: "string \<Rightarrow> 'v store \<Rightarrow> 'v dval option" where
  "ds_Get k d = Mapping.lookup d k"

text \<open>\<open>GetData\<close>: \<open>unmarshal\<close> is \<open>json.Unmarshal\<close> into the target type and \<open>assert_type\<close> the type
  assertion to it; \<open>target\<close> and \<open>type_name\<close> are what \<open>%T\<close> prints for the target type and for a value.\<close>

definition GetData ::
    "(json \<Rightarrow> err + 't) \<Rightarrow> ('v \<Rightarrow> 't option) \<Rightarrow> string \<Rightarrow> ('v \<Rightarrow> string) \<Rightarrow> 'v store \<Rightarrow> string \<Rightarrow> err + 't" where
  "GetData unmarshal assert_type target type_name d key =
     (case ds_Get key d of
        None \<Rightarrow> Inl (errorf (''pipeline: data key '' @ go_quote key @ '' not found''))
      | Some (RawMessage raw) \<Rightarrow>
          (case unmarshal raw of
             Inl e \<Rightarrow> Inl (errorf_wrap (''pipeline: unmarshal data key '' @ go_quote key) e)
           | Inr x \<Rightarrow> Inr x)
      | Some (GoVal v) \<Rightarrow>
          (case assert_type v of
             None \<Rightarrow> Inl (errorf (''pipeline: data key '' @ go_quote key @ '': type assertion to '' @ target
               @ '' failed (got '' @ type_name v @ '')''))
           | Some x \<Rightarrow> Inr x))"

text \<open>
  \<open>marshalData\<close> visits the keys in the unspecified order \<open>keys\<close> of Go's \<open>range\<close> and stops at the
  first value that does not marshal. \<open>marshal\<close> is \<open>json.Marshal\<close>.
\<close>

fun marshal_keys ::
    "('v \<Rightarrow> err + json) \<Rightarrow> 'v store \<Rightarrow> string list \<Rightarrow> (string, json) mapping \<Rightarrow> err + (string, json) mapping" where
  "marshal_keys marshal d [] result = Inr result"
| "marshal_keys marshal d (k # ks) result =
     (case Mapping.lookup d k of
        None \<Rightarrow> marshal_keys marshal d ks result
      | Some (RawMessage raw) \<Rightarrow> marshal_keys marshal d ks (Mapping.update k raw result)
      | Some (GoVal v) \<Rightarrow>
          (case marshal v of
             Inl e \<Rightarrow> Inl (errorf_wrap (''pipeline: failed to marshal data key '' @ go_quote k) e)
           | Inr b \<Rightarrow> marshal_keys marshal d ks (Mapping.update k b result)))"

definition marshalData ::
    "('v \<Rightarrow> err + json) \<Rightarrow> ('v store \<Rightarrow> string list) \<Rightarrow> 'v store \<Rightarrow> err + (string, json) mapping" where
  "marshalData marshal order d = marshal_keys marshal d (order d) Mapping.empty"

definition restoreData :: "(string, json) mapping \<Rightarrow> 'v store" where
  "restoreData m = Mapping.map_values (\<lambda>_ raw. RawMessage raw) m"

section \<open>Steps\<close>

type_synonym ('v, 'w) action_fn = "'v store \<Rightarrow> 'w \<Rightarrow> err option \<times> 'v store \<times> 'w"
type_synonym ('v, 'w) poll_fn = "'v store \<Rightarrow> 'w \<Rightarrow> (bool \<times> int \<times> err option) \<times> 'v store \<times> 'w"
type_synonym ('v, 'w) branch_fn = "'v store \<Rightarrow> 'w \<Rightarrow> (string \<times> err option) \<times> 'v store \<times> 'w"
type_synonym ('v, 'w) repeat_fn =
  "int \<Rightarrow> 'v store \<Rightarrow> 'w \<Rightarrow> (bool \<times> int \<times> err option) \<times> 'v store \<times> 'w"

record ('v, 'w) action_step =
  Do :: "('v, 'w) action_fn option"
  Compensate :: "('v, 'w) action_fn option"

record ('v, 'w) poll_step =
  Check :: "('v, 'w) poll_fn option"
  PollMaxDuration :: int

record retry_config =
  MaxAttempts :: int
  InitialDelay :: int
  Backoff :: bool

text \<open>\<open>Paths\<close> is a Go map; the list holds its entries in the order \<open>range\<close> produces them.\<close>

datatype (dead 'v, dead 'w) step =
    Step (StepName: string)
      (StepAction: "('v, 'w) action_step option")
      (StepPoll: "('v, 'w) poll_step option")
      (StepBranch: "('v, 'w) branch_step option")
      (StepRepeat: "('v, 'w) repeat_step option")
      (StepOnEnter: "('v, 'w) action_fn option")
      (StepRetry: "retry_config option")
and (dead 'v, dead 'w) branch_step =
    BranchStep (Decide: "('v, 'w) branch_fn option") (Paths: "(string \<times> ('v, 'w) step list) list")
and (dead 'v, dead 'w) repeat_step =
    RepeatStep (RepeatSteps: "('v, 'w) step list") (Until: "('v, 'w) repeat_fn option")
      (MaxIterations: int) (RepeatMaxDuration: int) (History: nat)

definition RepeatHistoryFull :: nat where "RepeatHistoryFull = 0"
definition RepeatHistoryCompact :: nat where "RepeatHistoryCompact = 1"

record ('v, 'w) pipeline =
  PName :: string
  PSteps :: "('v, 'w) step list"
  PVersion :: int
  PMinResumeVersion :: "int option"

section \<open>Constructors and step options\<close>

type_synonym ('v, 'w) step_option = "('v, 'w) step \<Rightarrow> ('v, 'w) step"

definition apply_opts :: "('v, 'w) step_option list \<Rightarrow> ('v, 'w) step \<Rightarrow> ('v, 'w) step" where
  "apply_opts opts s = foldl (\<lambda>s opt. opt s) s opts"

definition Action :: "string \<Rightarrow> ('v, 'w) action_fn option \<Rightarrow> ('v, 'w) step_option list \<Rightarrow> ('v, 'w) step" where
  "Action name f opts =
     apply_opts opts (Step name (Some \<lparr>Do = f, Compensate = None\<rparr>) None None None None None)"

definition Poll :: "string \<Rightarrow> ('v, 'w) poll_fn option \<Rightarrow> ('v, 'w) step_option list \<Rightarrow> ('v, 'w) step" where
  "Poll name f opts =
     apply_opts opts (Step name None (Some \<lparr>Check = f, PollMaxDuration = 0\<rparr>) None None None None)"

definition Branch ::
    "string \<Rightarrow> ('v, 'w) branch_fn option \<Rightarrow> (string \<times> ('v, 'w) step list) list \<Rightarrow>
       ('v, 'w) step_option list \<Rightarrow> ('v, 'w) step" where
  "Branch name decide paths opts =
     apply_opts opts (Step name None None (Some (BranchStep decide paths)) None None None)"

definition Repeat ::
    "string \<Rightarrow> ('v, 'w) step list \<Rightarrow> ('v, 'w) repeat_fn option \<Rightarrow> ('v, 'w) step_option list \<Rightarrow> ('v, 'w) step" where
  "Repeat name steps until opts =
     apply_opts opts
       (Step name None None None (Some (RepeatStep steps until 0 0 RepeatHistoryFull)) None None)"

fun WithCompensate :: "('v, 'w) action_fn option \<Rightarrow> ('v, 'w) step_option" where
  "WithCompensate f (Step n a po br re oe rt) =
     Step n (map_option (\<lambda>x. x\<lparr>Compensate := f\<rparr>) a) po br re oe rt"

fun WithOnEnter :: "('v, 'w) action_fn option \<Rightarrow> ('v, 'w) step_option" where
  "WithOnEnter f (Step n a po br re oe rt) = Step n a po br re f rt"

fun WithRetry :: "int \<Rightarrow> int \<Rightarrow> bool \<Rightarrow> ('v, 'w) step_option" where
  "WithRetry k d b (Step n a po br re oe rt) =
     Step n a po br re oe (Some \<lparr>MaxAttempts = k, InitialDelay = d, Backoff = b\<rparr>)"

fun WithMaxPollDuration :: "int \<Rightarrow> ('v, 'w) step_option" where
  "WithMaxPollDuration d (Step n a po br re oe rt) =
     Step n a (map_option (\<lambda>x. x\<lparr>PollMaxDuration := d\<rparr>) po) br re oe rt"

fun upd_repeat ::
    "(('v, 'w) repeat_step \<Rightarrow> ('v, 'w) repeat_step) \<Rightarrow> ('v, 'w) step_option" where
  "upd_repeat f (Step n a po br re oe rt) = Step n a po br (map_option f re) oe rt"

definition WithMaxIterations :: "int \<Rightarrow> ('v, 'w) step_option" where
  "WithMaxIterations k =
     upd_repeat (\<lambda>r. RepeatStep (RepeatSteps r) (Until r) k (RepeatMaxDuration r) (History r))"

definition WithMaxRepeatDuration :: "int \<Rightarrow> ('v, 'w) step_option" where
  "WithMaxRepeatDuration d =
     upd_repeat (\<lambda>r. RepeatStep (RepeatSteps r) (Until r) (MaxIterations r) d (History r))"

definition WithRepeatHistory :: "nat \<Rightarrow> ('v, 'w) step_option" where
  "WithRepeatHistory h =
     upd_repeat (\<lambda>r. RepeatStep (RepeatSteps r) (Until r) (MaxIterations r) (RepeatMaxDuration r) h)"

section \<open>Validation\<close>

definition effectiveMinResumeVersion :: "('v, 'w) pipeline \<Rightarrow> int" where
  "effectiveMinResumeVersion p = (case PMinResumeVersion p of Some v \<Rightarrow> v | None \<Rightarrow> PVersion p)"

text \<open>\<open>or_else x y\<close>: the first non-nil result, as in \<open>if r := x; r != nil { return r }; return y\<close>.\<close>

definition or_else :: "'a option \<Rightarrow> 'a option \<Rightarrow> 'a option" where
  "or_else x y = (case x of Some r \<Rightarrow> Some r | None \<Rightarrow> y)"

lemma or_else_None_iff [simp]: "or_else x y = None \<longleftrightarrow> x = None \<and> y = None"
  by (simp add: or_else_def split: option.splits)

fun findCompensatorPath :: "('v, 'w) step list \<Rightarrow> path \<Rightarrow> path option"
  and findCompensatorPath_paths :: "(string \<times> ('v, 'w) step list) list \<Rightarrow> path \<Rightarrow> path option" where
  "findCompensatorPath [] parentPath = None"
| "findCompensatorPath (Step n a po br re oe rt # steps) parentPath =
     or_else
       (if (case a of Some act \<Rightarrow> Compensate act \<noteq> None | None \<Rightarrow> False)
        then Some (parentPath @ [n]) else None)
     (or_else
       (case br of None \<Rightarrow> None
        | Some (BranchStep d ps) \<Rightarrow> findCompensatorPath_paths ps (parentPath @ [n]))
     (or_else
       (case re of None \<Rightarrow> None
        | Some (RepeatStep ss u mi md h) \<Rightarrow>
            findCompensatorPath ss (parentPath @ [n, ''<iteration>'']))
       (findCompensatorPath steps parentPath)))"
| "findCompensatorPath_paths [] stepPath = None"
| "findCompensatorPath_paths ((pathName, ss) # ps) stepPath =
     or_else (findCompensatorPath ss (stepPath @ [pathName])) (findCompensatorPath_paths ps stepPath)"

definition typeCount ::
    "'a option \<Rightarrow> 'b option \<Rightarrow> 'c option \<Rightarrow> 'd option \<Rightarrow> int" where
  "typeCount a po br re =
     (if a \<noteq> None then 1 else 0) + (if po \<noteq> None then 1 else 0)
       + (if br \<noteq> None then 1 else 0) + (if re \<noteq> None then 1 else 0)"

definition validate_name :: "nat \<Rightarrow> string list \<Rightarrow> string \<Rightarrow> path \<Rightarrow> err option" where
  "validate_name i names n parentPath =
     (if n = '''' then
        Some (errorf (''pipeline: step at index '' @ itoa (int i) @ '' (path ''
          @ show_strings parentPath @ '') has no name''))
      else if List.member names n then
        Some (errorf (''pipeline: duplicate step name '' @ go_quote n @ '' (path ''
          @ show_strings parentPath @ '')''))
      else None)"

text \<open>The checks of one step that do not descend into sub-pipelines, up to the branch's.\<close>

definition validate_leaf ::
    "string \<Rightarrow> ('v, 'w) action_step option \<Rightarrow> ('v, 'w) poll_step option \<Rightarrow>
       'b option \<Rightarrow> 'c option \<Rightarrow> retry_config option \<Rightarrow> err option" where
  "validate_leaf n a po br re rt =
     (if typeCount a po br re \<noteq> 1 then
        Some (errorf (''pipeline: step '' @ go_quote n
          @ '' must have exactly one of Action, Poll, Branch, or Repeat (got ''
          @ itoa (typeCount a po br re) @ '')''))
      else if (case a of Some act \<Rightarrow> Do act = None | None \<Rightarrow> False) then
        Some (errorf (''pipeline: action step '' @ go_quote n @ '' has nil Do function''))
      else if (case po of Some q \<Rightarrow> Check q = None | None \<Rightarrow> False) then
        Some (errorf (''pipeline: poll step '' @ go_quote n @ '' has nil Check function''))
      else if (case po of Some q \<Rightarrow> PollMaxDuration q < 0 | None \<Rightarrow> False) then
        Some (errorf (''pipeline: poll step '' @ go_quote n @ '' max duration must be >= 0''))
      else if (case rt of Some r \<Rightarrow> InitialDelay r < 0 | None \<Rightarrow> False) then
        Some (errorf (''pipeline: step '' @ go_quote n @ '' retry delay must be >= 0''))
      else None)"

definition validate_branch_head ::
    "string \<Rightarrow> ('v, 'w) branch_fn option \<Rightarrow> (string \<times> ('v, 'w) step list) list \<Rightarrow> err option" where
  "validate_branch_head n d ps =
     (if d = None then
        Some (errorf (''pipeline: branch step '' @ go_quote n @ '' has nil Decide function''))
      else if ps = [] then
        Some (errorf (''pipeline: branch step '' @ go_quote n @ '' has no paths''))
      else None)"

definition validate_repeat_head ::
    "path \<Rightarrow> string \<Rightarrow> ('v, 'w) step list \<Rightarrow> ('v, 'w) repeat_fn option \<Rightarrow> int \<Rightarrow> int \<Rightarrow> nat \<Rightarrow> err option" where
  "validate_repeat_head parentPath n ss u mi md h =
     (if u = None then
        Some (errorf (''pipeline: repeat step '' @ go_quote n @ '' has nil Until function''))
      else if mi < 0 then
        Some (errorf (''pipeline: repeat step '' @ go_quote n @ '' max iterations must be >= 0''))
      else if md < 0 then
        Some (errorf (''pipeline: repeat step '' @ go_quote n @ '' max duration must be >= 0''))
      else if h > RepeatHistoryCompact then
        Some (errorf (''pipeline: repeat step '' @ go_quote n @ '' has invalid history mode ''
          @ itoa (int h)))
      else if h = RepeatHistoryCompact then
        (case findCompensatorPath ss [] of
           Some q \<Rightarrow> Some (ErrCompactRepeatCompensation n (parentPath @ [n, ''<iteration>''] @ q))
         | None \<Rightarrow> None)
      else None)"

text \<open>\<open>validateSteps\<close>: \<open>i\<close> is the loop index, \<open>names\<close> the names met so far.\<close>

fun validateSteps_from :: "nat \<Rightarrow> string list \<Rightarrow> ('v, 'w) step list \<Rightarrow> path \<Rightarrow> err option"
  and validate_paths :: "(string \<times> ('v, 'w) step list) list \<Rightarrow> path \<Rightarrow> err option" where
  "validateSteps_from i names [] parentPath = None"
| "validateSteps_from i names (Step n a po br re oe rt # steps) parentPath =
     or_else (validate_name i names n parentPath)
     (or_else (validate_leaf n a po br re rt)
     (or_else
       (case br of None \<Rightarrow> None
        | Some (BranchStep d ps) \<Rightarrow>
            or_else (validate_branch_head n d ps) (validate_paths ps (parentPath @ [n])))
     (or_else
       (case re of None \<Rightarrow> None
        | Some (RepeatStep ss u mi md h) \<Rightarrow>
            or_else (validate_repeat_head parentPath n ss u mi md h)
              (validateSteps_from 0 [] ss (parentPath @ [n, ''<iteration>''])))
       (validateSteps_from (Suc i) (n # names) steps parentPath))))"
| "validate_paths [] path' = None"
| "validate_paths ((pathName, ss) # ps) path' =
     or_else (validateSteps_from 0 [] ss (path' @ [pathName])) (validate_paths ps path')"

definition validateSteps :: "('v, 'w) step list \<Rightarrow> path \<Rightarrow> err option" where
  "validateSteps steps parentPath = validateSteps_from 0 [] steps parentPath"

definition validate :: "('v, 'w) pipeline \<Rightarrow> err option" where
  "validate p =
     (if PName p = '''' then Some (errorf ''pipeline: name is required'')
      else if PVersion p < 0 then
        Some (errorf (''pipeline '' @ go_quote (PName p) @ '': version must be >= 0''))
      else if (case PMinResumeVersion p of Some v \<Rightarrow> v < 0 | None \<Rightarrow> False) then
        Some (errorf (''pipeline '' @ go_quote (PName p) @ '': min resume version must be >= 0''))
      else if (case PMinResumeVersion p of Some v \<Rightarrow> v > PVersion p | None \<Rightarrow> False) then
        Some (errorf (''pipeline '' @ go_quote (PName p) @ '': min resume version (''
          @ itoa (the (PMinResumeVersion p)) @ '') cannot exceed version ('' @ itoa (PVersion p) @ '')''))
      else if PSteps p = [] then
        Some (errorf (''pipeline '' @ go_quote (PName p) @ '': no steps defined''))
      else validateSteps (PSteps p) [])"

section \<open>Searches in the step tree\<close>

fun find_step :: "('v, 'w) step list \<Rightarrow> string \<Rightarrow> ('v, 'w) step option" where
  "find_step [] name = None"
| "find_step (s # ss) name = (if StepName s = name then Some s else find_step ss name)"

text \<open>\<open>findStepByPath\<close>: the first step with the path's first name decides.\<close>

function findStepByPath :: "('v, 'w) step list \<Rightarrow> path \<Rightarrow> ('v, 'w) step option" where
  "findStepByPath steps p =
     (case p of
        [] \<Rightarrow> None
      | name # rest \<Rightarrow>
          (case find_step steps name of
             None \<Rightarrow> None
           | Some s \<Rightarrow>
               (if rest = [] then Some s
                else if StepBranch s \<noteq> None \<and> length p \<ge> 3 then
                  (case map_of (Paths (the (StepBranch s))) (hd rest) of
                     None \<Rightarrow> None
                   | Some pathSteps \<Rightarrow> findStepByPath pathSteps (tl rest))
                else if StepRepeat s \<noteq> None \<and> length p \<ge> 3 then
                  (case atoi (hd rest) of
                     None \<Rightarrow> None
                   | Some _ \<Rightarrow> findStepByPath (RepeatSteps (the (StepRepeat s))) (tl rest))
                else None)))"
  by pat_completeness auto
termination
  by (relation "measure (\<lambda>(steps, p). length p)") auto

declare findStepByPath.simps [simp del]

text \<open>\<open>repeatIterationForPath\<close>: the iteration number of the innermost Repeat on a path.\<close>

function repeatIteration_from :: "int option \<Rightarrow> ('v, 'w) step list \<Rightarrow> path \<Rightarrow> int option" where
  "repeatIteration_from result steps p =
     (case p of
        [] \<Rightarrow> result
      | name # rest \<Rightarrow>
          (case find_step steps name of
             None \<Rightarrow> result
           | Some s \<Rightarrow>
               (if StepRepeat s \<noteq> None \<and> rest \<noteq> [] then
                  (case atoi (hd rest) of
                     None \<Rightarrow> result
                   | Some k \<Rightarrow> repeatIteration_from (Some k) (RepeatSteps (the (StepRepeat s))) (tl rest))
                else if StepBranch s \<noteq> None \<and> rest \<noteq> [] then
                  repeatIteration_from result
                    (case map_of (Paths (the (StepBranch s))) (hd rest) of None \<Rightarrow> [] | Some ss \<Rightarrow> ss)
                    (tl rest)
                else result)))"
  by pat_completeness auto
termination
  by (relation "measure (\<lambda>(r, steps, p). length p)") auto

declare repeatIteration_from.simps [simp del]

definition repeatIterationForPath :: "('v, 'w) step list \<Rightarrow> path \<Rightarrow> int option" where
  "repeatIterationForPath steps p = repeatIteration_from None steps p"

definition branchPathNames :: "('v, 'w) branch_step \<Rightarrow> string list" where
  "branchPathNames b = map fst (Paths b)"

fun find_index_from :: "nat \<Rightarrow> ('v, 'w) step list \<Rightarrow> string \<Rightarrow> nat" where
  "find_index_from i [] name = 0"
| "find_index_from i (s # ss) name = (if StepName s = name then i else find_index_from (Suc i) ss name)"

text \<open>\<open>findTopLevelIndex\<close>; an unknown name starts from the beginning.\<close>

definition findTopLevelIndex :: "('v, 'w) step list \<Rightarrow> path \<Rightarrow> nat" where
  "findTopLevelIndex steps p = (case p of [] \<Rightarrow> 0 | stepName # _ \<Rightarrow> find_index_from 0 steps stepName)"

end
