(* ===== verification/Pipeline_Env.thy ===== *)
theory Pipeline_Env
  imports Pipeline_Def
begin

text \<open>
  What the executor works with: its configuration (\<open>Executor\<close>, \<open>pipeline/options.go\<close>), the run-time
  environment (context, clock, storage callbacks, JSON encoder, Go's map order), the machine state
  of one \<open>Run\<close>, and the operations every handler uses: \<open>observe\<close> (\<open>pipeline/observer.go\<close>),
  \<open>snapshot\<close>, the diagnostics recorders, \<open>persistDeferred\<close> and the duration helpers of
  \<open>pipeline/executor.go\<close>.

  A machine state holds the \<open>RunState\<close> being threaded through the handlers, the data store, the
  outside world and, as a ghost, the list of external effects performed so far. The copies \<open>observe\<close>
  makes are in \<^theory_text>\<open>Pipeline_Observe\<close>, the log calls in \<^theory_text>\<open>Loggers\<close>; here
  events are values and logging is left out.
\<close>

section \<open>Events\<close>

datatype event_type =
    EventPipelineStarted | EventPipelineCompleted | EventStepStarted | EventStepCompleted
  | EventStepFailed | EventDelayedContinuation | EventRepeatIterationStarted
  | EventRepeatIterationCompleted | EventCompensationStarted | EventCompensationSucceeded
  | EventCompensationFailed | EventSnapshotSucceeded | EventSnapshotFailed
  | EventStateMigrationSucceeded | EventStateMigrationFailed | EventVersionMismatch
  | EventContextCanceled

record event =
  Type :: event_type
  EvPipelineName :: string
  EvPipelineVersion :: int
  EvRunStatus :: run_status
  EvStepPath :: path
  EvAttempt :: int
  EvRepeatIteration :: "int option"
  EvDuration :: int
  EvOperation :: string
  EvCause :: "err option"

text \<open>An event literal as the handlers write it: type, step path, attempt, iteration, duration,
  operation, cause; the pipeline fields are filled in by \<open>observe\<close>.\<close>

definition Ev :: "event_type \<Rightarrow> path \<Rightarrow> int \<Rightarrow> int option \<Rightarrow> int \<Rightarrow> string \<Rightarrow> err option \<Rightarrow> event" where
  "Ev ty sp att it dur op cause =
     \<lparr>Type = ty, EvPipelineName = '''', EvPipelineVersion = 0, EvRunStatus = RunStatusNew,
      EvStepPath = sp, EvAttempt = att, EvRepeatIteration = it, EvDuration = dur,
      EvOperation = op, EvCause = cause\<rparr>"

section \<open>Executor configuration and environment\<close>

record ('v, 'w) executor =
  snapshotFn :: "(run_state \<Rightarrow> 'w \<Rightarrow> err option \<times> 'w) option"
  casSnapshotFn :: "(64 word \<Rightarrow> run_state \<Rightarrow> 'w \<Rightarrow> err option \<times> 'w) option"
  clockNow :: "'w \<Rightarrow> int \<times> 'w"
  clockSleep :: "int \<Rightarrow> 'w \<Rightarrow> err option \<times> 'w"
  stateMigrator :: "(string \<Rightarrow> int \<Rightarrow> int \<Rightarrow> run_state \<Rightarrow> 'w \<Rightarrow> (run_state \<times> err option) \<times> 'w) option"
  observer :: "(event \<Rightarrow> 'w \<Rightarrow> 'w) option"

text \<open>
  \<open>ctxErr\<close> is \<open>ctx.Err()\<close>, which may turn non-nil at any time; \<open>jsonMarshal\<close> is \<open>json.Marshal\<close>;
  \<open>rangeData\<close> and \<open>rangeDiagnostics\<close> are the orders in which Go's \<open>range\<close> produces the keys of the
  data store and of the diagnostics.
\<close>

record ('v, 'w) env = "('v, 'w) executor" +
  ctxErr :: "'w \<Rightarrow> err option \<times> 'w"
  jsonMarshal :: "'v \<Rightarrow> err + json"
  rangeData :: "'v store \<Rightarrow> string list"
  rangeDiagnostics :: "(string, step_diagnostics) mapping \<Rightarrow> string list"

text \<open>\<open>NewExecutor\<close> (with the system clock as a parameter) and the executor options.\<close>

definition NewExecutor ::
    "('w \<Rightarrow> int \<times> 'w) \<Rightarrow> (int \<Rightarrow> 'w \<Rightarrow> err option \<times> 'w) \<Rightarrow>
       (('v, 'w) executor \<Rightarrow> ('v, 'w) executor) list \<Rightarrow> ('v, 'w) executor" where
  "NewExecutor sysNow sysSleep opts =
     foldl (\<lambda>e opt. opt e)
       \<lparr>snapshotFn = None, casSnapshotFn = None, clockNow = sysNow, clockSleep = sysSleep,
        stateMigrator = None, observer = None\<rparr> opts"

definition WithSnapshotFn ::
    "(run_state \<Rightarrow> 'w \<Rightarrow> err option \<times> 'w) option \<Rightarrow> ('v, 'w) executor \<Rightarrow> ('v, 'w) executor" where
  "WithSnapshotFn f e = e\<lparr>snapshotFn := f, casSnapshotFn := None\<rparr>"

definition WithCASSnapshotFn ::
    "(64 word \<Rightarrow> run_state \<Rightarrow> 'w \<Rightarrow> err option \<times> 'w) option \<Rightarrow> ('v, 'w) executor \<Rightarrow> ('v, 'w) executor" where
  "WithCASSnapshotFn f e = e\<lparr>casSnapshotFn := f, snapshotFn := None\<rparr>"

definition WithClock ::
    "(('w \<Rightarrow> int \<times> 'w) \<times> (int \<Rightarrow> 'w \<Rightarrow> err option \<times> 'w)) option \<Rightarrow> ('v, 'w) executor \<Rightarrow> ('v, 'w) executor" where
  "WithClock c e = (case c of None \<Rightarrow> e | Some (n, sl) \<Rightarrow> e\<lparr>clockNow := n, clockSleep := sl\<rparr>)"

definition WithStateMigrator ::
    "(string \<Rightarrow> int \<Rightarrow> int \<Rightarrow> run_state \<Rightarrow> 'w \<Rightarrow> (run_state \<times> err option) \<times> 'w) option \<Rightarrow>
       ('v, 'w) executor \<Rightarrow> ('v, 'w) executor" where
  "WithStateMigrator f e = e\<lparr>stateMigrator := f\<rparr>"

definition WithObserver :: "(event \<Rightarrow> 'w \<Rightarrow> 'w) option \<Rightarrow> ('v, 'w) executor \<Rightarrow> ('v, 'w) executor" where
  "WithObserver ob e = e\<lparr>observer := ob\<rparr>"

section \<open>The machine\<close>

datatype eff =
    OnEnterCalled path "err option"
  | DoCalled path "err option"
  | CheckCalled path "err option"
  | DecideCalled path "err option"
  | UntilCalled path int "err option"
  | CompensateCalled path "err option"
  | MigratorCalled "err option"
  | SnapshotOk string run_state
  | SnapshotErr string
  | Slept int

record ('v, 'w) mach =
  rs :: run_state
  store :: "'v store"
  world :: 'w
  effs :: "eff list"

type_synonym ('v, 'w, 'a) exec = "(('v, 'w) mach, 'a) go"

definition upd_rs :: "(run_state \<Rightarrow> run_state) \<Rightarrow> ('v, 'w, unit) exec" where
  "upd_rs f = upd (\<lambda>m. m\<lparr>rs := f (rs m)\<rparr>)"

definition get_rs :: "('v, 'w, run_state) exec" where
  "get_rs = gets rs"

text \<open>\<open>ctx.Err()\<close> when the code tests it; a later read in the same branch gives the same error, by
  the contract of Go's \<open>context\<close>.\<close>

definition ctx_err :: "('v, 'w) env \<Rightarrow> ('v, 'w, err option) exec" where
  "ctx_err env = (\<lambda>m. let (e, w') = ctxErr env (world m) in Some (e, m\<lparr>world := w'\<rparr>))"

definition now :: "('v, 'w) env \<Rightarrow> ('v, 'w, int) exec" where
  "now env = (\<lambda>m. let (t, w') = clockNow env (world m) in Some (t, m\<lparr>world := w'\<rparr>))"

definition sleep :: "('v, 'w) env \<Rightarrow> int \<Rightarrow> ('v, 'w, err option) exec" where
  "sleep env d = (\<lambda>m. let (e, w') = clockSleep env d (world m)
                       in Some (e, m\<lparr>world := w', effs := effs m @ [Slept d]\<rparr>))"

text \<open>Calling a user callback; a nil function panics.\<close>

definition invoke ::
    "('r \<Rightarrow> eff) \<Rightarrow> ('v store \<Rightarrow> 'w \<Rightarrow> 'r \<times> 'v store \<times> 'w) option \<Rightarrow> ('v, 'w, 'r) exec" where
  "invoke tag f =
     (\<lambda>m. case f of
            None \<Rightarrow> None
          | Some g \<Rightarrow>
              let (r, d', w') = g (store m) (world m)
              in Some (r, m\<lparr>store := d', world := w', effs := effs m @ [tag r]\<rparr>))"

text \<open>\<open>observe\<close>: without an observer nothing happens. The event's cause and path are copied for the
  observer (\<open>cloneObserverCause\<close>), which on values is the identity; a panic of the observer is
  recovered, so an observer is a total function here.\<close>

definition observe :: "('v, 'w) env \<Rightarrow> ('v, 'w) pipeline \<Rightarrow> event \<Rightarrow> ('v, 'w, unit) exec" where
  "observe env p ev =
     (case observer env of
        None \<Rightarrow> ret ()
      | Some ob \<Rightarrow>
          upd (\<lambda>m. m\<lparr>world :=
            ob (ev\<lparr>EvPipelineName := PName p, EvPipelineVersion := PVersion p,
                   EvRunStatus := Status (rs m),
                   EvRepeatIteration :=
                     or_else (EvRepeatIteration ev) (repeatIterationForPath (PSteps p) (EvStepPath ev))\<rparr>)
               (world m)\<rparr>))"

section \<open>Snapshots\<close>

text \<open>The storage callback on the candidate with the next revision; the revision is committed only
  when the callback succeeds.\<close>

definition call_snapshot :: "('v, 'w) env \<Rightarrow> string \<Rightarrow> ('v, 'w, err option) exec" where
  "call_snapshot env operation =
     (\<lambda>m. let expectedRevision = Revision (rs m);
              candidate = (rs m)\<lparr>Revision := expectedRevision + 1\<rparr>;
              (r, w') = (case casSnapshotFn env of
                           Some f \<Rightarrow> f expectedRevision candidate (world m)
                         | None \<Rightarrow>
                             (case snapshotFn env of
                                Some f \<Rightarrow> f candidate (world m)
                              | None \<Rightarrow> (None, world m)))
          in case r of
               None \<Rightarrow> Some (None, m\<lparr>rs := (rs m)\<lparr>Revision := Revision candidate\<rparr>, world := w',
                                     effs := effs m @ [SnapshotOk operation candidate]\<rparr>)
             | Some e \<Rightarrow> Some (Some e, m\<lparr>world := w', effs := effs m @ [SnapshotErr operation]\<rparr>))"

definition diagnosticAttempts :: "run_state \<Rightarrow> path \<Rightarrow> int" where
  "diagnosticAttempts st path = Attempts (go_get zero_diagnostics (StepDiagnostics st) (StepPathKey path))"

text \<open>The event a snapshot reports when there is an observer.\<close>

definition observe_snapshot ::
    "('v, 'w) env \<Rightarrow> ('v, 'w) pipeline \<Rightarrow> event_type \<Rightarrow> int \<Rightarrow> string \<Rightarrow> err option \<Rightarrow> ('v, 'w, unit) exec" where
  "observe_snapshot env p ty startedAt operation cause =
     (if observer env = None then ret ()
      else bnd get_rs (\<lambda>st. bnd (now env) (\<lambda>t.
        observe env p (Ev ty (CurrentPath st) (diagnosticAttempts st (CurrentPath st))
          (repeatIterationForPath (PSteps p) (CurrentPath st)) (time_sub t startedAt) operation cause))))"

definition snapshot :: "('v, 'w) env \<Rightarrow> ('v, 'w) pipeline \<Rightarrow> string \<Rightarrow> ('v, 'w, err option) exec" where
  "snapshot env p operation =
     (if snapshotFn env = None \<and> casSnapshotFn env = None then ret None
      else bnd (if observer env \<noteq> None then now env else ret 0) (\<lambda>startedAt.
        on_err (call_snapshot env operation)
          (\<lambda>e. let snapshotErr = ErrSnapshotFailed operation e in
               seqm (observe_snapshot env p EventSnapshotFailed startedAt operation (Some snapshotErr))
                 (ret (Some snapshotErr)))
          (seqm (observe_snapshot env p EventSnapshotSucceeded startedAt operation None) (ret None))))"

section \<open>Diagnostics\<close>

definition get_diag :: "path \<Rightarrow> ('v, 'w, step_diagnostics) exec" where
  "get_diag path = gets (\<lambda>m. go_get zero_diagnostics (StepDiagnostics (rs m)) (StepPathKey path))"

text \<open>\<open>state.StepDiagnostics[key] = d\<close>, which panics on a nil map.\<close>

definition put_diag :: "path \<Rightarrow> step_diagnostics \<Rightarrow> ('v, 'w, unit) exec" where
  "put_diag path d =
     (\<lambda>m. case StepDiagnostics (rs m) of
            None \<Rightarrow> None
          | Some mp \<Rightarrow> Some ((), m\<lparr>rs := (rs m)\<lparr>StepDiagnostics := Some (Mapping.update (StepPathKey path) d mp)\<rparr>\<rparr>))"

definition make_diags :: "('v, 'w, unit) exec" where
  "make_diags = upd_rs (\<lambda>st. st\<lparr>StepDiagnostics := go_make (StepDiagnostics st)\<rparr>)"

definition recordAttemptData :: "('v, 'w) env \<Rightarrow> path \<Rightarrow> ('v, 'w, int) exec" where
  "recordAttemptData env path =
     seqm make_diags
     (bnd (get_diag path) (\<lambda>d.
      bnd (now env) (\<lambda>t.
        let d' = d\<lparr>FirstStartedAt := or_else (FirstStartedAt d) (Some t), LastStartedAt := Some t,
                   NextRunAt := None, Attempts := i64 (Attempts d + 1)\<rparr>
        in seqm (put_diag path d') (ret (Attempts d')))))"

definition recordAttempt ::
    "('v, 'w) env \<Rightarrow> ('v, 'w) pipeline \<Rightarrow> path \<Rightarrow> int option \<Rightarrow> ('v, 'w, unit) exec" where
  "recordAttempt env p path repeatIteration =
     bnd (recordAttemptData env path) (\<lambda>attempt.
       if observer env = None then ret ()
       else observe env p (Ev EventStepStarted path attempt
              (or_else repeatIteration (repeatIterationForPath (PSteps p) path)) 0 ''step'' None))"

text \<open>The pattern \<open>if attemptRecorded { recordAttemptData } else { recordAttempt }\<close>.\<close>

definition mark_attempt ::
    "('v, 'w) env \<Rightarrow> ('v, 'w) pipeline \<Rightarrow> bool \<Rightarrow> path \<Rightarrow> int option \<Rightarrow> ('v, 'w, unit) exec" where
  "mark_attempt env p attemptRecorded path it =
     (if attemptRecorded then bnd (recordAttemptData env path) (\<lambda>_. ret ())
      else recordAttempt env p path it)"

definition recordError :: "path \<Rightarrow> err \<Rightarrow> ('v, 'w, unit) exec" where
  "recordError path e =
     seqm make_diags
     (bnd (get_diag path) (\<lambda>d. put_diag path (d\<lparr>LastError := err_text e\<rparr>)))"

definition recordCompleted :: "('v, 'w) env \<Rightarrow> path \<Rightarrow> ('v, 'w, unit) exec" where
  "recordCompleted env path =
     bnd (get_diag path) (\<lambda>d.
     bnd (now env) (\<lambda>t. put_diag path (d\<lparr>CompletedAt := Some t, NextRunAt := None\<rparr>)))"

definition recordNextRun ::
    "('v, 'w) env \<Rightarrow> path \<Rightarrow> int \<Rightarrow> err option \<Rightarrow> ('v, 'w, unit) exec" where
  "recordNextRun env path delay cause =
     bnd (get_diag path) (\<lambda>d.
     bnd (now env) (\<lambda>t.
       put_diag path (d\<lparr>NextRunAt := Some (t + normalizeDuration delay),
                        LastError := (case cause of Some c \<Rightarrow> err_text c | None \<Rightarrow> LastError d)\<rparr>)))"

definition activeStepDuration :: "('v, 'w) env \<Rightarrow> path \<Rightarrow> ('v, 'w, int) exec" where
  "activeStepDuration env path =
     bnd (get_diag path) (\<lambda>d.
       case LastStartedAt d of
         None \<Rightarrow> ret 0
       | Some l \<Rightarrow> bnd (now env) (\<lambda>t. ret (normalizeDuration (time_sub t l))))"

definition completedStepDuration :: "run_state \<Rightarrow> path \<Rightarrow> int" where
  "completedStepDuration st path =
     (let d = go_get zero_diagnostics (StepDiagnostics st) (StepPathKey path) in
      case (LastStartedAt d, CompletedAt d) of
        (Some l, Some c) \<Rightarrow> normalizeDuration (time_sub c l)
      | _ \<Rightarrow> 0)"

section \<open>Saving the data store\<close>

text \<open>\<open>data, err := ds.marshalData(); if err != nil { return err }; state.Data = data\<close>, and the form
  \<open>state.Data, _ = ds.marshalData()\<close>, which stores a nil map when marshalling fails.\<close>

definition save_data :: "('v, 'w) env \<Rightarrow> ('v, 'w, err option) exec" where
  "save_data env =
     bnd (gets (\<lambda>m. marshalData (jsonMarshal env) (rangeData env) (store m))) (\<lambda>r.
       case r of
         Inl e \<Rightarrow> ret (Some e)
       | Inr mp \<Rightarrow> seqm (upd_rs (\<lambda>st. st\<lparr>Data := Some mp\<rparr>)) (ret None))"

definition save_data_unchecked :: "('v, 'w) env \<Rightarrow> ('v, 'w, unit) exec" where
  "save_data_unchecked env =
     bnd (gets (\<lambda>m. marshalData (jsonMarshal env) (rangeData env) (store m))) (\<lambda>r.
       upd_rs (\<lambda>st. st\<lparr>Data := (case r of Inl e \<Rightarrow> None | Inr mp \<Rightarrow> Some mp)\<rparr>))"

text \<open>\<open>return state, err\<close> for an error value.\<close>

definition fail :: "err \<Rightarrow> ('v, 'w, err option) exec" where
  "fail e = ret (Some e)"

definition persistDeferred ::
    "('v, 'w) env \<Rightarrow> ('v, 'w) pipeline \<Rightarrow> path \<Rightarrow> err \<Rightarrow> bool \<Rightarrow> string \<Rightarrow> int option \<Rightarrow>
       ('v, 'w, err option) exec" where
  "persistDeferred env p path e polling operation repeatIteration =
     (case deferredDetails e of (delay, cause, normalizedErr, _) \<Rightarrow>
      seqm (if polling then upd_rs (\<lambda>st. st\<lparr>Status := RunStatusPolling\<rparr>) else ret ())
      (seqm (recordNextRun env path delay cause)
      (on_err (save_data env) fail
      (on_err (snapshot env p operation) fail
      (seqm
        (if observer env = None then ret ()
         else bnd get_rs (\<lambda>st.
           observe env p (Ev EventDelayedContinuation path (diagnosticAttempts st path)
             (or_else repeatIteration (repeatIterationForPath (PSteps p) path)) delay operation cause)))
        (fail normalizedErr))))))"

end
