(* ===== verification/Pipeline_Exec.thy ===== *)
theory Pipeline_Exec
  imports Pipeline_Env
begin

text \<open>
  The handlers of \<open>pipeline/executor.go\<close>: retries, actions, polls, branches, repeats, the step loop
  with its error handling, compensation, version checks and \<open>Run\<close>.

  The handlers of one step do not call themselves: they take the runner \<open>rec\<close> of a nested step list
  (\<open>executeSteps\<close> on a branch path or a repeat body) as an argument. \<open>executeSteps\<close> ties the knot,
  by recursion on the size of the step tree.
\<close>

section \<open>Retries\<close>

definition nextBackoffDelay :: "int \<Rightarrow> int" where
  "nextBackoffDelay delay =
     (if delay > max_int64 div 2 then max_int64 else normalizeDuration (i64 (delay * 2)))"

text \<open>The loop of \<open>runWithRetry\<close> with \<open>n\<close> attempts left; \<open>fn\<close> is told whether it is the first one.
  \<open>isDeferred\<close> normalises the error it finds to be deferred.\<close>

fun retry_loop ::
    "('v, 'w) env \<Rightarrow> (bool \<Rightarrow> ('v, 'w, err option) exec) \<Rightarrow> bool \<Rightarrow> bool \<Rightarrow> nat \<Rightarrow> int \<Rightarrow>
       ('v, 'w, err option) exec" where
  "retry_loop env fn backoff first 0 delay = ret None"
| "retry_loop env fn backoff first (Suc n) delay =
     on_err (fn first)
       (\<lambda>lastErr.
          if isDeferred lastErr then fail (normalize_retry lastErr)
          else if n = 0 then fail lastErr
          else on_err (sleep env delay) fail
                 (retry_loop env fn backoff False n (if backoff then nextBackoffDelay delay else delay)))
       (ret None)"

definition retry_attempts :: "retry_config option \<Rightarrow> int" where
  "retry_attempts rt = (case rt of None \<Rightarrow> 1 | Some r \<Rightarrow> if MaxAttempts r > 0 then MaxAttempts r else 1)"

definition retry_delay :: "retry_config option \<Rightarrow> int" where
  "retry_delay rt = (case rt of None \<Rightarrow> Second | Some r \<Rightarrow> if InitialDelay r > 0 then InitialDelay r else Second)"

definition runWithRetry ::
    "('v, 'w) env \<Rightarrow> retry_config option \<Rightarrow> (bool \<Rightarrow> ('v, 'w, err option) exec) \<Rightarrow>
       ('v, 'w, err option) exec" where
  "runWithRetry env rt fn =
     retry_loop env fn (case rt of None \<Rightarrow> False | Some r \<Rightarrow> Backoff r) True
       (nat (retry_attempts rt)) (retry_delay rt)"

section \<open>Helpers of the handlers\<close>

text \<open>An event about a step, with the attempts recorded for it so far.\<close>

definition observe_step ::
    "('v, 'w) env \<Rightarrow> ('v, 'w) pipeline \<Rightarrow> event_type \<Rightarrow> path \<Rightarrow> int option \<Rightarrow> int \<Rightarrow> string \<Rightarrow> err option \<Rightarrow>
       ('v, 'w, unit) exec" where
  "observe_step env p ty path it dur op cause =
     bnd get_rs (\<lambda>st. observe env p (Ev ty path (diagnosticAttempts st path) it dur op cause))"

definition observe_completed ::
    "('v, 'w) env \<Rightarrow> ('v, 'w) pipeline \<Rightarrow> path \<Rightarrow> int option \<Rightarrow> string \<Rightarrow> ('v, 'w, unit) exec" where
  "observe_completed env p path it op =
     bnd get_rs (\<lambda>st. observe_step env p EventStepCompleted path it (completedStepDuration st path) op None)"

definition append_completed :: "path \<Rightarrow> bool \<Rightarrow> ('v, 'w, unit) exec" where
  "append_completed path hasCompensator =
     upd_rs (\<lambda>st. st\<lparr>CompletedSteps := CompletedSteps st @ [\<lparr>Path = path, HasCompensator = hasCompensator\<rparr>]\<rparr>)"

definition set_path :: "path \<Rightarrow> ('v, 'w, unit) exec" where
  "set_path path = upd_rs (\<lambda>st. st\<lparr>CurrentPath := path\<rparr>)"

text \<open>The end of a failed callback: a deferred error is persisted, any other one is reported with
  the duration of the attempt and returned.\<close>

definition defer_or_fail ::
    "('v, 'w) env \<Rightarrow> ('v, 'w) pipeline \<Rightarrow> path \<Rightarrow> err \<Rightarrow> bool \<Rightarrow> int option \<Rightarrow> ('v, 'w, err option) exec \<Rightarrow>
       ('v, 'w, err option) exec" where
  "defer_or_fail env p path stepErr polling it k =
     (if isDeferred stepErr then persistDeferred env p path stepErr polling ''delayed continuation'' it else k)"

definition fail_timed ::
    "('v, 'w) env \<Rightarrow> ('v, 'w) pipeline \<Rightarrow> path \<Rightarrow> int option \<Rightarrow> string \<Rightarrow> err \<Rightarrow> ('v, 'w, err option) exec" where
  "fail_timed env p path it op stepErr =
     bnd (activeStepDuration env path) (\<lambda>dur.
       seqm (observe_step env p EventStepFailed path it dur op (Some stepErr)) (fail stepErr))"

definition fail_untimed ::
    "('v, 'w) env \<Rightarrow> ('v, 'w) pipeline \<Rightarrow> path \<Rightarrow> int option \<Rightarrow> string \<Rightarrow> err \<Rightarrow> ('v, 'w, err option) exec" where
  "fail_untimed env p path it op stepErr =
     seqm (observe_step env p EventStepFailed path it 0 op (Some stepErr)) (fail stepErr)"

section \<open>Actions\<close>

definition action_attempt ::
    "('v, 'w) env \<Rightarrow> ('v, 'w) pipeline \<Rightarrow> path \<Rightarrow> ('v, 'w) action_step \<Rightarrow> bool \<Rightarrow> bool \<Rightarrow>
       ('v, 'w, err option) exec" where
  "action_attempt env p path act attemptRecorded first =
     seqm (mark_attempt env p (attemptRecorded \<and> first) path None)
     (on_err (invoke (DoCalled path) (Do act))
       (\<lambda>e. seqm (recordError path e) (fail e))
       (ret None))"

definition executeAction ::
    "('v, 'w) env \<Rightarrow> ('v, 'w) pipeline \<Rightarrow> string \<Rightarrow> retry_config option \<Rightarrow> ('v, 'w) action_step \<Rightarrow>
       path \<Rightarrow> bool \<Rightarrow> ('v, 'w, err option) exec" where
  "executeAction env p name rt act stepPath attemptRecorded =
     on_err (runWithRetry env rt (action_attempt env p stepPath act attemptRecorded))
       (\<lambda>e. let stepErr = ErrStepFailed name stepPath e in
            defer_or_fail env p stepPath stepErr False None
              (fail_timed env p stepPath None ''action'' stepErr))
       (seqm (append_completed stepPath (Compensate act \<noteq> None))
       (on_err (save_data env) fail
       (seqm (recordCompleted env stepPath)
       (on_err (snapshot env p ''action completion'') fail
       (seqm (observe_completed env p stepPath None ''action'') (ret None))))))"

section \<open>Polls\<close>

definition set_status :: "run_status \<Rightarrow> ('v, 'w, unit) exec" where
  "set_status s = upd_rs (\<lambda>st. st\<lparr>Status := s\<rparr>)"

definition set_poll_start :: "int option \<Rightarrow> ('v, 'w, unit) exec" where
  "set_poll_start t = upd_rs (\<lambda>st. st\<lparr>PollStartedAt := t\<rparr>)"

definition poll_timeout ::
    "('v, 'w) env \<Rightarrow> ('v, 'w) pipeline \<Rightarrow> string \<Rightarrow> ('v, 'w) poll_step \<Rightarrow> path \<Rightarrow> bool \<Rightarrow>
       ('v, 'w, err option) exec" where
  "poll_timeout env p name po stepPath attemptRecorded =
     seqm (set_poll_start None)
     (seqm (mark_attempt env p attemptRecorded stepPath None)
     (let timeoutErr = ErrPollTimeout name (PollMaxDuration po) in
      seqm (recordError stepPath timeoutErr)
        (fail_untimed env p stepPath None ''poll timeout'' (ErrStepFailed name stepPath timeoutErr))))"

definition poll_failed ::
    "('v, 'w) env \<Rightarrow> ('v, 'w) pipeline \<Rightarrow> string \<Rightarrow> path \<Rightarrow> err \<Rightarrow> ('v, 'w, err option) exec" where
  "poll_failed env p name stepPath e =
     seqm (recordError stepPath e)
     (let stepErr = ErrStepFailed name stepPath e in
      defer_or_fail env p stepPath stepErr True None
        (bnd (ctx_err env) (\<lambda>c.
         seqm (if c = None then set_poll_start None else ret ())
           (fail_timed env p stepPath None ''poll'' stepErr))))"

definition poll_completed ::
    "('v, 'w) env \<Rightarrow> ('v, 'w) pipeline \<Rightarrow> path \<Rightarrow> ('v, 'w, err option) exec" where
  "poll_completed env p stepPath =
     seqm (set_poll_start None)
     (seqm (set_status RunStatusRunning)
     (seqm (append_completed stepPath False)
     (on_err (save_data env) fail
     (seqm (recordCompleted env stepPath)
     (on_err (snapshot env p ''poll completion'') fail
     (seqm (observe_completed env p stepPath None ''poll'') (ret None)))))))"

definition poll_check ::
    "('v, 'w) env \<Rightarrow> ('v, 'w) pipeline \<Rightarrow> string \<Rightarrow> ('v, 'w) poll_step \<Rightarrow> path \<Rightarrow> bool \<Rightarrow>
       ('v, 'w, err option) exec" where
  "poll_check env p name po stepPath attemptRecorded =
     seqm (mark_attempt env p attemptRecorded stepPath None)
     (bnd (invoke (\<lambda>(d, r, e). CheckCalled stepPath e) (Check po)) (\<lambda>(finished, retryAfter, e).
       case e of
         Some pe \<Rightarrow> poll_failed env p name stepPath pe
       | None \<Rightarrow>
           (if \<not> finished then
              seqm (set_status RunStatusPolling)
                (persistDeferred env p stepPath (ErrSnooze (normalizeDuration retryAfter)) True
                  ''delayed continuation'' None)
            else poll_completed env p stepPath)))"

definition executePoll ::
    "('v, 'w) env \<Rightarrow> ('v, 'w) pipeline \<Rightarrow> string \<Rightarrow> ('v, 'w) poll_step \<Rightarrow> path \<Rightarrow> bool \<Rightarrow>
       ('v, 'w, err option) exec" where
  "executePoll env p name po stepPath attemptRecorded =
     bnd (now env) (\<lambda>t.
     seqm (upd_rs (\<lambda>st. st\<lparr>PollStartedAt := or_else (PollStartedAt st) (Some t)\<rparr>))
     (bnd get_rs (\<lambda>st.
       if PollMaxDuration po > 0 \<and> time_sub t (the (PollStartedAt st)) \<ge> PollMaxDuration po
       then poll_timeout env p name po stepPath attemptRecorded
       else poll_check env p name po stepPath attemptRecorded)))"

section \<open>Branches\<close>

type_synonym ('v, 'w) runner = "('v, 'w) step list \<Rightarrow> nat \<Rightarrow> path \<Rightarrow> ('v, 'w, err option) exec"

text \<open>Resuming inside the branch: the saved path names the chosen path and perhaps the child.\<close>

definition branch_resume ::
    "('v, 'w) runner \<Rightarrow> string \<Rightarrow> ('v, 'w) branch_step \<Rightarrow> path \<Rightarrow> path \<Rightarrow> ('v, 'w, err option) exec" where
  "branch_resume rec name br stepPath cur =
     (let chosenPath = cur ! length stepPath;
          childStepName = (if length cur > length stepPath + 1 then cur ! (length stepPath + 1) else '''')
      in case map_of (Paths br) chosenPath of
           None \<Rightarrow> fail (errorf (''pipeline: branch '' @ go_quote name @ '': saved path ''
                     @ go_quote chosenPath @ '' not found''))
         | Some pathSteps \<Rightarrow>
             rec pathSteps
               (if childStepName \<noteq> '''' then find_index_from 0 pathSteps childStepName else 0)
               (stepPath @ [chosenPath]))"

definition branch_enter ::
    "('v, 'w) env \<Rightarrow> ('v, 'w) pipeline \<Rightarrow> ('v, 'w) runner \<Rightarrow> path \<Rightarrow> string \<Rightarrow> ('v, 'w) step list \<Rightarrow>
       ('v, 'w, err option) exec" where
  "branch_enter env p rec stepPath chosenPath pathSteps =
     seqm (append_completed stepPath False)
     (seqm (recordCompleted env stepPath)
     (if pathSteps = [] then
        seqm (set_path stepPath)
        (on_err (save_data env) fail
        (on_err (snapshot env p ''empty branch completion'') fail
        (seqm (observe_completed env p stepPath None ''branch'') (ret None))))
      else
        seqm (set_path (stepPath @ [chosenPath]))
        (on_err (save_data env) fail
        (on_err (snapshot env p ''branch decision'') fail
        (seqm (observe_completed env p stepPath None ''branch'')
          (rec pathSteps 0 (stepPath @ [chosenPath])))))))"

definition branch_decide ::
    "('v, 'w) env \<Rightarrow> ('v, 'w) pipeline \<Rightarrow> ('v, 'w) runner \<Rightarrow> string \<Rightarrow> ('v, 'w) branch_step \<Rightarrow> path \<Rightarrow> bool \<Rightarrow>
       ('v, 'w, err option) exec" where
  "branch_decide env p rec name br stepPath attemptRecorded =
     seqm (mark_attempt env p attemptRecorded stepPath None)
     (bnd (invoke (\<lambda>(c, e). DecideCalled stepPath e) (Decide br)) (\<lambda>(chosenPath, e).
       case e of
         Some de \<Rightarrow>
           seqm (recordError stepPath de)
           (let stepErr = ErrStepFailed name stepPath (errorf_wrap ''decide'' de) in
            defer_or_fail env p stepPath stepErr False None
              (fail_timed env p stepPath None ''branch decision'' stepErr))
       | None \<Rightarrow>
           (case map_of (Paths br) chosenPath of
              None \<Rightarrow>
                (let inner = errorf (''branch returned unknown path '' @ go_quote chosenPath
                       @ '' (available: '' @ show_strings (branchPathNames br) @ '')'')
                 in seqm (recordError stepPath inner)
                      (fail_untimed env p stepPath None ''branch decision'' (ErrStepFailed name stepPath inner)))
            | Some pathSteps \<Rightarrow> branch_enter env p rec stepPath chosenPath pathSteps)))"

definition executeBranch ::
    "('v, 'w) env \<Rightarrow> ('v, 'w) pipeline \<Rightarrow> ('v, 'w) runner \<Rightarrow> string \<Rightarrow> ('v, 'w) branch_step \<Rightarrow> path \<Rightarrow> bool \<Rightarrow>
       ('v, 'w, err option) exec" where
  "executeBranch env p rec name br stepPath attemptRecorded =
     bnd get_rs (\<lambda>st.
       if length (CurrentPath st) > length stepPath
       then branch_resume rec name br stepPath (CurrentPath st)
       else branch_decide env p rec name br stepPath attemptRecorded)"

section \<open>Repeats\<close>

definition put_repeat :: "path \<Rightarrow> repeat_state \<Rightarrow> ('v, 'w, unit) exec" where
  \<comment> \<open>\<open>state.RepeatStates[key] = r\<close>, which panics on a nil map\<close>
  "put_repeat path r =
     (\<lambda>m. case RepeatStates (rs m) of
            None \<Rightarrow> None
          | Some mp \<Rightarrow> Some ((), m\<lparr>rs := (rs m)\<lparr>RepeatStates := Some (Mapping.update (StepPathKey path) r mp)\<rparr>\<rparr>))"

definition get_repeat :: "run_state \<Rightarrow> path \<Rightarrow> repeat_state" where
  "get_repeat st path = go_get zero_repeat_state (RepeatStates st) (StepPathKey path)"

definition make_repeats :: "('v, 'w, unit) exec" where
  "make_repeats = upd_rs (\<lambda>st. st\<lparr>RepeatStates := go_make (RepeatStates st)\<rparr>)"

definition ensureRepeatStarted ::
    "('v, 'w) env \<Rightarrow> ('v, 'w) pipeline \<Rightarrow> path \<Rightarrow> ('v, 'w, err option) exec" where
  "ensureRepeatStarted env p stepPath =
     bnd get_rs (\<lambda>st. let r = get_repeat st stepPath in
       if StartedAt r \<noteq> None then ret None
       else seqm make_repeats
            (bnd (now env) (\<lambda>t.
             seqm (put_repeat stepPath (r\<lparr>StartedAt := Some t\<rparr>))
               (snapshot env p ''repeat start''))))"

text \<open>The clock is read only when there is a limit and a start time.\<close>

definition repeatTimedOut ::
    "('v, 'w) env \<Rightarrow> ('v, 'w) repeat_step \<Rightarrow> repeat_state \<Rightarrow> ('v, 'w, bool) exec" where
  "repeatTimedOut env re r =
     (case StartedAt r of
        None \<Rightarrow> ret False
      | Some started \<Rightarrow>
          (if RepeatMaxDuration re > 0
           then bnd (now env) (\<lambda>t. ret (time_sub t started \<ge> RepeatMaxDuration re))
           else ret False))"

definition repeatTimeout ::
    "('v, 'w) env \<Rightarrow> ('v, 'w) pipeline \<Rightarrow> string \<Rightarrow> ('v, 'w) repeat_step \<Rightarrow> path \<Rightarrow> int \<Rightarrow>
       ('v, 'w, err option) exec" where
  "repeatTimeout env p name re stepPath iteration =
     (let timeoutErr = ErrRepeatTimeout name (RepeatMaxDuration re) in
      seqm (recordError stepPath timeoutErr)
        (fail_untimed env p stepPath (Some iteration) ''repeat timeout'' (ErrStepFailed name stepPath timeoutErr)))"

text \<open>Where \<open>executeRepeat\<close> starts: the iteration and the index of its first child, or the text of an
  unreadable saved iteration. \<open>i64\<close> reads the stored \<open>Iteration\<close> at its width.\<close>

definition repeat_resume_point ::
    "run_state \<Rightarrow> ('v, 'w) repeat_step \<Rightarrow> path \<Rightarrow> string + int \<times> nat" where
  "repeat_resume_point st re stepPath =
     (let cur = CurrentPath st; k = length stepPath in
      if length cur > k then
        (case atoi (cur ! k) of
           None \<Rightarrow> Inl (cur ! k)
         | Some parsed \<Rightarrow>
             (if parsed < 0 then Inl (cur ! k)
              else Inr (parsed,
                if length cur > k + 1 then find_index_from 0 (RepeatSteps re) (cur ! (k + 1)) else 0)))
      else
        (case go_lookup (RepeatStates st) (StepPathKey stepPath) of
           Some r \<Rightarrow> Inr (i64 (Iteration r), 0)
         | None \<Rightarrow> Inr (0, 0)))"

definition repeat_done ::
    "('v, 'w) env \<Rightarrow> ('v, 'w) pipeline \<Rightarrow> path \<Rightarrow> int \<Rightarrow> repeat_state \<Rightarrow> ('v, 'w, err option) exec" where
  "repeat_done env p stepPath iteration r =
     seqm (put_repeat stepPath
             (r\<lparr>Iteration := iteration, AwaitingCondition := False, Completed := True, StartedAt := None\<rparr>))
     (seqm (set_path stepPath)
     (seqm (append_completed stepPath False)
     (seqm (recordCompleted env stepPath)
     (on_err (save_data env) fail
     (on_err (snapshot env p ''repeat completion'') fail
     (seqm (observe_completed env p stepPath (Some iteration) ''repeat'') (ret None)))))))"

definition repeat_limit ::
    "('v, 'w) env \<Rightarrow> ('v, 'w) pipeline \<Rightarrow> string \<Rightarrow> ('v, 'w) repeat_step \<Rightarrow> path \<Rightarrow> int \<Rightarrow>
       ('v, 'w, err option) exec" where
  "repeat_limit env p name re stepPath iteration =
     (let limitErr = ErrRepeatLimit name (MaxIterations re) in
      seqm (recordError stepPath limitErr)
        (fail_untimed env p stepPath (Some iteration) ''repeat limit'' (ErrStepFailed name stepPath limitErr)))"

definition repeat_yield ::
    "('v, 'w) env \<Rightarrow> ('v, 'w) pipeline \<Rightarrow> ('v, 'w) repeat_step \<Rightarrow> path \<Rightarrow> int \<Rightarrow> repeat_state \<Rightarrow> int \<Rightarrow>
       ('v, 'w, err option) exec" where
  "repeat_yield env p re stepPath iteration r retryAfter =
     (let nextIteration = i64 (iteration + 1) in
      seqm (put_repeat stepPath (r\<lparr>Iteration := nextIteration, AwaitingCondition := False\<rparr>))
      (seqm (set_path (stepPath @ [itoa nextIteration]))
      (persistDeferred env p stepPath (RetryAfter retryAfter None) False
        (if History re = RepeatHistoryCompact then ''repeat compaction'' else ''delayed continuation'')
        (Some iteration))))"

text \<open>After \<open>Until\<close> returned without error.\<close>

definition repeat_decided ::
    "('v, 'w) env \<Rightarrow> ('v, 'w) pipeline \<Rightarrow> string \<Rightarrow> ('v, 'w) repeat_step \<Rightarrow> path \<Rightarrow> int \<Rightarrow> repeat_state \<Rightarrow> int \<Rightarrow>
       bool \<Rightarrow> int \<Rightarrow> ('v, 'w, err option) exec" where
  "repeat_decided env p name re stepPath iteration r iterationStartedAt finished retryAfter =
     seqm (if observer env = None then ret ()
           else bnd (now env) (\<lambda>t. observe_step env p EventRepeatIterationCompleted stepPath (Some iteration)
                  (time_sub t iterationStartedAt) ''repeat iteration'' None))
     (seqm (if History re = RepeatHistoryCompact
            then upd_rs (compactRepeatIteration (rangeDiagnostics env) stepPath iteration) else ret ())
     (if finished then repeat_done env p stepPath iteration r
      else if MaxIterations re > 0 \<and> i64 (iteration + 1) \<ge> MaxIterations re
      then repeat_limit env p name re stepPath iteration
      else repeat_yield env p re stepPath iteration r retryAfter))"

text \<open>The part of \<open>executeRepeat\<close> after the children: the time limit, then \<open>Until\<close>.\<close>

definition repeat_condition ::
    "('v, 'w) env \<Rightarrow> ('v, 'w) pipeline \<Rightarrow> string \<Rightarrow> ('v, 'w) repeat_step \<Rightarrow> path \<Rightarrow> bool \<Rightarrow> int \<Rightarrow> repeat_state \<Rightarrow>
       int \<Rightarrow> ('v, 'w, err option) exec" where
  "repeat_condition env p name re stepPath attemptRecorded iteration r iterationStartedAt =
     bnd (repeatTimedOut env re r) (\<lambda>timedOut.
     seqm (mark_attempt env p attemptRecorded stepPath (Some iteration))
     (if timedOut then repeatTimeout env p name re stepPath iteration
      else
        bnd (invoke (\<lambda>(d, ra, e). UntilCalled stepPath iteration e) (map_option (\<lambda>f. f iteration) (Until re)))
          (\<lambda>(finished, retryAfter, e).
            case e of
              Some ue \<Rightarrow>
                seqm (recordError stepPath ue)
                (let stepErr = ErrStepFailed name stepPath (errorf_wrap ''until'' ue) in
                 defer_or_fail env p stepPath stepErr False (Some iteration)
                   (fail_timed env p stepPath (Some iteration) ''repeat condition'' stepErr))
            | None \<Rightarrow>
                repeat_decided env p name re stepPath iteration r iterationStartedAt finished retryAfter)))"

definition repeat_begin ::
    "('v, 'w) env \<Rightarrow> ('v, 'w) pipeline \<Rightarrow> path \<Rightarrow> int \<Rightarrow> repeat_state \<Rightarrow> ('v, 'w, int) exec" where
  "repeat_begin env p stepPath iteration r =
     seqm make_repeats
     (seqm (put_repeat stepPath r)
     (if observer env = None then ret 0
      else bnd (now env) (\<lambda>t.
        seqm (observe env p (Ev EventRepeatIterationStarted stepPath 0 (Some iteration) 0 ''repeat iteration'' None))
          (ret t))))"

definition executeRepeat ::
    "('v, 'w) env \<Rightarrow> ('v, 'w) pipeline \<Rightarrow> ('v, 'w) runner \<Rightarrow> string \<Rightarrow> ('v, 'w) repeat_step \<Rightarrow> path \<Rightarrow> bool \<Rightarrow>
       ('v, 'w, err option) exec" where
  "executeRepeat env p rec name re stepPath attemptRecorded =
     bnd get_rs (\<lambda>st.
     case repeat_resume_point st re stepPath of
       Inl saved \<Rightarrow>
         fail (ErrStepFailed name stepPath (errorf (''invalid saved repeat iteration '' @ go_quote saved)))
     | Inr (iteration, childStartIdx) \<Rightarrow>
         (let r = (get_repeat st stepPath)\<lparr>Iteration := iteration, Completed := False\<rparr> in
          bnd (repeat_begin env p stepPath iteration r) (\<lambda>startedAt.
          if AwaitingCondition r
          then repeat_condition env p name re stepPath attemptRecorded iteration r startedAt
          else on_err (rec (RepeatSteps re) childStartIdx (stepPath @ [itoa iteration])) fail
            (bnd get_rs (\<lambda>st'.
             if Status st' \<noteq> RunStatusRunning then ret None
             else (let r' = r\<lparr>AwaitingCondition := True\<rparr> in
                   seqm (put_repeat stepPath r')
                     (repeat_condition env p name re stepPath attemptRecorded iteration r' startedAt)))))))"

section \<open>One step\<close>

text \<open>The time limit of a Repeat, checked before anything else; \<open>Some e\<close> ends the step.\<close>

definition repeat_entry ::
    "('v, 'w) env \<Rightarrow> ('v, 'w) pipeline \<Rightarrow> ('v, 'w) step \<Rightarrow> path \<Rightarrow> ('v, 'w, err option) exec" where
  "repeat_entry env p s stepPath =
     (case StepRepeat s of
        None \<Rightarrow> ret None
      | Some re \<Rightarrow>
          (if RepeatMaxDuration re \<le> 0 then ret None
           else on_err (ensureRepeatStarted env p stepPath) fail
             (bnd get_rs (\<lambda>st.
                let r = get_repeat st stepPath;
                    iteration = (if length (CurrentPath st) > length stepPath
                                 then (case atoi (CurrentPath st ! length stepPath) of
                                         Some parsed \<Rightarrow> parsed | None \<Rightarrow> Iteration r)
                                 else Iteration r)
                in bnd (repeatTimedOut env re r) (\<lambda>timedOut.
                     if timedOut
                     then seqm (recordAttempt env p stepPath (Some iteration))
                            (repeatTimeout env p (StepName s) re stepPath iteration)
                     else ret None)))))"

text \<open>The event reported before \<open>OnEnter\<close>.\<close>

definition observe_on_enter ::
    "('v, 'w) env \<Rightarrow> ('v, 'w) pipeline \<Rightarrow> ('v, 'w) step \<Rightarrow> path \<Rightarrow> ('v, 'w, unit) exec" where
  "observe_on_enter env p s stepPath =
     (if observer env = None then ret ()
      else bnd get_rs (\<lambda>st.
        observe env p (Ev EventStepStarted stepPath (i64 (diagnosticAttempts st stepPath + 1))
          (or_else (repeatIterationForPath (PSteps p) (CurrentPath st))
            (if StepRepeat s \<noteq> None then Some (Iteration (get_repeat st stepPath)) else None))
          0 ''on_enter'' None)))"

definition run_on_enter ::
    "('v, 'w) env \<Rightarrow> ('v, 'w) pipeline \<Rightarrow> ('v, 'w) step \<Rightarrow> path \<Rightarrow> ('v, 'w, err option) exec" where
  "run_on_enter env p s stepPath =
     seqm (observe_on_enter env p s stepPath)
     (on_err (invoke (OnEnterCalled stepPath) (StepOnEnter s))
       (\<lambda>e. seqm (mark_attempt env p True stepPath None)
            (seqm (recordError stepPath e)
            (let stepErr = ErrStepFailed (StepName s) stepPath (errorf_wrap ''on_enter'' e) in
             defer_or_fail env p stepPath stepErr False None
               (fail_untimed env p stepPath None ''on_enter'' stepErr))))
       (case StepRepeat s of
          None \<Rightarrow> ret None
        | Some re \<Rightarrow>
            (if RepeatMaxDuration re \<le> 0 then ret None
             else bnd get_rs (\<lambda>st. let r = get_repeat st stepPath in
               bnd (repeatTimedOut env re r) (\<lambda>timedOut.
                 if timedOut
                 then seqm (mark_attempt env p True stepPath None)
                        (repeatTimeout env p (StepName s) re stepPath (Iteration r))
                 else ret None)))))"

definition dispatch ::
    "('v, 'w) env \<Rightarrow> ('v, 'w) pipeline \<Rightarrow> ('v, 'w) runner \<Rightarrow> ('v, 'w) step \<Rightarrow> path \<Rightarrow> bool \<Rightarrow>
       ('v, 'w, err option) exec" where
  "dispatch env p rec s stepPath attemptRecorded =
     (case StepAction s of Some act \<Rightarrow> executeAction env p (StepName s) (StepRetry s) act stepPath attemptRecorded
      | None \<Rightarrow>
     (case StepPoll s of Some po \<Rightarrow> executePoll env p (StepName s) po stepPath attemptRecorded
      | None \<Rightarrow>
     (case StepBranch s of Some br \<Rightarrow> executeBranch env p rec (StepName s) br stepPath attemptRecorded
      | None \<Rightarrow>
     (case StepRepeat s of Some re \<Rightarrow> executeRepeat env p rec (StepName s) re stepPath attemptRecorded
      | None \<Rightarrow>
        fail (errorf (''pipeline: step '' @ go_quote (StepName s) @ '' has no action, poll, branch, or repeat''))))))"

definition executeStep ::
    "('v, 'w) env \<Rightarrow> ('v, 'w) pipeline \<Rightarrow> ('v, 'w) runner \<Rightarrow> ('v, 'w) step \<Rightarrow> path \<Rightarrow> ('v, 'w, err option) exec" where
  "executeStep env p rec s stepPath =
     on_err (repeat_entry env p s stepPath) fail
     (if StepOnEnter s = None then dispatch env p rec s stepPath False
      else on_err (run_on_enter env p s stepPath) fail (dispatch env p rec s stepPath True))"

section \<open>Compensation\<close>

definition set_comp_index :: "int \<Rightarrow> ('v, 'w, unit) exec" where
  "set_comp_index i = upd_rs (\<lambda>st. st\<lparr>CompensationIndex := i\<rparr>)"

text \<open>The compensator a completed step resolves to, with the name of its step.\<close>

definition find_compensator ::
    "('v, 'w) pipeline \<Rightarrow> path \<Rightarrow> (string \<times> ('v, 'w) action_fn) option" where
  "find_compensator p path =
     (case findStepByPath (PSteps p) path of
        None \<Rightarrow> None
      | Some s \<Rightarrow>
          (case StepAction s of
             None \<Rightarrow> None
           | Some act \<Rightarrow> map_option (\<lambda>f. (StepName s, f)) (Compensate act)))"

definition compensation_end ::
    "('v, 'w) env \<Rightarrow> ('v, 'w) pipeline \<Rightarrow> string \<Rightarrow> ('v, 'w, err option) exec" where
  "compensation_end env p originalError =
     seqm (set_status RunStatusFailed)
     (seqm (set_comp_index (- 1))
     (on_err (save_data env) fail
     (on_err (snapshot env p ''compensation completion'') fail
     (seqm (observe env p (Ev EventCompensationSucceeded [] 0 None 0 ''compensation'' None))
     (seqm (observe env p (Ev EventPipelineCompleted [] 0 None 0 ''run'' (Some (errorf originalError))))
       (ret None))))))"

definition compensation_failed ::
    "('v, 'w) env \<Rightarrow> ('v, 'w) pipeline \<Rightarrow> string \<Rightarrow> nat \<Rightarrow> path \<Rightarrow> string \<Rightarrow> int \<Rightarrow> err \<Rightarrow>
       ('v, 'w, err option) exec" where
  "compensation_failed env p originalError i path name startedAt e =
     seqm (set_comp_index (int i))
     (seqm (recordError path e)
     (on_err (ctx_err env)
       (\<lambda>ce. bnd (now env) (\<lambda>t.
          seqm (observe env p (Ev EventContextCanceled path 0 None (time_sub t startedAt) ''compensation'' (Some ce)))
            (fail ce)))
       (if isDeferred e then persistDeferred env p path e False ''delayed continuation'' None
        else
          bnd (now env) (\<lambda>t.
          seqm (observe env p (Ev EventCompensationFailed path 0 None (time_sub t startedAt) ''compensation step'' (Some e)))
          (on_err (save_data env) fail
          (on_err (snapshot env p ''compensation failure'') fail
            (fail (ErrCompensationFailed (errorf originalError)
              (errorf_wrap (''step '' @ go_quote name) e)))))))))"

definition compensation_succeeded ::
    "('v, 'w) env \<Rightarrow> ('v, 'w) pipeline \<Rightarrow> nat \<Rightarrow> path \<Rightarrow> int \<Rightarrow> ('v, 'w, err option) exec \<Rightarrow>
       ('v, 'w, err option) exec" where
  "compensation_succeeded env p i path startedAt continue =
     seqm (set_comp_index (int i - 1))
     (on_err (save_data env) fail
     (on_err (snapshot env p ''compensation step completion'') fail
     (bnd (now env) (\<lambda>t.
      seqm (observe env p (Ev EventCompensationSucceeded path 0 None (time_sub t startedAt) ''compensation step'' None))
        continue))))"

text \<open>The loop of \<open>runCompensation\<close>; the argument is the loop variable plus one. An index beyond
  \<open>CompletedSteps\<close> panics.\<close>

fun compensate_loop ::
    "('v, 'w) env \<Rightarrow> ('v, 'w) pipeline \<Rightarrow> string \<Rightarrow> nat \<Rightarrow> ('v, 'w, err option) exec" where
  "compensate_loop env p originalError 0 = compensation_end env p originalError"
| "compensate_loop env p originalError (Suc i) =
     bnd get_rs (\<lambda>st.
       if i \<ge> length (CompletedSteps st) then panic
       else let cs = CompletedSteps st ! i in
         if \<not> HasCompensator cs
         then seqm (set_comp_index (int i - 1)) (compensate_loop env p originalError i)
         else on_err (ctx_err env)
           (\<lambda>ce. seqm (observe env p (Ev EventContextCanceled (Path cs) 0 None 0 ''compensation'' (Some ce)))
                   (fail ce))
           (case find_compensator p (Path cs) of
              None \<Rightarrow> seqm (set_comp_index (int i - 1)) (compensate_loop env p originalError i)
            | Some (name, f) \<Rightarrow>
                bnd (now env) (\<lambda>startedAt.
                seqm (observe env p (Ev EventCompensationStarted (Path cs) 0 None 0 ''compensation step'' None))
                (on_err (invoke (CompensateCalled (Path cs)) (Some f))
                  (compensation_failed env p originalError i (Path cs) name startedAt)
                  (compensation_succeeded env p i (Path cs) startedAt
                    (compensate_loop env p originalError i))))))"

definition runCompensation :: "('v, 'w) env \<Rightarrow> ('v, 'w) pipeline \<Rightarrow> ('v, 'w, err option) exec" where
  "runCompensation env p =
     seqm (observe env p (Ev EventCompensationStarted [] 0 None 0 ''compensation'' None))
     (bnd get_rs (\<lambda>st. compensate_loop env p (Error st) (nat (CompensationIndex st + 1))))"

section \<open>The step loop\<close>

text \<open>The context is done: save and return its error without compensating.\<close>

definition cancel_at ::
    "('v, 'w) env \<Rightarrow> ('v, 'w) pipeline \<Rightarrow> path \<Rightarrow> err \<Rightarrow> ('v, 'w, err option) exec" where
  "cancel_at env p stepPath ce =
     seqm (set_path stepPath)
     (seqm (observe env p (Ev EventContextCanceled stepPath 0 None 0 ''step'' (Some ce))) (fail ce))"

definition fail_without_compensation ::
    "('v, 'w) env \<Rightarrow> ('v, 'w) pipeline \<Rightarrow> path \<Rightarrow> err \<Rightarrow> ('v, 'w, err option) exec" where
  "fail_without_compensation env p stepPath e =
     on_err (save_data env) fail
     (seqm (upd_rs (\<lambda>st. st\<lparr>FailedStepPath := stepPath\<rparr>))
     (on_err (snapshot env p ''step error without compensation'') fail (fail e)))"

definition start_compensation ::
    "('v, 'w) env \<Rightarrow> ('v, 'w) pipeline \<Rightarrow> path \<Rightarrow> err \<Rightarrow> ('v, 'w, err option) exec" where
  "start_compensation env p stepPath e =
     seqm (upd_rs (\<lambda>st. st\<lparr>Error := err_text e, FailedStepPath := stepPath,
              Status := RunStatusCompensating,
              CompensationIndex := int (length (CompletedSteps st)) - 1,
              RepeatTimeout := (case as_type sel_repeat_timeout e of
                                  Some (n, d) \<Rightarrow> Some \<lparr>TimeoutStepName = n, TimeoutMaxDuration = d\<rparr>
                                | None \<Rightarrow> RepeatTimeout st)\<rparr>))
     (on_err (save_data env) fail
     (on_err (snapshot env p ''step failure before compensation'') fail
     (on_err (runCompensation env p) fail
       (if as_type sel_repeat_timeout e \<noteq> None then fail e else ret None))))"

text \<open>What \<open>executeSteps\<close> does with the error of a step, in the order of its checks.\<close>

definition handle_step_error ::
    "('v, 'w) env \<Rightarrow> ('v, 'w) pipeline \<Rightarrow> path \<Rightarrow> err \<Rightarrow> ('v, 'w, err option) exec" where
  "handle_step_error env p stepPath e =
     (if is_snapshot_failed e then fail e
      else if isDeferred e then fail (normalize_retry e)
      else on_err (ctx_err env)
        (\<lambda>ce. on_err (save_data env) fail (cancel_at env p stepPath ce))
        (bnd get_rs (\<lambda>st.
           if Status st \<noteq> RunStatusRunning then fail e
           else if (case as_type sel_step_failed e of
                      Some (n, q, e') \<Rightarrow> length q > length stepPath | None \<Rightarrow> False) then fail e
           else if errors_is e ErrNoCompensate then fail_without_compensation env p stepPath e
           else start_compensation env p stepPath e)))"

fun steps_loop ::
    "('v, 'w) env \<Rightarrow> ('v, 'w) pipeline \<Rightarrow> ('v, 'w) runner \<Rightarrow> path \<Rightarrow> path \<Rightarrow> bool \<Rightarrow> ('v, 'w) step list \<Rightarrow>
       ('v, 'w, err option) exec" where
  "steps_loop env p rec parentPath resumePath first [] = ret None"
| "steps_loop env p rec parentPath resumePath first (s # ss) =
     (let stepPath = parentPath @ [StepName s] in
      bnd get_rs (\<lambda>st.
      if first \<and> stepPath = resumePath \<and> isStepCompleted st stepPath
      then steps_loop env p rec parentPath resumePath False ss
      else on_err (ctx_err env)
        (\<lambda>ce. seqm (save_data_unchecked env) (cancel_at env p stepPath ce))
        (seqm (set_path (if first \<and> isPathPrefix stepPath resumePath then resumePath else stepPath))
        (on_err (executeStep env p rec s stepPath)
          (handle_step_error env p stepPath)
          (bnd get_rs (\<lambda>st'.
             if Status st' \<noteq> RunStatusRunning then ret None
             else steps_loop env p rec parentPath resumePath False ss))))))"

text \<open>The nested step lists of a step, the only ones a handler hands to its runner.\<close>

definition children :: "('v, 'w) step \<Rightarrow> ('v, 'w) step list set" where
  "children s =
     (case StepBranch s of None \<Rightarrow> {} | Some br \<Rightarrow> snd ` set (Paths br))
     \<union> (case StepRepeat s of None \<Rightarrow> {} | Some re \<Rightarrow> {RepeatSteps re})"

lemma map_of_children:
  "StepBranch s = Some br \<Longrightarrow> map_of (Paths br) k = Some ss \<Longrightarrow> ss \<in> children s"
  by (force simp: children_def dest: map_of_SomeD)

lemma repeat_children: "StepRepeat s = Some re \<Longrightarrow> RepeatSteps re \<in> children s"
  by (simp add: children_def)

lemma branch_resume_cong:
  assumes "StepBranch s = Some br" and "\<And>ss i q. ss \<in> children s \<Longrightarrow> rec ss i q = rec' ss i q"
  shows "branch_resume rec n br sp cur = branch_resume rec' n br sp cur"
  using assms by (auto simp: branch_resume_def Let_def map_of_children split: option.split)

lemma branch_decide_cong:
  assumes "StepBranch s = Some br" and "\<And>ss i q. ss \<in> children s \<Longrightarrow> rec ss i q = rec' ss i q"
  shows "branch_decide env p rec n br sp ar = branch_decide env p rec' n br sp ar"
proof -
  have "branch_enter env p rec sp c ss = branch_enter env p rec' sp c ss"
    if "map_of (Paths br) c = Some ss" for c ss
    unfolding branch_enter_def using assms(2) [OF map_of_children [OF assms(1) that]] by simp
  then show ?thesis
    unfolding branch_decide_def
    by (intro arg_cong2 [where f = seqm] arg_cong2 [where f = bnd] refl ext)
      (auto split: option.split prod.split)
qed

lemma executeStep_cong:
  assumes "\<And>ss i q. ss \<in> children s \<Longrightarrow> rec ss i q = rec' ss i q"
  shows "executeStep env p rec s sp = executeStep env p rec' s sp"
proof -
  have "executeBranch env p rec n br sp ar = executeBranch env p rec' n br sp ar"
    if "StepBranch s = Some br" for n br ar
  proof -
    have "branch_resume rec n br sp cur = branch_resume rec' n br sp cur" for cur
      by (rule branch_resume_cong [OF that]) (rule assms)
    moreover have "branch_decide env p rec n br sp ar = branch_decide env p rec' n br sp ar"
      by (rule branch_decide_cong [OF that]) (rule assms)
    ultimately show ?thesis unfolding executeBranch_def by presburger
  qed
  moreover have "executeRepeat env p rec n re sp ar = executeRepeat env p rec' n re sp ar"
    if "StepRepeat s = Some re" for n re ar
  proof -
    have "rec (RepeatSteps re) = rec' (RepeatSteps re)"
      by (intro ext) (simp add: assms [OF repeat_children [OF that]])
    then show ?thesis by (simp only: executeRepeat_def)
  qed
  ultimately have "dispatch env p rec s sp ar = dispatch env p rec' s sp ar" for ar
    by (simp add: dispatch_def split: option.split)
  then show ?thesis by (simp add: executeStep_def)
qed

lemma steps_loop_cong [fundef_cong]:
  assumes "env = env'" "p = p'" "pa = pa'" "resume = resume'" "first = first'" "steps = steps'"
    and "\<And>s ss i q. s \<in> set steps' \<Longrightarrow> ss \<in> children s \<Longrightarrow> rec ss i q = rec' ss i q"
  shows "steps_loop env p rec pa resume first steps = steps_loop env' p' rec' pa' resume' first' steps'"
proof -
  have "steps_loop env p rec pa resume first steps = steps_loop env p rec' pa resume first steps"
    if "\<And>s ss i q. s \<in> set steps \<Longrightarrow> ss \<in> children s \<Longrightarrow> rec ss i q = rec' ss i q"
    using that
  proof (induction steps arbitrary: first)
    case Nil
    then show ?case by simp
  next
    case (Cons s ss)
    have "executeStep env p rec s q = executeStep env p rec' s q" for q
      by (rule executeStep_cong, rule Cons.prems [of s]) simp_all
    moreover have "steps_loop env p rec pa resume f ss = steps_loop env p rec' pa resume f ss" for f
      by (rule Cons.IH, erule (1) Cons.prems [OF list.set_intros(2)])
    ultimately show ?case by (simp cong: if_cong)
  qed
  with assms show ?thesis by simp
qed

lemma size_child:
  assumes "s \<in> set steps" and "ss \<in> children s"
  shows "size_list size ss < size_list size steps"
proof -
  have "size_list size ss < size s"
  proof (cases s)
    case (Step n a po br re oe rt)
    from assms(2) consider b where "br = Some b" "ss \<in> snd ` set (Paths b)"
      | r where "re = Some r" "ss = RepeatSteps r"
      by (auto simp: Step children_def split: option.splits)
    then show ?thesis
    proof cases
      case 1
      then obtain k where k: "(k, ss) \<in> set (Paths b)" by auto
      have "size_list size ss < size_prod (\<lambda>_. 0) (size_list size) (k, ss)" by simp
      also have "\<dots> \<le> size_list (size_prod (\<lambda>_. 0) (size_list size)) (Paths b)"
        using k by (simp add: size_list_estimation')
      also have "\<dots> < size b" by (cases b) simp
      finally show ?thesis using 1 Step by simp
    next
      case 2
      then show ?thesis using Step by (cases r) simp
    qed
  qed
  also have "\<dots> \<le> size_list size steps" using assms(1) by (simp add: size_list_estimation')
  finally show ?thesis .
qed

text \<open>\<open>executeSteps\<close>. The saved path is read once, on entry.\<close>

function executeSteps :: "('v, 'w) env \<Rightarrow> ('v, 'w) pipeline \<Rightarrow> ('v, 'w) runner" where
  "executeSteps env p steps startIdx parentPath =
     bnd (gets (\<lambda>m. CurrentPath (rs m))) (\<lambda>resumePath.
       steps_loop env p (executeSteps env p) parentPath resumePath True (drop startIdx steps))"
  by pat_completeness auto
termination
  by (relation "measure (\<lambda>(env, p, steps, startIdx, parentPath). size_list size steps)")
    (auto dest: in_set_dropD intro: size_child)

declare executeSteps.simps [simp del]

section \<open>Run\<close>

definition versionMismatchError :: "('v, 'w) pipeline \<Rightarrow> run_state \<Rightarrow> err" where
  "versionMismatchError p st =
     ErrVersionMismatch (PName p) (Version st) (PVersion p) (effectiveMinResumeVersion p)"

definition checkVersion :: "('v, 'w) pipeline \<Rightarrow> run_state \<Rightarrow> err option" where
  "checkVersion p st =
     (if Version st < effectiveMinResumeVersion p \<or> Version st > PVersion p
      then Some (versionMismatchError p st) else None)"

text \<open>The migration of an older state. The migrator works on a copy (\<open>cloneRunState\<close>).\<close>

definition call_migrator ::
    "('v, 'w) pipeline \<Rightarrow> (string \<Rightarrow> int \<Rightarrow> int \<Rightarrow> run_state \<Rightarrow> 'w \<Rightarrow> (run_state \<times> err option) \<times> 'w) \<Rightarrow>
       ('v, 'w, run_state \<times> err option) exec" where
  "call_migrator p f =
     (\<lambda>m. let (r, w') = f (PName p) (Version (rs m)) (PVersion p) (rs m) (world m)
          in Some (r, m\<lparr>world := w', effs := effs m @ [MigratorCalled (snd r)]\<rparr>))"

definition migration_failed ::
    "('v, 'w) env \<Rightarrow> ('v, 'w) pipeline \<Rightarrow> int \<Rightarrow> int \<Rightarrow> err \<Rightarrow> ('v, 'w, err option) exec" where
  "migration_failed env p fromVersion startedAt e =
     (let migrationErr = ErrStateMigrationFailed (PName p) fromVersion (PVersion p) e in
      bnd (now env) (\<lambda>t.
      seqm (observe env p (Ev EventStateMigrationFailed [] 0 None (time_sub t startedAt) ''state migration''
              (Some migrationErr)))
        (fail migrationErr)))"

definition migration_done :: "('v, 'w) env \<Rightarrow> ('v, 'w) pipeline \<Rightarrow> int \<Rightarrow> ('v, 'w, err option) exec" where
  "migration_done env p startedAt =
     on_err (snapshot env p ''state migration'') fail
     (bnd (now env) (\<lambda>t.
      seqm (observe env p (Ev EventStateMigrationSucceeded [] 0 None (time_sub t startedAt) ''state migration'' None))
        (ret None)))"

definition migrate ::
    "('v, 'w) env \<Rightarrow> ('v, 'w) pipeline \<Rightarrow>
       (string \<Rightarrow> int \<Rightarrow> int \<Rightarrow> run_state \<Rightarrow> 'w \<Rightarrow> (run_state \<times> err option) \<times> 'w) \<Rightarrow> ('v, 'w, err option) exec" where
  "migrate env p f =
     bnd get_rs (\<lambda>st.
     bnd (now env) (\<lambda>startedAt.
     bnd (call_migrator p f) (\<lambda>(migrated, e).
       case e of
         Some me \<Rightarrow> migration_failed env p (Version st) startedAt me
       | None \<Rightarrow>
           seqm (upd_rs (\<lambda>_. migrated\<lparr>Version := PVersion p\<rparr>)) (migration_done env p startedAt))))"

text \<open>The version handling of \<open>Run\<close>: the outer \<open>Some\<close> ends the run with that result.\<close>

definition admit :: "('v, 'w) env \<Rightarrow> ('v, 'w) pipeline \<Rightarrow> ('v, 'w, err option option) exec" where
  "admit env p =
     bnd get_rs (\<lambda>st.
     if Status st = RunStatusNew then seqm (upd_rs (\<lambda>st. st\<lparr>Version := PVersion p\<rparr>)) (ret None)
     else if Version st > PVersion p then
       (let versionErr = versionMismatchError p st in
        seqm (observe env p (Ev EventVersionMismatch [] 0 None 0 ''downgrade'' (Some versionErr)))
          (ret (Some (Some versionErr))))
     else on_err
       (case stateMigrator env of
          Some f \<Rightarrow> if Version st \<noteq> PVersion p then migrate env p f else ret None
        | None \<Rightarrow> ret None)
       (\<lambda>e. ret (Some (Some e)))
       (bnd get_rs (\<lambda>st'.
          case checkVersion p st' of
            Some e \<Rightarrow>
              seqm (observe env p (Ev EventVersionMismatch [] 0 None 0 ''version check'' (Some e)))
                (ret (Some (Some e)))
          | None \<Rightarrow>
              (if IsTerminal st' then
                 seqm (observe env p (Ev EventPipelineCompleted [] 0 None 0 ''state migration'' None))
                   (ret (Some None))
               else ret None))))"

definition restore_store :: "('v, 'w, unit) exec" where
  "restore_store =
     upd (\<lambda>m. m\<lparr>store := (case Data (rs m) of None \<Rightarrow> newDataStore | Some d \<Rightarrow> restoreData d)\<rparr>)"

definition resume_compensation :: "('v, 'w) env \<Rightarrow> ('v, 'w) pipeline \<Rightarrow> ('v, 'w, err option) exec" where
  "resume_compensation env p =
     seqm (save_data_unchecked env)
     (on_err (snapshot env p ''resume compensation'') fail
     (on_err (runCompensation env p) fail
     (bnd get_rs (\<lambda>st.
        case RepeatTimeout st of
          Some t \<Rightarrow> fail (ErrRepeatTimeout (TimeoutStepName t) (TimeoutMaxDuration t))
        | None \<Rightarrow> ret None))))"

definition complete_run :: "('v, 'w) env \<Rightarrow> ('v, 'w) pipeline \<Rightarrow> ('v, 'w, err option) exec" where
  "complete_run env p =
     bnd get_rs (\<lambda>st.
     if Status st = RunStatusRunning then
       seqm (set_status RunStatusCompleted)
       (seqm (save_data_unchecked env)
       (on_err (snapshot env p ''pipeline completion'') fail
       (seqm (observe env p (Ev EventPipelineCompleted [] 0 None 0 ''run'' None)) (ret None))))
     else ret None)"

definition run_steps :: "('v, 'w) env \<Rightarrow> ('v, 'w) pipeline \<Rightarrow> ('v, 'w, err option) exec" where
  "run_steps env p =
     bnd get_rs (\<lambda>st.
     seqm (set_status RunStatusRunning)
     (seqm (save_data_unchecked env)
     (on_err (snapshot env p
        (if Status st \<noteq> RunStatusRunning then ''transition to running'' else ''resume execution'')) fail
     (on_err (executeSteps env p (PSteps p) (findTopLevelIndex (PSteps p) (CurrentPath st)) []) fail
       (complete_run env p)))))"

definition run_canceled :: "('v, 'w) env \<Rightarrow> ('v, 'w) pipeline \<Rightarrow> err \<Rightarrow> ('v, 'w, err option) exec" where
  "run_canceled env p ce =
     seqm (observe env p (Ev EventContextCanceled [] 0 None 0 ''run'' (Some ce))) (fail ce)"

definition run_admitted :: "('v, 'w) env \<Rightarrow> ('v, 'w) pipeline \<Rightarrow> ('v, 'w, err option) exec" where
  "run_admitted env p =
     seqm restore_store
     (on_err (ctx_err env) (run_canceled env p)
     (bnd get_rs (\<lambda>st.
        if Status st = RunStatusCompensating then resume_compensation env p else run_steps env p)))"

definition run_body :: "('v, 'w) env \<Rightarrow> ('v, 'w) pipeline \<Rightarrow> ('v, 'w, err option) exec" where
  "run_body env p =
     on_err (ret (validate p)) fail
     (bnd get_rs (\<lambda>st.
      if IsTerminal st then ret None
      else seqm (observe env p (Ev EventPipelineStarted [] 0 None 0 ''run'' None))
        (on_err (ctx_err env) (run_canceled env p)
        (bnd (admit env p) (\<lambda>r. case r of Some result \<Rightarrow> ret result | None \<Rightarrow> run_admitted env p)))))"

text \<open>\<open>Run\<close> on a state in a world: its error and the machine it leaves, or \<open>None\<close> for a panic.\<close>

definition init_mach :: "run_state \<Rightarrow> 'w \<Rightarrow> ('v, 'w) mach" where
  "init_mach st w = \<lparr>rs = st, store = newDataStore, world = w, effs = []\<rparr>"

definition Run ::
    "('v, 'w) env \<Rightarrow> ('v, 'w) pipeline \<Rightarrow> run_state \<Rightarrow> 'w \<Rightarrow> (err option \<times> ('v, 'w) mach) option" where
  "Run env p st w = run_body env p (init_mach st w)"

end
