(* ===== verification/Pipeline_Rules.thy ===== *)
theory Pipeline_Rules
  imports Pipeline_Exec
begin

text \<open>
  Reasoning about every run of the executor at once. The locale \<open>run_property\<close> takes a reflexive
  and transitive relation \<open>N\<close> between machine states, a class \<open>E\<close> of engine failures and a
  predicate \<open>L\<close> on where steps stand in the tree; its assumptions say what the primitive operations
  (callbacks, clock, storage, updates of the run state) do. It proves once, handler by handler, that
  every handler of \<open>pipeline/executor.go\<close> keeps \<open>N\<close> or ends in \<open>E\<close>. The property theories
  interpret it.
\<close>

section \<open>Primitive operations as relations\<close>

definition callback :: "eff \<Rightarrow> bool" where
  "callback x = (case x of SnapshotOk _ _ \<Rightarrow> False | SnapshotErr _ \<Rightarrow> False | _ \<Rightarrow> True)"

lemma callback_simps [simp]:
  "callback (OnEnterCalled q e)" "callback (DoCalled q e)" "callback (CheckCalled q e)"
  "callback (DecideCalled q e)" "callback (UntilCalled q i e)" "callback (CompensateCalled q e)"
  "callback (MigratorCalled e)" "callback (Slept d)"
  "\<not> callback (SnapshotOk op st)" "\<not> callback (SnapshotErr op)"
  by (simp_all add: callback_def)

text \<open>The callbacks that execute a step are logged with the path of the step.\<close>

fun step_call :: "eff \<Rightarrow> path option" where
  "step_call (OnEnterCalled q e) = Some q"
| "step_call (DoCalled q e) = Some q"
| "step_call (CheckCalled q e) = Some q"
| "step_call (DecideCalled q e) = Some q"
| "step_call (UntilCalled q i e) = Some q"
| "step_call _ = None"

text \<open>Updates of the run state that leave alone the version, the revision and the journal of
  completed steps, and turn no journal map into nil.\<close>

definition frame_upd :: "run_state \<Rightarrow> run_state \<Rightarrow> bool" where
  "frame_upd st st' \<longleftrightarrow>
     Revision st' = Revision st \<and> Version st' = Version st \<and> CompletedSteps st' = CompletedSteps st
     \<and> (StepDiagnostics st \<noteq> None \<longrightarrow> StepDiagnostics st' \<noteq> None)
     \<and> (RepeatStates st \<noteq> None \<longrightarrow> RepeatStates st' \<noteq> None)"

lemma frame_upd_simps [simp]:
  "frame_upd st (st\<lparr>Data := d\<rparr>)" "frame_upd st (st\<lparr>Status := s\<rparr>)"
  "frame_upd st (st\<lparr>CurrentPath := q\<rparr>)" "frame_upd st (st\<lparr>PollStartedAt := t\<rparr>)"
  "frame_upd st (st\<lparr>FailedStepPath := q\<rparr>)" "frame_upd st (st\<lparr>CompensationIndex := i\<rparr>)"
  "frame_upd st (st\<lparr>StepDiagnostics := Some mp\<rparr>)" "frame_upd st (st\<lparr>RepeatStates := Some r\<rparr>)"
  "frame_upd st (st\<lparr>StepDiagnostics := go_make (StepDiagnostics st)\<rparr>)"
  "frame_upd st (st\<lparr>RepeatStates := go_make (RepeatStates st)\<rparr>)"
  by (simp_all add: frame_upd_def)

lemma ctx_err_Some_iff:
  "ctx_err env m = Some (e, m') \<longleftrightarrow> (\<exists>w'. ctxErr env (world m) = (e, w') \<and> m' = m\<lparr>world := w'\<rparr>)"
  by (auto simp: ctx_err_def split: prod.splits)

lemma now_Some_iff:
  "now env m = Some (t, m') \<longleftrightarrow> (\<exists>w'. clockNow env (world m) = (t, w') \<and> m' = m\<lparr>world := w'\<rparr>)"
  by (auto simp: now_def split: prod.splits)

lemma sleep_Some_iff:
  "sleep env d m = Some (e, m') \<longleftrightarrow>
     (\<exists>w'. clockSleep env d (world m) = (e, w') \<and> m' = m\<lparr>world := w', effs := effs m @ [Slept d]\<rparr>)"
  by (auto simp: sleep_def split: prod.splits)

lemma invoke_Some_iff:
  "invoke tag f m = Some (r, m') \<longleftrightarrow>
     (\<exists>g d' w'. f = Some g \<and> g (store m) (world m) = (r, d', w')
        \<and> m' = m\<lparr>store := d', world := w', effs := effs m @ [tag r]\<rparr>)"
  by (auto simp: invoke_def split: option.splits prod.splits)

lemma observe_Some: "\<exists>w'. observe env p ev m = Some ((), m\<lparr>world := w'\<rparr>)"
proof (cases "observer env")
  case None
  then have "observe env p ev m = Some ((), m\<lparr>world := world m\<rparr>)" by (simp add: observe_def ret_def)
  then show ?thesis by blast
next
  case (Some ob)
  then show ?thesis by (simp add: observe_def upd_def) blast
qed

lemma upd_rs_Some_iff [simp]: "upd_rs f m = Some (u, m') \<longleftrightarrow> m' = m\<lparr>rs := f (rs m)\<rparr>"
  by (simp add: upd_rs_def)

lemma get_rs_Some_iff [simp]: "get_rs m = Some (st, m') \<longleftrightarrow> st = rs m \<and> m' = m"
  by (auto simp: get_rs_def)

lemma bnd_get_rs: "bnd get_rs f m = f (rs m) m"
  by (simp add: bnd_def get_rs_def gets_def)

lemma fail_Some_iff [simp]: "fail e m = Some (r, m') \<longleftrightarrow> r = Some e \<and> m' = m"
  by (auto simp: fail_def)

lemma put_diag_Some_iff:
  "put_diag path d m = Some (u, m') \<longleftrightarrow>
     (\<exists>mp. StepDiagnostics (rs m) = Some mp
        \<and> m' = m\<lparr>rs := (rs m)\<lparr>StepDiagnostics := Some (Mapping.update (StepPathKey path) d mp)\<rparr>\<rparr>)"
  by (auto simp: put_diag_def split: option.splits)

lemma put_repeat_Some_iff:
  "put_repeat path r m = Some (u, m') \<longleftrightarrow>
     (\<exists>mp. RepeatStates (rs m) = Some mp
        \<and> m' = m\<lparr>rs := (rs m)\<lparr>RepeatStates := Some (Mapping.update (StepPathKey path) r mp)\<rparr>\<rparr>)"
  by (auto simp: put_repeat_def split: option.splits)

lemma in_i64_0: "in_i64 0"
  by (simp add: in_i64_def min_int64_def max_int64_def)

lemma repeat_resume_point_range: "repeat_resume_point st re sp = Inr (it, k) \<Longrightarrow> in_i64 it"
  by (auto simp: repeat_resume_point_def Let_def atoi_range in_i64_0 split: if_splits option.splits)

text \<open>Reporting an event and reading the clock change nothing but the world.\<close>

definition world_only :: "('v, 'w) mach \<Rightarrow> ('v, 'w) mach \<Rightarrow> bool" where
  "world_only m m' \<longleftrightarrow> (\<exists>w. m' = m\<lparr>world := w\<rparr>)"

interpretation wo: kept_relation world_only
proof
  show "world_only s s" for s :: "('v, 'w) mach"
    unfolding world_only_def by (rule exI [of _ "world s"]) simp
qed (auto simp: world_only_def)

lemma observe_world_only: "keeps world_only (observe env p ev)"
proof (rule keepsI)
  fix m u m' assume "observe env p ev m = Some (u, m')"
  moreover obtain w' where "observe env p ev m = Some ((), m\<lparr>world := w'\<rparr>)"
    using observe_Some [of env p ev m] by blast
  ultimately show "world_only m m'" by (auto simp: world_only_def)
qed

lemma now_world_only: "keeps world_only (now env)"
  by (auto simp: keeps_def now_Some_iff world_only_def)

lemma observe_snapshot_world_only: "keeps world_only (observe_snapshot env p ty t op c)"
  unfolding observe_snapshot_def get_rs_def
  by (cases "observer env = None")
    (simp_all add: wo.kept_ret wo.kept_bnd wo.kept_gets now_world_only observe_world_only)

section \<open>Properties of all runs\<close>

text \<open>\<open>placed L steps parent\<close>: the steps of a list stand where \<open>L\<close> says, below \<open>parent\<close>.\<close>

definition placed :: "(path \<Rightarrow> ('v, 'w) step \<Rightarrow> bool) \<Rightarrow> ('v, 'w) step list \<Rightarrow> path \<Rightarrow> bool" where
  "placed L steps parent \<longleftrightarrow> (\<forall>s \<in> set steps. L (parent @ [StepName s]) s)"

locale run_property = kept_relation N
  for N :: "('v, 'w) mach \<Rightarrow> ('v, 'w) mach \<Rightarrow> bool" +
  fixes env :: "('v, 'w) env" and p :: "('v, 'w) pipeline"
    and E :: "err \<Rightarrow> ('v, 'w) mach \<Rightarrow> ('v, 'w) mach \<Rightarrow> bool"
    and L :: "path \<Rightarrow> ('v, 'w) step \<Rightarrow> bool"
  assumes N_world: "N m (m\<lparr>world := w\<rparr>)"
    and N_store: "N m (m\<lparr>store := d\<rparr>)"
    and N_call: "callback c \<Longrightarrow> (\<And>q. step_call c = Some q \<Longrightarrow> \<exists>s. L q s) \<Longrightarrow>
          N m (m\<lparr>store := d, world := w, effs := effs m @ [c]\<rparr>)"
    and N_frame: "frame_upd (rs m) st \<Longrightarrow> N m (m\<lparr>rs := st\<rparr>)"
    and N_append: "(HasCompensator cs \<Longrightarrow> \<exists>s act. L (Path cs) s \<and> StepAction s = Some act \<and> Compensate act \<noteq> None) \<Longrightarrow>
          N m (m\<lparr>rs := (rs m)\<lparr>CompletedSteps := CompletedSteps (rs m) @ [cs]\<rparr>\<rparr>)"
    and N_compact: "L q s \<Longrightarrow> StepBranch s = None \<Longrightarrow> StepRepeat s = Some re \<Longrightarrow> History re = RepeatHistoryCompact \<Longrightarrow>
          in_i64 i \<Longrightarrow> N m (m\<lparr>rs := compactRepeatIteration (rangeDiagnostics env) q i (rs m)\<rparr>)"
    and N_saved: "call_snapshot env op m = Some (None, m') \<Longrightarrow> N m m'"
    and E_failed: "call_snapshot env op m = Some (Some e, m') \<Longrightarrow> E (ErrSnapshotFailed op e) m m'"
    and E_snapshot: "E e m m' \<Longrightarrow> is_snapshot_failed e"
    and E_before: "N m m' \<Longrightarrow> E e m' m'' \<Longrightarrow> E e m m''"
    and E_world: "E e m m' \<Longrightarrow> E e m (m'\<lparr>world := w\<rparr>)"
    and L_branch: "L q s \<Longrightarrow> StepAction s = None \<Longrightarrow> StepPoll s = None \<Longrightarrow> StepBranch s = Some br \<Longrightarrow>
          map_of (Paths br) k = Some ss \<Longrightarrow> placed L ss (q @ [k])"
    and L_repeat: "L q s \<Longrightarrow> StepAction s = None \<Longrightarrow> StepPoll s = None \<Longrightarrow> StepBranch s = None \<Longrightarrow>
          StepRepeat s = Some re \<Longrightarrow> in_i64 i \<Longrightarrow> placed L (RepeatSteps re) (q @ [itoa i])"
begin

definition safe :: "('v, 'w, err option) exec \<Rightarrow> bool" where
  "safe m \<longleftrightarrow> (\<forall>s r s'. m s = Some (r, s') \<longrightarrow> N s s' \<or> (\<exists>e. r = Some e \<and> E e s s'))"

lemma safe_keeps: "keeps N m \<Longrightarrow> safe m"
  by (simp add: safe_def keeps_def)

lemma safe_seqm: "keeps N m \<Longrightarrow> safe k \<Longrightarrow> safe (seqm m k)"
  unfolding seqm_def safe_def keeps_def bnd_Some_iff by (blast intro: kept_trans E_before)

lemma safe_bnd: "keeps N m \<Longrightarrow> (\<And>x. safe (f x)) \<Longrightarrow> safe (bnd m f)"
  unfolding safe_def keeps_def bnd_Some_iff by (blast intro: kept_trans E_before)

lemma safe_if: "(b \<Longrightarrow> safe m) \<Longrightarrow> (\<not> b \<Longrightarrow> safe k) \<Longrightarrow> safe (if b then m else k)"
  by simp

lemma safe_option:
  "(x = None \<Longrightarrow> safe m) \<Longrightarrow> (\<And>y. x = Some y \<Longrightarrow> safe (f y)) \<Longrightarrow> safe (case x of None \<Rightarrow> m | Some y \<Rightarrow> f y)"
  by (cases x) auto

lemma safe_on_err_keeps:
  assumes "keeps N m" and "\<And>e. safe (h e)" and "safe k"
  shows "safe (on_err m h k)"
  unfolding on_err_def by (rule safe_bnd [OF assms(1)]) (auto intro: assms split: option.split)

lemma safe_on_err:
  assumes m: "safe m" and h: "\<And>e. is_snapshot_failed e \<Longrightarrow> h e = fail e" "\<And>e. safe (h e)" and k: "safe k"
  shows "safe (on_err m h k)"
  unfolding safe_def
proof (intro allI impI)
  fix s r s'
  assume "on_err m h k s = Some (r, s')"
  then obtain x t where t: "m s = Some (x, t)" "(case x of Some e \<Rightarrow> h e | None \<Rightarrow> k) t = Some (r, s')"
    by (auto simp: on_err_def bnd_Some_iff)
  from m t(1) consider "N s t" | e where "x = Some e" "E e s t" unfolding safe_def by blast
  then show "N s s' \<or> (\<exists>e. r = Some e \<and> E e s s')"
  proof cases
    case 1
    have "N t s' \<or> (\<exists>e. r = Some e \<and> E e t s')"
      using t(2) h(2) k by (cases x) (auto simp: safe_def)
    with 1 show ?thesis by (blast intro: kept_trans E_before)
  next
    case 2
    then have "h e = fail e" by (intro h(1) E_snapshot)
    with 2 t(2) show ?thesis by auto
  qed
qed

lemma safe_on_err_fail: "safe m \<Longrightarrow> safe k \<Longrightarrow> safe (on_err m fail k)"
  by (rule safe_on_err) (auto intro: safe_keeps kept_ret simp: fail_def)

lemma keeps_if: "(b \<Longrightarrow> keeps N m) \<Longrightarrow> (\<not> b \<Longrightarrow> keeps N k) \<Longrightarrow> keeps N (if b then m else k)"
  by simp

lemma keeps_option:
  "keeps N m \<Longrightarrow> (\<And>y. x = Some y \<Longrightarrow> keeps N (f y)) \<Longrightarrow> keeps N (case x of None \<Rightarrow> m | Some y \<Rightarrow> f y)"
  by (cases x) auto

subsection \<open>Primitives\<close>

lemma keeps_fail: "keeps N (fail e)"
  by (simp add: fail_def kept_ret)

lemma keeps_ctx_err: "keeps N (ctx_err env)"
  by (auto simp: keeps_def ctx_err_Some_iff N_world)

lemma keeps_now: "keeps N (now env)"
  by (auto simp: keeps_def now_Some_iff N_world)

lemma keeps_observe: "keeps N (observe env p ev)"
proof (rule keepsI)
  fix m u m' assume "observe env p ev m = Some (u, m')"
  moreover obtain w' where "observe env p ev m = Some ((), m\<lparr>world := w'\<rparr>)"
    using observe_Some [of env p ev m] by blast
  ultimately show "N m m'" by (auto intro: N_world)
qed

lemma N_call': "callback c \<Longrightarrow> step_call c = None \<Longrightarrow> N m (m\<lparr>world := w, effs := effs m @ [c]\<rparr>)"
  using N_call [where c = c and m = m and d = "store m" and w = w] by simp

lemma keeps_sleep: "keeps N (sleep env d)"
  by (auto simp: keeps_def sleep_Some_iff intro!: N_call')

lemma keeps_invoke:
  "(\<And>r. callback (tag r)) \<Longrightarrow> (\<And>r q. step_call (tag r) = Some q \<Longrightarrow> \<exists>s. L q s) \<Longrightarrow> keeps N (invoke tag f)"
  by (auto simp: keeps_def invoke_Some_iff intro!: N_call)

lemma keeps_calls:
  "L q s \<Longrightarrow> keeps N (invoke (OnEnterCalled q) f1)" "L q s \<Longrightarrow> keeps N (invoke (DoCalled q) f2)"
  "L q s \<Longrightarrow> keeps N (invoke (\<lambda>(d, r, e). CheckCalled q e) f3)"
  "L q s \<Longrightarrow> keeps N (invoke (\<lambda>x. DecideCalled q (snd x)) f4)"
  "L q s \<Longrightarrow> keeps N (invoke (\<lambda>x. UntilCalled q i (snd (snd x))) f5)" "keeps N (invoke (CompensateCalled q) f6)"
  by (auto intro!: keeps_invoke split: prod.splits)

lemma keeps_get_rs: "keeps N get_rs"
  unfolding get_rs_def by (rule kept_gets)

lemma keeps_upd_rs: "(\<And>st. frame_upd st (f st)) \<Longrightarrow> keeps N (upd_rs f)"
  by (auto simp: keeps_def intro!: N_frame)

lemma keeps_put_diag: "keeps N (put_diag path d)"
  by (auto simp: keeps_def put_diag_Some_iff intro!: N_frame)

lemma keeps_put_repeat: "keeps N (put_repeat path r)"
  by (auto simp: keeps_def put_repeat_Some_iff intro!: N_frame)

lemma keeps_append_plain: "keeps N (append_completed path False)"
  by (auto simp: keeps_def append_completed_def intro!: N_append)

lemma keeps_append_action:
  "L path s \<Longrightarrow> StepAction s = Some act \<Longrightarrow> keeps N (append_completed path (Compensate act \<noteq> None))"
  by (auto simp: keeps_def append_completed_def intro!: N_append) blast

definition repeat_at :: "path \<Rightarrow> int \<Rightarrow> ('v, 'w) repeat_step \<Rightarrow> bool" where
  "repeat_at q i re \<longleftrightarrow> in_i64 i \<and> (\<exists>s. L q s \<and> StepBranch s = None \<and> StepRepeat s = Some re)"

lemma keeps_compact:
  "repeat_at q i re \<Longrightarrow> History re = RepeatHistoryCompact \<Longrightarrow>
     keeps N (upd_rs (compactRepeatIteration (rangeDiagnostics env) q i))"
  by (auto simp: keeps_def repeat_at_def intro!: N_compact)

lemmas prims =
  kept_ret kept_gets kept_panic kept_bnd kept_seqm kept_on_err keeps_if keeps_option
  keeps_fail keeps_ctx_err keeps_now keeps_observe keeps_sleep keeps_get_rs keeps_put_diag
  keeps_put_repeat keeps_append_plain

lemma keeps_small:
  "keeps N (set_path q)" "keeps N (set_status s)" "keeps N (set_poll_start t)" "keeps N (set_comp_index i)"
  "keeps N make_diags" "keeps N make_repeats" "keeps N (get_diag q)"
  unfolding set_path_def set_status_def set_poll_start_def set_comp_index_def make_diags_def
    make_repeats_def get_diag_def
  by (auto intro!: keeps_upd_rs kept_gets)

lemma keeps_save_data: "keeps N (save_data env)"
  unfolding save_data_def
  by (intro kept_bnd kept_gets) (auto split: sum.split intro!: prims keeps_upd_rs)

lemma keeps_save_data_unchecked: "keeps N (save_data_unchecked env)"
  unfolding save_data_unchecked_def by (intro kept_bnd kept_gets keeps_upd_rs) simp

lemma keeps_observe_snapshot: "keeps N (observe_snapshot env p ty t op c)"
  unfolding observe_snapshot_def by (auto intro!: prims)

lemma keeps_recordAttemptData: "keeps N (recordAttemptData env q)"
  unfolding recordAttemptData_def Let_def by (intro prims keeps_small)

lemma keeps_recordAttempt: "keeps N (recordAttempt env p q it)"
  unfolding recordAttempt_def by (intro prims keeps_recordAttemptData)

lemma keeps_mark_attempt: "keeps N (mark_attempt env p b q it)"
  unfolding mark_attempt_def by (intro prims keeps_recordAttemptData keeps_recordAttempt)

lemma keeps_recordError: "keeps N (recordError q e)"
  unfolding recordError_def by (intro prims keeps_small)

lemma keeps_recordCompleted: "keeps N (recordCompleted env q)"
  unfolding recordCompleted_def by (intro prims keeps_small)

lemma keeps_recordNextRun: "keeps N (recordNextRun env q d c)"
  unfolding recordNextRun_def by (intro prims keeps_small)

lemma keeps_activeStepDuration: "keeps N (activeStepDuration env q)"
  unfolding activeStepDuration_def by (intro prims keeps_small)

lemma keeps_observe_step: "keeps N (observe_step env p ty q it d op c)"
  unfolding observe_step_def by (intro prims)

lemma keeps_observe_completed: "keeps N (observe_completed env p q it op)"
  unfolding observe_completed_def by (intro prims keeps_observe_step)

lemma keeps_fail_timed: "keeps N (fail_timed env p q it op e)"
  unfolding fail_timed_def by (intro prims keeps_observe_step keeps_activeStepDuration)

lemma keeps_fail_untimed: "keeps N (fail_untimed env p q it op e)"
  unfolding fail_untimed_def by (intro prims keeps_observe_step)

lemmas records =
  keeps_small keeps_save_data keeps_save_data_unchecked keeps_observe_snapshot
  keeps_recordAttemptData keeps_recordAttempt keeps_mark_attempt keeps_recordError
  keeps_recordCompleted keeps_recordNextRun keeps_activeStepDuration keeps_observe_step
  keeps_observe_completed keeps_fail_timed keeps_fail_untimed

subsection \<open>Snapshots and deferral\<close>

lemma safe_snapshot: "safe (snapshot env p op)"
proof -
  have "safe (on_err (call_snapshot env op)
          (\<lambda>e. let e' = ErrSnapshotFailed op e in
             seqm (observe_snapshot env p EventSnapshotFailed t op (Some e')) (ret (Some e')))
          (seqm (observe_snapshot env p EventSnapshotSucceeded t op None) (ret None)))" for t
    unfolding safe_def
  proof (intro allI impI)
    fix s r s'
    assume "on_err (call_snapshot env op)
          (\<lambda>e. let e' = ErrSnapshotFailed op e in
             seqm (observe_snapshot env p EventSnapshotFailed t op (Some e')) (ret (Some e')))
          (seqm (observe_snapshot env p EventSnapshotSucceeded t op None) (ret None)) s = Some (r, s')"
    then obtain x m where m: "call_snapshot env op s = Some (x, m)"
      and h: "(case x of
          Some e \<Rightarrow> seqm (observe_snapshot env p EventSnapshotFailed t op (Some (ErrSnapshotFailed op e)))
                      (ret (Some (ErrSnapshotFailed op e)))
        | None \<Rightarrow> seqm (observe_snapshot env p EventSnapshotSucceeded t op None) (ret None)) m = Some (r, s')"
      by (auto simp: on_err_def bnd_Some_iff Let_def)
    show "N s s' \<or> (\<exists>e. r = Some e \<and> E e s s')"
    proof (cases x)
      case None
      then have "N s m" using m by (simp add: N_saved)
      moreover have "N m s'"
        using h None keeps_observe_snapshot [of EventSnapshotSucceeded t op None]
        by (auto simp: seqm_def bnd_Some_iff keeps_def)
      ultimately show ?thesis by (blast intro: kept_trans)
    next
      case (Some e)
      then have "E (ErrSnapshotFailed op e) s m" using m by (simp add: E_failed)
      then show ?thesis
        using h Some by (auto simp: seqm_def bnd_Some_iff world_only_def
              dest!: keepsD [OF observe_snapshot_world_only] intro: E_world)
    qed
  qed
  note core = this
  show ?thesis
    unfolding snapshot_def
    by (rule safe_if, (intro safe_keeps prims)[1], rule safe_bnd [OF _ core]) (intro prims)
qed

lemmas safe_rules = safe_if safe_option safe_seqm safe_bnd

lemma safe_persistDeferred: "safe (persistDeferred env p q e polling op it)"
  unfolding persistDeferred_def
proof (cases "deferredDetails e" rule: prod_cases4)
  case (fields delay cause e' ok)
  show "safe (case deferredDetails e of (delay, cause, normalizedErr, _) \<Rightarrow>
      seqm (if polling then upd_rs (\<lambda>st. st\<lparr>Status := RunStatusPolling\<rparr>) else ret ())
      (seqm (recordNextRun env q delay cause)
      (on_err (save_data env) fail
      (on_err (snapshot env p op) fail
      (seqm
        (if observer env = None then ret ()
         else bnd get_rs (\<lambda>st.
           observe env p (Ev EventDelayedContinuation q (diagnosticAttempts st q)
             (or_else it (repeatIterationForPath (PSteps p) q)) delay op cause)))
        (fail normalizedErr))))))"
    unfolding fields prod.case
    by (intro safe_seqm safe_on_err_fail safe_snapshot)
      ((intro safe_keeps prims records keeps_upd_rs; simp)+)?
qed

lemma safe_defer_or_fail: "safe k \<Longrightarrow> safe (defer_or_fail env p q e polling it k)"
  unfolding defer_or_fail_def by (intro safe_if safe_persistDeferred)

subsection \<open>Handlers\<close>

lemma keeps_retry_loop: "(\<And>b. keeps N (fn b)) \<Longrightarrow> keeps N (retry_loop env fn backoff first n delay)"
proof (induction n arbitrary: first delay)
  case (Suc n)
  then show ?case unfolding retry_loop.simps by (intro prims Suc)
qed (simp add: kept_ret)

lemma keeps_runWithRetry: "(\<And>b. keeps N (fn b)) \<Longrightarrow> keeps N (runWithRetry env rt fn)"
  unfolding runWithRetry_def by (rule keeps_retry_loop)

lemma keeps_action_attempt: "L q s \<Longrightarrow> keeps N (action_attempt env p q act ar first)"
  unfolding action_attempt_def by (intro prims records keeps_calls(2))

lemma safe_executeAction:
  assumes "L q s" and "StepAction s = Some act"
  shows "safe (executeAction env p n rt act q ar)"
  unfolding executeAction_def Let_def
  by (intro safe_on_err_keeps keeps_runWithRetry keeps_action_attempt [OF assms(1)] safe_defer_or_fail safe_keeps records
      safe_seqm safe_on_err_fail safe_snapshot prims keeps_append_action [OF assms])

lemma safe_poll_timeout: "safe (poll_timeout env p n po q ar)"
  unfolding poll_timeout_def Let_def by (intro safe_keeps prims records)

lemma safe_poll_failed: "safe (poll_failed env p n q e)"
  unfolding poll_failed_def Let_def by (intro safe_seqm safe_defer_or_fail safe_keeps prims records)

lemma safe_poll_completed: "safe (poll_completed env p q)"
  unfolding poll_completed_def
  by (intro safe_seqm safe_on_err_fail safe_snapshot safe_keeps prims records)

lemma safe_poll_check: "L q s \<Longrightarrow> safe (poll_check env p n po q ar)"
  unfolding poll_check_def
  by (intro safe_seqm safe_bnd keeps_calls(3) records)
    (auto intro!: safe_seqm safe_poll_failed safe_poll_completed safe_persistDeferred records split: option.split)

lemma safe_executePoll: "L q s \<Longrightarrow> safe (executePoll env p n po q ar)"
  unfolding executePoll_def
  by (intro safe_bnd safe_seqm safe_if safe_poll_timeout safe_poll_check prims keeps_upd_rs)
    (simp add: frame_upd_def)

definition runs :: "('v, 'w) runner \<Rightarrow> ('v, 'w) step \<Rightarrow> bool" where
  "runs rec s \<longleftrightarrow> (\<forall>ss \<in> children s. \<forall>i q. placed L ss q \<longrightarrow> safe (rec ss i q))"

lemma safe_executeBranch:
  assumes "L q s" "StepAction s = None" "StepPoll s = None" and br: "StepBranch s = Some br" and "runs rec s"
  shows "safe (executeBranch env p rec n br q ar)"
proof -
  have child: "safe (rec ss i (q @ [k]))" if "map_of (Paths br) k = Some ss" for k ss i
    using assms that unfolding runs_def by (auto intro: L_branch map_of_children)
  then have "safe (branch_resume rec n br q cur)" for cur
    unfolding branch_resume_def Let_def by (auto intro!: safe_keeps keeps_fail split: option.split)
  moreover have enter: "safe (branch_enter env p rec q k ss)" if "map_of (Paths br) k = Some ss" for k ss
    unfolding branch_enter_def
    by (intro safe_seqm safe_if safe_on_err_fail safe_snapshot child [OF that])
      (intro safe_keeps prims records)+
  have "safe (branch_decide env p rec n br q ar)"
    unfolding branch_decide_def Let_def split_beta
    by (intro safe_bnd safe_option safe_seqm safe_defer_or_fail keeps_calls(4) [OF assms(1)] enter; simp?)
      (intro safe_keeps prims records; simp)+
  ultimately show ?thesis
    unfolding executeBranch_def by (intro safe_bnd safe_if keeps_get_rs)
qed

subsection \<open>Repeats\<close>

lemma keeps_repeatTimedOut: "keeps N (repeatTimedOut env re r)"
  unfolding repeatTimedOut_def by (intro prims)

lemma keeps_repeatTimeout: "keeps N (repeatTimeout env p n re q i)"
  unfolding repeatTimeout_def Let_def by (intro prims records)

lemma safe_ensureRepeatStarted: "safe (ensureRepeatStarted env p q)"
  unfolding ensureRepeatStarted_def Let_def
  by (intro safe_bnd safe_if safe_seqm safe_snapshot prims records) (rule safe_keeps [OF kept_ret])

lemma safe_repeat_done: "safe (repeat_done env p q i r)"
  unfolding repeat_done_def
  by (intro safe_seqm safe_on_err_fail safe_snapshot) (intro safe_keeps prims records)+

lemma safe_repeat_yield: "safe (repeat_yield env p re q i r ra)"
  unfolding repeat_yield_def Let_def by (intro safe_seqm safe_persistDeferred prims records)

lemma keeps_repeat_limit: "keeps N (repeat_limit env p n re q i)"
  unfolding repeat_limit_def Let_def by (intro prims records)

lemma safe_repeat_decided: "repeat_at q i re \<Longrightarrow> safe (repeat_decided env p n re q i r t fin ra)"
  unfolding repeat_decided_def
  by (intro safe_seqm safe_if safe_repeat_done safe_repeat_yield safe_keeps keeps_repeat_limit keeps_compact prims records)

lemma safe_repeat_condition:
  assumes "repeat_at q i re"
  shows "safe (repeat_condition env p n re q ar i r t)"
proof -
  obtain s where "L q s" using assms unfolding repeat_at_def by blast
  note until = keeps_calls(5) [OF this]
  show ?thesis
  unfolding repeat_condition_def Let_def split_beta
  by (intro safe_bnd safe_option safe_seqm safe_if safe_defer_or_fail safe_repeat_decided [OF assms] until
      keeps_repeatTimedOut)
    (intro safe_keeps prims records keeps_repeatTimeout | simp)+
qed

lemma keeps_repeat_begin: "keeps N (repeat_begin env p q i r)"
  unfolding repeat_begin_def by (intro prims records)

lemma safe_executeRepeat:
  assumes "L q s" "StepAction s = None" "StepPoll s = None" "StepBranch s = None"
    and re: "StepRepeat s = Some re" and "runs rec s"
  shows "safe (executeRepeat env p rec n re q ar)"
proof -
  have child: "safe (rec (RepeatSteps re) k (q @ [itoa i]))" if "in_i64 i" for i k
    using assms that unfolding runs_def by (auto intro: L_repeat repeat_children)
  have body: "safe (bnd (repeat_begin env p q i r) (\<lambda>t.
      if AwaitingCondition r then repeat_condition env p n re q ar i r t
      else on_err (rec (RepeatSteps re) k (q @ [itoa i])) fail
        (bnd get_rs (\<lambda>st'.
          if Status st' \<noteq> RunStatusRunning then ret None
          else seqm (put_repeat q (r\<lparr>AwaitingCondition := True\<rparr>))
                 (repeat_condition env p n re q ar i (r\<lparr>AwaitingCondition := True\<rparr>) t)))))"
    if at: "repeat_at q i re" for i k r
    by (intro safe_bnd safe_if safe_on_err_fail safe_seqm safe_repeat_condition [OF at]
        child [OF conjunct1 [OF at [unfolded repeat_at_def]]]
        keeps_repeat_begin prims) (rule safe_keeps [OF kept_ret])
  have "safe (case repeat_resume_point st re q of
      Inl saved \<Rightarrow> fail (ErrStepFailed n q (errorf (''invalid saved repeat iteration '' @ go_quote saved)))
    | Inr (iteration, k) \<Rightarrow>
        (let r = (get_repeat st q)\<lparr>Iteration := iteration, Completed := False\<rparr> in
         bnd (repeat_begin env p q iteration r) (\<lambda>t.
         if AwaitingCondition r then repeat_condition env p n re q ar iteration r t
         else on_err (rec (RepeatSteps re) k (q @ [itoa iteration])) fail
           (bnd get_rs (\<lambda>st'.
             if Status st' \<noteq> RunStatusRunning then ret None
             else (let r' = r\<lparr>AwaitingCondition := True\<rparr> in
               seqm (put_repeat q r') (repeat_condition env p n re q ar iteration r' t)))))))" for st
  proof (cases "repeat_resume_point st re q")
    case (Inl saved)
    then show ?thesis by (simp add: safe_keeps keeps_fail)
  next
    case (Inr pr)
    obtain i k where ik: "pr = (i, k)" by (cases pr)
    show ?thesis
      unfolding Inr ik sum.case prod.case Let_def
      by (rule body) (use assms repeat_resume_point_range [OF Inr [unfolded ik]] in \<open>auto simp: repeat_at_def\<close>)
  qed
  then show ?thesis
    unfolding executeRepeat_def by (intro safe_bnd keeps_get_rs)
qed

subsection \<open>One step\<close>

lemma safe_repeat_entry: "safe (repeat_entry env p s q)"
  unfolding repeat_entry_def Let_def
  by (intro safe_option safe_if safe_on_err_fail safe_bnd safe_ensureRepeatStarted keeps_repeatTimedOut prims)
    (intro safe_keeps prims records keeps_repeatTimeout)+

lemma safe_run_on_enter: "L q s \<Longrightarrow> safe (run_on_enter env p s q)"
  unfolding run_on_enter_def Let_def observe_on_enter_def
  by (intro safe_seqm safe_on_err_keeps safe_defer_or_fail keeps_calls(1) prims)
    (simp | intro safe_keeps prims records keeps_repeatTimedOut keeps_repeatTimeout)+

lemma safe_dispatch:
  assumes "L q s" and "runs rec s"
  shows "safe (dispatch env p rec s q ar)"
  unfolding dispatch_def
  using assms
  by (auto split: option.split
      intro: safe_executeAction safe_executePoll safe_executeBranch safe_executeRepeat safe_keeps keeps_fail)

lemma safe_executeStep:
  assumes "L q s" and "runs rec s"
  shows "safe (executeStep env p rec s q)"
  unfolding executeStep_def
  by (intro safe_on_err_fail safe_if safe_repeat_entry safe_run_on_enter safe_dispatch assms)

subsection \<open>Compensation\<close>

lemma safe_compensation_end: "safe (compensation_end env p orig)"
  unfolding compensation_end_def
  by (intro safe_seqm safe_on_err_fail safe_snapshot) (intro safe_keeps prims records)+

lemma safe_compensation_failed: "safe (compensation_failed env p orig i q n t e)"
  unfolding compensation_failed_def
  by (intro safe_seqm safe_on_err_keeps safe_if safe_bnd safe_persistDeferred safe_on_err_fail safe_snapshot prims records)
    (intro safe_keeps prims records)+

lemma safe_compensation_succeeded: "safe k \<Longrightarrow> safe (compensation_succeeded env p i q t k)"
  unfolding compensation_succeeded_def
  by (intro safe_seqm safe_bnd safe_on_err_fail safe_snapshot prims records)
    (assumption | intro safe_keeps prims records)+

lemma safe_compensate_loop: "safe (compensate_loop env p orig k)"
proof (induction k)
  case 0
  show ?case by (simp add: safe_compensation_end)
next
  case (Suc i)
  have resolve: "safe (case find_compensator p (Path cs) of
      None \<Rightarrow> seqm (set_comp_index (int i - 1)) (compensate_loop env p orig i)
    | Some (name, f) \<Rightarrow>
        bnd (now env) (\<lambda>startedAt.
        seqm (observe env p (Ev EventCompensationStarted (Path cs) 0 None 0 ''compensation step'' None))
        (on_err (invoke (CompensateCalled (Path cs)) (Some f))
          (compensation_failed env p orig i (Path cs) name startedAt)
          (compensation_succeeded env p i (Path cs) startedAt (compensate_loop env p orig i)))))" for cs
    unfolding split_beta
    by (intro safe_option safe_bnd safe_seqm safe_on_err_keeps safe_compensation_failed
        safe_compensation_succeeded keeps_calls(6) Suc prims records)
  then show ?case
    unfolding compensate_loop.simps Let_def
    by (intro safe_bnd safe_if safe_seqm safe_on_err_keeps Suc resolve keeps_get_rs keeps_ctx_err records)
      (intro safe_keeps prims records)+
qed

lemma safe_runCompensation: "safe (runCompensation env p)"
  unfolding runCompensation_def by (intro safe_seqm safe_bnd safe_compensate_loop prims)

subsection \<open>The step loop\<close>

lemma keeps_cancel_at: "keeps N (cancel_at env p q ce)"
  unfolding cancel_at_def by (intro prims records)

lemma safe_fail_without_compensation: "safe (fail_without_compensation env p q e)"
  unfolding fail_without_compensation_def
  by (intro safe_seqm safe_on_err_fail safe_snapshot keeps_upd_rs) (simp | intro safe_keeps prims records)+

lemma safe_start_compensation: "safe (start_compensation env p q e)"
  unfolding start_compensation_def
  by (intro safe_seqm safe_on_err_fail safe_if safe_snapshot safe_runCompensation keeps_upd_rs)
    (intro safe_keeps prims records | simp add: frame_upd_def)+

lemma safe_handle_step_error: "safe (handle_step_error env p q e)"
  unfolding handle_step_error_def
  by (intro safe_if safe_on_err_keeps safe_bnd safe_fail_without_compensation safe_start_compensation
      keeps_ctx_err keeps_get_rs)
    (intro safe_keeps prims records keeps_cancel_at)+

lemma handle_snapshot_failed: "is_snapshot_failed e \<Longrightarrow> handle_step_error env p q e = fail e"
  by (simp add: handle_step_error_def)

lemma placed_Cons: "placed L (s # ss) q \<longleftrightarrow> L (q @ [StepName s]) s \<and> placed L ss q"
  by (simp add: placed_def)

lemma safe_steps_loop:
  "placed L steps q \<Longrightarrow> (\<And>s. s \<in> set steps \<Longrightarrow> runs rec s) \<Longrightarrow> safe (steps_loop env p rec q resume first steps)"
proof (induction steps arbitrary: first)
  case Nil
  then show ?case by (simp add: safe_keeps kept_ret)
next
  case (Cons s ss)
  have rest: "safe (steps_loop env p rec q resume f ss)" for f
    using Cons by (simp add: placed_Cons)
  have step: "safe (executeStep env p rec s (q @ [StepName s]))"
    using Cons.prems by (intro safe_executeStep) (simp_all add: placed_Cons)
  show ?case
    unfolding steps_loop.simps Let_def
    by (intro safe_bnd safe_if rest safe_on_err_keeps safe_seqm safe_on_err [OF step]
        handle_snapshot_failed safe_handle_step_error prims records)
      (intro safe_keeps prims records keeps_cancel_at | assumption)+
qed

lemma placed_drop: "placed L steps q \<Longrightarrow> placed L (drop k steps) q"
  unfolding placed_def by (blast dest: in_set_dropD)

theorem safe_executeSteps: "placed L steps q \<Longrightarrow> safe (executeSteps env p steps k q)"
proof (induction "size_list size steps" arbitrary: steps k q rule: less_induct)
  case less
  have "runs (executeSteps env p) s" if "s \<in> set (drop k steps)" for s
    unfolding runs_def using that less.hyps by (blast dest: in_set_dropD intro: size_child)
  then show ?case
    by (subst executeSteps.simps)
      (intro safe_bnd kept_gets safe_steps_loop placed_drop less.prems)
qed

subsection \<open>Run after admission\<close>

lemma safe_resume_compensation: "safe (resume_compensation env p)"
  unfolding resume_compensation_def
  by (intro safe_seqm safe_on_err_fail safe_bnd safe_snapshot safe_runCompensation records prims)
    (intro safe_keeps prims)

lemma safe_complete_run: "safe (complete_run env p)"
  unfolding complete_run_def
  by (intro safe_bnd safe_if safe_seqm safe_on_err_fail safe_snapshot prims records)
    (intro safe_keeps prims)+

lemma safe_run_steps: "placed L (PSteps p) [] \<Longrightarrow> safe (run_steps env p)"
  unfolding run_steps_def
  by (intro safe_bnd safe_seqm safe_on_err_fail safe_snapshot safe_complete_run safe_executeSteps prims records)

lemma keeps_run_canceled: "keeps N (run_canceled env p ce)"
  unfolding run_canceled_def by (intro prims)

theorem safe_run_admitted: "placed L (PSteps p) [] \<Longrightarrow> safe (run_admitted env p)"
  unfolding run_admitted_def
  by (intro safe_seqm safe_on_err_keeps safe_bnd safe_if safe_resume_compensation safe_run_steps
      safe_keeps [OF keeps_run_canceled] prims)
    (auto simp: restore_store_def keeps_def intro: N_store)

subsection \<open>Run\<close>

lemma safe_migrate:
  assumes mig: "\<And>m w st' w'. f (PName p) (Version (rs m)) (PVersion p) (rs m) w = ((st', None), w') \<Longrightarrow>
      N m (m\<lparr>rs := st'\<lparr>Version := PVersion p\<rparr>\<rparr>)"
  shows "safe (migrate env p f)"
proof -
  have ok: "safe (migration_done env p t0)" for t0
    unfolding migration_done_def by (intro safe_on_err_fail safe_snapshot) (intro safe_keeps prims)
  have bad: "safe (migration_failed env p v t0 e)" for v t0 e
    unfolding migration_failed_def Let_def by (intro safe_keeps prims)
  have "safe (bnd (call_migrator p f) (\<lambda>(migrated, e).
       case e of
         Some me \<Rightarrow> migration_failed env p v t0 me
       | None \<Rightarrow> seqm (upd_rs (\<lambda>_. migrated\<lparr>Version := PVersion p\<rparr>)) (migration_done env p t0)))" for v t0
    unfolding safe_def
  proof (intro allI impI)
    fix s r s'
    assume "bnd (call_migrator p f) (\<lambda>(migrated, e).
       case e of
         Some me \<Rightarrow> migration_failed env p v t0 me
       | None \<Rightarrow> seqm (upd_rs (\<lambda>_. migrated\<lparr>Version := PVersion p\<rparr>)) (migration_done env p t0)) s
         = Some (r, s')"
    then obtain st' e w' where
      call: "f (PName p) (Version (rs s)) (PVersion p) (rs s) (world s) = ((st', e), w')"
      and rest: "(case e of
         Some me \<Rightarrow> migration_failed env p v t0 me
       | None \<Rightarrow> seqm (upd_rs (\<lambda>_. st'\<lparr>Version := PVersion p\<rparr>)) (migration_done env p t0))
           (s\<lparr>world := w', effs := effs s @ [MigratorCalled e]\<rparr>) = Some (r, s')"
      by (cases "f (PName p) (Version (rs s)) (PVersion p) (rs s) (world s)")
        (auto simp: bnd_Some_iff call_migrator_def Let_def)
    let ?m = "s\<lparr>world := w', effs := effs s @ [MigratorCalled e]\<rparr>"
    have sm: "N s ?m" by (rule N_call') simp_all
    show "N s s' \<or> (\<exists>e. r = Some e \<and> E e s s')"
    proof (cases e)
      case None
      have "N ?m (?m\<lparr>rs := st'\<lparr>Version := PVersion p\<rparr>\<rparr>)"
        by (rule mig [where w = "world s" and w' = w']) (use call None in simp)
      with sm have "N s (?m\<lparr>rs := st'\<lparr>Version := PVersion p\<rparr>\<rparr>)" by (rule kept_trans)
      then show ?thesis
        using rest None ok [of t0]
        by (auto simp: seqm_def bnd_Some_iff safe_def dest!: spec intro: kept_trans E_before)
    next
      case (Some me)
      then show ?thesis
        using sm rest bad [of v t0 me]
        by (auto simp: safe_def dest!: spec intro: kept_trans E_before)
    qed
  qed
  note core = this
  show ?thesis
    unfolding migrate_def by (rule safe_bnd [OF keeps_get_rs safe_bnd [OF keeps_now core]])
qed

lemma safe_admit:
  assumes stamp: "\<And>m. N m (m\<lparr>rs := (rs m)\<lparr>Version := PVersion p\<rparr>\<rparr>)"
    and mig: "\<And>f. stateMigrator env = Some f \<Longrightarrow> safe (migrate env p f)"
    and m: "admit env p s = Some (r, s')"
  shows "N s s' \<or> (\<exists>e. r = Some (Some e) \<and> E e s s')"
proof -
  have rest: "keeps N (bnd get_rs (\<lambda>st'.
          case checkVersion p st' of
            Some e \<Rightarrow>
              seqm (observe env p (Ev EventVersionMismatch [] 0 None 0 ''version check'' (Some e)))
                (ret (Some (Some e)))
          | None \<Rightarrow>
              (if IsTerminal st' then
                 seqm (observe env p (Ev EventPipelineCompleted [] 0 None 0 ''state migration'' None))
                   (ret (Some None))
               else ret None)))" (is "keeps N ?rest")
    by (intro prims)
  let ?mig = "case stateMigrator env of
      Some f \<Rightarrow> if Version (rs s) \<noteq> PVersion p then migrate env p f else ret None
    | None \<Rightarrow> ret None"
  have safe_mig: "safe ?mig"
    by (intro safe_option safe_if mig) (auto intro: safe_keeps kept_ret)
  consider (new) "seqm (upd_rs (\<lambda>st. st\<lparr>Version := PVersion p\<rparr>)) (ret None) s = Some (r, s')"
    | (newer) e where "seqm (observe env p e)
        (ret (Some (Some (versionMismatchError p (rs s))))) s = Some (r, s')"
    | (older) "on_err ?mig (\<lambda>e. ret (Some (Some e))) ?rest s = Some (r, s')"
    using m by (auto simp: admit_def bnd_Some_iff Let_def split: if_splits)
  then show ?thesis
  proof cases
    case new
    then show ?thesis using stamp by (auto simp: seqm_def bnd_Some_iff)
  next
    case newer
    then show ?thesis using keeps_observe by (auto simp: seqm_def bnd_Some_iff dest: keepsD)
  next
    case older
    then obtain x t where x: "?mig s = Some (x, t)"
      "(case x of Some e \<Rightarrow> ret (Some (Some e)) | None \<Rightarrow> ?rest) t = Some (r, s')"
      unfolding on_err_def bnd_Some_iff by blast
    from x(1) safe_mig have "N s t \<or> (\<exists>e. x = Some e \<and> E e s t)" unfolding safe_def by blast
    then show ?thesis
      using x(2) keepsD [OF rest] by (cases x) (auto intro: kept_trans)
  qed
qed

theorem safe_run_body:
  assumes "placed L (PSteps p) []"
    and stamp: "\<And>m. N m (m\<lparr>rs := (rs m)\<lparr>Version := PVersion p\<rparr>\<rparr>)"
    and mig: "\<And>f. stateMigrator env = Some f \<Longrightarrow> safe (migrate env p f)"
  shows "safe (run_body env p)"
proof -
  have "safe (bnd (admit env p) (\<lambda>r. case r of Some result \<Rightarrow> ret result | None \<Rightarrow> run_admitted env p))"
    unfolding safe_def
  proof (intro allI impI)
    fix s r s'
    assume "bnd (admit env p) (\<lambda>r. case r of Some result \<Rightarrow> ret result | None \<Rightarrow> run_admitted env p) s
      = Some (r, s')"
    then obtain x t where x: "admit env p s = Some (x, t)"
      "(case x of Some result \<Rightarrow> ret result | None \<Rightarrow> run_admitted env p) t = Some (r, s')"
      unfolding bnd_Some_iff by blast
    have "N s t \<or> (\<exists>e. x = Some (Some e) \<and> E e s t)"
      by (rule safe_admit [OF stamp mig x(1)])
    then show "N s s' \<or> (\<exists>e. r = Some e \<and> E e s s')"
    proof
      assume "N s t"
      then show ?thesis
        using x(2) safe_run_admitted [OF assms(1)]
        by (cases x) (auto simp: safe_def dest!: spec intro: kept_trans E_before)
    qed (use x(2) in auto)
  qed
  note core = this
  show ?thesis
    unfolding run_body_def
    by (intro safe_on_err_keeps core safe_if safe_seqm safe_keeps [OF keeps_run_canceled]
        safe_bnd [OF keeps_get_rs] keeps_observe keeps_ctx_err)
      (auto intro: safe_keeps kept_ret keeps_fail)
qed

text \<open>Every program of the run keeps \<open>N\<close> when an engine failure keeps it as well.\<close>

lemma safe_imp_keeps: "(\<And>e m m'. E e m m' \<Longrightarrow> N m m') \<Longrightarrow> safe m \<Longrightarrow> keeps N m"
  unfolding safe_def keeps_def by blast

end

end
