(* ===== verification/Pipeline_Samples.thy ===== *)
theory Pipeline_Samples
  imports Pipeline_Exec
begin

text \<open>
  Concrete environments and pipelines on which the properties are evaluated. The world is a tick
  count the clock, the callbacks and the storage advance; storage refuses the revisions \<open>refused\<close>, the
  context is cancelled from tick \<open>deadline\<close> on.
\<close>

definition sample_env :: "(64 word \<Rightarrow> bool) \<Rightarrow> (nat \<Rightarrow> bool) \<Rightarrow> (string, nat) env" where
  "sample_env refused canceled =
     \<lparr>snapshotFn = None,
      casSnapshotFn = Some (\<lambda>expected st w.
        (if refused (Revision st) then Some (ErrNew ''storage down'') else None, Suc w)),
      clockNow = (\<lambda>w. (int w * Second, Suc w)),
      clockSleep = (\<lambda>d w. (if canceled w then Some (ErrNew ''context canceled'') else None, Suc w)),
      stateMigrator = None, observer = None,
      ctxErr = (\<lambda>w. (if canceled w then Some (ErrNew ''context canceled'') else None, w)),
      jsonMarshal = Inr, rangeData = Mapping.ordered_keys, rangeDiagnostics = Mapping.ordered_keys\<rparr>"

definition good_env :: "(string, nat) env" where
  "good_env = sample_env (\<lambda>_. False) (\<lambda>_. False)"

definition ok_action :: "(string, nat) action_fn option" where
  "ok_action = Some (\<lambda>d w. (None, d, Suc w))"

definition set_action :: "string \<Rightarrow> string \<Rightarrow> (string, nat) action_fn option" where
  "set_action k v = Some (\<lambda>d w. (None, ds_Set k (GoVal v) d, Suc w))"

definition failing_action :: "err \<Rightarrow> (string, nat) action_fn option" where
  "failing_action e = Some (\<lambda>d w. (Some e, d, Suc w))"

definition mk_pipeline :: "(string, nat) step list \<Rightarrow> (string, nat) pipeline" where
  "mk_pipeline steps = \<lparr>PName = ''order'', PSteps = steps, PVersion = 3, PMinResumeVersion = Some 2\<rparr>"

text \<open>Reserve, charge (both compensated), then ship, whose action is the argument.\<close>

definition order_pipeline :: "(string, nat) action_fn option \<Rightarrow> (string, nat) pipeline" where
  "order_pipeline ship =
     mk_pipeline
       [Action ''reserve'' (set_action ''reservation'' ''r1'') [WithCompensate ok_action],
        Action ''charge'' ok_action [WithCompensate ok_action],
        Action ''ship'' ship [WithRetry 2 Second True]]"

text \<open>A running state of version \<open>v\<close>.\<close>

definition running_state :: "int \<Rightarrow> run_state" where
  "running_state v = zero_run_state\<lparr>Version := v, Status := RunStatusRunning\<rparr>"

text \<open>A repeat around a branch around a compensated action; the repeat is done at once.\<close>

definition nested_steps :: "(string, nat) action_fn option \<Rightarrow> (string, nat) step list" where
  "nested_steps undo =
     [Branch ''route'' (Some (\<lambda>d w. ((''fast'', None), d, Suc w)))
        [(''fast'', [Action ''move'' ok_action [WithCompensate undo]]), (''slow'', [])] []]"

definition nested_pipeline ::
    "nat \<Rightarrow> (string, nat) action_fn option \<Rightarrow> (string, nat) action_fn option \<Rightarrow> (string, nat) pipeline" where
  "nested_pipeline history undo last_action =
     mk_pipeline
       [Repeat ''rounds'' (nested_steps undo) (Some (\<lambda>i d w. ((True, 0, None), d, Suc w)))
          [WithRepeatHistory history],
        Action ''final'' last_action []]"

end
