(* ===== verification/Pipeline_Safety.thy ===== *)
theory Pipeline_Safety
  imports Pipeline_Rules Pipeline_Samples
begin

text \<open>
  Properties of every run of the executor, each an interpretation of \<open>run_property\<close> on the model's
  own operations: the persisted snapshots carry consecutive revisions, a failed snapshot is the last
  effect of a run, every persisted state of an admitted run carries an admissible version.
\<close>

section \<open>What a run did\<close>

text \<open>The states the storage callback accepted, in order; whether it ever failed.\<close>

fun persisted :: "eff list \<Rightarrow> run_state list" where
  "persisted [] = []"
| "persisted (SnapshotOk op st # es) = st # persisted es"
| "persisted (_ # es) = persisted es"

definition is_snapshot_err :: "eff \<Rightarrow> bool" where
  "is_snapshot_err x = (case x of SnapshotErr _ \<Rightarrow> True | _ \<Rightarrow> False)"

lemma is_snapshot_err_simps [simp]:
  "is_snapshot_err (SnapshotErr op)" "\<not> is_snapshot_err (SnapshotOk op st)"
  "callback c \<Longrightarrow> \<not> is_snapshot_err c"
  by (auto simp: is_snapshot_err_def callback_def split: eff.splits)

lemma persisted_append [simp]: "persisted (xs @ ys) = persisted xs @ persisted ys"
  by (induction xs rule: persisted.induct) simp_all

lemma persisted_callback [simp]: "callback c \<Longrightarrow> persisted [c] = []"
  by (cases c) simp_all

lemma call_snapshot_SomeD:
  assumes "call_snapshot env op m = Some (r, m')"
  shows "\<exists>w. m' = (case r of
      None \<Rightarrow> m\<lparr>rs := (rs m)\<lparr>Revision := Revision (rs m) + 1\<rparr>, world := w,
               effs := effs m @ [SnapshotOk op ((rs m)\<lparr>Revision := Revision (rs m) + 1\<rparr>)]\<rparr>
    | Some e \<Rightarrow> m\<lparr>world := w, effs := effs m @ [SnapshotErr op]\<rparr>)"
  using assms by (auto simp: call_snapshot_def Let_def split: prod.splits option.splits)

lemma call_migrator_Some_iff:
  "call_migrator p f m = Some (r, m') \<longleftrightarrow>
     (\<exists>w'. f (PName p) (Version (rs m)) (PVersion p) (rs m) (world m) = (r, w')
       \<and> m' = m\<lparr>world := w', effs := effs m @ [MigratorCalled (snd r)]\<rparr>)"
  by (auto simp: call_migrator_def Let_def split: prod.splits)

lemma observe_run_effs: "observe env p ev m = Some (u, m') \<Longrightarrow> effs m' = effs m \<and> rs m' = rs m"
  using keepsD [OF observe_world_only] by (fastforce simp: world_only_def)

text \<open>The five ways a run goes: an invalid definition, a terminal state, a cancelled context, a
  result of the version handling, or the execution after it.\<close>

lemma Run_cases:
  assumes run: "Run env p st w = Some (r, m)"
  obtains (invalid) e where "validate p = Some e" "r = Some e" "effs m = []" "rs m = st"
    | (terminal) "validate p = None" "IsTerminal st" "r = None" "effs m = []" "rs m = st"
    | (canceled) e w1 w2 where "validate p = None" "\<not> IsTerminal st" "r = Some e" "effs m = []" "rs m = st"
        "ctxErr env w1 = (Some e, w2)"
    | (ended) t where "validate p = None" "\<not> IsTerminal st" "effs t = []" "rs t = st"
        "admit env p t = Some (Some r, m)"
    | (admitted) t u where "validate p = None" "\<not> IsTerminal st" "effs t = []" "rs t = st"
        "admit env p t = Some (None, u)" "run_admitted env p u = Some (r, m)"
proof (cases "validate p")
  case (Some e)
  then show ?thesis
    using run invalid by (auto simp: Run_def run_body_def on_err_def init_mach_def)
next
  case None
  show ?thesis
  proof (cases "IsTerminal st")
    case True
    then show ?thesis
      using run None terminal by (auto simp: Run_def run_body_def on_err_def bnd_Some_iff init_mach_def)
  next
    case False
    then obtain m0 c t where m0: "observe env p (Ev EventPipelineStarted [] 0 None 0 ''run'' None) (init_mach st w) = Some ((), m0)"
      and c: "ctx_err env m0 = Some (c, t)"
      and rest: "(case c of Some ce \<Rightarrow> run_canceled env p ce
        | None \<Rightarrow> bnd (admit env p) (\<lambda>r. case r of Some result \<Rightarrow> ret result | None \<Rightarrow> run_admitted env p)) t
          = Some (r, m)"
      using run None by (auto simp: Run_def run_body_def on_err_def seqm_def bnd_Some_iff init_mach_def)
    have t: "effs t = []" "rs t = st"
      using observe_run_effs [OF m0] c by (auto simp: ctx_err_Some_iff init_mach_def)
    show ?thesis
    proof (cases c)
      case (Some ce)
      then obtain w2 where "ctxErr env (world m0) = (Some ce, w2)" using c by (auto simp: ctx_err_Some_iff)
      with Some rest t show ?thesis
        by (intro canceled [of ce "world m0" w2] None False)
          (auto simp: run_canceled_def seqm_def bnd_Some_iff dest!: observe_run_effs)
    next
      case None': None
      with rest obtain y u where y: "admit env p t = Some (y, u)"
        "(case y of Some result \<Rightarrow> ret result | None \<Rightarrow> run_admitted env p) u = Some (r, m)"
        by (auto simp: bnd_Some_iff)
      show ?thesis
      proof (cases y)
        case (Some q)
        with y have "admit env p t = Some (Some r, m)" by simp
        with None False t show ?thesis by (rule ended)
      next
        case None'': None
        with y have "admit env p t = Some (None, u)" "run_admitted env p u = Some (r, m)" by simp_all
        with None False t show ?thesis by (rule admitted)
      qed
    qed
  qed
qed

text \<open>The version handling keeps the state, or the migrator refuses it, or it puts the migrated state in its
  place and persists it.\<close>

lemma migrate_cases:
  assumes "migrate env p f m = Some (r, m')"
  obtains (refused) e where "effs m' = effs m @ [MigratorCalled (Some e)]" "rs m' = rs m" "r \<noteq> None"
    | (migrated) u st' w' t0 n where "f (PName p) (Version (rs m)) (PVersion p) (rs m) u = ((st', None), w')"
        "effs n = effs m @ [MigratorCalled None]" "rs n = st'\<lparr>Version := PVersion p\<rparr>"
        "migration_done env p t0 n = Some (r, m')"
proof -
  have failed: "migration_failed env p v t0 me n = Some (q, n') \<Longrightarrow> effs n' = effs n \<and> rs n' = rs n \<and> q \<noteq> None"
    for v t0 me n q n'
    unfolding migration_failed_def Let_def
    by (auto simp: seqm_def bnd_Some_iff now_Some_iff dest!: observe_run_effs)
  obtain t0 w0 st' e w' where call: "f (PName p) (Version (rs m)) (PVersion p) (rs m) w0 = ((st', e), w')" and
    rest: "(case e of
        Some me \<Rightarrow> migration_failed env p (Version (rs m)) t0 me
      | None \<Rightarrow> seqm (upd_rs (\<lambda>_. st'\<lparr>Version := PVersion p\<rparr>)) (migration_done env p t0))
        (m\<lparr>world := w', effs := effs m @ [MigratorCalled e]\<rparr>) = Some (r, m')"
    using assms unfolding migrate_def by (auto simp: bnd_Some_iff now_Some_iff call_migrator_Some_iff)
  show ?thesis
  proof (cases e)
    case None
    with call have f: "f (PName p) (Version (rs m)) (PVersion p) (rs m) w0 = ((st', None), w')" by simp
    from rest None have "migration_done env p t0 (m\<lparr>world := w', effs := effs m @ [MigratorCalled None],
        rs := st'\<lparr>Version := PVersion p\<rparr>\<rparr>) = Some (r, m')"
      by (auto simp: seqm_def bnd_Some_iff)
    from migrated [OF f _ _ this] show ?thesis by simp
  next
    case (Some me)
    with rest failed [of "Version (rs m)" t0 me] show ?thesis by (intro refused [of me]) auto
  qed
qed

lemma admit_cases:
  assumes run: "admit env p m = Some (r, m')"
  obtains (kept) "effs m' = effs m" "rs m' = rs m \<or> rs m' = (rs m)\<lparr>Version := PVersion p\<rparr>"
        "r = None \<longrightarrow> Version (rs m') = PVersion p \<or> checkVersion p (rs m') = None"
    | (refused) e where "effs m' = effs m @ [MigratorCalled (Some e)]" "rs m' = rs m" "r \<noteq> None"
    | (migrated) f u st' w' t0 n x t where "stateMigrator env = Some f"
        "f (PName p) (Version (rs m)) (PVersion p) (rs m) u = ((st', None), w')"
        "effs n = effs m @ [MigratorCalled None]" "rs n = st'\<lparr>Version := PVersion p\<rparr>"
        "migration_done env p t0 n = Some (x, t)" "effs m' = effs t" "rs m' = rs t"
        "r = None \<longrightarrow> checkVersion p (rs m') = None"
proof -
  let ?mig = "case stateMigrator env of
      Some f \<Rightarrow> if Version (rs m) \<noteq> PVersion p then migrate env p f else ret None
    | None \<Rightarrow> ret None"
  let ?rest = "bnd get_rs (\<lambda>st'.
      case checkVersion p st' of
        Some e \<Rightarrow>
          seqm (observe env p (Ev EventVersionMismatch [] 0 None 0 ''version check'' (Some e)))
            (ret (Some (Some e)))
      | None \<Rightarrow>
          (if IsTerminal st' then
             seqm (observe env p (Ev EventPipelineCompleted [] 0 None 0 ''state migration'' None))
               (ret (Some None))
           else ret None))"
  have check: "effs t' = effs t \<and> rs t' = rs t \<and> (q = None \<longrightarrow> checkVersion p (rs t') = None)"
    if "?rest t = Some (q, t')" for t q t'
    using that by (auto simp: seqm_def bnd_Some_iff dest!: observe_run_effs split: option.splits if_splits)
  consider (new) "seqm (upd_rs (\<lambda>st. st\<lparr>Version := PVersion p\<rparr>)) (ret None) m = Some (r, m')"
    | (newer) e where "seqm (observe env p e)
        (ret (Some (Some (versionMismatchError p (rs m))))) m = Some (r, m')"
    | (older) "on_err ?mig (\<lambda>e. ret (Some (Some e))) ?rest m = Some (r, m')"
    using run by (auto simp: admit_def bnd_Some_iff Let_def split: if_splits)
  then show ?thesis
  proof cases
    case new
    then show ?thesis by (intro kept) (auto simp: seqm_def bnd_Some_iff)
  next
    case newer
    then show ?thesis by (intro kept) (auto simp: seqm_def bnd_Some_iff dest!: observe_run_effs)
  next
    case older
    then obtain x t where x: "?mig m = Some (x, t)"
      "(case x of Some e \<Rightarrow> ret (Some (Some e)) | None \<Rightarrow> ?rest) t = Some (r, m')"
      unfolding on_err_def bnd_Some_iff by blast
    have rest: "effs m' = effs t" "rs m' = rs t" "r = None \<longrightarrow> x = None \<and> checkVersion p (rs m') = None"
      using x(2) check by (cases x; auto)+
    consider "t = m" "x = None" | f where "stateMigrator env = Some f" "migrate env p f m = Some (x, t)"
      using x(1) by (auto split: option.splits if_splits)
    then show ?thesis
    proof cases
      case 1
      with rest show ?thesis by (intro kept) auto
    next
      case (2 f)
      from 2(2) show ?thesis
      proof (cases rule: migrate_cases)
        case (refused e)
        with rest that(2) show ?thesis by auto
      next
        case (migrated u st' w' t0 n)
        with rest 2(1) that(3) show ?thesis by auto
      qed
    qed
  qed
qed

section \<open>Revisions\<close>

text \<open>\<open>revisions_from r sts\<close>: the states carry the revisions following \<open>r\<close>, one by one.\<close>

fun revisions_from :: "64 word \<Rightarrow> run_state list \<Rightarrow> bool" where
  "revisions_from r [] = True"
| "revisions_from r (st # sts) \<longleftrightarrow> Revision st = r + 1 \<and> revisions_from (r + 1) sts"

lemma revisions_from_append [simp]:
  "revisions_from r (xs @ ys) \<longleftrightarrow> revisions_from r xs \<and> revisions_from (r + of_nat (length xs)) ys"
  by (induction xs arbitrary: r) (auto simp: algebra_simps)

definition journal_step :: "('v, 'w) mach \<Rightarrow> ('v, 'w) mach \<Rightarrow> bool" where
  "journal_step m m' \<longleftrightarrow>
     (\<exists>new. effs m' = effs m @ new \<and> revisions_from (Revision (rs m)) (persisted new)
        \<and> Revision (rs m') = Revision (rs m) + of_nat (length (persisted new)))"

lemma journal_stepI:
  "effs m' = effs m @ new \<Longrightarrow> revisions_from (Revision (rs m)) (persisted new) \<Longrightarrow>
     Revision (rs m') = Revision (rs m) + of_nat (length (persisted new)) \<Longrightarrow> journal_step m m'"
  unfolding journal_step_def by blast

lemma journal_step_quiet: "effs m' = effs m \<Longrightarrow> Revision (rs m') = Revision (rs m) \<Longrightarrow> journal_step m m'"
  by (rule journal_stepI [of _ _ "[]"]) simp_all

lemma journal_step_trans: "journal_step s t \<Longrightarrow> journal_step t u \<Longrightarrow> journal_step s u"
  unfolding journal_step_def by (force simp: algebra_simps)

interpretation jr: run_property journal_step env p "\<lambda>e m m'. is_snapshot_failed e \<and> journal_step m m'"
  "\<lambda>_ _. True" for env p
proof unfold_locales
  fix m m' :: "('a, 'b) mach" and op
  show "journal_step s t \<Longrightarrow> journal_step t u \<Longrightarrow> journal_step s u" for s t u :: "('a, 'b) mach"
    by (rule journal_step_trans)
  show "journal_step m m'" if "call_snapshot env op m = Some (None, m')"
    using call_snapshot_SomeD [OF that] by (auto intro: journal_stepI)
  show "is_snapshot_failed (ErrSnapshotFailed op e) \<and> journal_step m m'"
    if "call_snapshot env op m = Some (Some e, m')" for e
    using call_snapshot_SomeD [OF that] by (auto intro: journal_stepI)
  show "journal_step m (m\<lparr>store := d, world := w, effs := effs m @ [c]\<rparr>)" if "callback c" for c d w
    using that by (intro journal_stepI [of _ _ "[c]"]) simp_all
  show "is_snapshot_failed e \<and> journal_step m (m'\<lparr>world := u\<rparr>)"
    if "is_snapshot_failed e \<and> journal_step m m'" for e u
    using that by (auto simp: journal_step_def)
qed (auto simp: frame_upd_def placed_def intro: journal_step_quiet journal_step_trans)

text \<open>The journal starts at the state that enters the execution: the given one, or the migrator's.\<close>

definition journal_from :: "64 word \<Rightarrow> ('v, 'w) mach \<Rightarrow> bool" where
  "journal_from base m \<longleftrightarrow> revisions_from base (persisted (effs m))
     \<and> Revision (rs m) = base + of_nat (length (persisted (effs m)))"

lemma journal_continues: "journal_from base m \<Longrightarrow> journal_step m m' \<Longrightarrow> journal_from base m'"
  by (auto simp: journal_from_def journal_step_def algebra_simps)

lemma jr_keeps: "jr.safe m \<Longrightarrow> keeps journal_step m"
  by (rule jr.safe_imp_keeps) simp_all

lemma journal_execution: "keeps journal_step (migration_done env p t0)" "keeps journal_step (run_admitted env p)"
proof -
  show "keeps journal_step (migration_done env p t0)"
    unfolding migration_done_def
    by (intro jr_keeps jr.safe_on_err_fail jr.safe_snapshot) (intro jr.safe_keeps jr.prims)
  show "keeps journal_step (run_admitted env p)"
    by (intro jr_keeps jr.safe_run_admitted) (simp add: placed_def)
qed

text \<open>A run in which the migrator replaces no state.\<close>

lemma admit_without_migration:
  assumes "admit env p m = Some (r, m')" and "MigratorCalled None \<notin> set (effs m')"
  shows "persisted (effs m') = persisted (effs m)" "rs m' = rs m \<or> rs m' = (rs m)\<lparr>Version := PVersion p\<rparr>"
    "\<exists>new. effs m' = effs m @ new \<and> (\<forall>c \<in> set new. \<exists>e. c = MigratorCalled e)"
proof -
  have saved: "\<exists>new. effs t = effs n @ new" if "migration_done env p t0 n = Some (x, t)" for t0 n x t
    using keepsD [OF journal_execution(1) that] by (auto simp: journal_step_def)
  show "persisted (effs m') = persisted (effs m)" "rs m' = rs m \<or> rs m' = (rs m)\<lparr>Version := PVersion p\<rparr>"
    "\<exists>new. effs m' = effs m @ new \<and> (\<forall>c \<in> set new. \<exists>e. c = MigratorCalled e)"
    using assms(2) by (cases rule: admit_cases [OF assms(1)]; force dest!: saved)+
qed

text \<open>C10. Whatever the callbacks and the storage do, the states a run persists carry the consecutive
  revisions following a base revision, and the returned state carries the last of them: its revision
  counts the accepted snapshots and moves by no other cause. The base is the revision of the state the run
  was given; only where the run called a migrator that succeeded may it be instead the revision of the
  state that migrator returned for it.\<close>

theorem Run_revisions:
  assumes "Run env p st w = Some (r, m)"
  shows "\<exists>base. revisions_from base (persisted (effs m))
    \<and> Revision (rs m) = base + of_nat (length (persisted (effs m)))
    \<and> (base = Revision st
       \<or> MigratorCalled None \<in> set (effs m)
         \<and> (\<exists>f u st' u'. stateMigrator env = Some f
              \<and> f (PName p) (Version st) (PVersion p) st u = ((st', None), u') \<and> base = Revision st'))"
proof -
  have given: "journal_from (Revision st) t" if "effs t = []" "rs t = st" for t :: "('a, 'b) mach"
    using that by (simp add: journal_from_def)
  have after: "journal_from (Revision st) u \<or> MigratorCalled None \<in> set (effs u)
      \<and> (\<exists>f v st' v'. stateMigrator env = Some f \<and> f (PName p) (Version st) (PVersion p) st v = ((st', None), v')
           \<and> journal_from (Revision st') u)"
    if "admit env p t = Some (q, u)" "effs t = []" "rs t = st" for t q u
    using that(1)
  proof (cases rule: admit_cases)
    case kept
    with that show ?thesis by (auto simp: journal_from_def)
  next
    case (refused e)
    with that show ?thesis by (simp add: journal_from_def)
  next
    case (migrated f v st' v' t0 n x k)
    have "journal_step n k" using migrated(5) journal_execution(1) by (rule keepsD [rotated])
    moreover from this have "MigratorCalled None \<in> set (effs k)" using migrated(3) by (auto simp: journal_step_def)
    moreover have "journal_from (Revision st') n" using migrated(3,4) that(2) by (simp add: journal_from_def)
    ultimately have "journal_from (Revision st') u" "MigratorCalled None \<in> set (effs u)"
      using migrated(6,7) journal_continues [of "Revision st'" n k] by (simp_all add: journal_from_def)
    with migrated(1,2) that(3) show ?thesis by blast
  qed
  have "journal_from (Revision st) m \<or> MigratorCalled None \<in> set (effs m)
      \<and> (\<exists>f v st' v'. stateMigrator env = Some f \<and> f (PName p) (Version st) (PVersion p) st v = ((st', None), v')
           \<and> journal_from (Revision st') m)"
    using assms
  proof (cases rule: Run_cases)
    case (ended t)
    from after [OF ended(5,3,4)] show ?thesis .
  next
    case (admitted t u)
    have "journal_step u m" using admitted(6) journal_execution(2) by (rule keepsD [rotated])
    moreover from this have "set (effs u) \<subseteq> set (effs m)" by (auto simp: journal_step_def)
    ultimately show ?thesis using after [OF admitted(5,3,4)] by (blast intro: journal_continues)
  qed (use given in auto)
  then show ?thesis unfolding journal_from_def by blast
qed

theorem Run_revisions_witness:
  "\<exists>r m. Run good_env (order_pipeline ok_action) zero_run_state 0 = Some (r, m)
     \<and> revisions_from 0 (persisted (effs m)) \<and> Revision (rs m) = of_nat (length (persisted (effs m)))
     \<and> Revision (rs m) = 5"
proof -
  have "map_option (\<lambda>x. Revision (rs (snd x))) (Run good_env (order_pipeline ok_action) zero_run_state 0) = Some 5"
    by code_simp
  then obtain r m where m: "Run good_env (order_pipeline ok_action) zero_run_state 0 = Some (r, m)"
    and five: "Revision (rs m) = 5" by auto
  from Run_revisions [OF m] m five show ?thesis by (auto simp: zero_run_state_def good_env_def sample_env_def)
qed

section \<open>Failed snapshots\<close>

definition no_failure :: "('v, 'w) mach \<Rightarrow> ('v, 'w) mach \<Rightarrow> bool" where
  "no_failure m m' \<longleftrightarrow> (\<exists>new. effs m' = effs m @ new \<and> \<not> list_ex is_snapshot_err new)"

definition failed_last :: "err \<Rightarrow> ('v, 'w) mach \<Rightarrow> ('v, 'w) mach \<Rightarrow> bool" where
  "failed_last e m m' \<longleftrightarrow>
     (\<exists>new op e'. effs m' = effs m @ new @ [SnapshotErr op] \<and> \<not> list_ex is_snapshot_err new
        \<and> e = ErrSnapshotFailed op e')"

lemma no_failure_quiet: "effs m' = effs m \<Longrightarrow> no_failure m m'"
  unfolding no_failure_def by (rule exI [of _ "[]"]) simp

lemma no_failure_one: "effs m' = effs m @ [x] \<Longrightarrow> \<not> is_snapshot_err x \<Longrightarrow> no_failure m m'"
  unfolding no_failure_def by (rule exI [of _ "[x]"]) simp

lemma no_failure_trans: "no_failure s t \<Longrightarrow> no_failure t u \<Longrightarrow> no_failure s u"
  unfolding no_failure_def by force

interpretation fl: run_property no_failure env p failed_last "\<lambda>_ _. True" for env p
proof unfold_locales
  fix m m' m'' :: "('a, 'b) mach" and op
  show "no_failure s t \<Longrightarrow> no_failure t u \<Longrightarrow> no_failure s u" for s t u :: "('a, 'b) mach"
    by (rule no_failure_trans)
  show "no_failure m m'" if "call_snapshot env op m = Some (None, m')"
    using call_snapshot_SomeD [OF that] by (auto intro: no_failure_one)
  show "failed_last (ErrSnapshotFailed op e) m m'" if "call_snapshot env op m = Some (Some e, m')" for e
    using call_snapshot_SomeD [OF that] by (auto simp: failed_last_def)
  show "failed_last e m m''" if "no_failure m m'" "failed_last e m' m''" for e
    using that unfolding no_failure_def failed_last_def by force
  show "no_failure m (m\<lparr>store := d, world := w, effs := effs m @ [c]\<rparr>)" if "callback c" for c d w
    using that by (auto intro: no_failure_one)
  show "is_snapshot_failed e" if "failed_last e m m'" for e
    using that by (auto simp: failed_last_def)
qed (auto simp: placed_def failed_last_def intro: no_failure_quiet)

text \<open>C3. A failed snapshot is the last external effect of a run: no callback, compensator, sleep or
  further snapshot follows it, and the run returns \<open>ErrSnapshotFailed\<close> with the operation that
  failed. Without one the run reports no failed snapshot.\<close>

theorem Run_stops_at_failed_snapshot:
  assumes "Run env p st w = Some (r, m)" and "SnapshotErr op \<in> set (effs m)"
  shows "\<exists>before e. effs m = before @ [SnapshotErr op] \<and> \<not> list_ex is_snapshot_err before
    \<and> r = Some (ErrSnapshotFailed op e)"
proof -
  have "fl.safe (run_body env p)"
    by (rule fl.safe_run_body) (auto simp: placed_def intro!: no_failure_quiet fl.safe_migrate)
  with assms have "no_failure (init_mach st w) m \<or> (\<exists>e. r = Some e \<and> failed_last e (init_mach st w) m)"
    by (auto simp: fl.safe_def Run_def)
  moreover have "list_ex is_snapshot_err new" if "SnapshotErr op \<in> set new" for new
    using that by (force simp: list_ex_iff)
  ultimately show ?thesis
    using assms(2) by (auto simp: no_failure_def failed_last_def init_mach_def)
qed

theorem Run_stops_at_failed_snapshot_witness:
  "\<exists>r m before e. Run (sample_env (\<lambda>v. v = 3) (\<lambda>_. False)) (order_pipeline ok_action) zero_run_state 0
       = Some (r, m)
     \<and> effs m = before @ [SnapshotErr ''action completion''] \<and> \<not> list_ex is_snapshot_err before
     \<and> r = Some (ErrSnapshotFailed ''action completion'' e)"
proof -
  let ?run = "Run (sample_env (\<lambda>v. v = 3) (\<lambda>_. False)) (order_pipeline ok_action) zero_run_state 0"
  have "map_option (\<lambda>x. last (effs (snd x)) = SnapshotErr ''action completion'' \<and> effs (snd x) \<noteq> []) ?run = Some True"
    by code_simp
  then obtain r m where m: "?run = Some (r, m)"
    and "last (effs m) = SnapshotErr ''action completion''" "effs m \<noteq> []" by auto
  then have "SnapshotErr ''action completion'' \<in> set (effs m)" by (metis last_in_set)
  from Run_stops_at_failed_snapshot [OF m this] m show ?thesis by blast
qed

section \<open>Versions\<close>

definition admissible :: "('v, 'w) pipeline \<Rightarrow> int \<Rightarrow> bool" where
  "admissible p v \<longleftrightarrow> effectiveMinResumeVersion p \<le> v \<and> v \<le> PVersion p"

text \<open>New effects, and from an admissible state only admissible states are persisted.\<close>

definition version_step :: "('v, 'w) pipeline \<Rightarrow> ('v, 'w) mach \<Rightarrow> ('v, 'w) mach \<Rightarrow> bool" where
  "version_step p m m' \<longleftrightarrow>
     (\<exists>new. effs m' = effs m @ new
       \<and> (admissible p (Version (rs m)) \<longrightarrow>
            admissible p (Version (rs m')) \<and> (\<forall>st \<in> set (persisted new). admissible p (Version st))))"

lemma version_stepI:
  "effs m' = effs m @ new \<Longrightarrow>
     (admissible p (Version (rs m)) \<Longrightarrow>
        admissible p (Version (rs m')) \<and> (\<forall>st \<in> set (persisted new). admissible p (Version st))) \<Longrightarrow>
     version_step p m m'"
  unfolding version_step_def by blast

lemma version_step_quiet: "effs m' = effs m \<Longrightarrow> Version (rs m') = Version (rs m) \<Longrightarrow> version_step p m m'"
  by (rule version_stepI [of _ _ "[]"]) simp_all

lemma version_step_trans: "version_step p s t \<Longrightarrow> version_step p t u \<Longrightarrow> version_step p s u"
  unfolding version_step_def by fastforce

interpretation vs: run_property "version_step p" env p "\<lambda>e m m'. is_snapshot_failed e \<and> version_step p m m'"
  "\<lambda>_ _. True" for env p
proof unfold_locales
  fix m m' :: "('a, 'b) mach" and op
  show "version_step p s t \<Longrightarrow> version_step p t u \<Longrightarrow> version_step p s u" for s t u :: "('a, 'b) mach"
    by (rule version_step_trans)
  show "version_step p m m'" if "call_snapshot env op m = Some (None, m')"
    using call_snapshot_SomeD [OF that] by (auto intro: version_stepI)
  show "is_snapshot_failed (ErrSnapshotFailed op e) \<and> version_step p m m'"
    if "call_snapshot env op m = Some (Some e, m')" for e
    using call_snapshot_SomeD [OF that] by (auto intro: version_stepI)
  show "version_step p m (m\<lparr>store := d, world := w, effs := effs m @ [c]\<rparr>)" if "callback c" for c d w
    using that by (intro version_stepI [of _ _ "[c]"]) simp_all
  show "is_snapshot_failed e \<and> version_step p m (m'\<lparr>world := u\<rparr>)"
    if "is_snapshot_failed e \<and> version_step p m m'" for e u
    using that by (auto simp: version_step_def)
qed (auto simp: frame_upd_def placed_def intro: version_step_quiet version_step_trans)

lemma vs_keeps: "vs.safe p m \<Longrightarrow> keeps (version_step p) m"
  by (rule vs.safe_imp_keeps) simp_all

lemma effectiveMin_le: "validate p = None \<Longrightarrow> effectiveMinResumeVersion p \<le> PVersion p"
  by (auto simp: validate_def effectiveMinResumeVersion_def split: if_splits option.splits)

text \<open>A migration persists the migrated state under the version of the pipeline.\<close>

lemma admit_versions:
  assumes valid: "validate p = None" and run: "admit env p m = Some (r, m')"
  shows "(\<exists>new. effs m' = effs m @ new \<and> (\<forall>st \<in> set (persisted new). admissible p (Version st)))
    \<and> (r = None \<longrightarrow> admissible p (Version (rs m')))"
proof -
  have "keeps (version_step p) (migration_done env p t0)" for t0
    unfolding migration_done_def
    by (intro vs_keeps vs.safe_on_err_fail vs.safe_snapshot) (intro vs.safe_keeps vs.prims)
  then have "version_step p n t" if "migration_done env p t0 n = Some (x, t)" for t0 n x t
    using that by (rule keepsD)
  with run effectiveMin_le [OF valid] show ?thesis
    by (cases rule: admit_cases)
      (fastforce simp: version_step_def admissible_def checkVersion_def split: if_splits)+
qed

text \<open>C11. Every state a run persists carries a version the pipeline can resume: at least its minimum
  resume version and at most its own version. In particular a state of a version outside this range
  is rejected before anything is persisted under it.\<close>

theorem Run_persists_admissible_versions:
  assumes "Run env p st w = Some (r, m)" and "saved \<in> set (persisted (effs m))"
  shows "admissible p (Version saved)"
proof -
  have adm: "keeps (version_step p) (run_admitted env p)"
    by (intro vs_keeps vs.safe_run_admitted) (simp add: placed_def)
  show ?thesis
    using assms(1)
  proof (cases rule: Run_cases)
    case (ended t)
    then show ?thesis using admit_versions [OF ended(1,5)] assms(2) by auto
  next
    case (admitted t u)
    note a = admit_versions [OF admitted(1,5)]
    have "version_step p u m" using admitted adm by (auto dest: keepsD)
    then show ?thesis using a admitted assms(2) by (auto simp: version_step_def)
  qed (use assms(2) in auto)
qed

theorem Run_persists_admissible_versions_witness:
  "\<exists>r m. Run good_env (order_pipeline ok_action) (running_state 2) 0 = Some (r, m)
     \<and> persisted (effs m) \<noteq> [] \<and> admissible (order_pipeline ok_action) (Version (hd (persisted (effs m))))"
proof -
  let ?run = "Run good_env (order_pipeline ok_action) (running_state 2) 0"
  have "map_option (\<lambda>x. persisted (effs (snd x)) = []) ?run = Some False" by code_simp
  then obtain r m where m: "?run = Some (r, m)" and ne: "persisted (effs m) \<noteq> []" by auto
  from Run_persists_admissible_versions [OF m hd_in_set [OF ne]] m ne show ?thesis by blast
qed

end
