(* ===== verification/Pipeline_Compensation.thy ===== *)
theory Pipeline_Compensation
  imports Pipeline_Safety
begin

text \<open>
  Compensation (\<open>runCompensation\<close>): the compensators of the completed steps run in reverse order of
  completion, each succeeds at most once, and \<open>CompensationIndex\<close> says exactly which ones remain,
  across any number of interrupted and resumed runs.
\<close>

section \<open>What remains to be compensated\<close>

definition compensable :: "('v, 'w) pipeline \<Rightarrow> completed_step \<Rightarrow> bool" where
  "compensable p cs \<longleftrightarrow> HasCompensator cs \<and> find_compensator p (Path cs) \<noteq> None"

text \<open>The paths whose compensators are due when the next index is \<open>k - 1\<close>, latest completion first.\<close>

definition pending :: "('v, 'w) pipeline \<Rightarrow> completed_step list \<Rightarrow> nat \<Rightarrow> path list" where
  "pending p css k = map Path (rev (filter (compensable p) (take k css)))"

definition remaining :: "('v, 'w) pipeline \<Rightarrow> run_state \<Rightarrow> path list" where
  "remaining p st = pending p (CompletedSteps st) (nat (CompensationIndex st + 1))"

text \<open>The compensators that were called, and those that returned without error.\<close>

fun comp_calls :: "eff list \<Rightarrow> path list" where
  "comp_calls [] = []"
| "comp_calls (CompensateCalled q e # es) = q # comp_calls es"
| "comp_calls (_ # es) = comp_calls es"

fun compensated :: "eff list \<Rightarrow> path list" where
  "compensated [] = []"
| "compensated (CompensateCalled q e # es) = (if e = None then q # compensated es else compensated es)"
| "compensated (_ # es) = compensated es"

lemma comp_calls_append [simp]: "comp_calls (xs @ ys) = comp_calls xs @ comp_calls ys"
  by (induction xs rule: comp_calls.induct) simp_all

lemma compensated_append [simp]: "compensated (xs @ ys) = compensated xs @ compensated ys"
  by (induction xs rule: compensated.induct) simp_all

lemma no_calls_compensated [simp]: "comp_calls xs = [] \<Longrightarrow> compensated xs = []"
  by (induction xs rule: comp_calls.induct) simp_all

lemma pending_0 [simp]: "pending p css 0 = []"
  by (simp add: pending_def)

lemma pending_Suc:
  "i < length css \<Longrightarrow>
     pending p css (Suc i) = (if compensable p (css ! i) then Path (css ! i) # pending p css i else pending p css i)"
  by (simp add: pending_def take_Suc_conv_app_nth)

section \<open>Operations that leave compensation alone\<close>

definition comp_frame :: "('v, 'w) mach \<Rightarrow> ('v, 'w) mach \<Rightarrow> bool" where
  "comp_frame m m' \<longleftrightarrow>
     Status (rs m') = Status (rs m) \<and> CompletedSteps (rs m') = CompletedSteps (rs m)
     \<and> CompensationIndex (rs m') = CompensationIndex (rs m)
     \<and> (\<exists>new. effs m' = effs m @ new \<and> comp_calls new = [])"

interpretation cf: kept_relation comp_frame
proof
  show "comp_frame s u" if "comp_frame s t" "comp_frame t u" for s t u :: "('v, 'w) mach"
    using that unfolding comp_frame_def by force
qed (simp add: comp_frame_def)

lemma comp_frame_world [simp]: "comp_frame m (m\<lparr>world := w\<rparr>)"
  by (simp add: comp_frame_def)

lemma comp_frame_rs:
  "Status st = Status (rs m) \<Longrightarrow> CompletedSteps st = CompletedSteps (rs m) \<Longrightarrow>
     CompensationIndex st = CompensationIndex (rs m) \<Longrightarrow> comp_frame m (m\<lparr>rs := st\<rparr>)"
  by (simp add: comp_frame_def)

lemma cf_upd_rs:
  "(\<And>st. Status (f st) = Status st \<and> CompletedSteps (f st) = CompletedSteps st
     \<and> CompensationIndex (f st) = CompensationIndex st) \<Longrightarrow> keeps comp_frame (upd_rs f)"
  by (auto simp: keeps_def intro!: comp_frame_rs)

lemma cf_observe: "keeps comp_frame (observe env p ev)"
  by (rule keepsI) (auto dest!: keepsD [OF observe_world_only] simp: world_only_def)

lemma cf_now: "keeps comp_frame (now env)"
  by (auto simp: keeps_def now_Some_iff)

lemma cf_ctx_err: "keeps comp_frame (ctx_err env)"
  by (auto simp: keeps_def ctx_err_Some_iff)

lemma cf_get_rs: "keeps comp_frame get_rs"
  unfolding get_rs_def by (rule cf.kept_gets)

lemma cf_fail: "keeps comp_frame (fail e)"
  unfolding fail_def by (rule cf.kept_ret)

lemma cf_call_snapshot: "keeps comp_frame (call_snapshot env op)"
proof (rule keepsI)
  fix m m' and r :: "err option"
  assume "call_snapshot env op m = Some (r, m')"
  from call_snapshot_SomeD [OF this] show "comp_frame m m'"
    by (cases r) (auto simp: comp_frame_def)
qed

lemma cf_observe_snapshot: "keeps comp_frame (observe_snapshot env p ty t op c)"
  by (rule keepsI) (auto dest!: keepsD [OF observe_snapshot_world_only] simp: world_only_def)

lemma cf_snapshot: "keeps comp_frame (snapshot env p op)"
  unfolding snapshot_def Let_def
  by (auto intro!: cf.kept_rules cf_now cf_call_snapshot cf_observe_snapshot)

lemma cf_save_data: "keeps comp_frame (save_data env)"
  unfolding save_data_def
  by (intro cf.kept_bnd cf.kept_gets)
    (auto split: sum.split intro!: cf.kept_ret cf.kept_seqm cf_upd_rs)

lemma cf_put_diag: "keeps comp_frame (put_diag q d)"
  by (auto simp: keeps_def put_diag_Some_iff intro!: comp_frame_rs)

lemma cf_recordError: "keeps comp_frame (recordError q e)"
  unfolding recordError_def make_diags_def get_diag_def
  by (intro cf.kept_rules cf_put_diag) (auto simp: keeps_def intro!: comp_frame_rs)

lemma cf_recordNextRun: "keeps comp_frame (recordNextRun env q d c)"
  unfolding recordNextRun_def get_diag_def
  by (intro cf.kept_rules cf_put_diag cf_now)

lemma cf_persistDeferred: "keeps comp_frame (persistDeferred env p q e False op it)"
proof (cases "deferredDetails e" rule: prod_cases4)
  case (fields delay cause e' ok)
  then show ?thesis
    unfolding persistDeferred_def
    by (simp, intro conjI impI)
      (intro cf.kept_rules cf_recordNextRun cf_save_data cf_snapshot cf_fail cf_get_rs cf_observe)+
qed

lemmas cf_rules =
  cf.kept_rules cf_observe cf_now cf_ctx_err cf_get_rs cf_fail cf_snapshot cf_save_data cf_recordError
  cf_persistDeferred

section \<open>The compensation loop\<close>

text \<open>What a run of the loop from index \<open>k - 1\<close> does: the compensators that succeeded, followed by
  those still due, are those that were due.\<close>

definition comp_progress :: "('v, 'w) pipeline \<Rightarrow> completed_step list \<Rightarrow> path list \<Rightarrow> ('v, 'w) mach \<Rightarrow>
    err option \<Rightarrow> ('v, 'w) mach \<Rightarrow> bool" where
  "comp_progress p css due m r m' \<longleftrightarrow>
     CompletedSteps (rs m') = css
     \<and> (Status (rs m') = Status (rs m) \<or> Status (rs m') = RunStatusFailed \<and> CompensationIndex (rs m') = - 1)
     \<and> (r = None \<longrightarrow> Status (rs m') = RunStatusFailed \<and> CompensationIndex (rs m') = - 1)
     \<and> (\<exists>new. effs m' = effs m @ new
          \<and> compensated new @ remaining p (rs m') = due
          \<and> (comp_calls new = compensated new
             \<or> r \<noteq> None \<and> comp_calls new = compensated new @ take 1 (remaining p (rs m'))))"

lemma comp_progress_before:
  "comp_frame m m1 \<Longrightarrow> comp_progress p css due m1 r m' \<Longrightarrow> comp_progress p css due m r m'"
  unfolding comp_progress_def comp_frame_def by force

text \<open>After an operation that changed nothing but the index, an error stops the loop there.\<close>

lemma comp_progress_stop:
  assumes "comp_frame m m'" and "CompletedSteps (rs m) = css" and "remaining p (rs m) = due"
  shows "comp_progress p css due m (Some e) m'"
  using assms unfolding comp_progress_def comp_frame_def remaining_def
  by auto

lemma comp_progress_call:
  assumes "comp_progress p css due (m\<lparr>effs := effs m @ [CompensateCalled q None]\<rparr>) r m'"
  shows "comp_progress p css (q # due) m r m'"
  using assms unfolding comp_progress_def by force

lemma compensation_end_progress:
  assumes "compensation_end env p orig m = Some (r, m')" and "CompletedSteps (rs m) = css"
  shows "comp_progress p css [] m r m'"
proof -
  let ?m = "m\<lparr>rs := (rs m)\<lparr>Status := RunStatusFailed, CompensationIndex := - 1\<rparr>\<rparr>"
  have "keeps comp_frame (on_err (save_data env) fail
     (on_err (snapshot env p ''compensation completion'') fail
     (seqm (observe env p (Ev EventCompensationSucceeded [] 0 None 0 ''compensation'' None))
     (seqm (observe env p (Ev EventPipelineCompleted [] 0 None 0 ''run'' (Some (errorf orig))))
       (ret None)))))" (is "keeps _ ?rest")
    by (intro cf_rules)
  moreover have "?rest ?m = Some (r, m')"
    using assms(1) by (simp add: compensation_end_def seqm_def set_status_def set_comp_index_def bnd_def upd_rs_def upd_def)
  ultimately have "comp_frame ?m m'" by (rule keepsD)
  then show ?thesis
    using assms(2) unfolding comp_progress_def comp_frame_def remaining_def
    by auto
qed

text \<open>Programs that always return an error.\<close>

definition errs :: "('s, 'e option) go \<Rightarrow> bool" where
  "errs m \<longleftrightarrow> (\<forall>s r s'. m s = Some (r, s') \<longrightarrow> r \<noteq> None)"

lemma errs_fail: "errs (fail e)"
  by (auto simp: errs_def)

lemma errs_bnd: "(\<And>x. errs (f x)) \<Longrightarrow> errs (bnd m f)"
  unfolding errs_def bnd_Some_iff by blast

lemma errs_seqm: "errs k \<Longrightarrow> errs (seqm m k)"
  unfolding seqm_def by (rule errs_bnd)

lemma errs_on_err: "(\<And>e. errs (h e)) \<Longrightarrow> errs k \<Longrightarrow> errs (on_err m h k)"
  unfolding on_err_def by (rule errs_bnd) (auto split: option.split)

lemma errs_if: "errs m \<Longrightarrow> errs k \<Longrightarrow> errs (if b then m else k)"
  by simp

lemma errsD: "errs m \<Longrightarrow> m s = Some (r, s') \<Longrightarrow> \<exists>e. r = Some e"
  unfolding errs_def by blast

lemmas errs_rules = errs_fail errs_bnd errs_seqm errs_on_err errs_if

lemma errs_persistDeferred: "errs (persistDeferred env p q e b op it)"
  by (cases "deferredDetails e") (simp only: persistDeferred_def prod.case, intro errs_rules)

lemma errs_compensation_failed: "errs (compensation_failed env p orig i q n t e)"
  unfolding compensation_failed_def by (intro errs_seqm errs_on_err errs_bnd errs_if errs_persistDeferred errs_fail)

lemma set_comp_index_run: "seqm (set_comp_index i) k m = k (m\<lparr>rs := (rs m)\<lparr>CompensationIndex := i\<rparr>\<rparr>)"
  by (simp add: seqm_def set_comp_index_def upd_rs_def upd_def bnd_def)

lemma compensation_failed_frame:
  assumes run: "compensation_failed env p orig i q n t e m = Some (r, m')"
    and i: "CompensationIndex (rs m) = int i"
  shows "comp_frame m m'"
proof -
  let ?rest = "seqm (recordError q e)
     (on_err (ctx_err env)
       (\<lambda>ce. bnd (now env) (\<lambda>t'.
          seqm (observe env p (Ev EventContextCanceled q 0 None (time_sub t' t) ''compensation'' (Some ce)))
            (fail ce)))
       (if isDeferred e then persistDeferred env p q e False ''delayed continuation'' None
        else
          bnd (now env) (\<lambda>t'.
          seqm (observe env p (Ev EventCompensationFailed q 0 None (time_sub t' t) ''compensation step'' (Some e)))
          (on_err (save_data env) fail
          (on_err (snapshot env p ''compensation failure'') fail
            (fail (ErrCompensationFailed (errorf orig) (errorf_wrap (''step '' @ go_quote n) e))))))))"
  have "m\<lparr>rs := (rs m)\<lparr>CompensationIndex := int i\<rparr>\<rparr> = m" using i by simp
  then have "?rest m = Some (r, m')" using run by (simp add: compensation_failed_def set_comp_index_run)
  moreover have "keeps comp_frame ?rest"
    by (cases "isDeferred e") (simp_all only: if_True if_False, (intro cf_rules)+)
  ultimately show ?thesis by (rule keepsD [rotated])
qed

lemma compensation_succeeded_progress:
  assumes run: "compensation_succeeded env p i q t k m = Some (r, m')"
    and css: "CompletedSteps (rs m) = css" and due: "pending p css i = due"
    and k: "\<And>m r m'. k m = Some (r, m') \<Longrightarrow> CompletedSteps (rs m) = css \<Longrightarrow>
       CompensationIndex (rs m) = int i - 1 \<Longrightarrow> comp_progress p css due m r m'"
  shows "comp_progress p css due m r m'"
proof -
  let ?m = "m\<lparr>rs := (rs m)\<lparr>CompensationIndex := int i - 1\<rparr>\<rparr>"
  have rem: "CompletedSteps (rs n) = css \<and> CompensationIndex (rs n) = int i - 1"
    if "comp_frame ?m n" for n
    using that css by (simp add: comp_frame_def)
  have stop: "comp_progress p css due ?m (Some e) n" if "comp_frame ?m n" for e n
    using that css due by (intro comp_progress_stop) (simp_all add: remaining_def)
  obtain x1 m1 where m1: "save_data env ?m = Some (x1, m1)"
    and r1: "(case x1 of Some e \<Rightarrow> fail e | None \<Rightarrow>
      on_err (snapshot env p ''compensation step completion'') fail
       (bnd (now env) (\<lambda>t'.
        seqm (observe env p (Ev EventCompensationSucceeded q 0 None (time_sub t' t) ''compensation step'' None)) k))) m1
      = Some (r, m')"
    using run by (auto simp: compensation_succeeded_def set_comp_index_run on_err_Some_iff)
  have f1: "comp_frame ?m m1" by (rule keepsD [OF cf_save_data m1])
  have "comp_progress p css due ?m r m'"
  proof (cases x1)
    case None
    then obtain x2 m2 where m2: "snapshot env p ''compensation step completion'' m1 = Some (x2, m2)"
      and r2: "(case x2 of Some e \<Rightarrow> fail e | None \<Rightarrow>
         bnd (now env) (\<lambda>t'.
          seqm (observe env p (Ev EventCompensationSucceeded q 0 None (time_sub t' t) ''compensation step'' None)) k)) m2
        = Some (r, m')"
      using r1 None by (auto simp: on_err_Some_iff)
    have f2: "comp_frame ?m m2" using f1 keepsD [OF cf_snapshot m2] by (rule cf.kept_trans)
    show ?thesis
    proof (cases x2)
      case None
      then obtain t' m3 m4 where m3: "now env m2 = Some (t', m3)"
        and m4: "observe env p (Ev EventCompensationSucceeded q 0 None (time_sub t' t) ''compensation step'' None) m3
          = Some ((), m4)" and r4: "k m4 = Some (r, m')"
        using r2 by (auto simp: bnd_Some_iff seqm_def)
      have f4: "comp_frame ?m m4"
        using f2 keepsD [OF cf_now m3] keepsD [OF cf_observe m4] by (blast intro: cf.kept_trans)
      show ?thesis
        using k [OF r4] rem [OF f4] f4 by (blast intro: comp_progress_before)
    next
      case (Some e)
      then show ?thesis using r2 stop [OF f2] by simp
    qed
  next
    case (Some e)
    then show ?thesis using r1 stop [OF f1] by simp
  qed
  then show ?thesis by (simp add: comp_progress_def)
qed

lemma compensate_loop_progress:
  assumes "compensate_loop env p orig k m = Some (r, m')" and "CompletedSteps (rs m) = css"
    and "CompensationIndex (rs m) = int k - 1"
  shows "comp_progress p css (pending p css k) m r m'"
  using assms
proof (induction k arbitrary: m r m')
  case 0
  then show ?case by (simp add: compensation_end_progress)
next
  case (Suc i)
  let ?cs = "css ! i"
  have i: "i < length css"
    using Suc.prems by (auto simp: bnd_def get_rs_def gets_def panic_def not_le split: if_splits)
  have skip: "comp_progress p css (pending p css i) n r m'"
    if "seqm (set_comp_index (int i - 1)) (compensate_loop env p orig i) n = Some (r, m')"
      "CompletedSteps (rs n) = css" for n
    using Suc.IH [of "n\<lparr>rs := (rs n)\<lparr>CompensationIndex := int i - 1\<rparr>\<rparr>" r m'] that
    by (simp add: set_comp_index_run) (simp add: comp_progress_def)
  show ?case
  proof (cases "HasCompensator ?cs")
    case False
    then show ?thesis
      using Suc.prems i skip [of m]
      by (simp add: bnd_Some_iff pending_Suc compensable_def Let_def)
  next
    case True
    then obtain c m1 where m1: "ctx_err env m = Some (c, m1)"
      and r1: "(case c of
          Some ce \<Rightarrow> seqm (observe env p (Ev EventContextCanceled (Path ?cs) 0 None 0 ''compensation'' (Some ce))) (fail ce)
        | None \<Rightarrow> (case find_compensator p (Path ?cs) of
            None \<Rightarrow> seqm (set_comp_index (int i - 1)) (compensate_loop env p orig i)
          | Some (name, f) \<Rightarrow>
              bnd (now env) (\<lambda>startedAt.
              seqm (observe env p (Ev EventCompensationStarted (Path ?cs) 0 None 0 ''compensation step'' None))
              (on_err (invoke (CompensateCalled (Path ?cs)) (Some f))
                (compensation_failed env p orig i (Path ?cs) name startedAt)
                (compensation_succeeded env p i (Path ?cs) startedAt (compensate_loop env p orig i)))))) m1
        = Some (r, m')"
      using Suc.prems i by (auto simp: bnd_Some_iff on_err_Some_iff Let_def)
    have f1: "comp_frame m m1" by (rule keepsD [OF cf_ctx_err m1])
    have m1s: "CompletedSteps (rs m1) = css" "CompensationIndex (rs m1) = int i"
      using f1 Suc.prems by (simp_all add: comp_frame_def)
    have "comp_progress p css (pending p css (Suc i)) m1 r m'"
    proof (cases c)
      case (Some ce)
      then have r: "r = Some ce" and f: "comp_frame m1 m'"
        using r1 keepsD [OF cf_observe] by (auto simp: seqm_def bnd_Some_iff)
      show ?thesis
        unfolding r by (rule comp_progress_stop [OF f m1s(1)]) (simp add: remaining_def m1s)
    next
      case None
      show ?thesis
      proof (cases "find_compensator p (Path ?cs)")
        case None': None
        then show ?thesis
          using r1 None i skip [of m1] m1s by (simp add: pending_Suc compensable_def)
      next
        case (Some nf)
        obtain name f where nf: "nf = (name, f)" by (cases nf)
        have comp: "pending p css (Suc i) = Path ?cs # pending p css i"
          using i True Some by (simp add: pending_Suc compensable_def)
        obtain t m2 m3 x m4 where m2: "now env m1 = Some (t, m2)"
          and m3: "observe env p (Ev EventCompensationStarted (Path ?cs) 0 None 0 ''compensation step'' None) m2 = Some ((), m3)"
          and m4: "invoke (CompensateCalled (Path ?cs)) (Some f) m3 = Some (x, m4)"
          and r4: "(case x of Some e \<Rightarrow> compensation_failed env p orig i (Path ?cs) name t e
            | None \<Rightarrow> compensation_succeeded env p i (Path ?cs) t (compensate_loop env p orig i)) m4 = Some (r, m')"
          using r1 None Some nf by (auto simp: bnd_Some_iff seqm_Some_iff on_err_Some_iff)
        have f3: "comp_frame m1 m3"
          using keepsD [OF cf_now m2] keepsD [OF cf_observe m3] by (rule cf.kept_trans)
        obtain d w where m4': "m4 = m3\<lparr>store := d, world := w, effs := effs m3 @ [CompensateCalled (Path ?cs) x]\<rparr>"
          using m4 by (auto simp: invoke_Some_iff)
        have m4s: "CompletedSteps (rs m4) = css" "CompensationIndex (rs m4) = int i"
          using f3 m1s by (simp_all add: m4' comp_frame_def)
        have "comp_progress p css (pending p css (Suc i)) m3 r m'"
        proof (cases x)
          case None
          have "comp_progress p css (pending p css i) m4 r m'"
            by (rule compensation_succeeded_progress [OF _ m4s(1) refl])
              (use r4 None Suc.IH in auto)
          then show ?thesis
            unfolding comp using m4' None by (intro comp_progress_call) (simp add: comp_progress_def)
        next
          case (Some e)
          then have fr: "comp_frame m4 m'" and er: "\<exists>e'. r = Some e'"
            using r4 m4s compensation_failed_frame errsD [OF errs_compensation_failed] by auto
          from fr have rem: "remaining p (rs m') = Path ?cs # pending p css i"
            using m4s comp by (simp add: comp_frame_def remaining_def nat_add_distrib)
          obtain new where "effs m' = effs m3 @ CompensateCalled (Path ?cs) (Some e) # new" "comp_calls new = []"
            using fr by (auto simp: comp_frame_def m4' Some)
          then show ?thesis
            using fr er rem m4s
            by (auto simp: comp_progress_def comp_frame_def comp m4'
                intro!: exI [of _ "CompensateCalled (Path ?cs) (Some e) # new"])
        qed
        with f3 show ?thesis by (rule comp_progress_before)
      qed
    qed
    with f1 show ?thesis by (rule comp_progress_before)
  qed
qed

section \<open>Runs that compensate\<close>

lemma runCompensation_progress:
  assumes "runCompensation env p m = Some (r, m')"
  shows "comp_progress p (CompletedSteps (rs m)) (remaining p (rs m)) m r m'"
proof -
  obtain m1 where m1: "observe env p (Ev EventCompensationStarted [] 0 None 0 ''compensation'' None) m = Some ((), m1)"
    and l: "compensate_loop env p (Error (rs m1)) (nat (CompensationIndex (rs m1) + 1)) m1 = Some (r, m')"
    using assms by (auto simp: runCompensation_def seqm_Some_iff bnd_Some_iff)
  have f: "comp_frame m m1" by (rule keepsD [OF cf_observe m1])
  have "comp_progress p (CompletedSteps (rs m)) (remaining p (rs m)) m1 r m'"
  proof (cases "CompensationIndex (rs m1) < - 1")
    case True
    then show ?thesis
      using l f compensation_end_progress by (auto simp: comp_frame_def remaining_def)
  next
    case False
    then show ?thesis
      using compensate_loop_progress [OF l refl] f by (simp add: comp_frame_def remaining_def)
  qed
  with f show ?thesis by (rule comp_progress_before)
qed

lemma comp_progress_any: "comp_progress p css due m None m' \<Longrightarrow> comp_progress p css due m r m'"
  by (auto simp: comp_progress_def)

lemma cf_save_data_unchecked: "keeps comp_frame (save_data_unchecked env)"
  unfolding save_data_unchecked_def by (intro cf.kept_bnd cf.kept_gets cf_upd_rs) simp

lemma resume_compensation_progress:
  assumes "resume_compensation env p m = Some (r, m')"
  shows "comp_progress p (CompletedSteps (rs m)) (remaining p (rs m)) m r m'"
proof -
  obtain m1 x m2 where m1: "save_data_unchecked env m = Some ((), m1)"
    and m2: "snapshot env p ''resume compensation'' m1 = Some (x, m2)"
    and r2: "(case x of Some e \<Rightarrow> fail e | None \<Rightarrow>
      on_err (runCompensation env p) fail
       (bnd get_rs (\<lambda>st. case RepeatTimeout st of
          Some t \<Rightarrow> fail (ErrRepeatTimeout (TimeoutStepName t) (TimeoutMaxDuration t))
        | None \<Rightarrow> ret None))) m2 = Some (r, m')"
    using assms by (auto simp: resume_compensation_def seqm_Some_iff on_err_Some_iff)
  have f: "comp_frame m m2"
    using keepsD [OF cf_save_data_unchecked m1] keepsD [OF cf_snapshot m2] by (rule cf.kept_trans)
  show ?thesis
  proof (cases x)
    case (Some e)
    then have "r = Some e" "m' = m2" using r2 by auto
    then show ?thesis by (simp add: comp_progress_stop [OF f])
  next
    case None
    then obtain y m3 where m3: "runCompensation env p m2 = Some (y, m3)"
      and r3: "(case y of Some e \<Rightarrow> fail e | None \<Rightarrow>
       bnd get_rs (\<lambda>st. case RepeatTimeout st of
          Some t \<Rightarrow> fail (ErrRepeatTimeout (TimeoutStepName t) (TimeoutMaxDuration t))
        | None \<Rightarrow> ret None)) m3 = Some (r, m')"
      using r2 by (auto simp: on_err_Some_iff)
    have "comp_progress p (CompletedSteps (rs m)) (remaining p (rs m)) m y m3"
      using runCompensation_progress [OF m3] f
      by (intro comp_progress_before [OF f]) (simp add: comp_frame_def remaining_def)
    moreover have "m' = m3" "r = y \<or> y = None"
      using r3 by (auto simp: bnd_Some_iff split: option.splits)
    ultimately show ?thesis using comp_progress_any by blast
  qed
qed

lemma admit_unmigrated:
  assumes "stateMigrator env = None" and "admit env p m = Some (r, m')" and "Status (rs m) \<noteq> RunStatusNew"
  shows "rs m' = rs m \<and> effs m' = effs m"
  using assms
  by (auto simp: admit_def bnd_Some_iff seqm_Some_iff on_err_Some_iff Let_def
      dest!: observe_run_effs split: if_splits option.splits)

lemma admitted_compensation_progress:
  assumes "run_admitted env p m = Some (r, m')" and "Status (rs m) = RunStatusCompensating"
  shows "comp_progress p (CompletedSteps (rs m)) (remaining p (rs m)) m r m'"
proof -
  obtain m1 c m2 where m1: "restore_store m = Some ((), m1)" and m2: "ctx_err env m1 = Some (c, m2)"
    and r2: "(case c of Some ce \<Rightarrow> run_canceled env p ce | None \<Rightarrow>
      bnd get_rs (\<lambda>st. if Status st = RunStatusCompensating then resume_compensation env p else run_steps env p)) m2
        = Some (r, m')"
    using assms by (auto simp: run_admitted_def seqm_Some_iff on_err_Some_iff)
  have f: "comp_frame m m2"
    using m1 m2 by (auto simp: restore_store_def ctx_err_Some_iff comp_frame_def)
  show ?thesis
  proof (cases c)
    case (Some ce)
    then have "r = Some ce" "comp_frame m2 m'"
      using r2 keepsD [OF cf_observe] by (auto simp: run_canceled_def seqm_Some_iff)
    moreover have "comp_frame m m'" using f \<open>comp_frame m2 m'\<close> by (rule cf.kept_trans)
    ultimately show ?thesis by (simp add: comp_progress_stop)
  next
    case None
    then have "resume_compensation env p m2 = Some (r, m')"
      using r2 assms(2) f by (simp add: bnd_Some_iff comp_frame_def)
    from resume_compensation_progress [OF this] show ?thesis
      using f by (intro comp_progress_before [OF f]) (simp add: comp_frame_def remaining_def)
  qed
qed

lemma Run_compensation_progress_lemma:
  assumes run: "Run env p st w = Some (r, m)"
    and st: "Status st = RunStatusCompensating" and mig: "stateMigrator env = None"
  shows "compensated (effs m) @ remaining p (rs m) = remaining p st
    \<and> (comp_calls (effs m) = compensated (effs m)
       \<or> r \<noteq> None \<and> comp_calls (effs m) = compensated (effs m) @ take 1 (remaining p (rs m)))
    \<and> (Status (rs m) = RunStatusCompensating \<or> Status (rs m) = RunStatusFailed \<and> remaining p (rs m) = [])
    \<and> (r = None \<longrightarrow> Status (rs m) = RunStatusFailed)"
  using run
proof (cases rule: Run_cases)
  case (ended t)
  then show ?thesis
    using admit_unmigrated [OF mig ended(5)] st
    by (auto simp: admit_def bnd_Some_iff seqm_Some_iff on_err_Some_iff mig Let_def IsTerminal_def
        dest!: observe_run_effs split: if_splits option.splits)
next
  case (admitted t u)
  have u: "rs u = st" "effs u = []"
    using admit_unmigrated [OF mig admitted(5)] admitted(3,4) st by auto
  from admitted_compensation_progress [OF admitted(6)] u st show ?thesis
    by (auto simp: comp_progress_def remaining_def)
qed (use st in \<open>auto simp: IsTerminal_def\<close>)

text \<open>C7. A run resumed while compensating calls compensators in reverse order of completion: those
  that returned without error followed by those still due on the returned state are those that were
  due on the given state. At most one call fails, it is the last one and stays due. When the run
  returns no error nothing is due and the status is failed.\<close>

theorem Run_compensation_progress:
  assumes run: "Run env p st w = Some (r, m)"
    and st: "Status st = RunStatusCompensating" and mig: "stateMigrator env = None"
  shows "compensated (effs m) @ remaining p (rs m) = remaining p st
    \<and> (comp_calls (effs m) = compensated (effs m)
       \<or> r \<noteq> None \<and> comp_calls (effs m) = compensated (effs m) @ take 1 (remaining p (rs m)))
    \<and> (Status (rs m) = RunStatusCompensating \<or> Status (rs m) = RunStatusFailed \<and> remaining p (rs m) = [])
    \<and> (r = None \<longrightarrow> Status (rs m) = RunStatusFailed)"
  using assms by (rule Run_compensation_progress_lemma)

theorem Run_compensation_progress_witness:
  "\<exists>r m. Run good_env (order_pipeline ok_action)
        (running_state 3\<lparr>Status := RunStatusCompensating, CompensationIndex := 1,
           CompletedSteps := [\<lparr>Path = [''reserve''], HasCompensator = True\<rparr>,
                              \<lparr>Path = [''charge''], HasCompensator = True\<rparr>]\<rparr>) 0 = Some (r, m)
     \<and> compensated (effs m) = [[''charge''], [''reserve'']] \<and> Status (rs m) = RunStatusFailed"
proof -
  let ?st = "running_state 3\<lparr>Status := RunStatusCompensating, CompensationIndex := 1,
           CompletedSteps := [\<lparr>Path = [''reserve''], HasCompensator = True\<rparr>,
                              \<lparr>Path = [''charge''], HasCompensator = True\<rparr>]\<rparr>"
  let ?run = "Run good_env (order_pipeline ok_action) ?st 0"
  have "map_option fst ?run = Some None" by code_simp
  then obtain m where m: "?run = Some (None, m)" by (cases ?run) auto
  have "remaining (order_pipeline ok_action) ?st = [[''charge''], [''reserve'']]" by code_simp
  moreover have "Status ?st = RunStatusCompensating" by simp
  moreover have "stateMigrator good_env = None" by (simp add: good_env_def sample_env_def)
  ultimately show ?thesis
    using Run_compensation_progress [OF m] m by auto
qed

section \<open>Interrupted and resumed compensation\<close>

text \<open>\<open>resumed p st qs st'\<close>: a sequence of runs, each on the state the previous one returned and each
  in its own world, environment and with its own interruptions, leads from \<open>st\<close> to \<open>st'\<close>;
  \<open>qs\<close> are the compensators that succeeded, in order.\<close>

inductive resumed :: "('v, 'w) pipeline \<Rightarrow> run_state \<Rightarrow> path list \<Rightarrow> run_state \<Rightarrow> bool" for p where
  resumed_refl: "resumed p st [] st"
| resumed_run: "Run env p st w = Some (r, m) \<Longrightarrow> stateMigrator env = None \<Longrightarrow> resumed p (rs m) qs st' \<Longrightarrow>
    resumed p st (compensated (effs m) @ qs) st'"

inductive_cases resumed_runE: "resumed p st qs st'"

lemma Run_terminal:
  assumes "Run env p st w = Some (r, m)" and "IsTerminal st"
  shows "rs m = st \<and> effs m = []"
  using assms by (cases rule: Run_cases) auto

text \<open>C2. However often compensation is interrupted (cancellation, deferred compensators, failed
  compensators, failed snapshots) and resumed on the returned state, the compensators that succeed
  are, in order, exactly those due at the start up to those still due: none succeeds twice, none is
  skipped. Once the state is terminal all of them have succeeded.\<close>

theorem resumed_compensates_once:
  assumes "resumed p st qs st'" and "Status st = RunStatusCompensating"
  shows "qs @ remaining p st' = remaining p st \<and> (IsTerminal st' \<longrightarrow> qs = remaining p st)"
proof -
  have "qs @ remaining p st' = remaining p st \<and> (IsTerminal st' \<longrightarrow> remaining p st' = [])"
    if "Status st = RunStatusCompensating \<or> Status st = RunStatusFailed \<and> remaining p st = []"
    using assms(1) that
  proof (induction rule: resumed.induct)
    case (resumed_refl st)
    then show ?case by (auto simp: IsTerminal_def)
  next
    case (resumed_run env st w r m qs st')
    show ?case
    proof (cases "Status st = RunStatusCompensating")
      case True
      from Run_compensation_progress_lemma [OF resumed_run.hyps(1) True resumed_run.hyps(2)]
      show ?thesis using resumed_run.IH by auto
    next
      case False
      then have "rs m = st" "effs m = []"
        using resumed_run.prems Run_terminal [OF resumed_run.hyps(1)] by (auto simp: IsTerminal_def)
      then show ?thesis using resumed_run.IH resumed_run.prems False by auto
    qed
  qed
  with assms(2) show ?thesis by auto
qed

theorem resumed_compensates_once_witness:
  "\<exists>qs st'. resumed (order_pipeline ok_action)
        (running_state 3\<lparr>Status := RunStatusCompensating, CompensationIndex := 1,
           CompletedSteps := [\<lparr>Path = [''reserve''], HasCompensator = True\<rparr>,
                              \<lparr>Path = [''charge''], HasCompensator = True\<rparr>]\<rparr>) qs st'
     \<and> IsTerminal st' \<and> qs = [[''charge''], [''reserve'']]"
proof -
  let ?p = "order_pipeline ok_action"
  let ?st = "running_state 3\<lparr>Status := RunStatusCompensating, CompensationIndex := 1,
           CompletedSteps := [\<lparr>Path = [''reserve''], HasCompensator = True\<rparr>,
                              \<lparr>Path = [''charge''], HasCompensator = True\<rparr>]\<rparr>"
  \<comment> \<open>the first run is cut short by a refused snapshot, the second finishes\<close>
  let ?env = "sample_env (\<lambda>v. v = 2) (\<lambda>_. False)"
  have "map_option (\<lambda>x. IsTerminal (rs (snd x))) (Run ?env ?p ?st 0) = Some False" by code_simp
  then obtain r1 m1 where m1: "Run ?env ?p ?st 0 = Some (r1, m1)" by auto
  have "Option.bind (Run ?env ?p ?st 0) (\<lambda>x. map_option (\<lambda>y. IsTerminal (rs (snd y))) (Run good_env ?p (rs (snd x)) 0))
      = Some True" by code_simp
  then obtain r2 m2 where m2: "Run good_env ?p (rs m1) 0 = Some (r2, m2)" and t: "IsTerminal (rs m2)"
    using m1 by auto
  have "resumed ?p ?st (compensated (effs m1) @ compensated (effs m2) @ []) (rs m2)"
    by (rule resumed_run [OF m1 _ resumed_run [OF m2 _ resumed_refl]])
      (simp_all add: good_env_def sample_env_def)
  moreover have "remaining ?p ?st = [[''charge''], [''reserve'']]" by code_simp
  ultimately show ?thesis using resumed_compensates_once [of ?p ?st _ "rs m2"] t by fastforce
qed

section \<open>Starting compensation\<close>

lemma start_compensation_progress:
  assumes "on_err (save_data env) fail
     (on_err (snapshot env p ''step failure before compensation'') fail
     (on_err (runCompensation env p) fail k)) m = Some (r, m')"
    and k: "\<And>s r s'. k s = Some (r, s') \<Longrightarrow> s' = s"
  shows "comp_progress p (CompletedSteps (rs m)) (remaining p (rs m)) m r m'"
proof -
  obtain x1 m1 where m1: "save_data env m = Some (x1, m1)"
    and r1: "(case x1 of Some e \<Rightarrow> fail e | None \<Rightarrow>
      on_err (snapshot env p ''step failure before compensation'') fail
       (on_err (runCompensation env p) fail k)) m1 = Some (r, m')"
    using assms(1) unfolding on_err_Some_iff [of "save_data env"] by blast
  have f1: "comp_frame m m1" by (rule keepsD [OF cf_save_data m1])
  show ?thesis
  proof (cases x1)
    case (Some e)
    then show ?thesis using r1 f1 by (auto intro: comp_progress_stop)
  next
    case None
    then obtain x2 m2 where m2: "snapshot env p ''step failure before compensation'' m1 = Some (x2, m2)"
      and r2: "(case x2 of Some e \<Rightarrow> fail e | None \<Rightarrow> on_err (runCompensation env p) fail k) m2 = Some (r, m')"
      using r1 by (auto simp: on_err_Some_iff)
    have f2: "comp_frame m m2" using f1 keepsD [OF cf_snapshot m2] by (rule cf.kept_trans)
    show ?thesis
    proof (cases x2)
      case (Some e)
      then show ?thesis using r2 f2 by (auto intro: comp_progress_stop)
    next
      case None
      then obtain x3 m3 where m3: "runCompensation env p m2 = Some (x3, m3)"
        and r3: "(case x3 of Some e \<Rightarrow> fail e | None \<Rightarrow> k) m3 = Some (r, m')"
        using r2 by (auto simp: on_err_Some_iff)
      have "comp_progress p (CompletedSteps (rs m)) (remaining p (rs m)) m x3 m3"
        using runCompensation_progress [OF m3] f2
        by (intro comp_progress_before [OF f2]) (simp add: comp_frame_def remaining_def)
      moreover have "m' = m3" "r = x3 \<or> x3 = None"
        using r3 k by (cases x3; auto)+
      ultimately show ?thesis using comp_progress_any by blast
    qed
  qed
qed

text \<open>C6. When a step fails, compensation covers every completed step: the compensators that
  succeeded before the run returned, followed by those still due, are those of all completed steps,
  latest first. The run is then compensating, or failed with nothing due.\<close>

theorem start_compensation_covers_all:
  assumes run: "start_compensation env p q e m = Some (r, m')"
  shows "(\<exists>new. effs m' = effs m @ new
      \<and> compensated new @ remaining p (rs m')
          = map Path (rev (filter (compensable p) (CompletedSteps (rs m)))))
    \<and> (Status (rs m') = RunStatusCompensating \<or> Status (rs m') = RunStatusFailed \<and> remaining p (rs m') = [])"
proof -
  let ?m = "m\<lparr>rs := (rs m)\<lparr>Error := err_text e, FailedStepPath := q, Status := RunStatusCompensating,
      CompensationIndex := int (length (CompletedSteps (rs m))) - 1,
      RepeatTimeout := (case as_type sel_repeat_timeout e of
          Some (n, d) \<Rightarrow> Some \<lparr>TimeoutStepName = n, TimeoutMaxDuration = d\<rparr>
        | None \<Rightarrow> RepeatTimeout (rs m))\<rparr>\<rparr>"
  have "comp_progress p (CompletedSteps (rs ?m)) (remaining p (rs ?m)) ?m r m'"
    by (rule start_compensation_progress
        [where k = "if as_type sel_repeat_timeout e \<noteq> None then fail e else ret None"])
      (use run in \<open>auto simp: start_compensation_def seqm_Some_iff split: if_splits\<close>)
  moreover have "remaining p (rs ?m) = map Path (rev (filter (compensable p) (CompletedSteps (rs m))))"
    by (simp add: remaining_def pending_def)
  ultimately show ?thesis
    by (auto simp: comp_progress_def remaining_def)
qed

theorem start_compensation_covers_all_witness:
  "\<exists>r m'. start_compensation good_env (order_pipeline ok_action) [''ship''] (ErrNew ''no stock'')
        (init_mach (running_state 3\<lparr>CompletedSteps := [\<lparr>Path = [''reserve''], HasCompensator = True\<rparr>,
                              \<lparr>Path = [''charge''], HasCompensator = True\<rparr>]\<rparr>) 0) = Some (r, m')
     \<and> compensated (effs m') @ remaining (order_pipeline ok_action) (rs m') = [[''charge''], [''reserve'']]"
proof -
  let ?m = "init_mach (running_state 3\<lparr>CompletedSteps := [\<lparr>Path = [''reserve''], HasCompensator = True\<rparr>,
                              \<lparr>Path = [''charge''], HasCompensator = True\<rparr>]\<rparr>) 0"
  let ?run = "start_compensation good_env (order_pipeline ok_action) [''ship''] (ErrNew ''no stock'') ?m"
  have "map_option fst ?run = Some None" by code_simp
  then obtain m' where m': "?run = Some (None, m')" by (cases ?run) auto
  have "map Path (rev (filter (compensable (order_pipeline ok_action)) (CompletedSteps (rs ?m))))
      = [[''charge''], [''reserve'']]" by code_simp
  with start_compensation_covers_all [OF m'] m' show ?thesis by (auto simp: init_mach_def)
qed

end
