(* ===== verification/Pipeline_Total.thy ===== *)
theory Pipeline_Total
  imports Pipeline_Compensation
begin

text \<open>
  No run of a validated pipeline panics. The run-time panics the executor could have are a call of a
  nil callback, a write to a nil map and an index beyond \<open>CompletedSteps\<close>; validation excludes the
  first, the handlers create each journal map before they write to it, and compensation starts at
  an index in range. Every run also returns: the model's functions are total.
\<close>

section \<open>What validation gives\<close>

definition well_formed :: "('v, 'w) step list \<Rightarrow> bool" where
  "well_formed steps \<longleftrightarrow> (\<exists>i names pa. validateSteps_from i names steps pa = None)"

definition callbacks_set :: "('v, 'w) step \<Rightarrow> bool" where
  "callbacks_set s \<longleftrightarrow>
     (\<forall>act. StepAction s = Some act \<longrightarrow> Do act \<noteq> None)
     \<and> (\<forall>po. StepPoll s = Some po \<longrightarrow> Check po \<noteq> None)
     \<and> (\<forall>br. StepBranch s = Some br \<longrightarrow> Decide br \<noteq> None)
     \<and> (\<forall>re. StepRepeat s = Some re \<longrightarrow> Until re \<noteq> None)"

lemma validate_paths_child:
  "validate_paths ps q = None \<Longrightarrow> (k, ss) \<in> set ps \<Longrightarrow> well_formed ss"
proof (induction ps)
  case (Cons x ps)
  obtain k' ss' where x: "x = (k', ss')" by (cases x)
  with Cons.prems(1) have "well_formed ss'" "validate_paths ps q = None"
    unfolding well_formed_def by auto
  with Cons x show ?case by auto
qed simp

lemma validate_step:
  assumes "validateSteps_from i names (s # steps) pa = None"
  shows "callbacks_set s \<and> (\<forall>ss \<in> children s. well_formed ss)
    \<and> StepName s \<notin> set names \<and> validateSteps_from (Suc i) (StepName s # names) steps pa = None"
proof (cases s)
  case (Step n a po br re oe rt)
  have leaf: "(\<forall>act. a = Some act \<longrightarrow> Do act \<noteq> None) \<and> (\<forall>q. po = Some q \<longrightarrow> Check q \<noteq> None)"
    using assms Step by (auto simp: validate_leaf_def split: if_splits)
  have branch: "\<forall>b. br = Some b \<longrightarrow> Decide b \<noteq> None \<and> (\<forall>(k, ss) \<in> set (Paths b). well_formed ss)"
  proof (intro allI impI)
    fix b assume "br = Some b"
    then show "Decide b \<noteq> None \<and> (\<forall>(k, ss) \<in> set (Paths b). well_formed ss)"
      using assms Step
      by (cases b) (auto simp: validate_branch_head_def dest: validate_paths_child split: if_splits)
  qed
  have rep: "\<forall>r. re = Some r \<longrightarrow> Until r \<noteq> None \<and> well_formed (RepeatSteps r)"
  proof (intro allI impI)
    fix r assume "re = Some r"
    then show "Until r \<noteq> None \<and> well_formed (RepeatSteps r)"
      using assms Step
      by (cases r) (auto simp: validate_repeat_head_def well_formed_def split: if_splits)
  qed
  have "n \<notin> set names"
    using assms Step by (auto simp: validate_name_def split: if_splits)
  with leaf branch rep assms Step show ?thesis
    by (auto simp: callbacks_set_def children_def split: option.splits)
qed

lemma well_formed_Cons:
  "well_formed (s # steps) \<Longrightarrow> callbacks_set s \<and> (\<forall>ss \<in> children s. well_formed ss) \<and> well_formed steps"
proof -
  assume "well_formed (s # steps)"
  then obtain i names pa where "validateSteps_from i names (s # steps) pa = None"
    by (auto simp: well_formed_def)
  from validate_step [OF this] show ?thesis unfolding well_formed_def [of steps] by blast
qed

lemma well_formed_in:
  "well_formed steps \<Longrightarrow> s \<in> set steps \<Longrightarrow> callbacks_set s \<and> (\<forall>ss \<in> children s. well_formed ss)"
  by (induction steps) (auto dest: well_formed_Cons)

lemma validated_well_formed: "validate p = None \<Longrightarrow> well_formed (PSteps p)"
  by (auto simp: validate_def validateSteps_def well_formed_def split: if_splits)

section \<open>Journal maps stay\<close>

definition maps_stay :: "('v, 'w) mach \<Rightarrow> ('v, 'w) mach \<Rightarrow> bool" where
  "maps_stay m m' \<longleftrightarrow>
     (StepDiagnostics (rs m) \<noteq> None \<longrightarrow> StepDiagnostics (rs m') \<noteq> None)
     \<and> (RepeatStates (rs m) \<noteq> None \<longrightarrow> RepeatStates (rs m') \<noteq> None)"

interpretation ms: run_property maps_stay env p "\<lambda>e m m'. is_snapshot_failed e \<and> maps_stay m m'"
  "\<lambda>_ _. True" for env p
proof unfold_locales
  fix m m' :: "('a, 'b) mach" and op
  show "maps_stay m m'" if "call_snapshot env op m = Some (None, m')"
    using call_snapshot_SomeD [OF that] by (auto simp: maps_stay_def)
  show "is_snapshot_failed (ErrSnapshotFailed op e) \<and> maps_stay m m'"
    if "call_snapshot env op m = Some (Some e, m')" for e
    using call_snapshot_SomeD [OF that] by (auto simp: maps_stay_def)
qed (auto simp: maps_stay_def frame_upd_def placed_def)

lemma ms_keeps: "ms.safe m \<Longrightarrow> keeps maps_stay m"
  by (rule ms.safe_imp_keeps) simp_all

section \<open>Panic freedom\<close>

text \<open>\<open>fine d r m d' r'\<close>: \<open>m\<close> does not panic in a state whose diagnostics map (if \<open>d\<close>) and repeat map
  (if \<open>r\<close>) exist, and leaves a state in which they exist as \<open>d'\<close>, \<open>r'\<close> say.\<close>

definition has_maps :: "bool \<Rightarrow> bool \<Rightarrow> ('v, 'w) mach \<Rightarrow> bool" where
  "has_maps d r m \<longleftrightarrow> (d \<longrightarrow> StepDiagnostics (rs m) \<noteq> None) \<and> (r \<longrightarrow> RepeatStates (rs m) \<noteq> None)"

definition fine :: "bool \<Rightarrow> bool \<Rightarrow> ('v, 'w, 'a) exec \<Rightarrow> bool \<Rightarrow> bool \<Rightarrow> bool" where
  "fine d r m d' r' \<longleftrightarrow> total (has_maps d r) m (\<lambda>_. has_maps d' r')"

lemma fine_bnd: "fine d r m d1 r1 \<Longrightarrow> (\<And>x. fine d1 r1 (f x) d2 r2) \<Longrightarrow> fine d r (bnd m f) d2 r2"
  unfolding fine_def by (rule total_bnd)

lemma fine_seqm: "fine d r m d1 r1 \<Longrightarrow> fine d1 r1 k d2 r2 \<Longrightarrow> fine d r (seqm m k) d2 r2"
  unfolding fine_def by (rule total_seqm)

lemma fine_on_err:
  "fine d r m d1 r1 \<Longrightarrow> (\<And>e. fine d1 r1 (h e) d2 r2) \<Longrightarrow> fine d1 r1 k d2 r2 \<Longrightarrow> fine d r (on_err m h k) d2 r2"
  unfolding fine_def by (rule total_on_err)

lemma fine_if: "(b \<Longrightarrow> fine d r m d' r') \<Longrightarrow> (\<not> b \<Longrightarrow> fine d r k d' r') \<Longrightarrow> fine d r (if b then m else k) d' r'"
  by simp

lemma fine_option:
  "(x = None \<Longrightarrow> fine d r m d' r') \<Longrightarrow> (\<And>y. x = Some y \<Longrightarrow> fine d r (f y) d' r') \<Longrightarrow>
     fine d r (case x of None \<Rightarrow> m | Some y \<Rightarrow> f y) d' r'"
  by (cases x) auto

lemma fine_sum:
  "(\<And>y. x = Inl y \<Longrightarrow> fine d r (f y) d' r') \<Longrightarrow> (\<And>y. x = Inr y \<Longrightarrow> fine d r (g y) d' r') \<Longrightarrow>
     fine d r (case x of Inl y \<Rightarrow> f y | Inr y \<Rightarrow> g y) d' r'"
  by (cases x) auto

lemma fine_weaken: "fine d r m d1 r1 \<Longrightarrow> (d2 \<longrightarrow> d1) \<Longrightarrow> (r2 \<longrightarrow> r1) \<Longrightarrow> fine d r m d2 r2"
  unfolding fine_def by (erule total_conseq) (auto simp: has_maps_def)

lemma fine_False: "fine d r m d1 r1 \<Longrightarrow> fine d r m False False"
  by (rule fine_weaken) simp_all

lemma fine_ret: "fine d r (ret x) d r"
  unfolding fine_def by (rule total_ret)

lemma fine_fail: "fine d r (fail e) d r"
  unfolding fail_def by (rule fine_ret)

lemmas fine_ends = fine_ret [THEN fine_False] fine_fail [THEN fine_False]

lemma fine_gets: "fine d r (gets f) d r" "fine d r get_rs d r"
  unfolding fine_def get_rs_def by (simp_all add: total_gets)

lemma fine_primI: "(\<And>s. \<exists>x s'. m s = Some (x, s') \<and> maps_stay s s') \<Longrightarrow> fine d r m d r"
  unfolding fine_def total_def has_maps_def maps_stay_def by metis

lemma fine_upd_rs: "(\<And>st. frame_upd st (f st)) \<Longrightarrow> fine d r (upd_rs f) d r"
  by (rule fine_primI) (auto simp: upd_rs_def upd_def maps_stay_def frame_upd_def)

lemma fine_observe: "fine d r (observe env p ev) d r"
proof (rule fine_primI)
  fix s :: "('a, 'b) mach"
  obtain w' where "observe env p ev s = Some ((), s\<lparr>world := w'\<rparr>)" using observe_Some [of env p ev s] by blast
  then show "\<exists>x s'. observe env p ev s = Some (x, s') \<and> maps_stay s s'" by (auto simp: maps_stay_def)
qed

lemma fine_world: "fine d r (now env) d r" "fine d r (ctx_err env) d r" "fine d r (sleep env t) d r"
  by (rule fine_primI; auto simp: now_def ctx_err_def sleep_def maps_stay_def split: prod.splits)+

lemma fine_invoke: "f \<noteq> None \<Longrightarrow> fine d r (invoke tag f) d r"
  by (rule fine_primI) (auto simp: invoke_def maps_stay_def split: prod.splits option.splits)

lemma fine_call_snapshot: "fine d r (call_snapshot env op) d r"
proof (rule fine_primI)
  fix s :: "('a, 'b) mach"
  have "call_snapshot env op s \<noteq> None"
    by (simp add: call_snapshot_def Let_def split: prod.split option.split)
  then obtain x s' where x: "call_snapshot env op s = Some (x, s')" by auto
  then show "\<exists>x s'. call_snapshot env op s = Some (x, s') \<and> maps_stay s s'"
    using call_snapshot_SomeD [OF x] by (auto simp: maps_stay_def split: option.splits)
qed

lemma fine_make: "fine d r make_diags True r" "fine d r make_repeats d True"
  by (simp_all add: fine_def total_def has_maps_def make_diags_def make_repeats_def upd_rs_def upd_def del: not_None_eq)

lemma fine_put: "fine True r (put_diag q g) True r" "fine d True (put_repeat q t) d True"
  by (auto simp: fine_def total_def has_maps_def put_diag_def put_repeat_def split: option.splits)

lemma fine_small:
  "fine d r (set_path q) d r" "fine d r (set_status s) d r" "fine d r (set_poll_start t) d r"
  "fine d r (set_comp_index i) d r" "fine d r (get_diag q) d r" "fine d r (append_completed q h) d r"
  unfolding set_path_def set_status_def set_poll_start_def set_comp_index_def get_diag_def append_completed_def
  by (auto intro!: fine_upd_rs fine_gets fine_primI simp: maps_stay_def upd_rs_def upd_def)

lemmas fine_rules =
  fine_bnd fine_seqm fine_on_err fine_if fine_option fine_ret fine_fail fine_gets fine_observe fine_world
  fine_make fine_put fine_small

lemma fine_save_data: "fine d r (save_data env) d r"
  unfolding save_data_def
  by (rule fine_bnd, rule fine_gets, rule fine_sum) (rule fine_seqm fine_ret fine_fail fine_upd_rs | simp add: fine_fail [unfolded fail_def])+

lemma fine_save_data_unchecked: "fine d r (save_data_unchecked env) d r"
  unfolding save_data_unchecked_def by (rule fine_bnd fine_gets fine_upd_rs | simp)+

lemma fine_observe_snapshot: "fine d r (observe_snapshot env p ty t op c) d r"
  unfolding observe_snapshot_def by (rule fine_rules)+

lemma fine_snapshot: "fine d r (snapshot env p op) d r"
  unfolding snapshot_def Let_def by (rule fine_rules fine_call_snapshot fine_observe_snapshot)+

lemma fine_recordAttemptData: "fine d r (recordAttemptData env q) True r"
  unfolding recordAttemptData_def Let_def by (rule fine_rules)+

lemma fine_mark_attempt: "fine d r (mark_attempt env p b q it) True r"
  unfolding mark_attempt_def recordAttempt_def by (rule fine_rules fine_recordAttemptData)+

lemma fine_recordAttempt: "fine d r (recordAttempt env p q it) True r"
  unfolding recordAttempt_def by (rule fine_rules fine_recordAttemptData)+

lemma fine_recordError: "fine d r (recordError q e) True r"
  unfolding recordError_def by (rule fine_rules)+

lemma fine_recordCompleted: "fine True r (recordCompleted env q) True r"
  unfolding recordCompleted_def by (rule fine_rules)+

lemma fine_recordNextRun: "fine True r (recordNextRun env q t c) True r"
  unfolding recordNextRun_def by (rule fine_rules)+

lemma fine_activeStepDuration: "fine d r (activeStepDuration env q) d r"
  unfolding activeStepDuration_def by (rule fine_rules)+

lemma fine_observe_step: "fine d r (observe_step env p ty q it du op c) d r"
  unfolding observe_step_def by (rule fine_rules)+

lemma fine_observe_completed: "fine d r (observe_completed env p q it op) d r"
  unfolding observe_completed_def by (rule fine_rules fine_observe_step)+

lemma fine_fail_step: "fine d r (fail_timed env p q it op e) d r" "fine d r (fail_untimed env p q it op e) d r"
  unfolding fail_timed_def fail_untimed_def
  by (rule fine_rules fine_activeStepDuration fine_observe_step)+

lemma fine_persistDeferred: "fine True r (persistDeferred env p q e b op it) True r"
proof (cases "deferredDetails e" rule: prod_cases4)
  case (fields delay cause e' ok)
  show ?thesis
    unfolding persistDeferred_def fields prod.case
    by (rule fine_rules fine_recordNextRun fine_save_data fine_snapshot fine_upd_rs | simp)+
qed

lemma fine_defer_or_fail: "fine True r k True r \<Longrightarrow> fine True r (defer_or_fail env p q e b it k) True r"
  unfolding defer_or_fail_def by (rule fine_rules fine_persistDeferred)+

lemmas fine_ops =
  fine_save_data fine_save_data_unchecked fine_snapshot fine_mark_attempt fine_recordAttempt fine_recordError
  fine_recordCompleted fine_observe_step fine_observe_completed fine_fail_step fine_persistDeferred
  fine_defer_or_fail

section \<open>Handlers\<close>

lemma fine_retry_loop:
  "(\<And>b d. fine d r (fn b) True r) \<Longrightarrow> 0 < n \<Longrightarrow> fine d r (retry_loop env fn backoff first n delay) True r"
proof (induction n arbitrary: first delay d)
  case (Suc n)
  show ?case
    unfolding retry_loop.simps
    by (rule fine_on_err Suc.prems(1) fine_if fine_fail fine_ret fine_world Suc.IH | simp)+
qed simp

lemma fine_executeAction:
  assumes "Do act \<noteq> None"
  shows "fine d r (executeAction env p n rt act q ar) True r"
proof -
  have "fine d r (action_attempt env p q act ar b) True r" for d b
    unfolding action_attempt_def
    by (rule fine_seqm fine_on_err fine_ops fine_invoke assms fine_fail fine_ret)+
  then have run: "fine d r (runWithRetry env rt (action_attempt env p q act ar)) True r"
    unfolding runWithRetry_def
    by (rule fine_retry_loop) (auto simp: retry_attempts_def split: option.split)
  show ?thesis
    unfolding executeAction_def Let_def by (rule fine_on_err run fine_seqm fine_ops fine_small fine_fail fine_ret)+
qed

lemma fine_executePoll:
  assumes "Check po \<noteq> None"
  shows "fine d r (executePoll env p n po q ar) True r"
proof -
  have to: "fine d r (poll_timeout env p n po q ar) True r" for d
    unfolding poll_timeout_def Let_def by (rule fine_seqm fine_ops fine_small)+
  have failed: "fine True r (poll_failed env p n q e) True r" for e
    unfolding poll_failed_def Let_def
    by (rule fine_seqm fine_bnd fine_ops fine_if fine_small fine_world fine_ret)+
  have completed: "fine True r (poll_completed env p q) True r"
    unfolding poll_completed_def by (rule fine_seqm fine_on_err fine_ops fine_small fine_fail fine_ret)+
  have check: "fine d r (poll_check env p n po q ar) True r" for d
    unfolding poll_check_def split_beta
    by ((rule fine_seqm fine_bnd fine_option fine_if fine_ops fine_small fine_invoke assms failed completed)+)
  show ?thesis
    unfolding executePoll_def
    by (rule to check fine_bnd fine_seqm fine_if fine_world fine_gets fine_upd_rs | simp add: frame_upd_def)+
qed

lemma fine_back: "fine d r m True r \<Longrightarrow> fine d r m d r"
  by (erule fine_weaken) simp_all

definition runs_fine :: "('v, 'w) runner \<Rightarrow> ('v, 'w) step \<Rightarrow> bool" where
  "runs_fine rec s \<longleftrightarrow> (\<forall>ss \<in> children s. \<forall>i q d r. fine d r (rec ss i q) d r)"

lemma fine_executeBranch:
  assumes dec: "Decide br \<noteq> None" and br: "StepBranch s = Some br" and rec: "runs_fine rec s"
  shows "fine d r (executeBranch env p rec n br q ar) d r"
proof -
  have child: "fine d r (rec ss i q') d r" if "map_of (Paths br) k = Some ss" for k ss i q' d
    using rec map_of_children [OF br that] unfolding runs_fine_def by blast
  have resume: "fine d r (branch_resume rec n br q cur) d r" for cur
    unfolding branch_resume_def Let_def by (rule fine_option fine_fail child | assumption)+
  have enter: "fine True r (branch_enter env p rec q k ss) True r" if "map_of (Paths br) k = Some ss" for k ss
    unfolding branch_enter_def
    by (rule fine_seqm fine_if fine_on_err fine_ops fine_small fine_ret fine_fail child [OF that])+
  have "fine d r (branch_decide env p rec n br q ar) True r"
    unfolding branch_decide_def Let_def split_beta
    by (rule fine_seqm fine_bnd fine_option fine_ops fine_invoke dec enter | assumption)+
  then have decide: "fine d r (branch_decide env p rec n br q ar) d r" by (rule fine_back)
  show ?thesis
    unfolding executeBranch_def by (rule fine_bnd fine_gets fine_if resume decide)+
qed

lemma fine_repeatTimedOut: "fine d r (repeatTimedOut env re t) d r"
  unfolding repeatTimedOut_def by (rule fine_rules)+

lemma fine_repeatTimeout: "fine d r (repeatTimeout env p n re q i) True r"
  unfolding repeatTimeout_def Let_def by (rule fine_seqm fine_ops)+

lemma fine_compact: "fine d r (upd_rs (compactRepeatIteration ord q i)) d r"
  by (rule fine_primI) (simp add: upd_rs_def upd_def maps_stay_def del: not_None_eq)

lemma fine_repeat_decided: "fine True True (repeat_decided env p n re q i t t0 fin ra) True True"
  unfolding repeat_decided_def repeat_done_def repeat_limit_def repeat_yield_def Let_def
  by (rule fine_seqm fine_if fine_bnd fine_on_err fine_ops fine_small fine_put fine_compact fine_ret fine_fail
      fine_world)+

lemma fine_repeat_condition:
  assumes "Until re \<noteq> None"
  shows "fine d True (repeat_condition env p n re q ar i t t0) True True"
  unfolding repeat_condition_def Let_def split_beta
  by (rule fine_bnd fine_seqm fine_if fine_option fine_repeatTimedOut fine_repeatTimeout fine_ops
      fine_repeat_decided fine_invoke | simp add: assms del: not_None_eq)+

lemma fine_executeRepeat:
  assumes un: "Until re \<noteq> None" and re: "StepRepeat s = Some re" and rec: "runs_fine rec s"
  shows "fine d r (executeRepeat env p rec n re q ar) d r"
proof -
  have child: "fine d r (rec (RepeatSteps re) i q') d r" for i q' d r
    using rec repeat_children [OF re] unfolding runs_fine_def by blast
  have begin': "fine d r (repeat_begin env p q i t) d True" for i t
    unfolding repeat_begin_def by (rule fine_rules)+
  have cond: "fine d True (repeat_condition env p n re q ar i t t0) d True" for i t t0
    by (rule fine_weaken [OF fine_repeat_condition [OF un]]) simp_all
  have body: "fine d r (bnd (repeat_begin env p q i t) (\<lambda>t0.
      if AwaitingCondition t then repeat_condition env p n re q ar i t t0
      else on_err (rec (RepeatSteps re) k (q @ [itoa i])) fail
        (bnd get_rs (\<lambda>st'.
          if Status st' \<noteq> RunStatusRunning then ret None
          else seqm (put_repeat q (t\<lparr>AwaitingCondition := True\<rparr>))
                 (repeat_condition env p n re q ar i (t\<lparr>AwaitingCondition := True\<rparr>) t0))))) d r" for i k t
    by (rule fine_weaken, rule fine_bnd, rule begin',
        (rule fine_if cond fine_on_err child fine_fail fine_bnd fine_gets fine_ret fine_seqm fine_put)+) simp_all
  have "fine d r (case repeat_resume_point st re q of
      Inl saved \<Rightarrow> fail (ErrStepFailed n q (errorf (''invalid saved repeat iteration '' @ go_quote saved)))
    | Inr (iteration, k) \<Rightarrow>
        (let t = (get_repeat st q)\<lparr>Iteration := iteration, Completed := False\<rparr> in
         bnd (repeat_begin env p q iteration t) (\<lambda>t0.
         if AwaitingCondition t then repeat_condition env p n re q ar iteration t t0
         else on_err (rec (RepeatSteps re) k (q @ [itoa iteration])) fail
           (bnd get_rs (\<lambda>st'.
             if Status st' \<noteq> RunStatusRunning then ret None
             else (let t' = t\<lparr>AwaitingCondition := True\<rparr> in
               seqm (put_repeat q t') (repeat_condition env p n re q ar iteration t' t0))))))) d r" for st
    unfolding Let_def split_beta by (rule fine_sum fine_fail body)+
  then show ?thesis
    unfolding executeRepeat_def by (rule fine_bnd [OF fine_gets(2)])
qed

lemma fine_repeat_entry: "fine d r (repeat_entry env p s q) d r"
proof -
  have "fine d r (ensureRepeatStarted env p q) d r"
    unfolding ensureRepeatStarted_def Let_def
    by (rule fine_bnd, rule fine_gets, rule fine_if, rule fine_ret, rule fine_weaken)
      (rule fine_seqm fine_bnd fine_make fine_world fine_put fine_ops | simp)+
  then show ?thesis
    unfolding repeat_entry_def Let_def
    by (intro fine_option fine_if fine_on_err [where ?d1.0 = d and ?r1.0 = r]
        fine_bnd [where ?d1.0 = d and ?r1.0 = r] fine_ret fine_fail fine_gets fine_repeatTimedOut
        fine_back [OF fine_seqm [OF fine_recordAttempt fine_repeatTimeout]])
qed

lemma fine_run_on_enter:
  assumes "StepOnEnter s \<noteq> None"
  shows "fine d r (run_on_enter env p s q) d r"
proof -
  have ob: "fine d r (observe_on_enter env p s q) d r"
    unfolding observe_on_enter_def by (rule fine_rules)+
  have fail: "fine d r (seqm (mark_attempt env p True q None) (seqm (recordError q e)
      (defer_or_fail env p q e' False None (fail_untimed env p q None op e'')))) d r" for e e' e'' op
    by (rule fine_back) (rule fine_seqm fine_ops)+
  have to: "fine d r (seqm (mark_attempt env p True q None) (repeatTimeout env p n re q i)) d r" for n re i
    by (rule fine_back) (rule fine_seqm fine_ops fine_repeatTimeout)+
  show ?thesis
    unfolding run_on_enter_def Let_def
    by (rule fine_seqm [OF ob], rule fine_on_err, rule fine_invoke, rule assms, rule fail)
      (rule fine_option fine_if fine_ret fine_bnd fine_gets fine_repeatTimedOut to)+
qed

lemma fine_executeStep:
  assumes "callbacks_set s" and "runs_fine rec s"
  shows "fine d r (executeStep env p rec s q) d r"
proof -
  have "fine d r (dispatch env p rec s q ar) d r" for ar
    unfolding dispatch_def
    using assms unfolding callbacks_set_def
    by (intro fine_option fine_fail fine_back fine_executeAction fine_executePoll fine_executeBranch fine_executeRepeat)
      blast+
  note dispatch = this
  show ?thesis
    unfolding executeStep_def
    by (rule fine_on_err fine_repeat_entry fine_fail fine_if dispatch fine_run_on_enter | assumption)+
qed

section \<open>Compensation\<close>

definition css_are :: "completed_step list \<Rightarrow> ('v, 'w) mach \<Rightarrow> bool" where
  "css_are css m \<longleftrightarrow> CompletedSteps (rs m) = css"

lemma fine_defined: "fine False False m d r \<Longrightarrow> \<exists>x s'. m s = Some (x, s')"
  unfolding fine_def total_def has_maps_def by blast

lemma total_css:
  fixes m :: "('v, 'w, 'a) exec"
  assumes "fine False False m d r" and "keeps comp_frame m"
  shows "total (css_are css) m (\<lambda>_. css_are css)"
proof (rule totalI)
  fix s :: "('v, 'w) mach" assume s: "css_are css s"
  obtain x s' where x: "m s = Some (x, s')"
    using fine_defined [OF assms(1)] by blast
  then have "css_are css s'" using s keepsD [OF assms(2) x] by (simp add: css_are_def comp_frame_def)
  with x show "\<exists>x s'. m s = Some (x, s') \<and> css_are css s'" by blast
qed

lemmas total_css_prims =
  total_css [OF fine_observe cf_observe] total_css [OF fine_world(1) cf_now]
  total_css [OF fine_world(2) cf_ctx_err] total_css [OF fine_save_data cf_save_data]
  total_css [OF fine_snapshot cf_snapshot]

lemma total_fine: "fine False False m d r \<Longrightarrow> total P m (\<lambda>_ _. True)"
  unfolding fine_def total_def has_maps_def by blast

lemma total_css_misc:
  "total (css_are css) (set_comp_index i) (\<lambda>_. css_are css)"
  "total (css_are css) (invoke tag (Some f)) (\<lambda>_. css_are css)"
  by (auto simp: total_def css_are_def set_comp_index_def upd_rs_def upd_def invoke_def split: prod.splits)

lemma total_css_get_rs:
  "(\<And>st. CompletedSteps st = css \<Longrightarrow> total (css_are css) (f st) Q) \<Longrightarrow> total (css_are css) (bnd get_rs f) Q"
  by (auto simp: total_def bnd_def get_rs_def gets_def css_are_def)

lemma fine_compensation_end: "fine d r (compensation_end env p orig) d r"
  unfolding compensation_end_def by (rule fine_seqm fine_on_err fine_ops fine_small fine_observe fine_ret fine_fail)+

lemma fine_compensation_failed: "fine d r (compensation_failed env p orig i q n t e) True r"
  unfolding compensation_failed_def
  by (rule fine_seqm fine_on_err fine_if fine_bnd fine_ops fine_small fine_observe fine_world fine_ret fine_fail)+

lemma total_compensate_loop:
  "k \<le> length css \<Longrightarrow> total (css_are css) (compensate_loop env p orig k) (\<lambda>_ _. True)"
proof (induction k)
  case 0
  then show ?case by (simp add: total_fine [OF fine_compensation_end])
next
  case (Suc i)
  have IH: "total (css_are css) (compensate_loop env p orig i) (\<lambda>_ _. True)"
    using Suc by simp
  have fl: "total (css_are css) (fail e) (\<lambda>_ _. True)" for e
    by (rule total_fine [OF fine_fail])
  have succ: "total (css_are css) (compensation_succeeded env p i q t (compensate_loop env p orig i)) (\<lambda>_ _. True)" for q t
    unfolding compensation_succeeded_def
    by (rule total_seqm total_on_err total_bnd total_css_prims total_css_misc fl IH)+
  have "total (css_are css)
      (if i \<ge> length (CompletedSteps st) then panic
       else let cs = CompletedSteps st ! i in
         if \<not> HasCompensator cs
         then seqm (set_comp_index (int i - 1)) (compensate_loop env p orig i)
         else on_err (ctx_err env)
           (\<lambda>ce. seqm (observe env p (Ev EventContextCanceled (Path cs) 0 None 0 ''compensation'' (Some ce))) (fail ce))
           (case find_compensator p (Path cs) of
              None \<Rightarrow> seqm (set_comp_index (int i - 1)) (compensate_loop env p orig i)
            | Some (name, f) \<Rightarrow>
                bnd (now env) (\<lambda>startedAt.
                seqm (observe env p (Ev EventCompensationStarted (Path cs) 0 None 0 ''compensation step'' None))
                (on_err (invoke (CompensateCalled (Path cs)) (Some f))
                  (compensation_failed env p orig i (Path cs) name startedAt)
                  (compensation_succeeded env p i (Path cs) startedAt (compensate_loop env p orig i))))))
      (\<lambda>_ _. True)" if "CompletedSteps st = css" for st
  proof -
    let ?cs = "CompletedSteps st ! i"
    have skip: "total (css_are css) (seqm (set_comp_index (int i - 1)) (compensate_loop env p orig i)) (\<lambda>_ _. True)"
      by (rule total_seqm total_css_misc IH)+
    have call: "total (css_are css) (bnd (now env) (\<lambda>startedAt.
                seqm (observe env p (Ev EventCompensationStarted (Path ?cs) 0 None 0 ''compensation step'' None))
                (on_err (invoke (CompensateCalled (Path ?cs)) (Some f))
                  (compensation_failed env p orig i (Path ?cs) name startedAt)
                  (compensation_succeeded env p i (Path ?cs) startedAt (compensate_loop env p orig i)))))
      (\<lambda>_ _. True)" for name f
      by (rule total_bnd total_seqm total_on_err total_css_prims total_css_misc succ
          total_fine [OF fine_compensation_failed])+
    have cancel: "total (css_are css) (seqm (observe env p ev) (fail ce)) (\<lambda>_ _. True)" for ev ce
      by (rule total_seqm total_css_prims fl)+
    have "\<not> length (CompletedSteps st) \<le> i" using that Suc.prems by simp
    then show ?thesis
      using skip total_on_err [OF total_css_prims(3) cancel skip] total_on_err [OF total_css_prims(3) cancel call]
      by (auto simp: Let_def split: option.split)
  qed
  then show ?case
    unfolding compensate_loop.simps by (rule total_css_get_rs)
qed

section \<open>The step loop and Run\<close>

lemma fine_of_total: "total (\<lambda>_. True) m (\<lambda>_ _. True) \<Longrightarrow> fine False False m False False"
  unfolding fine_def total_def has_maps_def by blast

lemma fine_keeps: "fine False False m False False \<Longrightarrow> keeps maps_stay m \<Longrightarrow> fine d r m d r"
  by (rule fine_primI) (blast dest: fine_defined keepsD)

lemma fine_start_compensation:
  fixes env :: "('v, 'w) env"
  shows "fine d r (start_compensation env p q e) d r"
proof (rule fine_keeps)
  show "keeps maps_stay (start_compensation env p q e)"
    by (rule ms_keeps [OF ms.safe_start_compensation])
  have end': "total P (if b then fail e' else ret None) (\<lambda>_ _. True)" for P b e'
    by (rule total_fine) (rule fine_if fine_fail fine_ret)+
  have fl: "total P (fail e') (\<lambda>_ _. True)" for P e'
    by (rule total_fine [OF fine_fail])
  have run: "total (\<lambda>m. css_are css m \<and> CompensationIndex (rs m) = int (length css) - 1)
      (runCompensation env p) (\<lambda>_ _. True)" for css
  proof -
    have "total (\<lambda>m. css_are css m \<and> CompensationIndex (rs m) = int (length css) - 1)
        (observe env p ev) (\<lambda>_ m. css_are css m \<and> CompensationIndex (rs m) = int (length css) - 1)" for ev
    proof (rule totalI)
      fix s :: "('v, 'w) mach" assume s: "css_are css s \<and> CompensationIndex (rs s) = int (length css) - 1"
      obtain w' where "observe env p ev s = Some ((), s\<lparr>world := w'\<rparr>)" using observe_Some [of env p ev s] by blast
      with s show "\<exists>x s'. observe env p ev s = Some (x, s') \<and> css_are css s' \<and> CompensationIndex (rs s') = int (length css) - 1"
        by (auto simp: css_are_def)
    qed
    moreover have "total (\<lambda>m. css_are css m \<and> CompensationIndex (rs m) = int (length css) - 1)
        (bnd get_rs (\<lambda>st. compensate_loop env p (Error st) (nat (CompensationIndex st + 1)))) (\<lambda>_ _. True)"
      using total_compensate_loop [of "length css" css env p]
      by (auto simp: total_def bnd_def get_rs_def gets_def)
    ultimately show ?thesis
      unfolding runCompensation_def by (rule total_seqm)
  qed
  have frame: "total (\<lambda>m. css_are css m \<and> CompensationIndex (rs m) = int (length css) - 1) m
      (\<lambda>_ m. css_are css m \<and> CompensationIndex (rs m) = int (length css) - 1)"
    if "fine False False m False False" "keeps comp_frame m" for css and m :: "('v, 'w, 'c) exec"
    using that unfolding fine_def total_def has_maps_def keeps_def comp_frame_def css_are_def by metis
  have "total (\<lambda>m. css_are css m \<and> CompensationIndex (rs m) = int (length css) - 1)
     (on_err (save_data env) fail
     (on_err (snapshot env p ''step failure before compensation'') fail
     (on_err (runCompensation env p) fail
       (if as_type sel_repeat_timeout e \<noteq> None then fail e else ret None)))) (\<lambda>_ _. True)" for css
    by (rule total_on_err frame fine_ops cf_snapshot cf_save_data run end' fl)+
  then show "fine False False (start_compensation env p q e) False False"
    unfolding start_compensation_def
    by (intro fine_of_total) (fastforce simp: total_def seqm_def bnd_def upd_rs_def upd_def css_are_def)
qed

lemma fine_handle_step_error: "fine d r (handle_step_error env p q e) d r"
proof -
  have cancel: "fine d r (cancel_at env p q ce) d r" for ce
    unfolding cancel_at_def by (rule fine_seqm fine_small fine_observe fine_fail)+
  have nocomp: "fine d r (fail_without_compensation env p q e) d r"
    unfolding fail_without_compensation_def
    by (rule fine_on_err fine_seqm fine_ops fine_fail fine_upd_rs | simp)+
  show ?thesis
    unfolding handle_step_error_def
    by (rule fine_if fine_fail fine_on_err fine_world fine_bnd fine_gets fine_ops cancel nocomp
        fine_start_compensation)+
qed

lemma fine_steps_loop:
  "well_formed steps \<Longrightarrow> (\<And>s. s \<in> set steps \<Longrightarrow> runs_fine rec s) \<Longrightarrow>
     fine d r (steps_loop env p rec pa resume first steps) d r"
proof (induction steps arbitrary: first)
  case Nil
  then show ?case by (simp add: fine_ret)
next
  case (Cons s ss)
  have rest: "fine d r (steps_loop env p rec pa resume f ss) d r" for f
    using Cons by (auto dest: well_formed_Cons)
  have step: "fine d r (executeStep env p rec s q) d r" for q
    using Cons.prems by (intro fine_executeStep) (auto dest: well_formed_Cons)
  have cancel: "fine d r (cancel_at env p q ce) d r" for q ce
    unfolding cancel_at_def by (rule fine_seqm fine_small fine_observe fine_fail)+
  show ?case
    unfolding steps_loop.simps Let_def
    by (rule fine_bnd fine_gets fine_if rest fine_on_err fine_world fine_seqm fine_ops cancel fine_small
        step fine_handle_step_error fine_ret)+
qed

theorem fine_executeSteps: "well_formed steps \<Longrightarrow> fine d r (executeSteps env p steps k q) d r"
proof (induction "size_list size steps" arbitrary: steps k q d r rule: less_induct)
  case less
  have wf: "well_formed (drop k steps)" for k
    using less.prems
  proof (induction k arbitrary: steps)
    case (Suc k)
    then show ?case by (cases steps) (auto dest: well_formed_Cons)
  qed simp
  have "runs_fine (executeSteps env p) s" if "s \<in> set (drop k steps)" for s
    unfolding runs_fine_def
  proof (intro ballI allI)
    fix ss i q' d r assume ss: "ss \<in> children s"
    have s: "s \<in> set steps" using that by (rule in_set_dropD)
    show "fine d r (executeSteps env p ss i q') d r"
      by (rule less.hyps [OF size_child [OF s ss]]) (use well_formed_in [OF less.prems s] ss in blast)
  qed
  then show ?case
    by (subst executeSteps.simps) (rule fine_bnd [OF fine_gets(1)], rule fine_steps_loop [OF wf])
qed

text \<open>A state whose compensation can be resumed: its index points into the completed steps.\<close>

definition index_in_range :: "run_state \<Rightarrow> bool" where
  "index_in_range st \<longleftrightarrow>
     (Status st = RunStatusCompensating \<longrightarrow> CompensationIndex st < int (length (CompletedSteps st)))"

lemma total_resume_compensation:
  "total (\<lambda>m. CompensationIndex (rs m) < int (length (CompletedSteps (rs m)))) (resume_compensation env p) (\<lambda>_ _. True)"
  (is "total ?P _ _")
proof -
  have frame: "total ?P m (\<lambda>_. ?P)"
    if "fine False False m False False" "keeps comp_frame m" for m :: "('a, 'b, 'c) exec"
    using that unfolding fine_def total_def has_maps_def keeps_def comp_frame_def by metis
  have loop: "total ?P (bnd get_rs (\<lambda>st. compensate_loop env p (Error st) (nat (CompensationIndex st + 1)))) (\<lambda>_ _. True)"
  proof (rule totalI)
    fix s :: "('a, 'b) mach" assume "?P s"
    then have "nat (CompensationIndex (rs s) + 1) \<le> length (CompletedSteps (rs s))" by linarith
    from totalD [OF total_compensate_loop [OF this], of s env p "Error (rs s)"]
    show "\<exists>x s'. bnd get_rs (\<lambda>st. compensate_loop env p (Error st) (nat (CompensationIndex st + 1))) s = Some (x, s') \<and> True"
      by (auto simp: css_are_def bnd_def get_rs_def gets_def)
  qed
  have rest: "total P (bnd get_rs (\<lambda>st. case RepeatTimeout st of
      Some t \<Rightarrow> fail (ErrRepeatTimeout (TimeoutStepName t) (TimeoutMaxDuration t))
    | None \<Rightarrow> ret None)) (\<lambda>_ _. True)" for P
    by (rule total_fine) (rule fine_bnd fine_gets fine_option fine_fail fine_ret)+
  have fl: "total P (fail e) (\<lambda>_ _. True)" for P e
    by (rule total_fine [OF fine_fail])
  show ?thesis
    unfolding resume_compensation_def runCompensation_def
    by (rule total_seqm total_on_err frame fine_ops cf_save_data_unchecked cf_snapshot fine_observe cf_observe
        loop rest fl)+
qed

lemma fine_run_steps: "well_formed (PSteps p) \<Longrightarrow> fine d r (run_steps env p) d r"
  unfolding run_steps_def complete_run_def
  by (rule fine_bnd fine_gets fine_seqm fine_small fine_ops fine_on_err fine_fail fine_executeSteps fine_if
      fine_observe fine_ret | assumption)+

section \<open>No run panics\<close>

definition migrator_in_range :: "('v, 'w) env \<Rightarrow> bool" where
  "migrator_in_range env \<longleftrightarrow>
     (\<forall>f n a b st w st' w'. stateMigrator env = Some f \<longrightarrow> index_in_range st \<longrightarrow>
        f n a b st w = ((st', None), w') \<longrightarrow> index_in_range st')"

lemma total_range:
  fixes m :: "('v, 'w, 'a) exec"
  assumes "fine False False m False False" and "keeps comp_frame m"
  shows "total (\<lambda>m. index_in_range (rs m)) m (\<lambda>_ m. index_in_range (rs m))"
  using assms unfolding fine_def total_def has_maps_def keeps_def comp_frame_def index_in_range_def by metis

lemma total_result: "total P m (\<lambda>_. Q) \<Longrightarrow> (\<And>x s. Q s \<Longrightarrow> R x s) \<Longrightarrow> total P m R"
  by (erule total_conseq) auto

lemma total_run_admitted:
  fixes env :: "('v, 'w) env"
  assumes "well_formed (PSteps p)"
  shows "total (\<lambda>m. index_in_range (rs m)) (run_admitted env p) (\<lambda>_ _. True)" (is "total ?I _ _")
proof -
  have restore: "total ?I restore_store (\<lambda>_. ?I)"
    by (simp add: restore_store_def total_def upd_def)
  have cancel: "total ?I (run_canceled env p ce) (\<lambda>_ _. True)" for ce
    by (rule total_fine, unfold run_canceled_def) (rule fine_seqm fine_observe fine_fail)+
  have rest: "total ?I (bnd get_rs (\<lambda>st. if Status st = RunStatusCompensating then resume_compensation env p
      else run_steps env p)) (\<lambda>_ _. True)"
  proof (rule totalI)
    fix s :: "('v, 'w) mach" assume "?I s"
    then show "\<exists>x s'. bnd get_rs (\<lambda>st. if Status st = RunStatusCompensating then resume_compensation env p
        else run_steps env p) s = Some (x, s') \<and> True"
      using totalD [OF total_resume_compensation, of s env p] fine_defined [OF fine_run_steps [OF assms, of False False env], of s]
      by (auto simp: bnd_get_rs index_in_range_def)
  qed
  show ?thesis
    unfolding run_admitted_def
    by (rule total_seqm total_on_err restore cancel rest total_range fine_world cf_ctx_err)+
qed

lemma total_migrate:
  fixes env :: "('v, 'w) env"
  assumes "migrator_in_range env" and f: "stateMigrator env = Some f"
  shows "total (\<lambda>m. index_in_range (rs m)) (migrate env p f) (\<lambda>_ m. index_in_range (rs m))" (is "total ?I _ _")
proof -
  have call: "total ?I (call_migrator p f) (\<lambda>r m. ?I m \<and> (snd r = None \<longrightarrow> index_in_range (fst r)))"
  proof (rule totalI)
    fix s :: "('v, 'w) mach" assume s: "?I s"
    obtain r w' where r: "f (PName p) (Version (rs s)) (PVersion p) (rs s) (world s) = (r, w')"
      by (cases "f (PName p) (Version (rs s)) (PVersion p) (rs s) (world s)")
    have "snd r = None \<longrightarrow> index_in_range (fst r)"
      using assms s r unfolding migrator_in_range_def by (metis prod.collapse)
    with s r show "\<exists>x s'. call_migrator p f s = Some (x, s') \<and> ?I s' \<and> (snd x = None \<longrightarrow> index_in_range (fst x))"
      by (auto simp: call_migrator_def)
  qed
  have failed: "total ?I (migration_failed env p v t e) (\<lambda>_ m. ?I m)" for v t e
    unfolding migration_failed_def Let_def
    by (rule total_bnd total_seqm total_range fine_world fine_observe fine_fail cf_now cf_observe cf_fail)+
  have fin: "total ?I (migration_done env p t) (\<lambda>_ m. ?I m)" for t
    unfolding migration_done_def
    by (rule total_on_err total_bnd total_seqm total_range fine_ops fine_world fine_observe fine_fail fine_ret
        cf_now cf_observe cf_fail cf_snapshot cf.kept_ret)+
  have upd: "total (\<lambda>m. ?I m \<and> index_in_range st) (upd_rs (\<lambda>_. st\<lparr>Version := v\<rparr>)) (\<lambda>_ m. ?I m)" for st v
    by (auto simp: total_def upd_rs_def upd_def index_in_range_def)
  have next': "total (\<lambda>m. ?I m \<and> (snd r = None \<longrightarrow> index_in_range (fst r)))
      (case r of (migrated, e) \<Rightarrow> (case e of
          Some me \<Rightarrow> migration_failed env p v t me
        | None \<Rightarrow> seqm (upd_rs (\<lambda>_. migrated\<lparr>Version := PVersion p\<rparr>)) (migration_done env p t)))
      (\<lambda>_ m. ?I m)" for r v t
  proof (cases r)
    case (Pair migrated e)
    then show ?thesis using failed total_seqm [OF upd fin] by (cases e) auto
  qed
  show ?thesis
    unfolding migrate_def
    by (rule total_bnd [OF total_range [OF fine_gets(2) cf_get_rs]],
        rule total_bnd [OF total_range [OF fine_world(1) cf_now]], rule total_bnd [OF call], rule next')
qed

lemma total_admit:
  fixes env :: "('v, 'w) env"
  assumes "migrator_in_range env"
  shows "total (\<lambda>m. index_in_range (rs m)) (admit env p) (\<lambda>_ m. index_in_range (rs m))" (is "total ?I _ _")
proof -
  have mig: "total ?I (case stateMigrator env of
          Some f \<Rightarrow> if v \<noteq> PVersion p then migrate env p f else ret None | None \<Rightarrow> ret None) (\<lambda>_. ?I)" for v
    using total_migrate [OF assms] by (cases "stateMigrator env") (auto intro!: total_ret)
  have stamp: "total ?I (upd_rs (\<lambda>st. st\<lparr>Version := PVersion p\<rparr>)) (\<lambda>_. ?I)"
    by (auto simp: total_def upd_rs_def upd_def index_in_range_def)
  have ob: "total ?I (seqm (observe env p ev) (ret x)) (\<lambda>_. ?I)" for ev and x :: "err option option"
    by (rule total_seqm total_range fine_observe cf_observe total_ret | assumption)+
  have rest: "total ?I (bnd get_rs (\<lambda>st'.
          case checkVersion p st' of
            Some e \<Rightarrow>
              seqm (observe env p (Ev EventVersionMismatch [] 0 None 0 ''version check'' (Some e)))
                (ret (Some (Some e)))
          | None \<Rightarrow>
              (if IsTerminal st' then
                 seqm (observe env p (Ev EventPipelineCompleted [] 0 None 0 ''state migration'' None))
                   (ret (Some None))
               else ret None))) (\<lambda>_. ?I)" (is "total _ ?rest _")
  proof (rule totalI)
    fix s :: "('v, 'w) mach" assume s: "?I s"
    then show "\<exists>x s'. ?rest s = Some (x, s') \<and> ?I s'"
      using totalD [OF ob s] by (auto simp: bnd_get_rs split: option.split)
  qed
  show ?thesis
  proof (rule totalI)
    fix s :: "('v, 'w) mach" assume s: "?I s"
    show "\<exists>x s'. admit env p s = Some (x, s') \<and> ?I s'"
      unfolding admit_def bnd_get_rs [of _ s] Let_def
      using totalD [OF total_seqm [OF stamp total_ret] s] totalD [OF ob s]
        totalD [OF total_on_err [OF mig total_ret rest] s]
      by auto
  qed
qed

text \<open>C5. No run of a pipeline panics, whatever callbacks, storage, clock and context do: no nil
  callback is called, no nil map is written and no index is out of range, provided the compensation
  index of the given state (and of a migrated one) points into its completed steps. Every run
  returns.\<close>

theorem Run_never_panics:
  assumes "index_in_range st" and "migrator_in_range env"
  shows "\<exists>r m. Run env p st w = Some (r, m)"
proof (cases "validate p")
  case (Some e)
  then show ?thesis by (simp add: Run_def run_body_def on_err_def)
next
  case None
  let ?I = "\<lambda>m. index_in_range (rs m)"
  have cancel: "total ?I (run_canceled env p ce) (\<lambda>_ _. True)" for ce
    by (rule total_fine, unfold run_canceled_def) (rule fine_seqm fine_observe fine_fail)+
  have go: "total ?I (case r of Some result \<Rightarrow> ret result | None \<Rightarrow> run_admitted env p) (\<lambda>_ _. True)" for r
    using total_run_admitted [OF validated_well_formed [OF None]] by (cases r) (auto intro: total_ret)
  have "total ?I (seqm (observe env p (Ev EventPipelineStarted [] 0 None 0 ''run'' None))
        (on_err (ctx_err env) (run_canceled env p)
        (bnd (admit env p) (\<lambda>r. case r of Some result \<Rightarrow> ret result | None \<Rightarrow> run_admitted env p))))
      (\<lambda>_ _. True)"
    by (rule total_seqm total_on_err total_bnd total_admit assms go cancel total_range fine_observe fine_world
        cf_observe cf_ctx_err)+
  from totalD [OF this, of "init_mach st w"] show ?thesis
    using None assms(1) by (auto simp: Run_def run_body_def on_err_def init_mach_def bnd_get_rs)
qed

theorem Run_never_panics_witness:
  "\<exists>r m. Run (sample_env (\<lambda>v. v = 3) (\<lambda>t. t > 9)) (order_pipeline (failing_action (ErrNew ''down'')))
       zero_run_state 0 = Some (r, m)"
  by (rule Run_never_panics)
    (simp_all add: index_in_range_def zero_run_state_def migrator_in_range_def sample_env_def)

end
