(* ===== verification/Pipeline_Resolve.thy ===== *)
theory Pipeline_Resolve
  imports Pipeline_Total
begin

text \<open>
  The journal of completed steps and the pipeline definition agree: every completed step recorded
  with a compensator resolves to that compensator, so \<open>runCompensation\<close> skips none, and no run forgets
  one: compact Repeat history drops none.
\<close>

section \<open>Paths of nested steps\<close>

lemma find_step_in: "find_step steps n = Some s \<Longrightarrow> s \<in> set steps \<and> StepName s = n"
  by (induction steps) (auto split: if_splits)

lemma validated_names_distinct:
  "validateSteps_from i names steps pa = None \<Longrightarrow>
     distinct (map StepName steps) \<and> set names \<inter> StepName ` set steps = {}"
proof (induction steps arbitrary: i names)
  case (Cons s steps)
  note v = validate_step [OF Cons.prems]
  then have "distinct (map StepName steps) \<and> set (StepName s # names) \<inter> StepName ` set steps = {}"
    by (intro Cons.IH) blast
  with v show ?case by auto
qed simp

lemma find_step_distinct:
  "distinct (map StepName steps) \<Longrightarrow> s \<in> set steps \<Longrightarrow> find_step steps (StepName s) = Some s"
  by (induction steps) auto

lemma well_formed_find: "well_formed steps \<Longrightarrow> s \<in> set steps \<Longrightarrow> find_step steps (StepName s) = Some s"
  unfolding well_formed_def using validated_names_distinct find_step_distinct by blast

lemma find_single: "findStepByPath steps [n] = find_step steps n"
  by (subst findStepByPath.simps) (simp split: option.split)

text \<open>A path that extends the path of a step is looked up from that step.\<close>

lemma find_below:
  "findStepByPath steps q = Some s \<Longrightarrow> r \<noteq> [] \<Longrightarrow>
     findStepByPath steps (q @ r) = findStepByPath [s] (StepName s # r)"
proof (induction steps q rule: findStepByPath.induct)
  case (1 steps q)
  show ?case
  proof (cases q)
    case Nil
    with 1(3) show ?thesis by (simp add: findStepByPath.simps [of steps])
  next
    case (Cons n rest)
    with 1(3) obtain s0 where s0: "find_step steps n = Some s0"
      by (subst (asm) findStepByPath.simps) (auto split: option.splits)
    show ?thesis
    proof (cases "rest = []")
      case True
      with 1(3) Cons s0 have s: "s0 = s" by (subst (asm) findStepByPath.simps) simp
      then have "StepName s = n" using find_step_in [OF s0] by simp
      then show ?thesis
        using Cons True s0 s by (simp add: findStepByPath.simps [of steps] findStepByPath.simps [of "[s]"])
    next
      case False
      note hyps = 1(3) [unfolded Cons findStepByPath.simps [of steps "n # rest"]]
      show ?thesis
      proof (cases "StepBranch s0 = None")
        case True
        with hyps s0 False obtain re i where re: "StepRepeat s0 = Some re" and len: "2 \<le> length rest"
          and i: "atoi (hd rest) = Some i" and rec: "findStepByPath (RepeatSteps re) (tl rest) = Some s"
          by (auto split: if_splits option.splits)
        have "findStepByPath (RepeatSteps re) (tl rest @ r) = findStepByPath [s] (StepName s # r)"
          using 1(2) [OF Cons s0 False _ _ i] True re len rec 1(4) Cons by simp
        with Cons s0 False True re len i show ?thesis
          by (cases rest) (auto simp: findStepByPath.simps [of steps])
      next
        case br: False
        with hyps s0 False obtain b ss where b: "StepBranch s0 = Some b" and len: "2 \<le> length rest"
          and ss: "map_of (Paths b) (hd rest) = Some ss" and rec: "findStepByPath ss (tl rest) = Some s"
          by (auto split: if_splits option.splits)
        have "findStepByPath ss (tl rest @ r) = findStepByPath [s] (StepName s # r)"
          using 1(1) [OF Cons s0 False] b len ss rec 1(4) Cons by simp
        with Cons s0 False b len ss show ?thesis
          by (cases rest) (auto simp: findStepByPath.simps [of steps])
      qed
    qed
  qed
qed

lemma find_below_branch:
  assumes "findStepByPath steps q = Some s" "StepBranch s = Some br" "map_of (Paths br) k = Some ss" "r \<noteq> []"
  shows "findStepByPath steps (q @ k # r) = findStepByPath ss r"
proof -
  have "findStepByPath steps (q @ k # r) = findStepByPath [s] (StepName s # k # r)"
    using assms by (intro find_below) simp_all
  also have "\<dots> = findStepByPath ss r"
    using assms by (cases r) (simp_all add: findStepByPath.simps [of "[s]"])
  finally show ?thesis .
qed

lemma find_below_repeat:
  assumes "findStepByPath steps q = Some s" "StepBranch s = None" "StepRepeat s = Some re" "atoi k \<noteq> None" "r \<noteq> []"
  shows "findStepByPath steps (q @ k # r) = findStepByPath (RepeatSteps re) r"
proof -
  have "findStepByPath steps (q @ k # r) = findStepByPath [s] (StepName s # k # r)"
    using assms by (intro find_below) simp_all
  also have "\<dots> = findStepByPath (RepeatSteps re) r"
    using assms by (cases r) (auto simp: findStepByPath.simps [of "[s]"])
  finally show ?thesis .
qed

section \<open>Compact history\<close>

lemma findCompensatorPath_Cons:
  "findCompensatorPath (s # steps) pa = None \<longleftrightarrow>
     findCompensatorPath [s] pa = None \<and> findCompensatorPath steps pa = None"
  by (cases s) auto

lemma no_compensator_step:
  "find_step steps n = Some s0 \<Longrightarrow> findCompensatorPath steps pa = None \<Longrightarrow> findCompensatorPath [s0] pa = None"
proof (induction steps)
  case (Cons s steps)
  then show ?case
    using findCompensatorPath_Cons [of s steps pa]
    by (auto simp del: findCompensatorPath.simps split: if_splits)
qed simp

lemma no_compensator_paths:
  "findCompensatorPath_paths ps pc = None \<Longrightarrow> (k, ss) \<in> set ps \<Longrightarrow> \<exists>pd. findCompensatorPath ss pd = None"
  by (induction ps) auto

lemma no_compensator_below:
  "findStepByPath steps q = Some s \<Longrightarrow> findCompensatorPath steps pa = None \<Longrightarrow>
     StepAction s = Some act \<Longrightarrow> Compensate act = None"
proof (induction steps q arbitrary: pa rule: findStepByPath.induct)
  case (1 steps q)
  obtain n rest s0 where q: "q = n # rest" and s0: "find_step steps n = Some s0"
    using 1(3) by (subst (asm) findStepByPath.simps) (auto split: list.splits option.splits)
  have pb: "findCompensatorPath [s0] pa = None" by (rule no_compensator_step [OF s0 1(4)])
  show ?case
  proof (cases "rest = []")
    case True
    with 1(3) q s0 have "s0 = s" by (subst (asm) findStepByPath.simps) simp
    then show ?thesis using pb 1(5) by (cases s) (auto split: if_splits)
  next
    case False
    note hyps = 1(3) [unfolded q findStepByPath.simps [of steps "n # rest"]]
    show ?thesis
    proof (cases "StepBranch s0 = None")
      case True
      with hyps s0 False obtain re i where re: "StepRepeat s0 = Some re" and len: "2 \<le> length rest"
        and i: "atoi (hd rest) = Some i" and rec: "findStepByPath (RepeatSteps re) (tl rest) = Some s"
        by (auto split: if_splits option.splits)
      have "\<exists>pc. findCompensatorPath (RepeatSteps re) pc = None"
        using pb re True by (cases s0; cases re) auto
      then show ?thesis
        using 1(2) [OF q s0 False _ _ i] True re len rec 1(5) q by fastforce
    next
      case br: False
      with hyps s0 False obtain b ss where b: "StepBranch s0 = Some b" and len: "2 \<le> length rest"
        and ss: "map_of (Paths b) (hd rest) = Some ss" and rec: "findStepByPath ss (tl rest) = Some s"
        by (auto split: if_splits option.splits)
      have "\<exists>pc. findCompensatorPath ss pc = None"
        using pb b map_of_SomeD [OF ss] by (cases s0; cases b) (auto dest!: no_compensator_paths)
      then show ?thesis
        using 1(1) [OF q s0 False] b len ss rec 1(5) q by fastforce
    qed
  qed
qed

definition all_resolve :: "('v, 'w) pipeline \<Rightarrow> run_state \<Rightarrow> bool" where
  "all_resolve p st \<longleftrightarrow> (\<forall>cs \<in> set (CompletedSteps st). HasCompensator cs \<longrightarrow> find_compensator p (Path cs) \<noteq> None)"

text \<open>Compacting an iteration of a Repeat whose body has no compensator drops no step with one.\<close>

lemma compaction_keeps_compensators:
  assumes q: "findStepByPath (PSteps p) q = Some s" "StepBranch s = None" "StepRepeat s = Some re"
    and valid: "findCompensatorPath (RepeatSteps re) [] = None"
    and st: "all_resolve p st" and i: "in_i64 i"
  shows "filter HasCompensator (CompletedSteps (compactRepeatIteration ord q i st))
    = filter HasCompensator (CompletedSteps st)"
proof -
  have "\<not> hasPathPrefix (Path cs) (q @ [itoa i])" if cs: "cs \<in> set (CompletedSteps st)" "HasCompensator cs" for cs
  proof
    assume "hasPathPrefix (Path cs) (q @ [itoa i])"
    then obtain r where r: "Path cs = q @ itoa i # r" by (auto simp: hasPathPrefix_iff)
    obtain s' act where s': "findStepByPath (PSteps p) (Path cs) = Some s'" "StepAction s' = Some act"
      "Compensate act \<noteq> None"
      using bspec [OF st [unfolded all_resolve_def] cs(1)] cs(2)
      by (auto simp: find_compensator_def split: option.splits)
    show False
    proof (cases "r = []")
      case True
      have "findStepByPath (PSteps p) (q @ [itoa i]) = findStepByPath [s] (StepName s # [itoa i])"
        using q(1) by (intro find_below) simp_all
      with s' r True q show False by (simp add: findStepByPath.simps [of "[s]"])
    next
      case False
      then have "findStepByPath (RepeatSteps re) r = Some s'"
        using s'(1) r find_below_repeat [OF q(1,2,3)] i by (simp add: atoi_itoa)
      with no_compensator_below [OF this valid s'(2)] s'(3) show False by simp
    qed
  qed
  then show ?thesis
    unfolding compact_CompletedSteps filter_filter by (intro filter_cong) auto
qed

text \<open>Validation demands this of every Repeat with compact history.\<close>

definition compact_ok :: "('v, 'w) step \<Rightarrow> bool" where
  "compact_ok s \<longleftrightarrow> (\<forall>re. StepRepeat s = Some re \<longrightarrow> History re = RepeatHistoryCompact \<longrightarrow>
     findCompensatorPath (RepeatSteps re) [] = None)"

lemma validated_compact:
  "validateSteps_from i names steps pa = None \<Longrightarrow> s \<in> set steps \<Longrightarrow> compact_ok s"
proof (induction steps arbitrary: i names)
  case (Cons s' steps)
  note v = validate_step [OF Cons.prems(1)]
  have "compact_ok s'"
  proof (cases s')
    case (Step n a po br re oe rt)
    show ?thesis
      unfolding compact_ok_def
    proof (intro allI impI)
      fix r assume "StepRepeat s' = Some r" "History r = RepeatHistoryCompact"
      then show "findCompensatorPath (RepeatSteps r) [] = None"
        using Cons.prems(1) Step
        by (cases r) (auto simp: validate_repeat_head_def split: if_splits option.splits)
    qed
  qed
  with Cons v show ?case by auto
qed simp

lemma well_formed_compact: "well_formed steps \<Longrightarrow> s \<in> set steps \<Longrightarrow> compact_ok s"
  unfolding well_formed_def using validated_compact by blast

section \<open>Recorded compensators resolve and stay\<close>

definition stands_at :: "('v, 'w) pipeline \<Rightarrow> path \<Rightarrow> ('v, 'w) step \<Rightarrow> bool" where
  "stands_at p q s \<longleftrightarrow> findStepByPath (PSteps p) q = Some s \<and> (\<forall>ss \<in> children s. well_formed ss) \<and> compact_ok s"

text \<open>The completed steps compensation is about; \<open>st'\<close> has those of \<open>st\<close> and perhaps more, and they resolve.\<close>

definition with_compensator :: "run_state \<Rightarrow> completed_step list" where
  "with_compensator st = filter HasCompensator (CompletedSteps st)"

definition grown :: "('v, 'w) pipeline \<Rightarrow> run_state \<Rightarrow> run_state \<Rightarrow> bool" where
  "grown p st st' \<longleftrightarrow> all_resolve p st' \<and> (\<exists>more. with_compensator st' = with_compensator st @ more)"

lemma grown_trans: "grown p a b \<Longrightarrow> grown p b c \<Longrightarrow> grown p a c"
  by (auto simp: grown_def)

lemma grown_same: "all_resolve p a \<Longrightarrow> CompletedSteps b = CompletedSteps a \<Longrightarrow> grown p a b"
  by (simp add: grown_def all_resolve_def with_compensator_def)

definition resolve_step :: "('v, 'w) pipeline \<Rightarrow> ('v, 'w) mach \<Rightarrow> ('v, 'w) mach \<Rightarrow> bool" where
  "resolve_step p m m' \<longleftrightarrow>
     (\<exists>new. effs m' = effs m @ new
       \<and> (all_resolve p (rs m) \<longrightarrow> grown p (rs m) (rs m') \<and> (\<forall>st \<in> set (persisted new). grown p (rs m) st)))"

lemma resolve_stepI:
  "effs m' = effs m @ new \<Longrightarrow>
     (all_resolve p (rs m) \<Longrightarrow> grown p (rs m) (rs m') \<and> (\<forall>st \<in> set (persisted new). grown p (rs m) st)) \<Longrightarrow>
     resolve_step p m m'"
  unfolding resolve_step_def by blast

lemma resolve_step_quiet:
  "effs m' = effs m \<Longrightarrow> (all_resolve p (rs m) \<Longrightarrow> grown p (rs m) (rs m')) \<Longrightarrow> resolve_step p m m'"
  by (rule resolve_stepI [of _ _ "[]"]) simp_all

lemma resolve_step_trans:
  assumes "resolve_step p s t" "resolve_step p t u"
  shows "resolve_step p s u"
proof -
  obtain new1 new2 where new: "effs t = effs s @ new1" "effs u = effs t @ new2"
    and s: "all_resolve p (rs s) \<Longrightarrow> grown p (rs s) (rs t) \<and> (\<forall>st \<in> set (persisted new1). grown p (rs s) st)"
    and t: "all_resolve p (rs t) \<Longrightarrow> grown p (rs t) (rs u) \<and> (\<forall>st \<in> set (persisted new2). grown p (rs t) st)"
    using assms unfolding resolve_step_def by blast
  show ?thesis
  proof (rule resolve_stepI)
    show "effs u = effs s @ new1 @ new2" using new by simp
    assume "all_resolve p (rs s)"
    note a = s [OF this]
    then have "all_resolve p (rs t)" by (simp add: grown_def)
    from a t [OF this] show "grown p (rs s) (rs u) \<and> (\<forall>st \<in> set (persisted (new1 @ new2)). grown p (rs s) st)"
      by (auto intro: grown_trans)
  qed
qed

lemma stands_at_child:
  assumes "well_formed ss" and "\<And>r. r \<noteq> [] \<Longrightarrow> findStepByPath (PSteps p) (q @ k # r) = findStepByPath ss r"
  shows "placed (stands_at p) ss (q @ [k])"
  unfolding placed_def stands_at_def
  using assms(2) well_formed_find [OF assms(1)] well_formed_in [OF assms(1)] well_formed_compact [OF assms(1)]
  by (simp add: find_single)

lemma validated_placed:
  assumes "validate p = None"
  shows "placed (stands_at p) (PSteps p) []"
  using well_formed_find [OF validated_well_formed [OF assms]] well_formed_in [OF validated_well_formed [OF assms]]
    well_formed_compact [OF validated_well_formed [OF assms]]
  by (simp add: placed_def stands_at_def find_single)

interpretation rv: run_property "resolve_step p" env p
  "\<lambda>e m m'. is_snapshot_failed e \<and> resolve_step p m m'" "stands_at p" for env p
proof unfold_locales
  fix m m' :: "('a, 'b) mach" and op
  show "resolve_step p s t \<Longrightarrow> resolve_step p t u \<Longrightarrow> resolve_step p s u" for s t u :: "('a, 'b) mach"
    by (rule resolve_step_trans)
  show "resolve_step p m m'" if "call_snapshot env op m = Some (None, m')"
    using call_snapshot_SomeD [OF that] by (auto intro!: resolve_stepI grown_same)
  show "is_snapshot_failed (ErrSnapshotFailed op e) \<and> resolve_step p m m'"
    if "call_snapshot env op m = Some (Some e, m')" for e
    using call_snapshot_SomeD [OF that] by (auto intro!: resolve_stepI [of _ _ "[SnapshotErr op]"] grown_same)
  show "resolve_step p m (m\<lparr>store := d, world := w, effs := effs m @ [c]\<rparr>)" if "callback c" for c d w
    using that by (intro resolve_stepI [of _ _ "[c]"]) (simp_all add: grown_same)
  show "is_snapshot_failed e \<and> resolve_step p m (m'\<lparr>world := u\<rparr>)"
    if "is_snapshot_failed e \<and> resolve_step p m m'" for e u
    using that by (auto simp: resolve_step_def)
  show "resolve_step p m (m\<lparr>rs := st\<rparr>)" if "frame_upd (rs m) st" for st
    using that by (intro resolve_step_quiet) (auto simp: frame_upd_def intro: grown_same)
  show "resolve_step p m (m\<lparr>rs := (rs m)\<lparr>CompletedSteps := CompletedSteps (rs m) @ [cs]\<rparr>\<rparr>)"
    if "HasCompensator cs \<Longrightarrow> \<exists>s act. stands_at p (Path cs) s \<and> StepAction s = Some act \<and> Compensate act \<noteq> None" for cs
    using that by (intro resolve_step_quiet)
      (auto simp: grown_def with_compensator_def all_resolve_def find_compensator_def stands_at_def)
  show "resolve_step p m (m\<lparr>rs := compactRepeatIteration (rangeDiagnostics env) q i (rs m)\<rparr>)"
    if "stands_at p q s" "StepBranch s = None" "StepRepeat s = Some re" "History re = RepeatHistoryCompact" "in_i64 i"
    for q i s re
  proof (intro resolve_step_quiet)
    have at: "findStepByPath (PSteps p) q = Some s" "findCompensatorPath (RepeatSteps re) [] = None"
      using that by (simp_all add: stands_at_def compact_ok_def)
    assume st: "all_resolve p (rs m)"
    from compaction_keeps_compensators [OF at(1) that(2,3) at(2) st that(5)] st
    show "grown p (rs m) (rs (m\<lparr>rs := compactRepeatIteration (rangeDiagnostics env) q i (rs m)\<rparr>))"
      by (simp add: grown_def with_compensator_def) (auto simp: all_resolve_def compact_CompletedSteps)
  qed simp
  show "placed (stands_at p) ss (q @ [k])"
    if "stands_at p q s" "StepBranch s = Some br" "map_of (Paths br) k = Some ss" for q k s br ss
    by (rule stands_at_child)
      (use that map_of_children [OF that(2,3)] find_below_branch in \<open>auto simp: stands_at_def\<close>)
  show "placed (stands_at p) (RepeatSteps re) (q @ [itoa i])"
    if "stands_at p q s" "StepBranch s = None" "StepRepeat s = Some re" "in_i64 i" for q i s re
  proof (rule stands_at_child)
    show "well_formed (RepeatSteps re)"
      using that(1) repeat_children [OF that(3)] by (simp add: stands_at_def)
    show "findStepByPath (PSteps p) (q @ itoa i # r) = findStepByPath (RepeatSteps re) r" if "r \<noteq> []" for r
      using \<open>stands_at p q s\<close> \<open>StepBranch s = None\<close> \<open>StepRepeat s = Some re\<close> \<open>in_i64 i\<close> that
      by (intro find_below_repeat [of _ _ s]) (auto simp: stands_at_def atoi_itoa)
  qed
next
  show "resolve_step p m (m\<lparr>world := w\<rparr>)" "resolve_step p m (m\<lparr>store := d\<rparr>)" "resolve_step p m m"
    for m :: "('a, 'b) mach" and w d
    by (auto intro!: resolve_step_quiet grown_same)
qed (auto intro: resolve_step_trans)

lemma rv_keeps: "rv.safe p m \<Longrightarrow> keeps (resolve_step p) m"
  by (rule rv.safe_imp_keeps) simp_all

lemma Run_grown:
  assumes run: "Run env p st w = Some (r, m)" and mig: "MigratorCalled None \<notin> set (effs m)" and st: "all_resolve p st"
  shows "grown p st (rs m) \<and> (\<forall>saved \<in> set (persisted (effs m)). grown p st saved)"
  using run
proof (cases rule: Run_cases)
  case (ended t)
  from admit_without_migration [OF ended(5) mig] ended(3,4) st show ?thesis by (auto intro: grown_same)
next
  case (admitted t u)
  have "keeps (resolve_step p) (run_admitted env p)"
    by (intro rv_keeps rv.safe_run_admitted validated_placed [OF admitted(1)])
  then have "resolve_step p u m" using admitted(6) by (rule keepsD)
  then obtain new where new: "effs m = effs u @ new"
    "all_resolve p (rs u) \<Longrightarrow> grown p (rs u) (rs m) \<and> (\<forall>saved \<in> set (persisted new). grown p (rs u) saved)"
    unfolding resolve_step_def by blast
  with mig have "MigratorCalled None \<notin> set (effs u)" by simp
  from admit_without_migration [OF admitted(5) this] admitted(3,4) st have "grown p st (rs u)" "persisted (effs u) = []"
    by (auto intro: grown_same)
  with new show ?thesis by (auto simp: grown_def)
qed (use st in \<open>auto intro: grown_same\<close>)

text \<open>The states that arise from the runs of one pipeline: a state without completed steps, and whatever a
  run on such a state returns or persists, when no migrator replaces the state in that run.\<close>

inductive run_on :: "('v, 'w) pipeline \<Rightarrow> run_state \<Rightarrow> bool" for p :: "('v, 'w) pipeline" where
  fresh: "CompletedSteps st = [] \<Longrightarrow> run_on p st"
| returned: "run_on p st \<Longrightarrow> Run env p st w = Some (r, m) \<Longrightarrow> MigratorCalled None \<notin> set (effs m) \<Longrightarrow> run_on p (rs m)"
| saved: "run_on p st \<Longrightarrow> Run env p st w = Some (r, m) \<Longrightarrow> MigratorCalled None \<notin> set (effs m) \<Longrightarrow>
    saved \<in> set (persisted (effs m)) \<Longrightarrow> run_on p saved"

lemma run_on_resolves: "run_on p st \<Longrightarrow> all_resolve p st"
proof (induction rule: run_on.induct)
  case (fresh st)
  then show ?case by (simp add: all_resolve_def)
next
  case (returned st env w r m)
  from Run_grown [OF returned(2,3) returned.IH] show ?case by (simp add: grown_def)
next
  case (saved st env w r m st')
  from Run_grown [OF saved(2,3) saved.IH] saved(4) show ?case by (simp add: grown_def)
qed

text \<open>C8. Take a state without completed steps and any number of runs of one pipeline, each on a state that an
  earlier one returned or persisted, under any callbacks, storage, clock and context: as long as no
  migrator replaces the state in one of these runs, every completed step that is recorded with a
  compensator resolves to a compensator of the pipeline, at any depth of branches and repeats, so that
  compensation never silently skips it.\<close>

theorem Run_records_resolvable_compensators:
  assumes "run_on p st" and "cs \<in> set (CompletedSteps st)" and "HasCompensator cs"
  shows "\<exists>s act f. findStepByPath (PSteps p) (Path cs) = Some s \<and> StepAction s = Some act \<and> Compensate act = Some f
    \<and> find_compensator p (Path cs) = Some (StepName s, f)"
proof -
  have "find_compensator p (Path cs) \<noteq> None"
    using run_on_resolves [OF assms(1)] assms(2,3) by (simp add: all_resolve_def)
  then show ?thesis by (auto simp: find_compensator_def split: option.splits)
qed

text \<open>The nested pipeline after a run whose last action failed without compensation.\<close>

lemma Run_records_resolvable_compensators_witness:
  "\<exists>s act f. findStepByPath (PSteps (nested_pipeline RepeatHistoryFull ok_action (failing_action ErrNoCompensate)))
       [''rounds'', ''0'', ''route'', ''fast'', ''move''] = Some s \<and> StepAction s = Some act \<and> Compensate act = Some f
    \<and> find_compensator (nested_pipeline RepeatHistoryFull ok_action (failing_action ErrNoCompensate))
       [''rounds'', ''0'', ''route'', ''fast'', ''move''] = Some (StepName s, f)"
proof -
  let ?p = "nested_pipeline RepeatHistoryFull ok_action (failing_action ErrNoCompensate)"
  let ?cs = "\<lparr>Path = [''rounds'', ''0'', ''route'', ''fast'', ''move''], HasCompensator = True\<rparr>"
  let ?run = "Run good_env ?p zero_run_state 0"
  have "map_option (\<lambda>x. List.member (CompletedSteps (rs (snd x))) ?cs \<and> \<not> List.member (effs (snd x)) (MigratorCalled None)) ?run
      = Some True" by code_simp
  then obtain r m where m: "?run = Some (r, m)" "MigratorCalled None \<notin> set (effs m)" and cs: "?cs \<in> set (CompletedSteps (rs m))"
    by auto
  have "run_on ?p zero_run_state" by (rule run_on.fresh) (simp add: zero_run_state_def)
  from run_on.returned [OF this m] have "run_on ?p (rs m)" .
  from Run_records_resolvable_compensators [OF this cs] show ?thesis by simp
qed

text \<open>C9. No run forgets a completed step that compensation needs, whatever it compacts: on a state that runs of
  the pipeline made, as above, the completed steps with a compensator are those of the given state, in
  their order, followed by the new ones, in the returned state and in every persisted one. A Repeat with
  compact history drops the steps of its iterations, but none with a compensator.\<close>

theorem Run_keeps_compensators:
  assumes "run_on p st" and "Run env p st w = Some (r, m)" and "MigratorCalled None \<notin> set (effs m)"
    and "st' = rs m \<or> st' \<in> set (persisted (effs m))"
  shows "\<exists>more. filter HasCompensator (CompletedSteps st') = filter HasCompensator (CompletedSteps st) @ more"
  using Run_grown [OF assms(2,3) run_on_resolves [OF assms(1)]] assms(4) by (auto simp: grown_def with_compensator_def)

text \<open>A compensated action before a Repeat with compact history. The first run is cancelled after the action,
  the second one runs and compacts the Repeat and fails at the last action: the payment is still recorded,
  the iteration is gone.\<close>

definition paid_pipeline :: "(string, nat) pipeline" where
  "paid_pipeline = mk_pipeline
     [Action ''pay'' ok_action [WithCompensate ok_action],
      Repeat ''rounds'' [Action ''first'' ok_action []]
        (Some (\<lambda>i d w. ((True, 0, None), d, Suc w))) [WithRepeatHistory RepeatHistoryCompact],
      Action ''final'' (failing_action ErrNoCompensate) []]"

definition paid_state :: run_state where
  "paid_state = (case Run (sample_env (\<lambda>_. False) (\<lambda>w. w \<ge> 3)) paid_pipeline zero_run_state 0 of
     Some (r, m) \<Rightarrow> rs m | None \<Rightarrow> zero_run_state)"

lemma Run_keeps_compensators_witness:
  "\<exists>r m. Run good_env paid_pipeline paid_state 0 = Some (r, m)
    \<and> DoCalled [''rounds'', ''0'', ''first''] None \<in> set (effs m)
    \<and> map Path (CompletedSteps (rs m)) = [[''pay''], [''rounds'']]
    \<and> (\<exists>more. filter HasCompensator (CompletedSteps (rs m)) = \<lparr>Path = [''pay''], HasCompensator = True\<rparr> # more)"
proof -
  let ?first = "Run (sample_env (\<lambda>_. False) (\<lambda>w. w \<ge> 3)) paid_pipeline zero_run_state 0"
  let ?cs = "\<lparr>Path = [''pay''], HasCompensator = True\<rparr>"
  have "map_option (\<lambda>x. CompletedSteps (rs (snd x)) = [?cs] \<and> \<not> List.member (effs (snd x)) (MigratorCalled None)) ?first
      = Some True" by code_simp
  then obtain r0 m0 where m0: "?first = Some (r0, m0)" "MigratorCalled None \<notin> set (effs m0)"
    and cs: "CompletedSteps (rs m0) = [?cs]" by auto
  have "run_on paid_pipeline zero_run_state" by (rule run_on.fresh) (simp add: zero_run_state_def)
  from run_on.returned [OF this m0] have on: "run_on paid_pipeline paid_state" using m0(1) by (simp add: paid_state_def)
  have "map_option (\<lambda>x. List.member (effs (snd x)) (DoCalled [''rounds'', ''0'', ''first''] None)
      \<and> \<not> List.member (effs (snd x)) (MigratorCalled None)
      \<and> map Path (CompletedSteps (rs (snd x))) = [[''pay''], [''rounds'']]) (Run good_env paid_pipeline paid_state 0) = Some True"
    by code_simp
  then obtain r m where m: "Run good_env paid_pipeline paid_state 0 = Some (r, m)" "MigratorCalled None \<notin> set (effs m)"
    and ran: "DoCalled [''rounds'', ''0'', ''first''] None \<in> set (effs m)"
      "map Path (CompletedSteps (rs m)) = [[''pay''], [''rounds'']]" by auto
  have "\<exists>more. filter HasCompensator (CompletedSteps (rs m)) = ?cs # more"
    using Run_keeps_compensators [OF on m, of "rs m"] m0(1) cs by (simp add: paid_state_def)
  with m(1) ran show ?thesis by (intro exI [of _ r] exI [of _ m] conjI)
qed

end
