(* ===== verification/Pipeline_Durable.thy ===== *)
theory Pipeline_Durable
  imports Pipeline_Resolve
begin

text \<open>
  What a run returns is what it persisted: with storage configured, a run that returns no error or a
  deferral signal (\<open>ErrRetryAfter\<close>, \<open>ErrSnooze\<close>) ends with an accepted snapshot of exactly the state
  it returns, so a scheduler that reloads the persisted state continues from there.
\<close>

definition durable :: "('v, 'w) mach \<Rightarrow> bool" where
  "durable m \<longleftrightarrow> (\<exists>before op. effs m = before @ [SnapshotOk op (rs m)])"

text \<open>Storage is configured, and neither the encoder nor the context returns a deferral signal.\<close>

definition honest :: "('v, 'w) env \<Rightarrow> bool" where
  "honest env \<longleftrightarrow>
     (snapshotFn env \<noteq> None \<or> casSnapshotFn env \<noteq> None)
     \<and> (\<forall>v e. jsonMarshal env v = Inl e \<longrightarrow> \<not> isDeferred e)
     \<and> (\<forall>w e w'. ctxErr env w = (Some e, w') \<longrightarrow> \<not> isDeferred e)"

definition deferral :: "err \<Rightarrow> bool" where
  "deferral e \<longleftrightarrow> isDeferred e \<and> \<not> is_snapshot_failed e"

definition settled :: "err option \<Rightarrow> ('v, 'w) mach \<Rightarrow> bool" where
  "settled r m \<longleftrightarrow>
     (r = None \<longrightarrow> Status (rs m) = RunStatusRunning \<or> durable m) \<and> (\<forall>e. r = Some e \<longrightarrow> deferral e \<longrightarrow> durable m)"

lemma settled_durable: "durable m \<Longrightarrow> settled r m"
  by (simp add: settled_def)

lemma settled_error: "\<not> deferral e \<Longrightarrow> settled (Some e) m"
  by (simp add: settled_def)

section \<open>Rules\<close>

text \<open>\<open>settles\<close>: from any state; \<open>settles_saved\<close>: from a persisted one; \<open>settles_running\<close>: from a
  running one.\<close>

definition settles :: "('v, 'w, err option) exec \<Rightarrow> bool" where
  "settles m \<longleftrightarrow> (\<forall>s r s'. m s = Some (r, s') \<longrightarrow> settled r s')"

definition settles_saved :: "('v, 'w, err option) exec \<Rightarrow> bool" where
  "settles_saved m \<longleftrightarrow> (\<forall>s r s'. durable s \<longrightarrow> m s = Some (r, s') \<longrightarrow> settled r s')"

definition settles_running :: "('v, 'w, err option) exec \<Rightarrow> bool" where
  "settles_running m \<longleftrightarrow>
     (\<forall>s r s'. Status (rs s) = RunStatusRunning \<longrightarrow> m s = Some (r, s') \<longrightarrow> settled r s')"

lemma settles_saved_of: "settles m \<Longrightarrow> settles_saved m"
  by (simp add: settles_def settles_saved_def)

lemma settles_running_of: "settles m \<Longrightarrow> settles_running m"
  by (simp add: settles_def settles_running_def)

lemma settles_fail: "\<not> deferral e \<Longrightarrow> settles (fail e)"
  by (auto simp: settles_def intro: settled_error)

lemma settles_bnd: "(\<And>x. settles (f x)) \<Longrightarrow> settles (bnd m f)"
  unfolding settles_def bnd_Some_iff by blast

lemma settles_seqm: "settles k \<Longrightarrow> settles (seqm m k)"
  unfolding seqm_def by (rule settles_bnd)

lemma settles_if: "(b \<Longrightarrow> settles m) \<Longrightarrow> (\<not> b \<Longrightarrow> settles k) \<Longrightarrow> settles (if b then m else k)"
  by simp

lemma settles_option:
  "(x = None \<Longrightarrow> settles m) \<Longrightarrow> (\<And>y. x = Some y \<Longrightarrow> settles (f y)) \<Longrightarrow>
     settles (case x of None \<Rightarrow> m | Some y \<Rightarrow> f y)"
  by (cases x) auto

lemma settles_on_err:
  assumes "\<And>e s s'. m s = Some (Some e, s') \<Longrightarrow> settles (h e)" and "settles k"
  shows "settles (on_err m h k)"
  unfolding settles_def
proof (intro allI impI)
  fix s r s' assume "on_err m h k s = Some (r, s')"
  then obtain x t where "m s = Some (x, t)" "(case x of Some e \<Rightarrow> h e | None \<Rightarrow> k) t = Some (r, s')"
    by (auto simp: on_err_Some_iff)
  then show "settled r s'" using assms by (cases x) (auto simp: settles_def)
qed

lemma settles_saved_fail: "settles_saved (fail e)"
  by (auto simp: settles_saved_def intro: settled_durable)

lemma settles_saved_ret: "settles_saved (ret x)"
  by (auto simp: settles_saved_def intro: settled_durable)

lemma durable_world_only: "durable m \<Longrightarrow> world_only m m' \<Longrightarrow> durable m'"
  by (auto simp: durable_def world_only_def)

lemma settles_saved_seqm: "keeps world_only m \<Longrightarrow> settles_saved k \<Longrightarrow> settles_saved (seqm m k)"
  unfolding settles_saved_def seqm_Some_iff by (blast dest: keepsD intro: durable_world_only)

lemma settles_saved_bnd: "keeps world_only m \<Longrightarrow> (\<And>x. settles_saved (f x)) \<Longrightarrow> settles_saved (bnd m f)"
  unfolding settles_saved_def bnd_Some_iff by (blast dest: keepsD intro: durable_world_only)

lemma settles_saved_if: "(b \<Longrightarrow> settles_saved m) \<Longrightarrow> (\<not> b \<Longrightarrow> settles_saved k) \<Longrightarrow> settles_saved (if b then m else k)"
  by simp

lemma wo_observe_step: "keeps world_only (observe_step env p ty q it d op c)"
  unfolding observe_step_def get_rs_def by (intro wo.kept_rules observe_world_only)

lemma wo_observe_completed: "keeps world_only (observe_completed env p q it op)"
  unfolding observe_completed_def get_rs_def by (intro wo.kept_rules wo_observe_step)

lemma marshal_error_not_deferred:
  assumes "\<forall>v e. marshal v = Inl e \<longrightarrow> \<not> isDeferred e"
  shows "marshal_keys marshal d ks acc = Inl e \<Longrightarrow> \<not> isDeferred e"
proof (induction ks arbitrary: acc)
  case (Cons k ks)
  have wrap: "isDeferred (errorf_wrap t e') = isDeferred e'" for t e'
    by (simp add: isDeferred_iff as_type_def errorf_wrap_def)
  show ?case
    using Cons assms by (auto split: option.splits dval.splits sum.splits simp: wrap)
qed simp

lemma save_data_error: "honest env \<Longrightarrow> save_data env s = Some (Some e, s') \<Longrightarrow> \<not> deferral e"
  using marshal_error_not_deferred [of "jsonMarshal env"]
  by (auto simp: save_data_def bnd_Some_iff seqm_Some_iff marshalData_def deferral_def honest_def split: sum.splits)

lemma settles_save: "honest env \<Longrightarrow> settles k \<Longrightarrow> settles (on_err (save_data env) fail k)"
  by (rule settles_on_err) (auto intro: settles_fail dest: save_data_error)

lemma snapshot_cases:
  assumes h: "honest env" and run: "snapshot env p op s = Some (r, s')"
  shows "(r = None \<longrightarrow> durable s') \<and> (\<forall>e. r = Some e \<longrightarrow> is_snapshot_failed e)"
proof -
  obtain t0 s0 x s1 where c: "call_snapshot env op s0 = Some (x, s1)"
    and rest: "(case x of
        Some e \<Rightarrow> seqm (observe_snapshot env p EventSnapshotFailed t0 op (Some (ErrSnapshotFailed op e)))
                    (ret (Some (ErrSnapshotFailed op e)))
      | None \<Rightarrow> seqm (observe_snapshot env p EventSnapshotSucceeded t0 op None) (ret None)) s1 = Some (r, s')"
    using h run by (auto simp: snapshot_def honest_def bnd_Some_iff on_err_Some_iff Let_def split: if_splits)
  show ?thesis
  proof (cases x)
    case None
    then have "durable s1" using call_snapshot_SomeD [OF c] by (auto simp: durable_def)
    then show ?thesis
      using rest None keepsD [OF observe_snapshot_world_only] durable_world_only
      by (fastforce simp: seqm_Some_iff)
  qed (use rest in \<open>auto simp: seqm_Some_iff\<close>)
qed

lemma snapshot_error: "honest env \<Longrightarrow> snapshot env p op s = Some (Some e, s') \<Longrightarrow> \<not> deferral e"
  by (auto dest: snapshot_cases simp: deferral_def)

lemma settles_snapshot: "honest env \<Longrightarrow> settles_saved k \<Longrightarrow> settles (on_err (snapshot env p op) fail k)"
  unfolding settles_def
proof (intro allI impI)
  fix s r s'
  assume h: "honest env" and k: "settles_saved k" and "on_err (snapshot env p op) fail k s = Some (r, s')"
  then obtain x t where x: "snapshot env p op s = Some (x, t)"
    and rest: "(case x of Some e \<Rightarrow> fail e | None \<Rightarrow> k) t = Some (r, s')"
    by (auto simp: on_err_Some_iff)
  show "settled r s'"
    using snapshot_cases [OF h x] rest k
    by (cases x) (auto simp: settles_saved_def deferral_def intro: settled_error)
qed

lemma settles_end:
  "honest env \<Longrightarrow> keeps world_only m \<Longrightarrow> settles (on_err (snapshot env p op) fail (seqm m (ret None)))"
  by (intro settles_snapshot settles_saved_seqm settles_saved_ret)

section \<open>Handlers\<close>

lemma settles_persistDeferred:
  assumes "honest env"
  shows "settles (persistDeferred env p q e b op it)"
proof (cases "deferredDetails e" rule: prod_cases4)
  case (fields delay cause e' ok)
  show ?thesis
    unfolding persistDeferred_def fields prod.case
    by (intro settles_seqm settles_save settles_snapshot settles_saved_seqm settles_saved_fail assms)
      (auto simp: get_rs_def intro!: wo.kept_rules observe_world_only)
qed

lemma not_deferral: "\<not> isDeferred e \<Longrightarrow> \<not> deferral e"
  by (simp add: deferral_def)

lemma settles_defer_or_fail:
  "honest env \<Longrightarrow> (\<not> isDeferred e \<Longrightarrow> settles k) \<Longrightarrow> settles (defer_or_fail env p q e b it k)"
  unfolding defer_or_fail_def by (simp add: settles_persistDeferred)

lemma settles_fail_step:
  "\<not> isDeferred e \<Longrightarrow> settles (fail_timed env p q it op e)" "\<not> isDeferred e \<Longrightarrow> settles (fail_untimed env p q it op e)"
  unfolding fail_timed_def fail_untimed_def
  by (auto intro!: settles_bnd settles_seqm settles_fail not_deferral)

lemma plain_not_deferred [simp]:
  "\<not> isDeferred (errorf t)" "\<not> isDeferred (ErrRepeatTimeout n d)" "\<not> isDeferred (ErrPollTimeout n d)"
  "\<not> isDeferred (ErrRepeatLimit n i)"
  by (simp_all add: isDeferred_iff as_type_def errorf_def)

lemma settles_executeAction: "honest env \<Longrightarrow> settles (executeAction env p n rt act q ar)"
  unfolding executeAction_def Let_def
  by (intro settles_on_err settles_defer_or_fail settles_fail_step settles_seqm settles_save
      settles_end wo_observe_completed)

lemma settles_executePoll: "honest env \<Longrightarrow> settles (executePoll env p n po q ar)"
  unfolding executePoll_def poll_timeout_def poll_check_def poll_failed_def poll_completed_def Let_def split_beta
  by (intro settles_bnd settles_seqm settles_if settles_option settles_defer_or_fail settles_fail_step
      settles_save settles_end wo_observe_completed settles_persistDeferred) simp_all

lemma settles_repeatTimeout: "settles (repeatTimeout env p n re q i)"
  unfolding repeatTimeout_def Let_def by (intro settles_seqm settles_fail_step) simp

lemma settles_repeat_condition: "honest env \<Longrightarrow> settles (repeat_condition env p n re q ar i r t)"
  unfolding repeat_condition_def repeat_decided_def repeat_done_def repeat_limit_def repeat_yield_def Let_def split_beta
  by (intro settles_bnd settles_seqm settles_if settles_option settles_defer_or_fail settles_fail_step
      settles_save settles_end wo_observe_completed settles_persistDeferred settles_repeatTimeout) simp_all

lemma ctx_error: "honest env \<Longrightarrow> ctx_err env s = Some (Some e, s') \<Longrightarrow> \<not> deferral e"
  unfolding ctx_err_Some_iff honest_def deferral_def by blast

section \<open>Compensation\<close>

lemma settles_compensation_end: "honest env \<Longrightarrow> settles (compensation_end env p orig)"
  unfolding compensation_end_def
  by (intro settles_seqm settles_save settles_snapshot settles_saved_seqm settles_saved_ret observe_world_only)

lemma settles_compensation_failed: "honest env \<Longrightarrow> settles (compensation_failed env p orig i q n t e)"
  unfolding compensation_failed_def
  by (intro settles_seqm settles_on_err settles_bnd settles_if settles_persistDeferred settles_save
      settles_snapshot settles_saved_fail settles_fail) (auto dest: ctx_error)

lemma settles_compensate_loop: "honest env \<Longrightarrow> settles (compensate_loop env p orig k)"
proof (induction k)
  case (Suc i)
  have succ: "settles (compensation_succeeded env p i q t (compensate_loop env p orig i))" for q t
    unfolding compensation_succeeded_def
    by (intro settles_seqm settles_save settles_snapshot settles_saved_of settles_bnd Suc)
  have panic: "settles panic" by (simp add: settles_def panic_def)
  show ?case
    unfolding compensate_loop.simps Let_def split_beta
    by (intro settles_bnd settles_if settles_seqm settles_on_err settles_option settles_compensation_failed succ
        settles_fail panic Suc) (auto dest: ctx_error [OF Suc.prems])
qed (simp add: settles_compensation_end)

lemma settles_runCompensation: "honest env \<Longrightarrow> settles (runCompensation env p)"
  unfolding runCompensation_def by (intro settles_seqm settles_bnd settles_compensate_loop)

lemma settles_on_err_end:
  assumes "settles m" and "\<not> deferral e"
  shows "settles (on_err m fail (if b then fail e else ret None))"
  using assms unfolding settles_def on_err_Some_iff
  by (fastforce split: option.splits if_splits intro: settled_error)

lemma settles_start_compensation:
  "honest env \<Longrightarrow> \<not> deferral e \<Longrightarrow> settles (start_compensation env p q e)"
  unfolding start_compensation_def
  by (intro settles_seqm settles_save settles_snapshot settles_saved_of settles_on_err_end settles_runCompensation)

lemma settles_fail_without_compensation:
  "honest env \<Longrightarrow> settles (fail_without_compensation env p q e)"
  unfolding fail_without_compensation_def
  by (intro settles_seqm settles_save settles_snapshot settles_saved_fail)

lemma settles_cancel_at: "\<not> deferral ce \<Longrightarrow> settles (cancel_at env p q ce)"
  unfolding cancel_at_def by (intro settles_seqm settles_fail)

lemma handle_settled:
  assumes h: "honest env" and e: "settled (Some e) s" and run: "handle_step_error env p q e s = Some (r, s')"
  shows "settled r s'"
proof (cases "is_snapshot_failed e \<or> isDeferred e")
  case True
  then show ?thesis
    using run e by (auto simp: handle_step_error_def settled_def deferral_def split: if_splits)
next
  case False
  have nd: "\<not> deferral e" using False by (simp add: deferral_def)
  have "settles (on_err (ctx_err env)
        (\<lambda>ce. on_err (save_data env) fail (cancel_at env p q ce))
        (bnd get_rs (\<lambda>st.
           if Status st \<noteq> RunStatusRunning then fail e
           else if (case as_type sel_step_failed e of
                      Some (n, q', e') \<Rightarrow> length q' > length q | None \<Rightarrow> False) then fail e
           else if errors_is e ErrNoCompensate then fail_without_compensation env p q e
           else start_compensation env p q e)))"
    by (intro settles_on_err settles_save settles_cancel_at settles_bnd settles_if settles_fail
        settles_fail_without_compensation settles_start_compensation h nd) (auto dest: ctx_error [OF h])
  then show ?thesis
    using run False by (auto simp: handle_step_error_def settles_def)
qed

section \<open>Programs that keep the status\<close>

definition status_same :: "('v, 'w) mach \<Rightarrow> ('v, 'w) mach \<Rightarrow> bool" where
  "status_same m m' \<longleftrightarrow> Status (rs m') = Status (rs m)"

interpretation ss: kept_relation status_same
  by unfold_locales (simp_all add: status_same_def)

lemma ss_of_frame: "keeps comp_frame m \<Longrightarrow> keeps status_same m"
  by (auto simp: keeps_def comp_frame_def status_same_def)

lemma ss_upd_rs: "(\<And>st. Status (f st) = Status st) \<Longrightarrow> keeps status_same (upd_rs f)"
  by (auto simp: keeps_def status_same_def)

lemma ss_prims:
  "keeps status_same (set_path q)" "keeps status_same (append_completed q b)" "keeps status_same make_diags"
  "keeps status_same make_repeats" "keeps status_same (put_diag q d)" "keeps status_same (put_repeat q t)"
  "keeps status_same (get_diag q)" "keeps status_same (invoke tag f)"
  unfolding set_path_def append_completed_def make_diags_def make_repeats_def get_diag_def
  by (auto simp: keeps_def status_same_def put_diag_Some_iff put_repeat_Some_iff invoke_Some_iff)

lemmas ss_frames =
  ss_of_frame [OF cf_observe] ss_of_frame [OF cf_now] ss_of_frame [OF cf_ctx_err] ss_of_frame [OF cf_get_rs]
  ss_of_frame [OF cf_fail] ss_of_frame [OF cf_snapshot] ss_of_frame [OF cf_save_data]
  ss_of_frame [OF cf_recordError] ss_of_frame [OF cf_persistDeferred]
  ss_of_frame [OF cf_save_data_unchecked]

lemma ss_if: "keeps status_same m \<Longrightarrow> keeps status_same k \<Longrightarrow> keeps status_same (if b then m else k)"
  by simp

lemma ss_option:
  "keeps status_same m \<Longrightarrow> (\<And>y. keeps status_same (f y)) \<Longrightarrow> keeps status_same (case x of None \<Rightarrow> m | Some y \<Rightarrow> f y)"
  by (cases x) auto

lemma ss_recordAttempt:
  "keeps status_same (recordAttemptData env q)" "keeps status_same (recordAttempt env p q it)"
  "keeps status_same (mark_attempt env p b q it)" "keeps status_same (recordCompleted env q)"
  unfolding recordAttempt_def mark_attempt_def recordAttemptData_def recordCompleted_def Let_def
  by (intro ss.kept_rules ss_prims ss_frames ss_if)+

lemma ss_observe_completed: "keeps status_same (observe_completed env p q it op)"
  unfolding observe_completed_def observe_step_def by (intro ss.kept_rules ss_frames)

lemmas ss_rules = ss_if ss_option ss.kept_rules ss_prims ss_frames ss_recordAttempt ss_observe_completed

lemma ss_repeatTimedOut: "keeps status_same (repeatTimedOut env re r)"
  unfolding repeatTimedOut_def by (intro ss_rules)

lemma ss_repeatTimeout: "keeps status_same (repeatTimeout env p n re q i)"
  unfolding repeatTimeout_def fail_untimed_def observe_step_def Let_def by (intro ss_rules)

lemma ss_repeat_entry: "keeps status_same (repeat_entry env p s q)"
  unfolding repeat_entry_def ensureRepeatStarted_def Let_def
  by (intro ss_option ss_if ss.kept_rules ss_rules ss_repeatTimedOut ss_repeatTimeout)

lemma ss_run_on_enter: "keeps status_same (run_on_enter env p s q)"
  unfolding run_on_enter_def observe_on_enter_def defer_or_fail_def fail_untimed_def observe_step_def Let_def
  by (intro ss_option ss_if ss.kept_rules ss_rules ss_repeatTimedOut ss_repeatTimeout)

section \<open>Running programs\<close>

lemma running_ret: "settles_running (ret None)"
  by (auto simp: settles_running_def settled_def)

lemma running_seqm: "keeps status_same m \<Longrightarrow> settles_running k \<Longrightarrow> settles_running (seqm m k)"
  unfolding settles_running_def seqm_Some_iff by (fastforce dest: keepsD simp: status_same_def)

lemma running_bnd: "keeps status_same m \<Longrightarrow> (\<And>x. settles_running (f x)) \<Longrightarrow> settles_running (bnd m f)"
  unfolding settles_running_def bnd_Some_iff by (fastforce dest: keepsD simp: status_same_def)

lemma running_if: "(b \<Longrightarrow> settles_running m) \<Longrightarrow> (\<not> b \<Longrightarrow> settles_running k) \<Longrightarrow> settles_running (if b then m else k)"
  by simp

lemma running_option:
  "(x = None \<Longrightarrow> settles_running m) \<Longrightarrow> (\<And>y. x = Some y \<Longrightarrow> settles_running (f y)) \<Longrightarrow>
     settles_running (case x of None \<Rightarrow> m | Some y \<Rightarrow> f y)"
  by (cases x) auto

lemma running_on_err_keeps:
  assumes "keeps status_same m" and "\<And>e s s'. m s = Some (Some e, s') \<Longrightarrow> settles_running (h e)" and "settles_running k"
  shows "settles_running (on_err m h k)"
  unfolding settles_running_def
proof (intro allI impI)
  fix s r s' assume s: "Status (rs s) = RunStatusRunning" and "on_err m h k s = Some (r, s')"
  then obtain x t where t: "m s = Some (x, t)" "(case x of Some e \<Rightarrow> h e | None \<Rightarrow> k) t = Some (r, s')"
    by (auto simp: on_err_Some_iff)
  have "Status (rs t) = RunStatusRunning" using keepsD [OF assms(1) t(1)] s by (simp add: status_same_def)
  then show "settled r s'" using t assms(2,3) by (cases x) (auto simp: settles_running_def)
qed

lemma running_on_err:
  assumes "settles_running m" and "keeps status_same m" and "settles_running k"
  shows "settles_running (on_err m fail k)"
  unfolding settles_running_def
proof (intro allI impI)
  fix s r s' assume s: "Status (rs s) = RunStatusRunning" and "on_err m fail k s = Some (r, s')"
  then obtain x t where t: "m s = Some (x, t)" "(case x of Some e \<Rightarrow> fail e | None \<Rightarrow> k) t = Some (r, s')"
    by (auto simp: on_err_Some_iff)
  have "Status (rs t) = RunStatusRunning" using keepsD [OF assms(2) t(1)] s by (simp add: status_same_def)
  moreover have "settled x t" using assms(1) s t(1) by (auto simp: settles_running_def)
  ultimately show "settled r s'" using t(2) assms(3) by (cases x) (auto simp: settles_running_def)
qed

lemma running_save: "honest env \<Longrightarrow> settles_running k \<Longrightarrow> settles_running (on_err (save_data env) fail k)"
  by (rule running_on_err_keeps) (auto intro: ss_frames settles_running_of settles_fail dest: save_data_error)

lemma running_snapshot: "honest env \<Longrightarrow> settles_running k \<Longrightarrow> settles_running (on_err (snapshot env p op) fail k)"
  by (rule running_on_err_keeps)
    (auto intro: ss_frames settles_running_of settles_fail dest: snapshot_error)

lemma running_end_snapshot: "honest env \<Longrightarrow> settles_running (snapshot env p op)"
  unfolding settles_running_def using snapshot_cases [of env p op] by (fastforce simp: settled_def deferral_def)

section \<open>Steps\<close>

lemma running_repeat_entry: "honest env \<Longrightarrow> settles_running (repeat_entry env p s q)"
proof -
  assume h: "honest env"
  have e1: "settles_running (ensureRepeatStarted env p q)"
    unfolding ensureRepeatStarted_def Let_def
    by (intro running_bnd running_if running_ret running_seqm running_end_snapshot h ss_rules)
  have e2: "keeps status_same (ensureRepeatStarted env p q)"
    unfolding ensureRepeatStarted_def Let_def by (intro ss_if ss.kept_rules ss_rules)
  have to: "settles_running (seqm (recordAttempt env p q it) (repeatTimeout env p n re q i))" for it n re i
    by (intro settles_running_of settles_seqm settles_repeatTimeout)
  show ?thesis
    unfolding repeat_entry_def Let_def
    by (intro running_option running_if running_ret running_on_err [OF e1 e2] running_bnd ss_frames
        ss_repeatTimedOut to)
qed

lemma running_run_on_enter: "honest env \<Longrightarrow> settles_running (run_on_enter env p s q)"
proof -
  assume h: "honest env"
  have ob: "keeps status_same (observe_on_enter env p s q)"
    unfolding observe_on_enter_def by (intro ss_rules)
  have err: "settles_running (seqm (mark_attempt env p True q None) (seqm (recordError q e)
      (defer_or_fail env p q e' False None (fail_untimed env p q None op e'))))" for e e' op
    by (intro settles_running_of settles_seqm settles_defer_or_fail settles_fail_step h)
  have to: "settles_running (seqm (mark_attempt env p True q None) (repeatTimeout env p n re q i))" for n re i
    by (intro settles_running_of settles_seqm settles_repeatTimeout)
  show ?thesis
    unfolding run_on_enter_def Let_def
    by (intro running_seqm ob running_on_err_keeps ss_prims(8) err running_option running_ret running_if running_bnd
        ss_frames ss_repeatTimedOut to)
qed

definition runs_running :: "('v, 'w) runner \<Rightarrow> ('v, 'w) step \<Rightarrow> bool" where
  "runs_running rec s \<longleftrightarrow> (\<forall>ss \<in> children s. \<forall>i q. settles_running (rec ss i q))"

lemma running_executeBranch:
  assumes h: "honest env" and br: "StepBranch s = Some br" and rec: "runs_running rec s"
  shows "settles_running (executeBranch env p rec n br q ar)"
proof -
  have child: "settles_running (rec ss i q')" if "map_of (Paths br) k = Some ss" for k ss i q'
    using rec map_of_children [OF br that] unfolding runs_running_def by blast
  have resume: "settles_running (branch_resume rec n br q cur)" for cur
    unfolding branch_resume_def Let_def
    by (rule running_option, rule settles_running_of, rule settles_fail, rule not_deferral, simp only: plain_not_deferred not_False_eq_True)
      (rule child)
  have enter: "settles_running (branch_enter env p rec q k ss)" if "map_of (Paths br) k = Some ss" for k ss
    unfolding branch_enter_def
    by (intro running_seqm running_if running_save running_snapshot running_ret h child [OF that] ss_rules)
  have decide: "settles_running (branch_decide env p rec n br q ar)"
    unfolding branch_decide_def Let_def split_beta
    by (intro running_seqm running_bnd running_option enter ss_rules)
      (auto intro!: settles_running_of settles_seqm settles_defer_or_fail settles_fail_step h)
  show ?thesis
    unfolding executeBranch_def by (intro running_bnd running_if resume decide ss_frames)
qed

lemma running_executeRepeat:
  assumes h: "honest env" and re: "StepRepeat s = Some re" and rec: "runs_running rec s"
  shows "settles_running (executeRepeat env p rec n re q ar)"
proof -
  have child: "settles_running (rec (RepeatSteps re) i q')" for i q'
    using rec repeat_children [OF re] unfolding runs_running_def by blast
  have begin': "keeps status_same (repeat_begin env p q i t)" for i t
    unfolding repeat_begin_def by (intro ss_rules)
  have body: "settles_running (on_err (rec (RepeatSteps re) k q') fail
      (bnd get_rs (\<lambda>st'. if Status st' \<noteq> RunStatusRunning then ret None
        else seqm (put_repeat q t) (repeat_condition env p n re q ar i t t0))))" for k q' t i t0
    unfolding settles_running_def
  proof (intro allI impI)
    fix s r s' assume s: "Status (rs s) = RunStatusRunning"
      and "on_err (rec (RepeatSteps re) k q') fail
      (bnd get_rs (\<lambda>st'. if Status st' \<noteq> RunStatusRunning then ret None
        else seqm (put_repeat q t) (repeat_condition env p n re q ar i t t0))) s = Some (r, s')"
    then obtain x u where u: "rec (RepeatSteps re) k q' s = Some (x, u)"
      and rest: "(case x of Some e \<Rightarrow> fail e | None \<Rightarrow>
        bnd get_rs (\<lambda>st'. if Status st' \<noteq> RunStatusRunning then ret None
          else seqm (put_repeat q t) (repeat_condition env p n re q ar i t t0))) u = Some (r, s')"
      by (auto simp: on_err_Some_iff)
    have x: "settled x u" using child s u by (auto simp: settles_running_def)
    show "settled r s'"
    proof (cases "x = None \<and> Status (rs u) = RunStatusRunning")
      case True
      then have "seqm (put_repeat q t) (repeat_condition env p n re q ar i t t0) u = Some (r, s')"
        using rest by (simp add: bnd_get_rs)
      then show ?thesis
        using settles_seqm [OF settles_repeat_condition [OF h]] by (auto simp: settles_def)
    qed (use rest x in \<open>auto simp: bnd_get_rs split: option.splits\<close>)
  qed
  show ?thesis
    unfolding executeRepeat_def
  proof (rule running_bnd [OF ss_frames(4)])
    fix st
    show "settles_running (case repeat_resume_point st re q of
       Inl saved \<Rightarrow> fail (ErrStepFailed n q (errorf (''invalid saved repeat iteration '' @ go_quote saved)))
     | Inr (iteration, childStartIdx) \<Rightarrow>
         (let r = (get_repeat st q)\<lparr>Iteration := iteration, Completed := False\<rparr> in
          bnd (repeat_begin env p q iteration r) (\<lambda>startedAt.
          if AwaitingCondition r
          then repeat_condition env p n re q ar iteration r startedAt
          else on_err (rec (RepeatSteps re) childStartIdx (q @ [itoa iteration])) fail
            (bnd get_rs (\<lambda>st'.
             if Status st' \<noteq> RunStatusRunning then ret None
             else (let r' = r\<lparr>AwaitingCondition := True\<rparr> in
                   seqm (put_repeat q r')
                     (repeat_condition env p n re q ar iteration r' startedAt)))))))"
    proof (cases "repeat_resume_point st re q")
      case (Inl saved)
      have "\<not> deferral (ErrStepFailed n q (errorf (''invalid saved repeat iteration '' @ go_quote saved)))"
        by (intro not_deferral) (simp only: isDeferred_step_failed plain_not_deferred not_False_eq_True)
      then show ?thesis unfolding Inl sum.case by (intro settles_running_of settles_fail)
    next
      case (Inr pr)
      obtain i k where pr: "pr = (i, k)" by (cases pr)
      show ?thesis
        unfolding Inr pr sum.case prod.case Let_def
        by (intro running_bnd begin' running_if body settles_running_of [OF settles_repeat_condition [OF h]])
    qed
  qed
qed

lemma running_executeStep:
  assumes h: "honest env" and rec: "runs_running rec s"
  shows "settles_running (executeStep env p rec s q)"
proof -
  have dispatch: "settles_running (dispatch env p rec s q ar)" for ar
    unfolding dispatch_def
    by (intro running_option settles_running_of [OF settles_executeAction [OF h]]
        settles_running_of [OF settles_executePoll [OF h]] running_executeBranch [OF h _ rec]
        running_executeRepeat [OF h _ rec] settles_running_of [OF settles_fail] not_deferral plain_not_deferred)
  show ?thesis
    unfolding executeStep_def
    by (intro running_on_err running_if running_repeat_entry running_run_on_enter dispatch ss_repeat_entry
        ss_run_on_enter h)
qed

lemma running_steps_loop:
  "honest env \<Longrightarrow> (\<And>s. s \<in> set steps \<Longrightarrow> runs_running rec s) \<Longrightarrow>
     settles_running (steps_loop env p rec pa resume first steps)"
proof (induction steps arbitrary: first)
  case Nil
  then show ?case by (simp add: running_ret)
next
  case (Cons s ss)
  have h: "honest env" by fact
  have rest: "settles_running (steps_loop env p rec pa resume f ss)" for f
    using Cons by simp
  have step: "settles_running (executeStep env p rec s q)" for q
    using Cons.prems by (intro running_executeStep) simp_all
  have one: "settles_running (on_err (executeStep env p rec s q) (handle_step_error env p q)
      (bnd get_rs (\<lambda>st'. if Status st' \<noteq> RunStatusRunning then ret None
         else steps_loop env p rec pa resume False ss)))" for q
    unfolding settles_running_def
  proof (intro allI impI)
    fix m r m' assume m: "Status (rs m) = RunStatusRunning"
      and "on_err (executeStep env p rec s q) (handle_step_error env p q)
      (bnd get_rs (\<lambda>st'. if Status st' \<noteq> RunStatusRunning then ret None
         else steps_loop env p rec pa resume False ss)) m = Some (r, m')"
    then obtain x u where u: "executeStep env p rec s q m = Some (x, u)"
      and r: "(case x of Some e \<Rightarrow> handle_step_error env p q e | None \<Rightarrow>
        bnd get_rs (\<lambda>st'. if Status st' \<noteq> RunStatusRunning then ret None
         else steps_loop env p rec pa resume False ss)) u = Some (r, m')"
      by (auto simp: on_err_Some_iff)
    have x: "settled x u" using step m u by (auto simp: settles_running_def)
    show "settled r m'"
    proof (cases x)
      case None
      then show ?thesis
        using r x rest [of False] by (auto simp: bnd_get_rs settles_running_def split: if_splits)
    next
      case (Some e)
      then show ?thesis using r x handle_settled [OF h] by simp
    qed
  qed
  show ?case
    unfolding steps_loop.simps Let_def
    by (intro running_bnd running_if rest running_on_err_keeps running_seqm one ss_rules
        settles_running_of [OF settles_cancel_at]) (rule ctx_error [OF h])
qed

theorem running_executeSteps: "honest env \<Longrightarrow> settles_running (executeSteps env p steps k q)"
proof (induction "size_list size steps" arbitrary: steps k q rule: less_induct)
  case less
  have "runs_running (executeSteps env p) s" if "s \<in> set (drop k steps)" for s
    unfolding runs_running_def using that less by (blast dest: in_set_dropD intro: size_child)
  then show ?case
    by (subst executeSteps.simps) (intro running_bnd ss.kept_gets running_steps_loop less.prems)
qed

section \<open>Run\<close>

lemma settles_resume_compensation:
  assumes h: "honest env" and run: "resume_compensation env p s = Some (r, s')"
    and st: "Status (rs s) = RunStatusCompensating"
  shows "(r = None \<longrightarrow> durable s') \<and> (\<forall>e. r = Some e \<longrightarrow> deferral e \<longrightarrow> durable s')"
proof -
  have "settles (on_err (runCompensation env p) fail (bnd get_rs (\<lambda>st.
      case RepeatTimeout st of
        Some t \<Rightarrow> fail (ErrRepeatTimeout (TimeoutStepName t) (TimeoutMaxDuration t))
      | None \<Rightarrow> ret None)))"
    unfolding settles_def
  proof (intro allI impI)
    fix m r m'
    assume "on_err (runCompensation env p) fail (bnd get_rs (\<lambda>st.
      case RepeatTimeout st of
        Some t \<Rightarrow> fail (ErrRepeatTimeout (TimeoutStepName t) (TimeoutMaxDuration t))
      | None \<Rightarrow> ret None)) m = Some (r, m')"
    then obtain x u where u: "runCompensation env p m = Some (x, u)"
      and rest: "(case x of Some e \<Rightarrow> fail e | None \<Rightarrow> bnd get_rs (\<lambda>st.
      case RepeatTimeout st of
        Some t \<Rightarrow> fail (ErrRepeatTimeout (TimeoutStepName t) (TimeoutMaxDuration t))
      | None \<Rightarrow> ret None)) u = Some (r, m')"
      by (auto simp: on_err_Some_iff)
    have "settled x u" using settles_runCompensation [OF h] u by (auto simp: settles_def)
    then show "settled r m'"
      using rest
      by (cases x) (auto simp: bnd_get_rs settled_def deferral_def split: option.splits)
  qed
  then have "settles (resume_compensation env p)"
    unfolding resume_compensation_def
    by (intro settles_seqm settles_snapshot settles_saved_of h)
  then have "settled r s'" using run by (auto simp: settles_def)
  moreover have "r = None \<longrightarrow> Status (rs s') = RunStatusFailed"
    using resume_compensation_progress [OF run] by (simp add: comp_progress_def)
  ultimately show ?thesis by (auto simp: settled_def)
qed

lemma settles_run_steps:
  assumes h: "honest env" and run: "run_steps env p s = Some (r, s')"
  shows "(r = None \<longrightarrow> durable s') \<and> (\<forall>e. r = Some e \<longrightarrow> deferral e \<longrightarrow> durable s')"
proof -
  let ?s = "s\<lparr>rs := (rs s)\<lparr>Status := RunStatusRunning\<rparr>\<rparr>"
  let ?steps = "executeSteps env p (PSteps p) (findTopLevelIndex (PSteps p) (CurrentPath (rs s))) []"
  obtain s1 x s2 where s1: "save_data_unchecked env ?s = Some ((), s1)"
    and s2: "snapshot env p (if Status (rs s) \<noteq> RunStatusRunning then ''transition to running''
        else ''resume execution'') s1 = Some (x, s2)"
    and r2: "(case x of Some e \<Rightarrow> fail e | None \<Rightarrow> on_err ?steps fail (complete_run env p)) s2 = Some (r, s')"
    using run by (auto simp: run_steps_def bnd_get_rs seqm_Some_iff on_err_Some_iff set_status_def)
  have running: "Status (rs s2) = RunStatusRunning"
    using keepsD [OF ss_of_frame [OF cf_save_data_unchecked] s1] keepsD [OF ss_of_frame [OF cf_snapshot] s2]
    by (simp add: status_same_def)
  show ?thesis
  proof (cases x)
    case (Some e)
    then show ?thesis using r2 snapshot_error [OF h] s2 by auto
  next
    case None
    then obtain y s3 where s3: "?steps s2 = Some (y, s3)"
      and r3: "(case y of Some e \<Rightarrow> fail e | None \<Rightarrow> complete_run env p) s3 = Some (r, s')"
      using r2 by (auto simp: on_err_Some_iff)
    have y: "settled y s3" using running_executeSteps [OF h] running s3 by (auto simp: settles_running_def)
    show ?thesis
    proof (cases y)
      case (Some e)
      then show ?thesis using r3 y by (auto simp: settled_def)
    next
      case None
      show ?thesis
      proof (cases "Status (rs s3) = RunStatusRunning")
        case False
        then show ?thesis using r3 None y by (auto simp: complete_run_def bnd_get_rs settled_def)
      next
        case True
        let ?t = "s3\<lparr>rs := (rs s3)\<lparr>Status := RunStatusCompleted\<rparr>\<rparr>"
        obtain s4 z s5 where s4: "save_data_unchecked env ?t = Some ((), s4)"
          and s5: "snapshot env p ''pipeline completion'' s4 = Some (z, s5)"
          and r5: "(case z of Some e \<Rightarrow> fail e | None \<Rightarrow>
            seqm (observe env p (Ev EventPipelineCompleted [] 0 None 0 ''run'' None)) (ret None)) s5 = Some (r, s')"
          using r3 None True
          by (auto simp: complete_run_def bnd_get_rs seqm_Some_iff on_err_Some_iff set_status_def)
        show ?thesis
          using r5 snapshot_cases [OF h s5] keepsD [OF observe_world_only] durable_world_only
          by (cases z) (fastforce simp: seqm_Some_iff deferral_def)+
      qed
    qed
  qed
qed

text \<open>C4. Let a storage function be configured, no migrator, a pipeline that passes validation, a state that is
  not terminal, and a context and a \<open>json.Marshal\<close> whose errors do not themselves ask for a later
  continuation. Then a run that returns no error, or that asks to be continued later (\<open>ErrRetryAfter\<close> or
  \<open>ErrSnooze\<close>), ends with an accepted snapshot of exactly the state it returns: nothing the caller sees is
  missing from storage. On a terminal state a run does nothing and persists nothing.\<close>

theorem Run_returns_what_it_persisted:
  assumes h: "honest env" and mig: "stateMigrator env = None" and valid: "validate p = None"
    and live: "\<not> IsTerminal st" and run: "Run env p st w = Some (r, m)"
    and r: "r = None \<or> (\<exists>e. r = Some e \<and> isDeferred e \<and> \<not> is_snapshot_failed e)"
  shows "\<exists>before op. effs m = before @ [SnapshotOk op (rs m)]"
proof -
  have "durable m"
    using run
  proof (cases rule: Run_cases)
    case (canceled e w1 w2)
    then have "\<not> isDeferred e" using h unfolding honest_def by blast
    then show ?thesis using r canceled by simp
  next
    case (ended t)
    then have "\<exists>e. r = Some e \<and> \<not> deferral e"
      using mig live
      by (auto simp: admit_def bnd_get_rs seqm_Some_iff on_err_Some_iff Let_def versionMismatchError_def
          checkVersion_def deferral_def isDeferred_iff as_type_def split: if_splits option.splits)
    then show ?thesis using r by (auto simp: deferral_def)
  next
    case (admitted t u)
    obtain c u1 where c: "seqm restore_store (ctx_err env) u = Some (c, u1)"
      and rest: "(case c of Some ce \<Rightarrow> run_canceled env p ce | None \<Rightarrow>
        bnd get_rs (\<lambda>st. if Status st = RunStatusCompensating then resume_compensation env p else run_steps env p)) u1
          = Some (r, m)"
      using admitted(6) by (auto simp: run_admitted_def on_err_Some_iff seqm_Some_iff)
    show ?thesis
    proof (cases c)
      case (Some ce)
      then have "r = Some ce" "\<not> deferral ce"
        using rest c ctx_error [OF h] by (auto simp: run_canceled_def seqm_Some_iff)
      then show ?thesis using r by (auto simp: deferral_def)
    next
      case None
      then show ?thesis
        using rest r settles_resume_compensation [OF h] settles_run_steps [OF h]
        by (auto simp: bnd_get_rs deferral_def split: if_splits)
    qed
  qed (use valid live in auto)
  then show ?thesis by (simp add: durable_def)
qed

theorem Run_returns_what_it_persisted_witness:
  "\<exists>m before op. Run good_env (order_pipeline (failing_action (RetryAfter 5 None))) zero_run_state 0
       = Some (Some (ErrStepFailed ''ship'' [''ship''] (RetryAfter 5 None)), m)
     \<and> effs m = before @ [SnapshotOk op (rs m)]"
proof -
  let ?e = "ErrStepFailed ''ship'' [''ship''] (RetryAfter 5 None)"
  let ?run = "Run good_env (order_pipeline (failing_action (RetryAfter 5 None))) zero_run_state 0"
  have "map_option fst ?run = Some (Some ?e)" by code_simp
  then obtain m where m: "?run = Some (Some ?e, m)" by (cases ?run) auto
  have "honest good_env"
    by (auto simp: honest_def good_env_def sample_env_def)
  moreover have "stateMigrator good_env = None" by (simp add: good_env_def sample_env_def)
  moreover have "validate (order_pipeline (failing_action (RetryAfter 5 None))) = None" by code_simp
  moreover have "\<not> IsTerminal zero_run_state" by (simp add: IsTerminal_def zero_run_state_def)
  moreover have "isDeferred ?e \<and> \<not> is_snapshot_failed ?e"
    by (simp add: is_snapshot_failed_def as_type_def RetryAfter_def isDeferred_iff)
  ultimately show ?thesis using Run_returns_what_it_persisted [OF _ _ _ _ m] m by blast
qed

end
