(* ===== verification/Pipeline_Calm.thy ===== *)
theory Pipeline_Calm
  imports Pipeline_Durable
begin

text \<open>
  Runs that nothing interrupts: what each operation of the executor does to the part of the machine a
  client sees (status, completed steps, compensation index, error, store, world) when the context stays
  alive, storage accepts every snapshot and no observer or clock touches the world. Actions are treated
  with all their attempts.
\<close>

section \<open>A calm environment\<close>

text \<open>An environment that neither interrupts the run nor touches the callbacks' world.\<close>

definition calm :: "('v, 'w) env \<Rightarrow> bool" where
  "calm env \<longleftrightarrow>
     observer env = None \<and> stateMigrator env = None
     \<and> (\<forall>w. ctxErr env w = (None, w)) \<and> (\<forall>w. snd (clockNow env w) = w) \<and> (\<forall>d w. clockSleep env d w = (None, w))
     \<and> (\<forall>v. \<exists>j. jsonMarshal env v = Inr j)
     \<and> (\<forall>f. casSnapshotFn env = Some f \<longrightarrow> (\<forall>n st w. f n st w = (None, w)))
     \<and> (\<forall>f. snapshotFn env = Some f \<longrightarrow> (\<forall>st w. f st w = (None, w)))"

text \<open>An error that is a plain step failure: none of the signals the executor treats specially.\<close>

definition plain :: "err \<Rightarrow> bool" where
  "plain e \<longleftrightarrow> \<not> is_snapshot_failed e \<and> \<not> isDeferred e \<and> \<not> errors_is e ErrNoCompensate
     \<and> as_type sel_repeat_timeout e = None"

text \<open>What a client sees of a machine: status, completed steps, compensation index, error, store and
  world.\<close>

type_synonym ('v, 'w) view = "run_status \<times> completed_step list \<times> int \<times> string \<times> 'v store \<times> 'w"

definition view :: "('v, 'w) mach \<Rightarrow> ('v, 'w) view" where
  "view m = (Status (rs m), CompletedSteps (rs m), CompensationIndex (rs m), Error (rs m), store m, world m)"

definition same_view :: "('v, 'w) mach \<Rightarrow> ('v, 'w) mach \<Rightarrow> bool" where
  "same_view m m' \<longleftrightarrow> view m' = view m"

interpretation sv: kept_relation same_view
  by unfold_locales (simp_all add: same_view_def)

text \<open>\<open>at v d\<close>: the machine shows \<open>v\<close> and, if \<open>d\<close>, has a diagnostics map.\<close>

definition at :: "('v, 'w) view \<Rightarrow> bool \<Rightarrow> ('v, 'w) mach \<Rightarrow> bool" where
  "at v d m \<longleftrightarrow> view m = v \<and> has_maps d False m"

lemma total_at:
  fixes m :: "('v, 'w, 'a) exec"
  assumes "fine d False m d' False" and "keeps same_view m"
  shows "total (at v d) m (\<lambda>_. at v d')"
proof (rule totalI)
  fix s :: "('v, 'w) mach" assume s: "at v d s"
  obtain x s' where x: "m s = Some (x, s')" "has_maps d' False s'"
    using assms(1) s unfolding fine_def total_def at_def by blast
  then show "\<exists>x s'. m s = Some (x, s') \<and> at v d' s'"
    using s keepsD [OF assms(2) x(1)] by (auto simp: at_def same_view_def)
qed

text \<open>The same with a result that is always nil.\<close>

lemma total_at_nil:
  fixes m :: "('v, 'w, 'a option) exec"
  assumes "fine d False m d' False" and "keeps same_view m" and "\<And>s x s'. m s = Some (x, s') \<Longrightarrow> x = None"
  shows "total (at v d) m (\<lambda>x m. x = None \<and> at v d' m)"
  using total_at [OF assms(1,2)] assms(3) unfolding total_def by metis

lemma total_on_err_nil:
  assumes "total P m (\<lambda>x m. x = None \<and> M m)" and "total M k Q"
  shows "total P (on_err m h k) Q"
  using assms by (fastforce simp: total_def on_err_def bnd_def)

section \<open>Quiet operations in a calm environment\<close>

lemma calm_now: "calm env \<Longrightarrow> keeps same_view (now env)"
  by (auto simp: keeps_def now_Some_iff same_view_def view_def calm_def) (metis snd_conv)

lemma calm_ctx_err: "calm env \<Longrightarrow> ctx_err env m = Some (None, m)"
  by (simp add: ctx_err_def calm_def)

lemma calm_observe: "calm env \<Longrightarrow> observe env p ev = ret ()"
  by (simp add: observe_def calm_def)

lemma calm_call_snapshot: "calm env \<Longrightarrow> call_snapshot env op m = Some (x, m') \<Longrightarrow> x = None \<and> same_view m m'"
  by (auto simp: call_snapshot_def Let_def calm_def same_view_def view_def split: option.splits prod.splits)

lemma calm_observer: "calm env \<Longrightarrow> observer env = None"
  by (simp add: calm_def)

lemma calm_snapshot: "calm env \<Longrightarrow> snapshot env p op m = Some (x, m') \<Longrightarrow> x = None \<and> same_view m m'"
  by (auto simp: snapshot_def observe_snapshot_def on_err_Some_iff seqm_Some_iff Let_def calm_observer
      sv.kept_refl split: if_splits option.splits dest: calm_call_snapshot)

lemma calm_marshal: "\<forall>v. \<exists>j. marshal v = Inr j \<Longrightarrow> \<exists>mp. marshal_keys marshal d ks acc = Inr mp"
proof (induction ks arbitrary: acc)
  case (Cons k ks)
  then show ?case
    by (auto split: option.split dval.split sum.split) (metis sum.distinct(1))
qed simp

lemma calm_save_data: "calm env \<Longrightarrow> save_data env m = Some (x, m') \<Longrightarrow> x = None \<and> same_view m m'"
  using calm_marshal [of "jsonMarshal env" "store m" "rangeData env (store m)" Mapping.empty]
  by (auto simp: save_data_def bnd_Some_iff seqm_Some_iff marshalData_def same_view_def view_def calm_def
      split: sum.splits)

lemma sv_rs: "Status st = Status (rs m) \<Longrightarrow> CompletedSteps st = CompletedSteps (rs m) \<Longrightarrow>
    CompensationIndex st = CompensationIndex (rs m) \<Longrightarrow> Error st = Error (rs m) \<Longrightarrow> same_view m (m\<lparr>rs := st\<rparr>)"
  by (simp add: same_view_def view_def)

lemma sv_prims:
  "keeps same_view (set_path q)" "keeps same_view make_diags" "keeps same_view (get_diag q)"
  "keeps same_view (put_diag q g)" "keeps same_view (save_data_unchecked env)"
  unfolding set_path_def make_diags_def get_diag_def save_data_unchecked_def
  by (auto simp: keeps_def put_diag_Some_iff bnd_Some_iff sv.kept_refl intro!: sv_rs)

lemma sv_records:
  assumes "calm env"
  shows "keeps same_view (mark_attempt env p b q it)" "keeps same_view (recordCompleted env q)"
    "keeps same_view (recordError q e)" "keeps same_view (activeStepDuration env q)"
  unfolding mark_attempt_def recordAttempt_def recordAttemptData_def recordCompleted_def recordError_def
    activeStepDuration_def Let_def calm_observe [OF assms]
  by (auto intro!: sv.kept_rules sv_prims calm_now assms split: option.split)

section \<open>Steps\<close>

lemma total_save:
  assumes "calm env" and "total (at v d) k Q"
  shows "total (at v d) (on_err (save_data env) fail k) Q"
  by (rule total_on_err_nil [OF total_at_nil [OF fine_save_data] assms(2)])
    (use calm_save_data [OF assms(1)] in \<open>auto simp: keeps_def\<close>)

lemma total_snap:
  assumes "calm env" and "total (at v d) k Q"
  shows "total (at v d) (on_err (snapshot env p op) fail k) Q"
  by (rule total_on_err_nil [OF total_at_nil [OF fine_snapshot] assms(2)])
    (use calm_snapshot [OF assms(1)] in \<open>auto simp: keeps_def\<close>)

lemma total_at_ret: "(d' \<longrightarrow> d) \<Longrightarrow> total (at v d) (ret x) (\<lambda>y m. y = x \<and> at v d' m)"
  by (auto simp: total_def ret_def at_def has_maps_def)

lemma total_append:
  "total (at (st, css, i, er, da, w) d) (append_completed q b)
     (\<lambda>_. at (st, css @ [\<lparr>Path = q, HasCompensator = b\<rparr>], i, er, da, w) d)"
  by (auto simp: total_def append_completed_def upd_rs_def upd_def at_def view_def has_maps_def)

lemma total_invoke:
  "f da w = (r, da', w') \<Longrightarrow>
     total (at (st, css, i, er, da, w) d) (invoke tag (Some f)) (\<lambda>x m. x = r \<and> at (st, css, i, er, da', w') d m)"
  by (auto simp: total_def invoke_def at_def view_def has_maps_def)

lemma action_attempt_calm:
  assumes c: "calm env" and f: "Do act = Some f" "f da w = (r, da', w')"
  shows "total (at (st, css, i, er, da, w) d) (action_attempt env p q act ar first)
    (\<lambda>x m. x = r \<and> at (st, css, i, er, da', w') True m)"
proof -
  have mark: "total (at v d) (mark_attempt env p b q None) (\<lambda>_. at v True)" for v b
    by (rule total_at [OF fine_mark_attempt sv_records(1) [OF c]])
  have err: "total (at v True) (recordError q e) (\<lambda>_. at v True)" for v e
    by (rule total_at [OF fine_recordError sv_records(3) [OF c]])
  have "total (at (st, css, i, er, da, w) True)
      (on_err (invoke (DoCalled q) (Some f)) (\<lambda>e. seqm (recordError q e) (fail e)) (ret None))
      (\<lambda>x m. x = r \<and> at (st, css, i, er, da', w') True m)"
  proof (cases r)
    case None
    then have "total (at (st, css, i, er, da, w) True) (invoke (DoCalled q) (Some f))
        (\<lambda>x m. x = None \<and> at (st, css, i, er, da', w') True m)"
      using total_invoke [of f da w r da' w' st css i er True "DoCalled q"] f by simp
    then show ?thesis
      unfolding None by (rule total_on_err_nil) (rule total_at_ret, simp)
  next
    case (Some e)
    have "total (at (st, css, i, er, da', w') True) (seqm (recordError q e) (fail e))
        (\<lambda>x m. x = Some e \<and> at (st, css, i, er, da', w') True m)"
      unfolding fail_def by (rule total_seqm [OF err total_at_ret]) simp
    with total_invoke [of f da w r da' w' st css i er True "DoCalled q"] f Some show ?thesis
      by (fastforce simp: total_def on_err_def bnd_def)
  qed
  then show ?thesis
    unfolding action_attempt_def f(1) by (rule total_seqm [OF mark])
qed

text \<open>The attempts of an action: it is called again until it succeeds, at most \<open>n\<close> times.\<close>

fun tries :: "nat \<Rightarrow> ('v, 'w) action_fn \<Rightarrow> ('v, 'w) action_fn" where
  "tries 0 f d w = (None, d, w)"
| "tries (Suc n) f d w =
     (case f d w of
        (None, d', w') \<Rightarrow> (None, d', w')
      | (Some e, d', w') \<Rightarrow> if n = 0 then (Some e, d', w') else tries n f d' w')"

lemma tries_error: "tries n f d w = (Some e, r) \<Longrightarrow> \<exists>d w r. f d w = (Some e, r)"
  by (induction n arbitrary: d w) (fastforce split: prod.splits option.splits if_splits)+

lemma calm_sleep: "calm env \<Longrightarrow> total (at v d) (sleep env t) (\<lambda>x m. x = None \<and> at v d m)"
  by (simp add: total_def sleep_def calm_def at_def view_def has_maps_def)

lemma retry_loop_calm:
  assumes c: "calm env" and f: "Do act = Some f" and e: "\<And>d w e r. f d w = (Some e, r) \<Longrightarrow> \<not> isDeferred e"
    and n: "0 < n" and t: "tries n f da w = (r, da', w')"
  shows "total (at (st, css, i, er, da, w) d) (retry_loop env (action_attempt env p q act ar) b first n delay)
    (\<lambda>x m. x = r \<and> at (st, css, i, er, da', w') True m)"
  using n t
proof (induction n arbitrary: d da w first delay)
  case (Suc n)
  obtain r1 d1 w1 where f1: "f da w = (r1, d1, w1)" using prod_cases3 by blast
  let ?at = "at (st, css, i, er, d1, w1) True"
  have att: "total (at (st, css, i, er, da, w) d) (action_attempt env p q act ar first) (\<lambda>x m. x = r1 \<and> ?at m)"
    by (rule action_attempt_calm [OF c f f1])
  show ?case
  proof (cases r1)
    case None
    then show ?thesis using Suc.prems(2) f1 att
      by (simp add: total_on_err_nil [OF _ total_at_ret])
  next
    case (Some e1)
    let ?next = "if isDeferred e1 then fail (normalize_retry e1) else if n = 0 then fail e1
      else on_err (sleep env delay) fail (retry_loop env (action_attempt env p q act ar) b False n (if b then nextBackoffDelay delay else delay))"
    have "total ?at ?next (\<lambda>x m. x = r \<and> at (st, css, i, er, da', w') True m)"
    proof (cases "n = 0")
      case True
      then show ?thesis using Suc.prems(2) f1 Some e
        by (simp add: fail_def total_at_ret)
    next
      case False
      then have "total ?at (retry_loop env (action_attempt env p q act ar) b False n (if b then nextBackoffDelay delay else delay))
          (\<lambda>x m. x = r \<and> at (st, css, i, er, da', w') True m)"
        using Suc.prems(2) f1 Some by (intro Suc.IH) simp_all
      from total_on_err_nil [OF calm_sleep [OF c] this, of delay fail] show ?thesis
        using False e f1 Some by (simp split del: if_split)
    qed
    with att Some show ?thesis by (fastforce simp: total_def on_err_def bnd_def)
  qed
qed simp

lemma runWithRetry_calm:
  assumes "calm env" "Do act = Some f" "\<And>d w e r. f d w = (Some e, r) \<Longrightarrow> \<not> isDeferred e"
    and "tries (nat (retry_attempts rt)) f da w = (r, da', w')"
  shows "total (at (st, css, i, er, da, w) d) (runWithRetry env rt (action_attempt env p q act ar))
    (\<lambda>x m. x = r \<and> at (st, css, i, er, da', w') True m)"
proof -
  have "0 < nat (retry_attempts rt)" by (simp add: retry_attempts_def split: option.split)
  then show ?thesis unfolding runWithRetry_def using assms by (intro retry_loop_calm)
qed

lemma executeAction_calm_ok:
  assumes c: "calm env" and f: "Do act = Some f" "\<And>d w e r. f d w = (Some e, r) \<Longrightarrow> \<not> isDeferred e"
    and t: "tries (nat (retry_attempts rt)) f da w = (None, da', w')"
  shows "total (at (st, css, i, er, da, w) d) (executeAction env p n rt act q ar)
    (\<lambda>x m. x = None \<and> at (st, css @ [\<lparr>Path = q, HasCompensator = Compensate act \<noteq> None\<rparr>], i, er, da', w') False m)"
proof -
  let ?css = "css @ [\<lparr>Path = q, HasCompensator = Compensate act \<noteq> None\<rparr>]"
  have run: "total (at (st, css, i, er, da, w) d) (runWithRetry env rt (action_attempt env p q act ar))
      (\<lambda>x m. x = None \<and> at (st, css, i, er, da', w') True m)"
    by (rule runWithRetry_calm [OF c f t])
  have completed: "total (at v True) (recordCompleted env q) (\<lambda>_. at v True)" for v
    by (rule total_at [OF fine_recordCompleted sv_records(2) [OF c]])
  have ob: "total (at v True) (seqm (observe_completed env p q None op) (ret None)) (\<lambda>x m. x = None \<and> at v False m)" for v op
    unfolding observe_completed_def observe_step_def calm_observe [OF c]
    by (simp add: total_def seqm_def bnd_def get_rs_def gets_def ret_def at_def has_maps_def)
  show ?thesis
    unfolding executeAction_def
    by (rule total_on_err_nil [OF run], rule total_seqm [OF total_append], rule total_save [OF c],
        rule total_seqm [OF completed], rule total_snap [OF c], rule ob)
qed

lemma executeAction_calm_fail:
  assumes c: "calm env" and f: "Do act = Some f" "\<And>d w e r. f d w = (Some e, r) \<Longrightarrow> \<not> isDeferred e"
    and t: "tries (nat (retry_attempts rt)) f da w = (Some e, da', w')"
  shows "total (at (st, css, i, er, da, w) d) (executeAction env p n rt act q ar)
    (\<lambda>x m. x = Some (ErrStepFailed n q e) \<and> at (st, css, i, er, da', w') False m)"
proof -
  have e: "\<not> isDeferred e" using tries_error [OF t] f(2) by blast
  have run: "total (at (st, css, i, er, da, w) d) (runWithRetry env rt (action_attempt env p q act ar))
      (\<lambda>x m. x = Some e \<and> at (st, css, i, er, da', w') True m)"
    by (rule runWithRetry_calm [OF c f t])
  have dur: "total (at v True) (activeStepDuration env q) (\<lambda>_. at v True)" for v
    by (rule total_at [OF fine_activeStepDuration sv_records(4) [OF c]])
  have ft: "total (at v True) (fail_timed env p q None op (ErrStepFailed n q e))
      (\<lambda>x m. x = Some (ErrStepFailed n q e) \<and> at v False m)" for v op
    unfolding fail_timed_def observe_step_def calm_observe [OF c]
    by (rule total_bnd [OF dur])
      (simp add: total_def seqm_def bnd_def get_rs_def gets_def ret_def fail_def at_def has_maps_def)
  show ?thesis
    unfolding executeAction_def Let_def defer_or_fail_def
    using run e ft [of "(st, css, i, er, da', w')" "''action''"]
    by (fastforce simp: total_def on_err_def bnd_def)
qed

end
