(* ===== verification/Pipeline_Saga.thy ===== *)
theory Pipeline_Saga
  imports Pipeline_Calm
begin

text \<open>
  The contract of a pipeline of actions and branches, stated without the executor's machinery: run the
  steps in order, each action with its attempts, each branch as the steps of the path it decides for, to
  any depth; when one fails, run the compensators of the completed actions in reverse order. The
  refinement theorem says that \<open>Run\<close>, with its snapshots, journals, saved paths and nested step loops,
  does exactly this to the data store and the world when nothing interrupts it.
\<close>

section \<open>The abstract saga\<close>

text \<open>A completed step: where it is and how it is undone.\<close>

type_synonym ('v, 'w) completion = "path \<times> ('v, 'w) action_fn option"

text \<open>What a branch decides: the error of its step, or the path it takes with its steps.\<close>

definition decide ::
    "string \<Rightarrow> ('v, 'w) branch_step \<Rightarrow> path \<Rightarrow> 'v store \<Rightarrow> 'w \<Rightarrow> (err + string \<times> ('v, 'w) step list) \<times> 'v store \<times> 'w" where
  "decide n br here d w =
     (case the (Decide br) d w of
        ((_, Some e), d', w') \<Rightarrow> (Inl (ErrStepFailed n here (errorf_wrap ''decide'' e)), d', w')
      | ((k, None), d', w') \<Rightarrow>
          (case map_of (Paths br) k of
             None \<Rightarrow> (Inl (ErrStepFailed n here (errorf (''branch returned unknown path '' @ go_quote k
                       @ '' (available: '' @ show_strings (branchPathNames br) @ '')''))), d', w')
           | Some sub \<Rightarrow> (Inr (k, sub), d', w')))"

lemma decide_sub: "decide n br here d w = (Inr (k, sub), r) \<Longrightarrow> map_of (Paths br) k = Some sub"
  by (auto simp: decide_def split: prod.splits option.splits)

lemma plain_errorf: "plain (errorf t)" "plain e \<Longrightarrow> plain (errorf_wrap t e)"
  by (simp_all add: plain_def is_snapshot_failed_def isDeferred_iff as_type_def errors_is_iff errorf_def errorf_wrap_def)

lemma decide_error:
  assumes "decide n br q d w = (Inl e, r)" and "Decide br = Some f" and "\<And>d w k e r. f d w = ((k, Some e), r) \<Longrightarrow> plain e"
  shows "\<exists>e'. e = ErrStepFailed n q e' \<and> plain e'"
  using assms plain_errorf unfolding decide_def by (cases r) (auto split: prod.splits option.splits)

lemma decide_size:
  fixes s :: "('v, 'w) step" and ss :: "('v, 'w) step list"
  assumes "StepBranch s = Some br" and "(Inr (k, sub), d', w') = decide n br here d w"
  shows "size_list size sub < Suc (size s + size_list size ss)"
proof -
  have "sub \<in> children s" using map_of_children [OF assms(1) decide_sub [OF assms(2) [symmetric]]] .
  then show ?thesis using size_child [of s "s # ss" sub] by simp
qed

definition followed_by ::
    "('v, 'w) completion list \<Rightarrow> err option \<times> ('v, 'w) completion list \<times> 'r \<Rightarrow> err option \<times> ('v, 'w) completion list \<times> 'r" where
  "followed_by xs r = (fst r, xs @ fst (snd r), snd (snd r))"

text \<open>The steps below \<open>q\<close>: the error of the step that failed, if any, the steps completed before, and what
  has become of the store and the world.\<close>

function forward ::
    "path \<Rightarrow> ('v, 'w) step list \<Rightarrow> 'v store \<Rightarrow> 'w \<Rightarrow> err option \<times> ('v, 'w) completion list \<times> 'v store \<times> 'w" where
  "forward q [] d w = (None, [], d, w)"
| "forward q (s # ss) d w =
     (let here = q @ [StepName s] in
      case StepAction s of
        Some act \<Rightarrow>
          (case tries (nat (retry_attempts (StepRetry s))) (the (Do act)) d w of
             (Some e, d', w') \<Rightarrow> (Some (ErrStepFailed (StepName s) here e), [], d', w')
           | (None, d', w') \<Rightarrow> followed_by [(here, Compensate act)] (forward q ss d' w'))
      | None \<Rightarrow>
          (case StepBranch s of
             None \<Rightarrow> (None, [], d, w)
           | Some br \<Rightarrow>
               (case decide (StepName s) br here d w of
                  (Inl e, d', w') \<Rightarrow> (Some e, [], d', w')
                | (Inr (k, sub), d', w') \<Rightarrow>
                    (case forward (here @ [k]) sub d' w' of
                       (Some e, finished, r) \<Rightarrow> (Some e, (here, None) # finished, r)
                     | (None, finished, d'', w'') \<Rightarrow>
                         followed_by ((here, None) # finished) (forward q ss d'' w'')))))"
  by pat_completeness auto
termination
  by (relation "measure (\<lambda>(q, ss, d, w). size_list size ss)") (auto intro: decide_size)

fun undo :: "('k \<times> ('v, 'w) action_fn option) list \<Rightarrow> 'v store \<Rightarrow> 'w \<Rightarrow> ('k \<times> err) option \<times> 'v store \<times> 'w" where
  "undo [] d w = (None, d, w)"
| "undo ((q, None) # xs) d w = undo xs d w"
| "undo ((q, Some f) # xs) d w =
     (case f d w of
        (None, d', w') \<Rightarrow> undo xs d' w'
      | (Some e, d', w') \<Rightarrow> (Some (q, e), d', w'))"

datatype ('v, 'w) saga_result =
    Finished "'v store" 'w
  | RolledBack err "'v store" 'w
  | Stuck err path err "'v store" 'w

definition saga :: "('v, 'w) step list \<Rightarrow> 'v store \<Rightarrow> 'w \<Rightarrow> ('v, 'w) saga_result" where
  "saga steps d w =
     (case forward [] steps d w of
        (None, _, d', w') \<Rightarrow> Finished d' w'
      | (Some e, finished, d', w') \<Rightarrow>
          (case undo (rev finished) d' w' of
             (None, d'', w'') \<Rightarrow> RolledBack e d'' w''
           | (Some (q, c), d'', w'') \<Rightarrow> Stuck e q c d'' w''))"

section \<open>Which pipelines\<close>

text \<open>Actions and branches, whose callbacks fail with plain errors.\<close>

definition plain_step :: "('v, 'w) step \<Rightarrow> bool" where
  "plain_step s \<longleftrightarrow>
     StepOnEnter s = None \<and> StepPoll s = None \<and> StepRepeat s = None
     \<and> (case StepAction s of
          Some act \<Rightarrow>
            (\<exists>f. Do act = Some f \<and> (\<forall>d w e r. f d w = (Some e, r) \<longrightarrow> plain e))
            \<and> (\<forall>g d w e r. Compensate act = Some g \<longrightarrow> g d w = (Some e, r) \<longrightarrow> \<not> isDeferred e)
        | None \<Rightarrow>
            (\<exists>br f. StepBranch s = Some br \<and> Decide br = Some f
              \<and> (\<forall>d w k e r. f d w = ((k, Some e), r) \<longrightarrow> plain e)))"

lemma plain_action:
  "plain_step s \<Longrightarrow> StepAction s = Some act \<Longrightarrow> \<exists>f. Do act = Some f \<and> (\<forall>d w e r. f d w = (Some e, r) \<longrightarrow> plain e)"
  by (simp add: plain_step_def)

lemma plain_branch:
  "plain_step s \<Longrightarrow> StepAction s = None \<Longrightarrow>
     \<exists>br f. StepBranch s = Some br \<and> Decide br = Some f \<and> (\<forall>d w k e r. f d w = ((k, Some e), r) \<longrightarrow> plain e)"
  by (simp add: plain_step_def)

inductive plain_tree :: "('v, 'w) step list \<Rightarrow> bool" where
  "(\<And>s. s \<in> set steps \<Longrightarrow> plain_step s) \<Longrightarrow> (\<And>s sub. s \<in> set steps \<Longrightarrow> sub \<in> children s \<Longrightarrow> plain_tree sub) \<Longrightarrow>
     plain_tree steps"

inductive_cases plain_treeE: "plain_tree steps"

lemma plain_tree_Cons: "plain_tree (s # ss) \<Longrightarrow> plain_step s \<and> plain_tree ss \<and> (\<forall>sub \<in> children s. plain_tree sub)"
  by (erule plain_treeE) (auto intro: plain_tree.intros)

section \<open>The journal\<close>

definition saga_completed :: "('v, 'w) completion \<Rightarrow> completed_step" where
  "saga_completed x = \<lparr>Path = fst x, HasCompensator = snd x \<noteq> None\<rparr>"

lemma saga_completed_sel [simp]: "Path (saga_completed (q, g)) = q" "HasCompensator (saga_completed (q, g)) = (g \<noteq> None)"
  by (simp_all add: saga_completed_def)

section \<open>Compensation\<close>

lemma total_set_index: "total (at (st, css, i, er, da, w) d) (set_comp_index j) (\<lambda>_. at (st, css, j, er, da, w) d)"
  by (auto simp: total_def set_comp_index_def upd_rs_def upd_def at_def view_def has_maps_def)

lemma total_set_status: "total (at (st, css, i, er, da, w) d) (set_status st') (\<lambda>_. at (st', css, i, er, da, w) d)"
  by (auto simp: total_def set_status_def upd_rs_def upd_def at_def view_def has_maps_def)

lemma total_ctx: "calm env \<Longrightarrow> total (at v d) k Q \<Longrightarrow> total (at v d) (on_err (ctx_err env) h k) Q"
  by (simp add: total_def on_err_def bnd_def calm_ctx_err)

lemma total_now:
  assumes "calm env" and "\<And>t. total (at v d) (k t) Q"
  shows "total (at v d) (bnd (now env) k) Q"
  by (rule total_bnd [OF total_at [OF fine_world(1) calm_now [OF assms(1)]]]) (rule assms(2))

lemma total_observe:
  assumes "calm env" and "total P k Q"
  shows "total P (seqm (observe env p ev) k) Q"
  using assms(2) by (simp add: calm_observe [OF assms(1)] seqm_def bnd_def ret_def)

text \<open>The state in which a compensation ends, and the error it returns.\<close>

fun undone ::
    "(path \<times> err) option \<times> 'v store \<times> 'w \<Rightarrow> string \<Rightarrow> completed_step list \<Rightarrow> err option \<Rightarrow> ('v, 'w) mach \<Rightarrow> bool" where
  "undone (None, da, w) er css x m \<longleftrightarrow> x = None \<and> at (RunStatusFailed, css, - 1, er, da, w) False m"
| "undone (Some (k, c), da, w) er css x m \<longleftrightarrow> \<not> isDeferred c \<and>
     x = Some (ErrCompensationFailed (errorf er) (errorf_wrap (''step '' @ go_quote (last k)) c))
     \<and> (\<exists>i. at (RunStatusCompensating, css, i, er, da, w) False m)"

lemma total_compensation_end:
  assumes c: "calm env"
  shows "total (at (RunStatusCompensating, css, i, er, da, w) False) (compensation_end env p er)
    (undone (None, da, w) er css)"
  unfolding compensation_end_def undone.simps
  by (rule total_seqm [OF total_set_status], rule total_seqm [OF total_set_index], rule total_save [OF c],
      rule total_snap [OF c], rule total_observe [OF c], rule total_observe [OF c], rule total_at_ret, simp)

lemma total_compensation_failed:
  assumes c: "calm env" and e: "\<not> isDeferred e"
  shows "total (at (RunStatusCompensating, css, i, er, da, w) False) (compensation_failed env p er j q (last q) t0 e)
    (undone (Some (q, e), da, w) er css)"
proof -
  have err: "total (at v False) (recordError q e) (\<lambda>_. at v False)" for v
    by (rule total_at [OF fine_False [OF fine_recordError] sv_records(3) [OF c]])
  show ?thesis
    unfolding compensation_failed_def if_not_P [OF e]
    by (rule total_seqm [OF total_set_index], rule total_seqm [OF err], rule total_ctx [OF c],
        rule total_now [OF c], rule total_observe [OF c], rule total_save [OF c], rule total_snap [OF c])
      (auto simp: total_def fail_def ret_def e)
qed

text \<open>The completed steps can be undone: their compensators are found and do not defer.\<close>

definition undoable :: "('v, 'w) pipeline \<Rightarrow> ('v, 'w) completion list \<Rightarrow> bool" where
  "undoable p xs \<longleftrightarrow>
     (\<forall>(q, g) \<in> set xs. \<forall>h. g = Some h \<longrightarrow> find_compensator p q = Some (last q, h)
        \<and> (\<forall>d w e r. h d w = (Some e, r) \<longrightarrow> \<not> isDeferred e))"

lemma undoable_append [simp]: "undoable p (xs @ ys) \<longleftrightarrow> undoable p xs \<and> undoable p ys"
  by (simp add: undoable_def ball_Un)

lemma undoable_Cons: "undoable p ((q, g) # xs) \<longleftrightarrow> undoable p xs \<and>
    (\<forall>h. g = Some h \<longrightarrow> find_compensator p q = Some (last q, h)
      \<and> (\<forall>d w e r. h d w = (Some e, r) \<longrightarrow> \<not> isDeferred e))"
  by (auto simp: undoable_def)

lemma undoable_Nil [simp]: "undoable p []"
  by (simp add: undoable_def)

lemma saga_compensate_loop:
  assumes c: "calm env" and u: "undoable p xs"
  shows "total (at (RunStatusCompensating, map saga_completed (xs @ ys), i, er, da, w) False)
    (compensate_loop env p er (length xs)) (undone (undo (rev xs) da w) er (map saga_completed (xs @ ys)))"
  using u
proof (induction xs arbitrary: ys i da w rule: rev_induct)
  case Nil
  show ?case using total_compensation_end [OF c] by (simp del: undone.simps)
next
  case (snoc x xs)
  obtain q g where x: "x = (q, g)" by (cases x)
  let ?css = "map saga_completed (xs @ x # ys)"
  let ?at = "\<lambda>i da w. at (RunStatusCompensating, ?css, i, er, da, w) False"
  have IH: "total (?at i da w) (compensate_loop env p er (length xs)) (undone (undo (rev xs) da w) er ?css)" for i da w
    using snoc.IH [of "x # ys"] snoc.prems by simp
  have entry: "total (?at i da w) (k (?css ! length xs)) Q \<Longrightarrow>
      total (?at i da w) (bnd get_rs (\<lambda>st. if length xs \<ge> length (CompletedSteps st) then panic
        else k (CompletedSteps st ! length xs))) Q" for k Q
    by (auto simp: total_def bnd_def get_rs_def gets_def at_def view_def)
  show ?case
  proof (cases g)
    case None
    then show ?thesis
      using total_seqm [OF total_set_index IH]
      unfolding length_append_singleton compensate_loop.simps Let_def append_assoc append.simps
      by (intro entry) (simp add: x nth_append)
  next
    case (Some f)
    obtain r da' w' where f: "f da w = (r, da', w')" using prod_cases3 by blast
    have find: "find_compensator p q = Some (last q, f)" using snoc.prems x Some by (simp add: undoable_Cons)
    have step: "total (?at i da' w') (case r of Some e \<Rightarrow> compensation_failed env p er (length xs) q (last q) t e
          | None \<Rightarrow> compensation_succeeded env p (length xs) q t (compensate_loop env p er (length xs)))
        (undone (undo (rev (xs @ [x])) da w) er ?css)" for t
    proof (cases r)
      case None
      show ?thesis
        unfolding None option.case compensation_succeeded_def
        by (rule total_seqm [OF total_set_index], rule total_save [OF c], rule total_snap [OF c],
            rule total_now [OF c], rule total_observe [OF c])
          (use IH in \<open>simp add: x Some f None\<close>)
    next
      case e: (Some e)
      have "\<not> isDeferred e" using snoc.prems f by (simp add: x Some e undoable_Cons) metis
      from total_compensation_failed [OF c this, where q = q] show ?thesis by (simp add: x Some f e)
    qed
    have call: "total (?at i da w) (on_err (invoke (CompensateCalled q) (Some f))
          (compensation_failed env p er (length xs) q (last q) t)
          (compensation_succeeded env p (length xs) q t (compensate_loop env p er (length xs))))
        (undone (undo (rev (xs @ [x])) da w) er ?css)" for t
      unfolding on_err_def
      by (rule total_bnd [OF total_invoke [where f = f, OF f]])
        (use step in \<open>auto simp: total_def split: option.splits\<close>)
    have nth: "?css ! length xs = saga_completed (q, Some f)" by (simp add: x Some nth_append)
    show ?thesis
      unfolding length_append_singleton compensate_loop.simps Let_def append_assoc append.simps
      by (rule entry)
        (simp only: nth saga_completed_sel find option.case prod.case option.distinct simp_thms if_False,
         rule total_ctx [OF c], rule total_now [OF c], rule total_observe [OF c], rule call)
  qed
qed

section \<open>The step loop\<close>

lemma plain_step_failed:
  assumes "plain e"
  shows "\<not> is_snapshot_failed (ErrStepFailed n q e)" "\<not> isDeferred (ErrStepFailed n q e)"
    "\<not> errors_is (ErrStepFailed n q e) ErrNoCompensate" "as_type sel_repeat_timeout (ErrStepFailed n q e) = None"
    "as_type sel_step_failed (ErrStepFailed n q e) = Some (n, q, e)"
  using assms by (simp_all add: plain_def is_snapshot_failed_def as_type_step_failed as_type_here)

lemma total_pass: "total P m Q \<Longrightarrow> total P (on_err m fail (ret None)) Q"
  by (fastforce simp: total_def on_err_def bnd_def ret_def fail_def split: option.splits)

lemma total_start_compensation:
  assumes c: "calm env"
    and u: "undoable p xs" and e: "plain e" "er' = err_text (ErrStepFailed k q e)"
  shows "total (at (RunStatusRunning, map saga_completed xs, i, er, da, w) False)
    (start_compensation env p q (ErrStepFailed k q e)) (undone (undo (rev xs) da w) er' (map saga_completed xs))"
proof -
  let ?at = "\<lambda>da w. at (RunStatusCompensating, map saga_completed xs, int (length xs) - 1, er', da, w) False"
  have upd: "total (at (RunStatusRunning, map saga_completed xs, i, er, da, w) False)
      (upd_rs (\<lambda>st. st\<lparr>Error := er', FailedStepPath := q, Status := RunStatusCompensating,
              CompensationIndex := int (length (CompletedSteps st)) - 1, RepeatTimeout := RepeatTimeout st\<rparr>))
      (\<lambda>_. ?at da w)"
    by (auto simp: total_def upd_rs_def upd_def at_def view_def has_maps_def)
  have "total (?at da w) (bnd get_rs (\<lambda>st. compensate_loop env p (Error st) (nat (CompensationIndex st + 1))))
      (undone (undo (rev xs) da w) er' (map saga_completed xs))"
    using saga_compensate_loop [OF c u, of "[]" "int (length xs) - 1" er' da w]
    by (auto simp: total_def bnd_def get_rs_def gets_def at_def view_def)
  then have run: "total (?at da w) (runCompensation env p) (undone (undo (rev xs) da w) er' (map saga_completed xs))"
    unfolding runCompensation_def by (rule total_observe [OF c])
  show ?thesis
    unfolding start_compensation_def plain_step_failed(4) [OF e(1)] option.case e(2) [symmetric]
    by (rule total_seqm [OF upd], rule total_save [OF c], rule total_snap [OF c]) (simp add: total_pass [OF run])
qed


section \<open>The step loop\<close>

text \<open>The outcome of the step list, in terms of \<^const>\<open>forward\<close> and \<^const>\<open>undo\<close>.\<close>

fun ran ::
    "('v, 'w) completion list \<Rightarrow> int \<Rightarrow> string \<Rightarrow> err option \<times> ('v, 'w) completion list \<times> 'v store \<times> 'w \<Rightarrow>
       err option \<Rightarrow> ('v, 'w) mach \<Rightarrow> bool" where
  "ran xs i er (None, fin, da, w) x m \<longleftrightarrow>
     x = None \<and> at (RunStatusRunning, map saga_completed (xs @ fin), i, er, da, w) False m"
| "ran xs i er (Some e, fin, da, w) x m \<longleftrightarrow>
     undone (undo (rev (xs @ fin)) da w) (err_text e) (map saga_completed (xs @ fin)) x m"

lemma ran_Some: "ran xs i er (Some e, fin, da, w) =
    undone (undo (rev (xs @ fin)) da w) (err_text e) (map saga_completed (xs @ fin))"
  by (intro ext) simp

lemma ran_followed_by: "ran xs i er (followed_by ys r) = ran (xs @ ys) i er r"
proof -
  obtain e fin da w where r: "r = (e, fin, da, w)" using prod_cases4 by blast
  show ?thesis by (cases e) (simp_all add: r followed_by_def fun_eq_iff)
qed

lemma total_handle_step_error:
  assumes "calm env" and "undoable p xs" and "plain e"
  shows "total (at (RunStatusRunning, map saga_completed xs, i, er, da, w) False)
    (handle_step_error env p q (ErrStepFailed k q e))
    (undone (undo (rev xs) da w) (err_text (ErrStepFailed k q e)) (map saga_completed xs))"
proof -
  have running: "total (at (RunStatusRunning, xs', i, er, da, w) False)
      (bnd get_rs (\<lambda>st. if Status st \<noteq> RunStatusRunning then h else k)) Q"
    if "total (at (RunStatusRunning, xs', i, er, da, w) False) k Q" for xs' h k Q
    using that by (simp add: total_def bnd_def get_rs_def gets_def at_def view_def)
  have "handle_step_error env p q (ErrStepFailed k q e) =
      on_err (ctx_err env) (\<lambda>ce. on_err (save_data env) fail (cancel_at env p q ce))
        (bnd get_rs (\<lambda>st. if Status st \<noteq> RunStatusRunning then fail (ErrStepFailed k q e)
           else start_compensation env p q (ErrStepFailed k q e)))"
    using assms(3) by (simp add: handle_step_error_def plain_step_failed plain_def cong: if_cong)
  then show ?thesis
    by (simp only:) (rule total_ctx [OF assms(1)], rule running, rule total_start_compensation [OF assms refl])
qed

text \<open>A scope passes on the error of a compensation that got stuck below it.\<close>

lemma stuck_not_deferred: "\<not> isDeferred c \<Longrightarrow> \<not> isDeferred (ErrCompensationFailed (errorf er) (errorf_wrap t c))"
  by (simp add: isDeferred_iff as_type_def errorf_def errorf_wrap_def)

lemma handle_stuck:
  assumes "calm env" and "at (RunStatusCompensating, css, i, er, da, w) False m" and "\<not> isDeferred c"
  shows "handle_step_error env p q (ErrCompensationFailed (errorf er') (errorf_wrap t c)) m =
    Some (Some (ErrCompensationFailed (errorf er') (errorf_wrap t c)), m)"
  using assms stuck_not_deferred [OF assms(3)]
  by (simp add: handle_step_error_def fail_def ret_def on_err_def bnd_def calm_ctx_err get_rs_def gets_def at_def view_def)

lemma undone_passes:
  assumes "calm env" and "undone u er css x m"
  shows "\<exists>m'. (case x of None \<Rightarrow> (bnd get_rs (\<lambda>st. if Status st \<noteq> RunStatusRunning then ret None else k))
      | Some e \<Rightarrow> handle_step_error env p q e) m = Some (x, m') \<and> undone u er css x m'"
proof -
  obtain r da w where u: "u = (r, da, w)" by (cases u)
  show ?thesis
    using assms(2) handle_stuck [OF assms(1)]
    by (cases r) (auto simp: u bnd_def get_rs_def gets_def at_def view_def ret_def)
qed

text \<open>The current path, which the handler of a branch looks at.\<close>

definition at_path :: "('v, 'w) view \<Rightarrow> bool \<Rightarrow> path \<Rightarrow> ('v, 'w) mach \<Rightarrow> bool" where
  "at_path v d q m \<longleftrightarrow> at v d m \<and> CurrentPath (rs m) = q"

definition same_path :: "('v, 'w) mach \<Rightarrow> ('v, 'w) mach \<Rightarrow> bool" where
  "same_path m m' \<longleftrightarrow> CurrentPath (rs m') = CurrentPath (rs m)"

lemma total_set_path:
  fixes v :: "('v, 'w) view"
  shows "total (at v d) (set_path q) (\<lambda>_. at_path v d q)"
  by (auto simp: total_def set_path_def upd_rs_def upd_def at_def at_path_def view_def has_maps_def)

lemma total_from_path: "total (at v d) m Q \<Longrightarrow> total (at_path v d q) m Q"
  by (erule total_pre) (simp add: at_path_def)

lemma total_keep_path:
  assumes "total (at_path v d q) k Q" and "\<And>s x s'. m s = Some (x, s') \<Longrightarrow> x = None \<and> same_view s s' \<and> same_path s s'"
    and "fine d False m d False"
  shows "total (at_path v d q) (on_err m fail k) Q"
proof (rule totalI)
  fix s assume s: "at_path v d q s"
  obtain x s' where m: "m s = Some (x, s')" "has_maps d False s'"
    using assms(3) s unfolding fine_def total_def at_path_def at_def by blast
  then have "x = None" "at_path v d q s'"
    using s assms(2) [OF m(1)] by (auto simp: at_path_def at_def same_view_def same_path_def)
  then show "\<exists>x s'. on_err m fail k s = Some (x, s') \<and> Q x s'"
    using totalD [OF assms(1)] m(1) by (simp add: on_err_def bnd_def)
qed

lemma path_save_data: "calm env \<Longrightarrow> save_data env s = Some (x, s') \<Longrightarrow> x = None \<and> same_view s s' \<and> same_path s s'"
  using calm_save_data [of env s x s']
  by (auto simp: save_data_def bnd_Some_iff seqm_Some_iff same_path_def split: sum.splits)

lemma path_snapshot: "calm env \<Longrightarrow> snapshot env p op s = Some (x, s') \<Longrightarrow> x = None \<and> same_view s s' \<and> same_path s s'"
  using calm_snapshot [of env p op s x s']
  by (auto simp: snapshot_def observe_snapshot_def on_err_Some_iff seqm_Some_iff Let_def calm_observer
      call_snapshot_def same_path_def split: if_splits option.splits prod.splits)

section \<open>Branches\<close>

lemma plain_isDeferred: "plain e \<Longrightarrow> \<not> isDeferred e"
  by (simp add: plain_def)

text \<open>A branch that failed to decide reports it.\<close>

lemma total_branch_failed:
  assumes c: "calm env" and e: "plain e"
    and k: "k = defer_or_fail env p q (ErrStepFailed n q e) False None (fail_timed env p q None op (ErrStepFailed n q e))
      \<or> k = fail_untimed env p q None op (ErrStepFailed n q e)"
  shows "total (at v True) (seqm (recordError q e') k) (\<lambda>x m. x = Some (ErrStepFailed n q e) \<and> at v False m)"
proof -
  have dur: "total (at v True) (activeStepDuration env q) (\<lambda>_. at v True)"
    by (rule total_at [OF fine_activeStepDuration sv_records(4) [OF c]])
  have fin: "total (at v True) (seqm (bnd get_rs (\<lambda>st. ret ())) (fail (ErrStepFailed n q e)))
      (\<lambda>x m. x = Some (ErrStepFailed n q e) \<and> at v False m)"
    by (auto simp: total_def seqm_def bnd_def get_rs_def gets_def ret_def fail_def at_def has_maps_def)
  have timed: "total (at v True) (fail_timed env p q None op (ErrStepFailed n q e))
      (\<lambda>x m. x = Some (ErrStepFailed n q e) \<and> at v False m)"
    unfolding fail_timed_def observe_step_def calm_observe [OF c] by (rule total_bnd [OF dur]) (rule fin)
  have untimed: "total (at v True) (fail_untimed env p q None op (ErrStepFailed n q e))
      (\<lambda>x m. x = Some (ErrStepFailed n q e) \<and> at v False m)"
    unfolding fail_untimed_def observe_step_def calm_observe [OF c] by (rule fin)
  have "total (at v True) k (\<lambda>x m. x = Some (ErrStepFailed n q e) \<and> at v False m)"
    using k timed untimed by (auto simp: defer_or_fail_def plain_isDeferred [OF e])
  then show ?thesis
    by (rule total_seqm [OF total_at [OF fine_recordError sv_records(3) [OF c]]])
qed

text \<open>A branch that has decided: recorded as completed, the current path on the chosen path, then its steps.\<close>

lemma total_branch_enter:
  fixes xs :: "('v, 'w) completion list"
  assumes c: "calm env"
    and sub: "total (at_path (RunStatusRunning, map saga_completed (xs @ [(q, None)]), i, er, da, w) False (q @ [k]))
      (rec ss 0 (q @ [k])) (ran (xs @ [(q, None)]) i er (forward (q @ [k]) ss da w))"
  shows "total (at (RunStatusRunning, map saga_completed xs, i, er, da, w) True) (branch_enter env p rec q k ss)
    (ran (xs @ [(q, None)]) i er (forward (q @ [k]) ss da w))"
proof -
  let ?v = "(RunStatusRunning, map saga_completed (xs @ [(q, None)]), i, er, da, w)"
  have app: "total (at (RunStatusRunning, map saga_completed xs, i, er, da, w) True) (append_completed q False) (\<lambda>_. at ?v True)"
    using total_append [of RunStatusRunning "map saga_completed xs" i er da w True q False] by (simp add: saga_completed_def)
  have completed: "total (at ?v True) (recordCompleted env q) (\<lambda>_. at ?v True)"
    by (rule total_at [OF fine_recordCompleted sv_records(2) [OF c]])
  have weaken: "total (at ?v False) m Q \<Longrightarrow> total (at ?v True) m Q" for m :: "('v, 'w, err option) exec" and Q
    by (erule total_pre) (simp add: at_def has_maps_def)
  have ob: "total P k Q \<Longrightarrow> total P (seqm (observe_completed env p q None op) k) Q" for P op and k :: "('v, 'w, err option) exec" and Q
    unfolding observe_completed_def observe_step_def calm_observe [OF c]
    by (simp add: total_def seqm_def bnd_def get_rs_def gets_def ret_def)
  show ?thesis
  proof (cases "ss = []")
    case True
    have "total (at ?v False) (seqm (set_path q) (on_err (save_data env) fail
        (on_err (snapshot env p ''empty branch completion'') fail
        (seqm (observe_completed env p q None ''branch'') (ret None)))))
        (ran (xs @ [(q, None)]) i er (forward (q @ [k]) ss da w))"
      unfolding True
      by (rule total_seqm [OF total_at [OF fine_small(1) sv_prims(1)]], rule total_save [OF c], rule total_snap [OF c], rule ob)
        (simp add: total_def ret_def)
    then show ?thesis
      unfolding branch_enter_def if_P [OF True] by (intro total_seqm [OF app] total_seqm [OF completed] weaken)
  next
    case False
    have "total (at ?v False) (seqm (set_path (q @ [k])) (on_err (save_data env) fail
        (on_err (snapshot env p ''branch decision'') fail
        (seqm (observe_completed env p q None ''branch'') (rec ss 0 (q @ [k]))))))
        (ran (xs @ [(q, None)]) i er (forward (q @ [k]) ss da w))"
      by (rule total_seqm [OF total_set_path], rule total_keep_path [OF _ path_save_data [OF c] fine_save_data],
          rule total_keep_path [OF _ path_snapshot [OF c] fine_snapshot], rule ob, rule sub)
    then show ?thesis
      unfolding branch_enter_def if_not_P [OF False] by (intro total_seqm [OF app] total_seqm [OF completed] weaken)
  qed
qed

fun decided ::
    "('v, 'w) completion list \<Rightarrow> int \<Rightarrow> string \<Rightarrow> path \<Rightarrow> (err + string \<times> ('v, 'w) step list) \<times> 'v store \<times> 'w \<Rightarrow>
       err option \<Rightarrow> ('v, 'w) mach \<Rightarrow> bool" where
  "decided xs i er q (Inl e, da, w) x m \<longleftrightarrow>
     x = Some e \<and> at (RunStatusRunning, map saga_completed xs, i, er, da, w) False m"
| "decided xs i er q (Inr (k, ss), da, w) x m \<longleftrightarrow> ran (xs @ [(q, None)]) i er (forward (q @ [k]) ss da w) x m"

lemma decided_fun:
  "decided xs i er q (Inl e, da, w) = (\<lambda>x m. x = Some e \<and> at (RunStatusRunning, map saga_completed xs, i, er, da, w) False m)"
  "decided xs i er q (Inr (k, ss), da, w) = ran (xs @ [(q, None)]) i er (forward (q @ [k]) ss da w)"
  by (simp_all add: fun_eq_iff)

lemma total_executeBranch:
  assumes c: "calm env" and f: "Decide br = Some f" "\<And>d w k e r. f d w = ((k, Some e), r) \<Longrightarrow> plain e"
    and sub: "\<And>k ss da' w'. decide n br q da w = (Inr (k, ss), da', w') \<Longrightarrow>
      total (at_path (RunStatusRunning, map saga_completed (xs @ [(q, None)]), i, er, da', w') False (q @ [k]))
        (rec ss 0 (q @ [k])) (ran (xs @ [(q, None)]) i er (forward (q @ [k]) ss da' w'))"
  shows "total (at_path (RunStatusRunning, map saga_completed xs, i, er, da, w) False q)
    (executeBranch env p rec n br q False) (decided xs i er q (decide n br q da w))"
proof -
  let ?v = "\<lambda>da w. (RunStatusRunning, map saga_completed xs, i, er, da, w)"
  obtain k e da' w' where r: "f da w = ((k, e), da', w')" by (cases "f da w") auto
  have mark: "total (at (?v da w) False) (mark_attempt env p False q None) (\<lambda>_. at (?v da w) True)"
    by (rule total_at [OF fine_mark_attempt sv_records(1) [OF c]])
  let ?after = "\<lambda>(k, e). case e of
        Some de \<Rightarrow> seqm (recordError q de) (let stepErr = ErrStepFailed n q (errorf_wrap ''decide'' de) in
            defer_or_fail env p q stepErr False None (fail_timed env p q None ''branch decision'' stepErr))
      | None \<Rightarrow> (case map_of (Paths br) k of
            None \<Rightarrow> (let inner = errorf (''branch returned unknown path '' @ go_quote k
                   @ '' (available: '' @ show_strings (branchPathNames br) @ '')'')
                 in seqm (recordError q inner) (fail_untimed env p q None ''branch decision'' (ErrStepFailed n q inner)))
          | Some pathSteps \<Rightarrow> branch_enter env p rec q k pathSteps)"
  have after: "total (at (?v da' w') True) (?after (k, e)) (decided xs i er q (decide n br q da w))"
  proof (cases e)
    case (Some de)
    then have "plain (errorf_wrap ''decide'' de)" using f(2) r by (simp add: plain_errorf)
    then show ?thesis using r f(1) Some by (simp add: decide_def Let_def decided_fun total_branch_failed [OF c, where op = "''branch decision''" and p = p] del: decided.simps)
  next
    case None
    show ?thesis
    proof (cases "map_of (Paths br) k")
      case None
      then show ?thesis using r f(1) \<open>e = None\<close>
        by (simp add: decide_def Let_def decided_fun total_branch_failed [OF c, where op = "''branch decision''" and p = p] plain_errorf del: decided.simps)
    next
      case (Some ss)
      then have "decide n br q da w = (Inr (k, ss), da', w')" using r f(1) \<open>e = None\<close> by (simp add: decide_def)
      from total_branch_enter [where rec = rec and p = p, OF c sub [OF this]] this Some \<open>e = None\<close> show ?thesis by (simp add: decided_fun del: decided.simps)
    qed
  qed
  have "total (at (?v da w) True) (bnd (invoke (\<lambda>(c, e). DecideCalled q e) (Decide br)) ?after)
      (decided xs i er q (decide n br q da w))"
    unfolding f(1) by (rule total_bnd [OF total_invoke [where f = f, OF r]]) (use after in \<open>auto simp: total_def\<close>)
  then have "total (at (?v da w) False) (branch_decide env p rec n br q False) (decided xs i er q (decide n br q da w))"
    unfolding branch_decide_def by (rule total_seqm [OF mark])
  then show ?thesis
    by (auto simp: executeBranch_def total_def bnd_def get_rs_def gets_def at_path_def)
qed

section \<open>Step lists\<close>

text \<open>The step reached at a path has the compensator the journal records for it.\<close>

lemma undoable_action:
  assumes "stands_at p (q @ [StepName s]) s" "plain_step s" "StepAction s = Some act"
  shows "undoable p [(q @ [StepName s], Compensate act)]"
  using assms by (auto simp: undoable_def stands_at_def plain_step_def find_compensator_def)

lemma stands_at_branch:
  assumes "stands_at p q s" "StepBranch s = Some br" "map_of (Paths br) k = Some ss"
  shows "placed (stands_at p) ss (q @ [k])"
  using assms find_below_branch [of "PSteps p" q s br k ss] map_of_children [OF assms(2,3)]
  by (intro stands_at_child) (simp_all add: stands_at_def)

lemma executeStep_plain:
  assumes "plain_step s"
  shows "executeStep env p rec s q =
    (case StepAction s of
       Some act \<Rightarrow> executeAction env p (StepName s) (StepRetry s) act q False
     | None \<Rightarrow> executeBranch env p rec (StepName s) (the (StepBranch s)) q False)"
  using assms
  by (auto simp: plain_step_def executeStep_def repeat_entry_def dispatch_def on_err_def bnd_def ret_def
      split: option.splits)

text \<open>Induction along a step tree.\<close>

lemma tree_induct [case_names Nil Cons]:
  fixes steps :: "('v, 'w) step list"
  assumes "P []" and step: "\<And>s ss. P ss \<Longrightarrow> (\<And>sub. sub \<in> children s \<Longrightarrow> P sub) \<Longrightarrow> P (s # ss)"
  shows "P steps"
proof (induction steps rule: measure_induct_rule [where f = "size_list size"])
  case (less steps)
  show ?case
  proof (cases steps)
    case (Cons s ss)
    have "P sub" if "sub \<in> children s" for sub
      using size_child [of s steps sub] that Cons by (intro less) simp
    then show ?thesis using Cons less by (simp add: step)
  qed (simp add: assms(1))
qed

text \<open>The journal of what \<^const>\<open>forward\<close> completes can be undone.\<close>

lemma forward_undoable:
  assumes "forward q ss d w = (e, fin, d', w')" and "plain_tree ss" and "placed (stands_at p) ss q"
  shows "undoable p fin"
  using assms
proof (induction ss arbitrary: q d w e fin d' w' rule: tree_induct)
  case (Cons s ss)
  let ?here = "q @ [StepName s]"
  have tree: "plain_step s" "plain_tree ss" "\<And>sub. sub \<in> children s \<Longrightarrow> plain_tree sub"
    using plain_tree_Cons [OF Cons.prems(2)] by blast+
  have at: "stands_at p ?here s" "placed (stands_at p) ss q" using Cons.prems(3) by (simp_all add: placed_def)
  show ?case
  proof (cases "StepAction s")
    case (Some act)
    obtain r d1 w1 where t: "tries (nat (retry_attempts (StepRetry s))) (the (Do act)) d w = (r, d1, w1)"
      using prod_cases3 by blast
    obtain e2 fin2 d2 w2 where rest: "forward q ss d1 w1 = (e2, fin2, d2, w2)" using prod_cases4 by blast
    from Cons.prems(1) Cons.IH(1) [OF rest tree(2) at(2)] undoable_action [OF at(1) tree(1) Some] show ?thesis
      by (cases r) (auto simp: Some t rest followed_by_def undoable_Cons)
  next
    case None
    with tree(1) obtain br where br: "StepBranch s = Some br" by (auto simp: plain_step_def)
    obtain r d1 w1 where dec: "decide (StepName s) br ?here d w = (r, d1, w1)" using prod_cases3 by blast
    show ?thesis
    proof (cases r)
      case (Inl e1)
      with Cons.prems(1) show ?thesis by (simp add: None br dec)
    next
      case (Inr ksub)
      obtain k sub where ks: "ksub = (k, sub)" by (cases ksub)
      then have m: "map_of (Paths br) k = Some sub" using decide_sub dec Inr by simp
      note child = map_of_children [OF br m]
      obtain e2 fin2 d2 w2 where inner: "forward (?here @ [k]) sub d1 w1 = (e2, fin2, d2, w2)" using prod_cases4 by blast
      obtain e3 fin3 d3 w3 where rest: "forward q ss d2 w2 = (e3, fin3, d3, w3)" using prod_cases4 by blast
      from Cons.prems(1) Cons.IH(2) [OF child inner tree(3) [OF child] stands_at_branch [OF at(1) br m]]
        Cons.IH(1) [OF rest tree(2) at(2)]
      show ?thesis
        by (cases e2) (auto simp: None br dec Inr ks inner [simplified] rest followed_by_def undoable_Cons Let_def)
    qed
  qed
qed simp

text \<open>What remains of a scope after a step: nothing, when the step's nested steps ended the run.\<close>

definition after_step :: "('v, 'w, err option) exec \<Rightarrow> ('v, 'w, err option) exec" where
  "after_step k = bnd get_rs (\<lambda>st. if Status st \<noteq> RunStatusRunning then ret None else k)"

lemma total_after_step:
  "total (at (RunStatusRunning, css, i, er, da, w) False) k Q \<Longrightarrow>
     total (at (RunStatusRunning, css, i, er, da, w) False) (after_step k) Q"
  by (simp add: after_step_def total_def bnd_def get_rs_def gets_def at_def view_def)

text \<open>The end of the steps below a branch, and what its scope makes of it.\<close>

lemma total_after_ran:
  assumes c: "calm env" and r: "r = (e, fin, da, w)"
    and rest: "e = None \<Longrightarrow> total (at (RunStatusRunning, map saga_completed (xs @ fin), i, er, da, w) False) k
      (ran (xs @ fin) i er rest)"
    and m: "ran xs i er r x m"
  shows "\<exists>y m'. (case x of None \<Rightarrow> after_step k | Some e \<Rightarrow> handle_step_error env p q e) m = Some (y, m')
    \<and> ran xs i er (case e of None \<Rightarrow> followed_by fin rest | Some e' \<Rightarrow> (Some e', fin, da, w)) y m'"
proof (cases e)
  case None
  with m r have x: "x = None" "at (RunStatusRunning, map saga_completed (xs @ fin), i, er, da, w) False m" by simp_all
  from totalD [OF total_after_step [OF rest [OF None]] x(2)] x(1) None show ?thesis
    by (simp add: ran_followed_by)
next
  case (Some e')
  with m r have "undone (undo (rev (xs @ fin)) da w) (err_text e') (map saga_completed (xs @ fin)) x m" by simp
  from undone_passes [OF c this, of k p q] Some show ?thesis
    unfolding after_step_def by (cases x) (simp_all only: option.case ran.simps, blast+)
qed

lemma total_steps_loop:
  assumes c: "calm env" and tree: "plain_tree ss" and place: "placed (stands_at p) ss q"
    and u: "undoable p xs" and resume: "first \<longrightarrow> resumePath = q"
  shows "total (at (RunStatusRunning, map saga_completed xs, i, er, da, w) False)
    (steps_loop env p (executeSteps env p) q resumePath first ss) (ran xs i er (forward q ss da w))"
  using tree place u resume
proof (induction ss arbitrary: q resumePath first xs da w rule: tree_induct)
  case Nil
  show ?case by (simp add: total_def ret_def)
next
  case (Cons s ss)
  let ?here = "q @ [StepName s]"
  let ?at = "\<lambda>xs da w. at (RunStatusRunning, map saga_completed xs, i, er, da, w) False"
  let ?path = "\<lambda>xs da w. at_path (RunStatusRunning, map saga_completed xs, i, er, da, w) False"
  let ?rest = "after_step (steps_loop env p (executeSteps env p) q resumePath False ss)"
  let ?post = "ran xs i er (forward q (s # ss) da w)"
  have tree: "plain_step s" "plain_tree ss" "\<And>sub. sub \<in> children s \<Longrightarrow> plain_tree sub"
    using plain_tree_Cons [OF Cons.prems(1)] by blast+
  have here: "stands_at p ?here s" "placed (stands_at p) ss q" using Cons.prems(2) by (simp_all add: placed_def)
  have rest: "total (?at ys d1 w1) (steps_loop env p (executeSteps env p) q resumePath False ss) (ran ys i er (forward q ss d1 w1))"
    if "undoable p ys" for ys d1 w1
    by (rule Cons.IH(1) [OF tree(2) here(2) that]) simp
  have failed: "total (?at xs d1 w1) (handle_step_error env p ?here (ErrStepFailed n ?here e))
      (ran xs i er (Some (ErrStepFailed n ?here e), [], d1, w1))" if "plain e" for n e d1 w1
    using total_handle_step_error [OF c Cons.prems(3) that] by (simp add: ran_Some del: err_text.simps)
  have body: "total (?path xs da w ?here) (on_err (executeStep env p (executeSteps env p) s ?here) (handle_step_error env p ?here) ?rest) ?post"
  proof (cases "StepAction s")
    case (Some act)
    obtain f where f: "Do act = Some f" "\<And>d w e r. f d w = (Some e, r) \<Longrightarrow> plain e"
      using plain_action [OF tree(1) Some] by blast
    have nd: "\<not> isDeferred e" if "f d w = (Some e, r)" for d w e r using f(2) [OF that] by (rule plain_isDeferred)
    obtain r d1 w1 where t: "tries (nat (retry_attempts (StepRetry s))) f da w = (r, d1, w1)" using prod_cases3 by blast
    have step: "executeStep env p (executeSteps env p) s ?here = executeAction env p (StepName s) (StepRetry s) act ?here False"
      by (simp add: executeStep_plain [OF tree(1)] Some)
    show ?thesis
    proof (cases r)
      case None
      have post: "?post = ran (xs @ [(?here, Compensate act)]) i er (forward q ss d1 w1)"
        by (simp add: Some f(1) t None ran_followed_by)
      have "undoable p (xs @ [(?here, Compensate act)])"
        using Cons.prems(3) undoable_action [OF here(1) tree(1) Some] by simp
      then have k: "total (?at (xs @ [(?here, Compensate act)]) d1 w1) ?rest ?post"
        unfolding post by (intro total_after_step rest)
      have "total (?at xs da w) (executeAction env p (StepName s) (StepRetry s) act ?here False)
          (\<lambda>x m. x = None \<and> ?at (xs @ [(?here, Compensate act)]) d1 w1 m)"
        using executeAction_calm_ok [where rt = "StepRetry s" and n = "StepName s" and st = RunStatusRunning
            and css = "map saga_completed xs" and i = i and er = er and d = False and p = p and q = ?here and ar = False,
            OF c f(1) nd t [unfolded None]]
        by (simp add: saga_completed_def)
      then show ?thesis
        unfolding step by (intro total_from_path total_on_err_nil [OF _ k])
    next
      case (Some e)
      from tries_error [OF t [unfolded Some]] obtain d2 w2 r2 where "f d2 w2 = (Some e, r2)" by blast
      then have "plain e" by (rule f(2))
      have post: "?post = ran xs i er (Some (ErrStepFailed (StepName s) ?here e), [], d1, w1)"
        by (simp add: \<open>StepAction s = Some act\<close> f(1) t Some)
      have handled: "total (?at xs d1 w1) (handle_step_error env p ?here (ErrStepFailed (StepName s) ?here e))
          (ran xs i er (Some (ErrStepFailed (StepName s) ?here e), [], d1, w1))"
        by (rule failed [OF \<open>plain e\<close>])
      have "total (?at xs da w) (executeAction env p (StepName s) (StepRetry s) act ?here False)
          (\<lambda>x m. x = Some (ErrStepFailed (StepName s) ?here e) \<and> ?at xs d1 w1 m)"
        by (rule executeAction_calm_fail [where rt = "StepRetry s", OF c f(1) nd t [unfolded Some]])
      then show ?thesis
        unfolding step post using handled
        by (intro total_from_path) (fastforce simp: total_def on_err_def bnd_def simp del: err_text.simps ran.simps)
    qed
  next
    case None
    obtain br f where br: "StepBranch s = Some br" "Decide br = Some f"
        "\<And>d w k e r. f d w = ((k, Some e), r) \<Longrightarrow> plain e"
      using plain_branch [OF tree(1) None] by blast
    have step: "executeStep env p (executeSteps env p) s ?here = executeBranch env p (executeSteps env p) (StepName s) br ?here False"
      by (simp add: executeStep_plain [OF tree(1)] None br(1))
    let ?xs = "xs @ [(?here, None)]"
    have sub: "total (?path ?xs d1 w1 (?here @ [k])) (executeSteps env p sub 0 (?here @ [k]))
        (ran ?xs i er (forward (?here @ [k]) sub d1 w1))"
      if "decide (StepName s) br ?here da w = (Inr (k, sub), d1, w1)" for k sub d1 w1
    proof -
      note m = decide_sub [OF that]
      note child = map_of_children [OF br(1) m]
      have "total (?at ?xs d1 w1) (steps_loop env p (executeSteps env p) (?here @ [k]) (?here @ [k]) True sub)
          (ran ?xs i er (forward (?here @ [k]) sub d1 w1))"
        by (rule Cons.IH(2) [OF child tree(3) [OF child] stands_at_branch [OF here(1) br(1) m]])
          (use Cons.prems(3) in \<open>simp_all add: undoable_Cons\<close>)
      then show ?thesis
        by (subst executeSteps.simps) (auto simp: total_def bnd_def gets_def at_path_def)
    qed
    have run: "total (?path xs da w ?here) (executeStep env p (executeSteps env p) s ?here)
        (decided xs i er ?here (decide (StepName s) br ?here da w))"
      unfolding step by (rule total_executeBranch [OF c br(2)]) (erule br(3), erule sub)
    obtain r d1 w1 where dec: "decide (StepName s) br ?here da w = (r, d1, w1)" using prod_cases3 by blast
    show ?thesis
    proof (cases r)
      case (Inl e1)
      have "\<exists>e. e1 = ErrStepFailed (StepName s) ?here e \<and> plain e"
        by (rule decide_error [OF dec [unfolded Inl] br(2)]) (erule br(3))
      then obtain e where e: "e1 = ErrStepFailed (StepName s) ?here e" "plain e" by blast
      have "?post = ran xs i er (Some e1, [], d1, w1)" by (simp add: None br(1) dec Inl)
      moreover have "total (?at xs d1 w1) (handle_step_error env p ?here (ErrStepFailed (StepName s) ?here e))
          (ran xs i er (Some (ErrStepFailed (StepName s) ?here e), [], d1, w1))"
        by (rule failed [OF e(2)])
      ultimately show ?thesis using run
        unfolding dec Inl decided_fun e(1) by (fastforce simp: total_def on_err_def bnd_def simp del: err_text.simps ran.simps)
    next
      case (Inr ks)
      obtain k sub where ks: "ks = (k, sub)" by (cases ks)
      note dec = dec [unfolded Inr ks]
      obtain e2 fin d2 w2 where inner: "forward (?here @ [k]) sub d1 w1 = (e2, fin, d2, w2)" using prod_cases4 by blast
      note m = decide_sub [OF dec]
      note child = map_of_children [OF br(1) m]
      have fin: "undoable p (?xs @ fin)"
        using Cons.prems(3) forward_undoable [OF inner tree(3) [OF child] stands_at_branch [OF here(1) br(1) m]]
        by (simp add: undoable_Cons)
      have post: "?post = ran ?xs i er (case e2 of None \<Rightarrow> followed_by fin (forward q ss d2 w2) | Some e' \<Rightarrow> (Some e', fin, d2, w2))"
        using inner by (cases e2) (simp_all add: None br(1) dec Let_def ran_followed_by fun_eq_iff)
      show ?thesis
        unfolding post on_err_def
        by (rule total_bnd [OF run [unfolded dec decided_fun inner]])
          (auto simp: total_def intro!: total_after_ran [OF c refl] rest [OF fin])
    qed
  qed
  have skip: "(first \<and> ?here = resumePath \<and> b) = False" for b using Cons.prems(4) by auto
  have path: "(if first \<and> isPathPrefix ?here resumePath then resumePath else ?here) = ?here"
    using Cons.prems(4) by auto
  have here_get: "total P k Q \<Longrightarrow> total P (bnd get_rs (\<lambda>_. k)) Q" for P Q and k :: "('v, 'w, err option) exec"
    by (simp add: total_def bnd_def get_rs_def gets_def)
  have "total (?at xs da w) (on_err (ctx_err env) (\<lambda>ce. seqm (save_data_unchecked env) (cancel_at env p ?here ce))
      (seqm (set_path ?here) (on_err (executeStep env p (executeSteps env p) s ?here) (handle_step_error env p ?here) ?rest))) ?post"
    by (rule total_ctx [OF c], rule total_seqm [OF total_set_path], rule body)
  then show ?case
    unfolding steps_loop.simps Let_def path skip if_False after_step_def by (rule here_get)
qed

section \<open>Refinement\<close>

fun ended_as :: "('v, 'w) saga_result \<Rightarrow> err option \<Rightarrow> ('v, 'w) mach \<Rightarrow> bool" where
  "ended_as (Finished d w) r m \<longleftrightarrow>
     r = None \<and> Status (rs m) = RunStatusCompleted \<and> store m = d \<and> world m = w"
| "ended_as (RolledBack e d w) r m \<longleftrightarrow>
     r = None \<and> Status (rs m) = RunStatusFailed \<and> Error (rs m) = err_text e \<and> store m = d \<and> world m = w"
| "ended_as (Stuck e q c d w) r m \<longleftrightarrow>
     r = Some (ErrCompensationFailed (errorf (err_text e)) (errorf_wrap (''step '' @ go_quote (last q)) c))
     \<and> Status (rs m) = RunStatusCompensating \<and> Error (rs m) = err_text e \<and> store m = d \<and> world m = w"

lemma ran_ended:
  assumes "ran [] i er (forward [] steps d w) x m" and "calm env"
  shows "\<exists>y m'. (case x of Some e \<Rightarrow> fail e | None \<Rightarrow> complete_run env p) m = Some (y, m')
    \<and> ended_as (saga steps d w) y m'"
proof -
  obtain e fin d' w' where f: "forward [] steps d w = (e, fin, d', w')" by (cases "forward [] steps d w") auto
  show ?thesis
  proof (cases e)
    case None
    have sv: "keeps same_view (save_data_unchecked env)" by (rule sv_prims)
    have "total (at (RunStatusRunning, map saga_completed fin, i, er, d', w') False)
        (seqm (set_status RunStatusCompleted) (seqm (save_data_unchecked env)
          (on_err (snapshot env p ''pipeline completion'') fail
            (seqm (observe env p (Ev EventPipelineCompleted [] 0 None 0 ''run'' None)) (ret None)))))
        (\<lambda>y m'. y = None \<and> at (RunStatusCompleted, map saga_completed fin, i, er, d', w') False m')"
      by (rule total_seqm [OF total_set_status], rule total_seqm [OF total_at [OF fine_save_data_unchecked sv]],
          rule total_snap [OF assms(2)], rule total_observe [OF assms(2)], rule total_at_ret) simp
    with assms(1) show ?thesis
      by (fastforce simp: f None total_def complete_run_def bnd_def get_rs_def gets_def at_def view_def saga_def)
  next
    case (Some se)
    obtain u d'' w'' where u: "undo (rev fin) d' w' = (u, d'', w'')" by (cases "undo (rev fin) d' w'") auto
    show ?thesis
      using assms(1)
      by (cases u)
        (auto simp: f Some u saga_def complete_run_def bnd_def get_rs_def gets_def at_def view_def ret_def
          fail_def simp del: err_text.simps)
  qed
qed

lemma total_run_steps:
  assumes c: "calm env" and tree: "plain_tree (PSteps p)" and place: "placed (stands_at p) (PSteps p) []"
    and m: "at (st, [], i, er, d, w) False m" "CurrentPath (rs m) = []"
  shows "\<exists>y m'. run_steps env p m = Some (y, m') \<and> ended_as (saga (PSteps p) d w) y m'"
proof -
  let ?at = "\<lambda>st. at (st, [], i, er, d, w) False"
  let ?path = "\<lambda>st. at_path (st, [], i, er, d, w) False []"
  have loop: "total (?path RunStatusRunning) (executeSteps env p (PSteps p) 0 []) (ran [] i er (forward [] (PSteps p) d w))"
    using total_steps_loop [OF c tree place, of "[]" True "[]" i er d w]
    by (subst executeSteps.simps) (simp add: total_def bnd_def gets_def at_path_def)
  have status: "total (?path st) (set_status RunStatusRunning) (\<lambda>_. ?path RunStatusRunning)"
    by (auto simp: total_def set_status_def upd_rs_def upd_def at_path_def at_def view_def has_maps_def)
  have saved: "total (?path st') (save_data_unchecked env) (\<lambda>_. ?path st')" for st'
    by (auto simp: total_def save_data_unchecked_def bnd_def gets_def upd_rs_def upd_def at_path_def at_def view_def has_maps_def)
  have "total (?path st) (seqm (set_status RunStatusRunning) (seqm (save_data_unchecked env)
      (on_err (snapshot env p op) fail (on_err (executeSteps env p (PSteps p) 0 []) fail (complete_run env p)))))
      (ended_as (saga (PSteps p) d w))" for op
    unfolding on_err_def [of "executeSteps env p (PSteps p) 0 []"]
    by (rule total_seqm [OF status], rule total_seqm [OF saved],
        rule total_keep_path [OF _ path_snapshot [OF c] fine_snapshot], rule total_bnd [OF loop])
      (simp add: total_def ran_ended [OF _ c])
  then show ?thesis
    using m by (simp add: run_steps_def bnd_def get_rs_def gets_def findTopLevelIndex_def total_def at_path_def)
qed

lemma Run_start:
  assumes c: "calm env" and v: "validate p = None"
  shows "Run env p zero_run_state w = run_steps env p (init_mach (zero_run_state\<lparr>Version := PVersion p\<rparr>) w)"
proof -
  have "run_body env p m = run_steps env p (m\<lparr>rs := (rs m)\<lparr>Version := PVersion p\<rparr>, store := newDataStore\<rparr>)"
    if "rs m = zero_run_state" for m
    using that
    by (simp add: run_body_def v calm_observe [OF c] on_err_def bnd_def seqm_def ret_def get_rs_def gets_def
        calm_ctx_err [OF c] IsTerminal_def zero_run_state_def admit_def upd_rs_def upd_def run_admitted_def
        restore_store_def)
  then show ?thesis by (simp add: Run_def init_mach_def)
qed

text \<open>C1. A validated pipeline of actions and branches, nested to any depth, refines the saga: on a new state
  and when nothing interrupts it, \<open>Run\<close> calls the actions in order with their attempts, takes the paths the
  branches decide for, and after a failure, wherever it is, calls the compensators of all completed actions
  in reverse order, with the store and the world the saga leaves; it completes, ends as failed without an
  error when every compensator succeeded, or returns the compensation error and stays compensating.\<close>

theorem Run_refines_saga:
  assumes "calm env" and "validate p = None" and "plain_tree (PSteps p)"
  shows "\<exists>r m. Run env p zero_run_state w = Some (r, m) \<and> ended_as (saga (PSteps p) newDataStore w) r m"
proof -
  let ?m = "init_mach (zero_run_state\<lparr>Version := PVersion p\<rparr>) w"
  have "at (RunStatusNew, [], 0, '''', newDataStore, w) False ?m" "CurrentPath (rs ?m) = []"
    by (simp_all add: at_def view_def has_maps_def init_mach_def zero_run_state_def)
  from total_run_steps [OF assms(1,3) validated_placed [OF assms(2)] this]
  show ?thesis unfolding Run_start [OF assms(1,2)] by blast
qed

text \<open>An order that is shipped on one of two routes; the chosen carrier is tried twice and gives up.\<close>

definition calm_env :: "(string, nat) env" where
  "calm_env = good_env\<lparr>casSnapshotFn := Some (\<lambda>_ _ w. (None, w)), clockNow := \<lambda>w. (int w * Second, w),
     clockSleep := \<lambda>_ w. (None, w)\<rparr>"

definition order_steps :: "(string, nat) step list" where
  "order_steps =
     [Action ''reserve'' (Some (\<lambda>d w. (None, ds_Set ''reservation'' (GoVal ''r1'') d, Suc w)))
        [WithCompensate (Some (\<lambda>d w. (None, d, w + 10)))],
      Branch ''route'' (Some (\<lambda>d w. ((''fast'', None), d, Suc w)))
        [(''slow'', []),
         (''fast'', [Action ''book'' (Some (\<lambda>d w. (None, d, Suc w))) [WithCompensate (Some (\<lambda>d w. (None, d, w * 2)))],
                     Action ''ship'' (Some (\<lambda>d w. (Some (ErrNew ''no truck''), d, Suc w))) [WithRetry 2 1 False]])] []]"

lemma order_saga:
  "saga order_steps newDataStore 0 =
     RolledBack (ErrStepFailed ''ship'' [''route'', ''fast'', ''ship''] (ErrNew ''no truck''))
       (ds_Set ''reservation'' (GoVal ''r1'') newDataStore) (20 :: nat)"
  by (simp add: saga_def order_steps_def Action_def Branch_def apply_opts_def decide_def followed_by_def retry_attempts_def
      numeral_eq_Suc)

lemma order_plain: "plain_tree order_steps"
proof (rule plain_tree.intros)
  have e: "plain (ErrNew ''no truck'')"
    by (simp add: plain_def is_snapshot_failed_def isDeferred_iff as_type_def errors_is_iff)
  have leaf: "plain_tree sub" if "\<And>s. s \<in> set sub \<Longrightarrow> plain_step s \<and> children s = {}" for sub :: "(string, nat) step list"
    by (rule plain_tree.intros) (use that in fastforce)+
  show "plain_step s" if "s \<in> set order_steps" for s
    using that by (auto simp: order_steps_def Action_def Branch_def apply_opts_def plain_step_def)
  show "plain_tree sub" if "s \<in> set order_steps" "sub \<in> children s" for s sub
    using that e
    by (auto simp: order_steps_def Action_def Branch_def apply_opts_def children_def plain_step_def intro!: leaf)
qed

lemma Run_refines_saga_witness:
  "\<exists>r m. Run calm_env (mk_pipeline order_steps) zero_run_state 0 = Some (r, m)
      \<and> r = None \<and> Status (rs m) = RunStatusFailed \<and> world m = 20"
proof -
  have "calm calm_env" by (simp add: calm_def calm_env_def good_env_def sample_env_def)
  moreover have "validate (mk_pipeline order_steps) = None" by code_simp
  moreover have "plain_tree (PSteps (mk_pipeline order_steps))" using order_plain by (simp add: mk_pipeline_def)
  ultimately show ?thesis
    using Run_refines_saga [of calm_env "mk_pipeline order_steps" 0] order_saga by (auto simp: mk_pipeline_def)
qed

end
