(* ===== verification/Pipeline_Clone.thy ===== *)
theory Pipeline_Clone
  imports Pipeline_State
begin

text \<open>
  \<open>cloneRunState\<close> (\<open>pipeline/migration.go\<close>) on an explicit heap. Everywhere else the run state is a value;
  here its slices, maps and pointers are addresses, as the copy is made so that a migrator cannot reach
  the caller's state through them. The theorem says that it cannot.
\<close>

section \<open>The heap\<close>

type_synonym ptr = "nat option"

text \<open>What slices of strings and bytes and the pointers to times and to the timeout refer to. Strings are
  immutable and hold no addresses.\<close>

datatype leaf = LStrings "string list" | LBytes string | LTime int | LTimeout repeat_timeout_state

record step_cell =
  CPath :: ptr
  CHasCompensator :: bool

record diag_cell =
  CAttempts :: int
  CFirstStartedAt :: ptr
  CLastStartedAt :: ptr
  CCompletedAt :: ptr
  CLastError :: string
  CNextRunAt :: ptr

record repeat_cell =
  CIteration :: int
  CAwaitingCondition :: bool
  CCompleted :: bool
  CStartedAt :: ptr

text \<open>Objects: leaves, the array of completed steps, and the three maps with their entries in iteration order.\<close>

datatype obj =
    OLeaf leaf
  | OSteps "step_cell list"
  | OData "(string \<times> ptr) list"
  | ODiagnostics "(string \<times> diag_cell) list"
  | ORepeats "(string \<times> repeat_cell) list"

type_synonym heap = "obj list"

record state_cell =
  CVersion :: int
  CStatus :: run_status
  CCurrentPath :: ptr
  CCompletedSteps :: ptr
  CData :: ptr
  CError :: string
  CFailedStepPath :: ptr
  CErrorContext :: ptr
  CPollStartedAt :: ptr
  CCompensationIndex :: int
  CRevision :: "64 word"
  CStepDiagnostics :: ptr
  CRepeatStates :: ptr
  CRepeatTimeout :: ptr

section \<open>cloneRunState\<close>

text \<open>\<open>slices.Clone\<close>, \<open>cloneTime\<close> and the copy of the timeout: nil stays nil, anything else gets a cell of its
  own.\<close>

definition clone_leaf :: "ptr \<Rightarrow> heap \<Rightarrow> ptr \<times> heap" where
  "clone_leaf p h =
     (case p of None \<Rightarrow> (None, h)
      | Some a \<Rightarrow> (case h ! a of OLeaf l \<Rightarrow> (Some (length h), h @ [OLeaf l]) | _ \<Rightarrow> (None, h)))"

fun each :: "('x \<Rightarrow> heap \<Rightarrow> 'x \<times> heap) \<Rightarrow> 'x list \<Rightarrow> heap \<Rightarrow> 'x list \<times> heap" where
  "each f [] h = ([], h)"
| "each f (x # xs) h = (let (y, h1) = f x h; (ys, h2) = each f xs h1 in (y # ys, h2))"

definition clone_step :: "step_cell \<Rightarrow> heap \<Rightarrow> step_cell \<times> heap" where
  "clone_step c h = (let (p, h1) = clone_leaf (CPath c) h in (c\<lparr>CPath := p\<rparr>, h1))"

definition clone_entry :: "string \<times> ptr \<Rightarrow> heap \<Rightarrow> (string \<times> ptr) \<times> heap" where
  "clone_entry e h = (let (p, h1) = clone_leaf (snd e) h in ((fst e, p), h1))"

definition clone_diagnostic :: "string \<times> diag_cell \<Rightarrow> heap \<Rightarrow> (string \<times> diag_cell) \<times> heap" where
  "clone_diagnostic e h =
     (let d = snd e;
          (p1, h1) = clone_leaf (CFirstStartedAt d) h;
          (p2, h2) = clone_leaf (CLastStartedAt d) h1;
          (p3, h3) = clone_leaf (CCompletedAt d) h2;
          (p4, h4) = clone_leaf (CNextRunAt d) h3
      in ((fst e, d\<lparr>CFirstStartedAt := p1, CLastStartedAt := p2, CCompletedAt := p3, CNextRunAt := p4\<rparr>), h4))"

definition clone_repeat :: "string \<times> repeat_cell \<Rightarrow> heap \<Rightarrow> (string \<times> repeat_cell) \<times> heap" where
  "clone_repeat e h = (let (p, h1) = clone_leaf (CStartedAt (snd e)) h in ((fst e, (snd e)\<lparr>CStartedAt := p\<rparr>), h1))"

text \<open>A container is copied entry by entry; \<open>make\<close> for the completed steps is not nil even when the
  original is.\<close>

definition clone_box :: "('x list \<Rightarrow> obj) \<Rightarrow> (obj \<Rightarrow> 'x list option) \<Rightarrow> ('x \<Rightarrow> heap \<Rightarrow> 'x \<times> heap) \<Rightarrow> ptr \<Rightarrow> heap \<Rightarrow> ptr \<times> heap" where
  "clone_box put get f p h =
     (case p of None \<Rightarrow> (None, h)
      | Some a \<Rightarrow>
          (case get (h ! a) of
             None \<Rightarrow> (None, h)
           | Some xs \<Rightarrow> (let (ys, h1) = each f xs h in (Some (length h1), h1 @ [put ys]))))"

fun get_steps :: "obj \<Rightarrow> step_cell list option" where "get_steps (OSteps xs) = Some xs" | "get_steps _ = None"
fun get_data :: "obj \<Rightarrow> (string \<times> ptr) list option" where "get_data (OData xs) = Some xs" | "get_data _ = None"
fun get_diagnostics :: "obj \<Rightarrow> (string \<times> diag_cell) list option" where
  "get_diagnostics (ODiagnostics xs) = Some xs" | "get_diagnostics _ = None"
fun get_repeats :: "obj \<Rightarrow> (string \<times> repeat_cell) list option" where
  "get_repeats (ORepeats xs) = Some xs" | "get_repeats _ = None"

definition clone_steps :: "ptr \<Rightarrow> heap \<Rightarrow> ptr \<times> heap" where
  "clone_steps p h =
     (case clone_box OSteps get_steps clone_step p h of
        (None, h1) \<Rightarrow> (Some (length h1), h1 @ [OSteps []])
      | r \<Rightarrow> r)"

definition cloneRunState :: "state_cell \<Rightarrow> heap \<Rightarrow> state_cell \<times> heap" where
  "cloneRunState s h =
     (let (p1, h1) = clone_leaf (CCurrentPath s) h;
          (p2, h2) = clone_leaf (CFailedStepPath s) h1;
          (p3, h3) = clone_leaf (CErrorContext s) h2;
          (p4, h4) = clone_leaf (CPollStartedAt s) h3;
          (p5, h5) = clone_leaf (CRepeatTimeout s) h4;
          (p6, h6) = clone_steps (CCompletedSteps s) h5;
          (p7, h7) = clone_box OData get_data clone_entry (CData s) h6;
          (p8, h8) = clone_box ODiagnostics get_diagnostics clone_diagnostic (CStepDiagnostics s) h7;
          (p9, h9) = clone_box ORepeats get_repeats clone_repeat (CRepeatStates s) h8
      in (s\<lparr>CCurrentPath := p1, CFailedStepPath := p2, CErrorContext := p3, CPollStartedAt := p4, CRepeatTimeout := p5,
            CCompletedSteps := p6, CData := p7, CStepDiagnostics := p8, CRepeatStates := p9\<rparr>, h9))"

section \<open>Copiers\<close>

text \<open>What a copy operation promises, for a reading \<open>rd\<close> of a value in a heap and the addresses \<open>rch\<close> the
  reading goes through: it only adds cells, the copy reads as the original did, and all its addresses
  are new. A reading depends on its addresses only.\<close>

definition agree :: "heap \<Rightarrow> heap \<Rightarrow> nat set \<Rightarrow> bool" where
  "agree h h' A \<longleftrightarrow> (\<forall>a \<in> A. a < length h \<and> a < length h' \<and> h' ! a = h ! a)"

locale copier =
  fixes f :: "'x \<Rightarrow> heap \<Rightarrow> 'x \<times> heap"
    and rd :: "heap \<Rightarrow> 'x \<Rightarrow> 'v"
    and rch :: "heap \<Rightarrow> 'x \<Rightarrow> nat set"
  assumes framed: "agree h h' (rch h x) \<Longrightarrow> rd h' x = rd h x \<and> rch h' x = rch h x"
    and copies: "rch h x \<subseteq> {..<length h} \<Longrightarrow> f x h = (y, h') \<Longrightarrow>
      (\<exists>t. h' = h @ t) \<and> rd h' y = rd h x \<and> rch h' y \<subseteq> {length h ..< length h'}"

lemma agree_append: "A \<subseteq> {..<length h} \<Longrightarrow> agree h (h @ t) A"
  by (auto simp: agree_def nth_append)

lemma agree_subset: "agree h h' A \<Longrightarrow> B \<subseteq> A \<Longrightarrow> agree h h' B"
  by (auto simp: agree_def)

lemma framedD: "copier f rd rch \<Longrightarrow> agree h h' (rch h x) \<Longrightarrow> rd h' x = rd h x \<and> rch h' x = rch h x"
  by (rule copier.framed)

lemma copiesE:
  assumes "copier f rd rch" and "f x h = (y, h')" and "rch h x \<subseteq> {..<length h}"
  obtains t where "h' = h @ t" "rd h' y = rd h x" "rch h' y \<subseteq> {length h ..< length h'}"
  using copier.copies [OF assms(1,3,2)] by blast

text \<open>One copy after another: the first copy and the second original are not disturbed by the other's cells.\<close>

lemma copier_pair:
  assumes f: "copier f rf cf" and g: "copier g rg cg"
  shows "copier (\<lambda>(x, z) h. let (y, h1) = f x h; (u, h2) = g z h1 in ((y, u), h2))
    (\<lambda>h (x, z). (rf h x, rg h z)) (\<lambda>h (x, z). cf h x \<union> cg h z)" (is "copier ?f ?r ?c")
proof
  fix h h' :: heap and p :: "'a \<times> 'c"
  assume "agree h h' (?c h p)"
  then show "?r h' p = ?r h p \<and> ?c h' p = ?c h p"
    using framedD [OF f, of h h' "fst p"] framedD [OF g, of h h' "snd p"]
    by (auto simp: case_prod_beta dest: agree_subset [where B = "cf h (fst p)"] agree_subset [where B = "cg h (snd p)"])
next
  fix h h' :: heap and p q :: "'a \<times> 'c"
  assume in_h: "?c h p \<subseteq> {..<length h}" and run: "?f p h = (q, h')"
  obtain y h1 u where y: "f (fst p) h = (y, h1)" and u: "g (snd p) h1 = (u, h')" and q: "q = (y, u)"
    using run by (auto simp: case_prod_beta Let_def prod_eq_iff)
  from in_h have in1: "cf h (fst p) \<subseteq> {..<length h}" and in2: "cg h (snd p) \<subseteq> {..<length h}"
    by (auto simp: case_prod_beta)
  obtain t1 where t1: "h1 = h @ t1" "rf h1 y = rf h (fst p)" "cf h1 y \<subseteq> {length h ..< length h1}"
    by (rule copiesE [OF f y in1])
  have g1: "rg h1 (snd p) = rg h (snd p)" "cg h1 (snd p) = cg h (snd p)"
    using framedD [OF g agree_append [OF in2, of t1]] t1(1) by auto
  have "cg h1 (snd p) \<subseteq> {..<length h1}" using in2 g1(2) t1(1) by auto
  then obtain t2 where t2: "h' = h1 @ t2" "rg h' u = rg h1 (snd p)" "cg h' u \<subseteq> {length h1 ..< length h'}"
    by (rule copiesE [OF g u])
  have "agree h1 h' (cf h1 y)" unfolding t2(1) using t1(3) by (intro agree_append) auto
  from framedD [OF f this] have "rf h' y = rf h (fst p)" "cf h' y \<subseteq> {length h ..< length h1}"
    using t1 by auto
  with t1(1) t2 g1 show "(\<exists>t. h' = h @ t) \<and> ?r h' q = ?r h p \<and> ?c h' q \<subseteq> {length h ..< length h'}"
    by (auto simp: q case_prod_beta)
qed

text \<open>A copy of a record whose addresses are those of a part of it.\<close>

lemma copier_part:
  assumes f: "copier f rd rch" and "\<And>x y. part (put x y) = y" and "\<And>x y v. view (put x y) v = view x v"
  shows "copier (\<lambda>x h. let (y, h1) = f (part x) h in (put x y, h1)) (\<lambda>h x. view x (rd h (part x))) (\<lambda>h x. rch h (part x))"
    (is "copier ?f ?r ?c")
proof
  show "agree h h' (?c h x) \<Longrightarrow> ?r h' x = ?r h x \<and> ?c h' x = ?c h x" for h h' x
    using framedD [OF f, of h h' "part x"] by auto
next
  fix h h' x q
  assume in_h: "?c h x \<subseteq> {..<length h}" and run: "?f x h = (q, h')"
  then obtain y where y: "f (part x) h = (y, h')" "q = put x y" by (auto simp: Let_def split: prod.splits)
  obtain t where "h' = h @ t" "rd h' y = rd h (part x)" "rch h' y \<subseteq> {length h ..< length h'}"
    by (rule copiesE [OF f y(1) in_h])
  then show "(\<exists>t. h' = h @ t) \<and> ?r h' q = ?r h x \<and> ?c h' q \<subseteq> {length h ..< length h'}"
    using assms(2,3) y(2) by auto
qed

lemma copier_each:
  assumes "copier f rd rch"
  shows "copier (each f) (\<lambda>h. map (rd h)) (\<lambda>h xs. \<Union>x \<in> set xs. rch h x)" (is "copier _ ?r ?c")
proof -
  have frame: "agree h h' (?c h xs) \<Longrightarrow> ?r h' xs = ?r h xs \<and> ?c h' xs = ?c h xs" for h h' xs
  proof (induction xs)
    case (Cons x xs)
    then show ?case
      using framedD [OF assms, of h h' x] by (auto simp: agree_def)
  qed simp
  have "?c h xs \<subseteq> {..<length h} \<Longrightarrow> each f xs h = (ys, h') \<Longrightarrow>
    (\<exists>t. h' = h @ t) \<and> ?r h' ys = ?r h xs \<and> ?c h' ys \<subseteq> {length h ..< length h'}" for h h' xs ys
  proof (induction xs arbitrary: h ys)
    case (Cons x xs)
    then obtain y h1 us where y: "f x h = (y, h1)" and us: "each f xs h1 = (us, h')" and ys: "ys = y # us"
      by (auto simp: Let_def split: prod.splits)
    have in1: "rch h x \<subseteq> {..<length h}" and in2: "?c h xs \<subseteq> {..<length h}" using Cons.prems(1) by auto
    obtain t1 where t1: "h1 = h @ t1" "rd h1 y = rd h x" "rch h1 y \<subseteq> {length h ..< length h1}"
      by (rule copiesE [OF assms y in1])
    have g1: "?r h1 xs = ?r h xs" "?c h1 xs = ?c h xs"
      using frame [OF agree_append [OF in2, of t1]] t1(1) by auto
    have "?c h1 xs \<subseteq> {..<length h1}" using in2 g1(2) t1(1) by auto
    from Cons.IH [OF this us] obtain t2 where t2: "h' = h1 @ t2" "?r h' us = ?r h1 xs" "?c h' us \<subseteq> {length h1 ..< length h'}"
      by blast
    have "agree h1 h' (rch h1 y)" unfolding t2(1) using t1(3) by (intro agree_append) auto
    from framedD [OF assms this] have "rd h' y = rd h x" "rch h' y \<subseteq> {length h ..< length h1}" using t1 by auto
    with t1(1) t2 g1 show ?case by (auto simp: ys)
  qed simp
  with frame show ?thesis by unfold_locales
qed

section \<open>The copies are copies\<close>

definition leaf_of :: "heap \<Rightarrow> ptr \<Rightarrow> leaf option" where
  "leaf_of h p = (case p of None \<Rightarrow> None | Some a \<Rightarrow> (case h ! a of OLeaf l \<Rightarrow> Some l | _ \<Rightarrow> None))"

definition ptr_at :: "ptr \<Rightarrow> nat set" where
  "ptr_at p = (case p of None \<Rightarrow> {} | Some a \<Rightarrow> {a})"

lemma copier_leaf: "copier clone_leaf leaf_of (\<lambda>h. ptr_at)"
proof
  show "agree h h' (ptr_at p) \<Longrightarrow> leaf_of h' p = leaf_of h p \<and> ptr_at p = ptr_at p" for h h' p
    by (auto simp: agree_def ptr_at_def leaf_of_def split: option.splits)
next
  show "ptr_at p \<subseteq> {..<length h} \<Longrightarrow> clone_leaf p h = (q, h') \<Longrightarrow>
    (\<exists>t. h' = h @ t) \<and> leaf_of h' q = leaf_of h p \<and> ptr_at q \<subseteq> {length h ..< length h'}" for p h q h'
    by (auto simp: clone_leaf_def leaf_of_def ptr_at_def split: option.splits obj.splits)
qed

definition box_of :: "(obj \<Rightarrow> 'x list option) \<Rightarrow> (heap \<Rightarrow> 'x \<Rightarrow> 'v) \<Rightarrow> heap \<Rightarrow> ptr \<Rightarrow> 'v list option" where
  "box_of get rd h p = (case p of None \<Rightarrow> None | Some a \<Rightarrow> map_option (map (rd h)) (get (h ! a)))"

definition box_at :: "(obj \<Rightarrow> 'x list option) \<Rightarrow> (heap \<Rightarrow> 'x \<Rightarrow> nat set) \<Rightarrow> heap \<Rightarrow> ptr \<Rightarrow> nat set" where
  "box_at get rch h p =
     (case p of None \<Rightarrow> {}
      | Some a \<Rightarrow> insert a (case get (h ! a) of None \<Rightarrow> {} | Some xs \<Rightarrow> \<Union>x \<in> set xs. rch h x))"

lemma copier_box:
  assumes f: "copier f rd rch" and get: "\<And>xs. get (put xs) = Some xs"
  shows "copier (clone_box put get f) (box_of get rd) (box_at get rch)"
proof
  fix h h' :: heap and p
  assume agr: "agree h h' (box_at get rch h p)"
  show "box_of get rd h' p = box_of get rd h p \<and> box_at get rch h' p = box_at get rch h p"
  proof (cases p)
    case (Some a)
    with agr have same: "h' ! a = h ! a" by (auto simp: agree_def box_at_def)
    show ?thesis
    proof (cases "get (h ! a)")
      case (Some xs)
      with agr \<open>p = Some a\<close> have "agree h h' (\<Union>x \<in> set xs. rch h x)"
        by (auto simp: agree_def box_at_def)
      from framedD [OF copier_each [OF f] this] show ?thesis
        using Some \<open>p = Some a\<close> same by (simp add: box_of_def box_at_def)
    qed (use \<open>p = Some a\<close> same in \<open>simp add: box_of_def box_at_def\<close>)
  qed (simp add: box_of_def box_at_def)
next
  fix h h' :: heap and p q
  assume in_h: "box_at get rch h p \<subseteq> {..<length h}" and run: "clone_box put get f p h = (q, h')"
  show "(\<exists>t. h' = h @ t) \<and> box_of get rd h' q = box_of get rd h p \<and> box_at get rch h' q \<subseteq> {length h ..< length h'}"
  proof (cases "case p of None \<Rightarrow> None | Some a \<Rightarrow> get (h ! a)")
    case None
    with run show ?thesis by (auto simp: clone_box_def box_of_def box_at_def split: option.splits)
  next
    case (Some xs)
    then obtain a where a: "p = Some a" "get (h ! a) = Some xs" by (auto split: option.splits)
    with run obtain ys h1 where ys: "each f xs h = (ys, h1)" and h': "h' = h1 @ [put ys]" "q = Some (length h1)"
      by (auto simp: clone_box_def Let_def split: prod.splits)
    from in_h a have "(\<Union>x \<in> set xs. rch h x) \<subseteq> {..<length h}" by (auto simp: box_at_def)
    then obtain t where t: "h1 = h @ t" "map (rd h1) ys = map (rd h) xs" "(\<Union>y \<in> set ys. rch h1 y) \<subseteq> {length h ..< length h1}"
      by (rule copiesE [OF copier_each [OF f] ys])
    have "agree h1 h' (\<Union>y \<in> set ys. rch h1 y)" unfolding h'(1) using t(3) by (intro agree_append) auto
    note same = framedD [OF copier_each [OF f] this]
    have "map (rd h') ys = map (rd h) xs" by (rule trans [OF same [THEN conjunct1] t(2)])
    moreover have "(\<Union>y \<in> set ys. rch h' y) \<subseteq> {length h ..< length h1}"
      using same [THEN conjunct2] t(3) by simp
    ultimately show ?thesis using a h' t(1) get by (auto simp: box_of_def box_at_def nth_append)
  qed
qed

text \<open>What the cells stand for, with the types of \<open>RunState\<close>.\<close>

definition strings_of :: "leaf option \<Rightarrow> string list" where
  "strings_of l = (case l of Some (LStrings xs) \<Rightarrow> xs | _ \<Rightarrow> [])"
definition bytes_of :: "leaf option \<Rightarrow> string" where
  "bytes_of l = (case l of Some (LBytes b) \<Rightarrow> b | _ \<Rightarrow> [])"
definition time_of :: "leaf option \<Rightarrow> int option" where
  "time_of l = (case l of Some (LTime t) \<Rightarrow> Some t | _ \<Rightarrow> None)"
definition timeout_of :: "leaf option \<Rightarrow> repeat_timeout_state option" where
  "timeout_of l = (case l of Some (LTimeout t) \<Rightarrow> Some t | _ \<Rightarrow> None)"

definition read_step :: "heap \<Rightarrow> step_cell \<Rightarrow> completed_step" where
  "read_step h c = \<lparr>Path = strings_of (leaf_of h (CPath c)), HasCompensator = CHasCompensator c\<rparr>"

definition read_entry :: "heap \<Rightarrow> string \<times> ptr \<Rightarrow> string \<times> json" where
  "read_entry h e = (fst e, bytes_of (leaf_of h (snd e)))"

definition read_diagnostic :: "heap \<Rightarrow> string \<times> diag_cell \<Rightarrow> string \<times> step_diagnostics" where
  "read_diagnostic h e =
     (fst e, \<lparr>Attempts = CAttempts (snd e), FirstStartedAt = time_of (leaf_of h (CFirstStartedAt (snd e))),
        LastStartedAt = time_of (leaf_of h (CLastStartedAt (snd e))),
        CompletedAt = time_of (leaf_of h (CCompletedAt (snd e))), LastError = CLastError (snd e),
        NextRunAt = time_of (leaf_of h (CNextRunAt (snd e)))\<rparr>)"

definition read_repeat :: "heap \<Rightarrow> string \<times> repeat_cell \<Rightarrow> string \<times> repeat_state" where
  "read_repeat h e =
     (fst e, \<lparr>Iteration = CIteration (snd e), AwaitingCondition = CAwaitingCondition (snd e),
        Completed = CCompleted (snd e), StartedAt = time_of (leaf_of h (CStartedAt (snd e)))\<rparr>)"

definition at_diagnostic :: "string \<times> diag_cell \<Rightarrow> nat set" where
  "at_diagnostic e = ptr_at (CFirstStartedAt (snd e)) \<union> (ptr_at (CLastStartedAt (snd e))
     \<union> (ptr_at (CCompletedAt (snd e)) \<union> ptr_at (CNextRunAt (snd e))))"

lemma copier_step: "copier clone_step read_step (\<lambda>h c. ptr_at (CPath c))"
  using copier_part [OF copier_leaf, where part = CPath and put = "\<lambda>c p. c\<lparr>CPath := p\<rparr>"
      and view = "\<lambda>c v. \<lparr>Path = strings_of v, HasCompensator = CHasCompensator c\<rparr>"]
  by (simp add: clone_step_def [abs_def] read_step_def [abs_def])

lemma copier_entry: "copier clone_entry read_entry (\<lambda>h e. ptr_at (snd e))"
  using copier_part [OF copier_leaf, where part = "snd :: string \<times> ptr \<Rightarrow> ptr" and put = "\<lambda>e p. (fst e, p)"
      and view = "\<lambda>e v. (fst e, bytes_of v)"]
  by (simp add: clone_entry_def [abs_def] read_entry_def [abs_def])

lemma copier_repeat: "copier clone_repeat read_repeat (\<lambda>h e. ptr_at (CStartedAt (snd e)))"
  using copier_part [OF copier_leaf, where part = "\<lambda>e :: string \<times> repeat_cell. CStartedAt (snd e)"
      and put = "\<lambda>e p. (fst e, (snd e)\<lparr>CStartedAt := p\<rparr>)"
      and view = "\<lambda>e v. (fst e, \<lparr>Iteration = CIteration (snd e), AwaitingCondition = CAwaitingCondition (snd e),
        Completed = CCompleted (snd e), StartedAt = time_of v\<rparr>)"]
  by (simp add: clone_repeat_def [abs_def] read_repeat_def [abs_def])

lemma copier_diagnostic: "copier clone_diagnostic read_diagnostic (\<lambda>h. at_diagnostic)"
  using copier_part [OF copier_pair [OF copier_leaf copier_pair [OF copier_leaf copier_pair [OF copier_leaf copier_leaf]]],
      where part = "\<lambda>e :: string \<times> diag_cell. (CFirstStartedAt (snd e), CLastStartedAt (snd e), CCompletedAt (snd e), CNextRunAt (snd e))"
      and put = "\<lambda>e (p1, p2, p3, p4). (fst e, (snd e)\<lparr>CFirstStartedAt := p1, CLastStartedAt := p2, CCompletedAt := p3, CNextRunAt := p4\<rparr>)"
      and view = "\<lambda>e (t1, t2, t3, t4). (fst e, \<lparr>Attempts = CAttempts (snd e), FirstStartedAt = time_of t1, LastStartedAt = time_of t2,
        CompletedAt = time_of t3, LastError = CLastError (snd e), NextRunAt = time_of t4\<rparr>)"]
  by (simp add: clone_diagnostic_def [abs_def] read_diagnostic_def [abs_def] at_diagnostic_def [abs_def] Let_def case_prod_beta)

definition read_steps :: "heap \<Rightarrow> ptr \<Rightarrow> completed_step list" where
  "read_steps h p = (case box_of get_steps read_step h p of None \<Rightarrow> [] | Some xs \<Rightarrow> xs)"

definition at_steps :: "heap \<Rightarrow> ptr \<Rightarrow> nat set" where
  "at_steps = box_at get_steps (\<lambda>h c. ptr_at (CPath c))"

lemma copier_steps: "copier clone_steps read_steps at_steps"
proof
  have box: "copier (clone_box OSteps get_steps clone_step) (box_of get_steps read_step) at_steps"
    unfolding at_steps_def by (rule copier_box [OF copier_step]) simp
  show "agree h h' (at_steps h p) \<Longrightarrow> read_steps h' p = read_steps h p \<and> at_steps h' p = at_steps h p" for h h' p
    using framedD [OF box, of h h' p] by (auto simp: read_steps_def)
  fix h h' p q
  assume in_h: "at_steps h p \<subseteq> {..<length h}" and run: "clone_steps p h = (q, h')"
  obtain q1 h1 where q1: "clone_box OSteps get_steps clone_step p h = (q1, h1)"
    by (cases "clone_box OSteps get_steps clone_step p h")
  obtain t where t: "h1 = h @ t" "box_of get_steps read_step h1 q1 = box_of get_steps read_step h p"
    "at_steps h1 q1 \<subseteq> {length h ..< length h1}"
    by (rule copiesE [OF box q1 in_h])
  show "(\<exists>t. h' = h @ t) \<and> read_steps h' q = read_steps h p \<and> at_steps h' q \<subseteq> {length h ..< length h'}"
  proof (cases q1)
    case None
    then have "box_of get_steps read_step h p = None" using t(2) by (simp add: box_of_def)
    with run q1 None t(1) show ?thesis
      by (auto simp: clone_steps_def read_steps_def at_steps_def box_at_def box_of_def)
  next
    case (Some a)
    with run q1 t show ?thesis by (auto simp: clone_steps_def read_steps_def)
  qed
qed

section \<open>The whole state\<close>

definition read_state :: "heap \<Rightarrow> state_cell \<Rightarrow> run_state" where
  "read_state h s =
     \<lparr>Version = CVersion s, Status = CStatus s, CurrentPath = strings_of (leaf_of h (CCurrentPath s)),
      CompletedSteps = read_steps h (CCompletedSteps s),
      Data = map_option Mapping.of_alist (box_of get_data read_entry h (CData s)), Error = CError s,
      FailedStepPath = strings_of (leaf_of h (CFailedStepPath s)), ErrorContext = bytes_of (leaf_of h (CErrorContext s)),
      PollStartedAt = time_of (leaf_of h (CPollStartedAt s)), CompensationIndex = CCompensationIndex s, Revision = CRevision s,
      StepDiagnostics = map_option Mapping.of_alist (box_of get_diagnostics read_diagnostic h (CStepDiagnostics s)),
      RepeatStates = map_option Mapping.of_alist (box_of get_repeats read_repeat h (CRepeatStates s)),
      RepeatTimeout = timeout_of (leaf_of h (CRepeatTimeout s))\<rparr>"

definition state_at :: "heap \<Rightarrow> state_cell \<Rightarrow> nat set" where
  "state_at h s =
     ptr_at (CCurrentPath s) \<union> (ptr_at (CFailedStepPath s) \<union> (ptr_at (CErrorContext s) \<union> (ptr_at (CPollStartedAt s)
     \<union> (ptr_at (CRepeatTimeout s) \<union> (at_steps h (CCompletedSteps s)
     \<union> (box_at get_data (\<lambda>h e. ptr_at (snd e)) h (CData s)
     \<union> (box_at get_diagnostics (\<lambda>h. at_diagnostic) h (CStepDiagnostics s)
     \<union> box_at get_repeats (\<lambda>h e. ptr_at (CStartedAt (snd e))) h (CRepeatStates s))))))))"

lemmas state_copiers = copier_pair [OF copier_leaf copier_pair [OF copier_leaf copier_pair [OF copier_leaf
  copier_pair [OF copier_leaf copier_pair [OF copier_leaf copier_pair [OF copier_steps
  copier_pair [OF copier_box [OF copier_entry, where put = OData and get = get_data]
  copier_pair [OF copier_box [OF copier_diagnostic, where put = ODiagnostics and get = get_diagnostics]
    copier_box [OF copier_repeat, where put = ORepeats and get = get_repeats]]]]]]]]]

interpretation state_copy: copier cloneRunState read_state state_at
  using copier_part [OF state_copiers,
      where part = "\<lambda>s. (CCurrentPath s, CFailedStepPath s, CErrorContext s, CPollStartedAt s, CRepeatTimeout s,
        CCompletedSteps s, CData s, CStepDiagnostics s, CRepeatStates s)"
      and put = "\<lambda>s (p1, p2, p3, p4, p5, p6, p7, p8, p9). s\<lparr>CCurrentPath := p1, CFailedStepPath := p2, CErrorContext := p3,
        CPollStartedAt := p4, CRepeatTimeout := p5, CCompletedSteps := p6, CData := p7, CStepDiagnostics := p8, CRepeatStates := p9\<rparr>"
      and view = "\<lambda>s (v1, v2, v3, v4, v5, v6, v7, v8, v9).
        \<lparr>Version = CVersion s, Status = CStatus s, CurrentPath = strings_of v1, CompletedSteps = v6,
         Data = map_option Mapping.of_alist v7, Error = CError s, FailedStepPath = strings_of v2, ErrorContext = bytes_of v3,
         PollStartedAt = time_of v4, CompensationIndex = CCompensationIndex s, Revision = CRevision s,
         StepDiagnostics = map_option Mapping.of_alist v8, RepeatStates = map_option Mapping.of_alist v9,
         RepeatTimeout = timeout_of v5\<rparr>"]
  by (simp add: cloneRunState_def [abs_def] read_state_def [abs_def] state_at_def [abs_def] Let_def case_prod_beta)

text \<open>What a callback can do to the heap: write cells whose addresses it holds, allocate, and write what it
  allocated.\<close>

inductive mutates :: "nat set \<Rightarrow> 'c list \<Rightarrow> 'c list \<Rightarrow> bool" for A :: "nat set" and h :: "'c list" where
  start: "mutates A h h"
| store: "mutates A h h1 \<Longrightarrow> a \<in> A \<or> length h \<le> a \<Longrightarrow> mutates A h (h1[a := b])"
| alloc: "mutates A h h1 \<Longrightarrow> mutates A h (h1 @ [b])"

lemma mutates_elsewhere: "mutates A h h2 \<Longrightarrow> length h \<le> length h2 \<and> (\<forall>a < length h. a \<notin> A \<longrightarrow> h2 ! a = h ! a)"
  by (induction rule: mutates.induct) (auto simp: nth_append, metis nth_list_update_neq)

text \<open>C12. The copy handed to a migrator stands for the same state and shares no cell with the caller's
  state, whatever that state holds; so whatever the migrator writes, the caller's state stays what it
  was, as \<open>Run\<close> needs when the migration fails.\<close>

theorem migrator_cannot_touch_caller:
  assumes "state_at h s \<subseteq> {..<length h}" and "cloneRunState s h = (s', h1)" and "mutates (state_at h1 s') h1 h2"
  shows "read_state h1 s' = read_state h s \<and> state_at h1 s' \<inter> state_at h s = {} \<and> read_state h2 s = read_state h s"
proof -
  obtain t where t: "h1 = h @ t" "read_state h1 s' = read_state h s" "state_at h1 s' \<subseteq> {length h ..< length h1}"
    using state_copy.copies [OF assms(1,2)] by blast
  have kept: "length h1 \<le> length h2" "a < length h1 \<Longrightarrow> a \<notin> state_at h1 s' \<Longrightarrow> h2 ! a = h1 ! a" for a
    using mutates_elsewhere [OF assms(3)] by auto
  have "a < length h2 \<and> h2 ! a = h ! a" if "a \<in> state_at h s" for a
  proof -
    have a: "a < length h" using assms(1) that by auto
    then have "a \<notin> state_at h1 s'" "h1 ! a = h ! a" using t(1,3) by (auto simp: nth_append)
    with a kept(1) kept(2) [of a] t(1) show ?thesis by simp
  qed
  then have "agree h h2 (state_at h s)" using assms(1) by (auto simp: agree_def)
  from state_copy.framed [OF this] t(2) show ?thesis
    using t(3) assms(1) by (auto simp: subset_iff) (meson leD)
qed

definition sample_heap :: heap where
  "sample_heap = [OLeaf (LStrings [''a'']), OSteps [\<lparr>CPath = Some 0, CHasCompensator = True\<rparr>], OLeaf (LBytes ''1''),
     OData [(''k'', Some 2)]]"

definition sample_cell :: state_cell where
  "sample_cell = \<lparr>CVersion = 1, CStatus = RunStatusRunning, CCurrentPath = Some 0, CCompletedSteps = Some 1, CData = Some 3,
     CError = [], CFailedStepPath = None, CErrorContext = None, CPollStartedAt = None, CCompensationIndex = 0, CRevision = 0,
     CStepDiagnostics = None, CRepeatStates = None, CRepeatTimeout = None\<rparr>"

lemma migrator_cannot_touch_caller_witness:
  "let (s', h1) = cloneRunState sample_cell sample_heap; p = the (CCurrentPath s') in
     p \<noteq> 0 \<and> read_state (h1[p := OLeaf (LStrings [''b''])]) sample_cell = read_state sample_heap sample_cell"
proof -
  obtain s' h1 where c: "cloneRunState sample_cell sample_heap = (s', h1)" by (cases "cloneRunState sample_cell sample_heap")
  have wf: "state_at sample_heap sample_cell \<subseteq> {..<length sample_heap}"
    by (simp add: state_at_def sample_cell_def sample_heap_def ptr_at_def at_steps_def box_at_def)
  have p: "CCurrentPath s' = Some 4"
    using c by (simp add: cloneRunState_def sample_cell_def sample_heap_def clone_leaf_def Let_def split: prod.splits) auto
  then have "4 \<in> state_at h1 s'" by (simp add: state_at_def ptr_at_def)
  then have "mutates (state_at h1 s') h1 (h1[4 := OLeaf (LStrings [''b''])])" by (intro mutates.intros) simp
  from migrator_cannot_touch_caller [OF wf c this] p c show ?thesis by (simp add: Let_def)
qed

end
