(* ===== verification/Pipeline_Observe.thy ===== *)
theory Pipeline_Observe
  imports Pipeline_Clone Pipeline_Env
begin

text \<open>
  What an observer is handed (\<open>observe\<close> and \<open>cloneObserverCause\<close>, \<open>pipeline/observer.go\<close>), on an
  explicit heap. Elsewhere events and errors are values; here the step path, the iteration and the
  errors behind pointers are cells, as the copies are made so that an observer cannot reach the error
  the executor goes on working with. The theorem says which cells the observer gets, and that writing
  them changes nothing for the executor; the lemma after it says what the copy leaves shared.
\<close>

section \<open>Errors on the heap\<close>

text \<open>An \<open>error\<close> value: nil, an \<open>ErrSnooze\<close>, which is a value type, or a pointer.\<close>

datatype ival = INil | ISnooze int | IPtr nat

text \<open>The structs behind the pointers. \<open>COpaque\<close> is any dynamic type the switch does not name: the results
  of \<open>errors.New\<close> and of \<open>fmt.Errorf\<close>, with the errors it wraps.\<close>

datatype opaque = KNew string | KErrorf string | KNoCompensate

datatype ecell =
    CRetryAfter int ival
  | CSnapshotFailed string ival
  | CRepeatLimit string int
  | CRepeatTimeout string int
  | CCompactRepeatCompensation string ptr
  | CStateMigrationFailed string int int ival
  | CCompensationFailed ival ival
  | CStepFailed string ptr ival
  | CPollTimeout string int
  | CVersionMismatch string int int int
  | COpaque opaque "ival list"
  | CStrings "string list"
  | CInt int

type_synonym eheap = "ecell list"

definition load :: "eheap \<Rightarrow> nat \<Rightarrow> ecell option" where
  "load h a = (if a < length h then Some (h ! a) else None)"

definition alloc :: "ecell \<Rightarrow> eheap \<Rightarrow> nat \<times> eheap" where
  "alloc c h = (length h, h @ [c])"

text \<open>\<open>slices.Clone\<close> of a path and the copy of the iteration: nil stays nil.\<close>

definition clone_cell :: "ptr \<Rightarrow> eheap \<Rightarrow> (ptr \<times> eheap) option" where
  "clone_cell p h =
     (case p of
        None \<Rightarrow> Some (None, h)
      | Some a \<Rightarrow> (case load h a of None \<Rightarrow> None | Some c \<Rightarrow> Some (map_prod Some id (alloc c h))))"

section \<open>cloneObserverCause\<close>

text \<open>The recursion follows pointers, so on a cyclic error it does not end; the result is \<open>None\<close> then.\<close>

partial_function (option) cloneObserverCause :: "ival \<Rightarrow> eheap \<Rightarrow> (ival \<times> eheap) option" where
  "cloneObserverCause err h =
     (case err of
        INil \<Rightarrow> Some (INil, h)
      | ISnooze d \<Rightarrow> Some (ISnooze d, h)
      | IPtr a \<Rightarrow>
          Option.bind (load h a) (\<lambda>c.
          case c of
            CRetryAfter d cause \<Rightarrow>
              Option.bind (cloneObserverCause cause h) (\<lambda>(v, h1).
                Some (map_prod IPtr id (alloc (CRetryAfter d v) h1)))
          | CSnapshotFailed op e \<Rightarrow>
              Option.bind (cloneObserverCause e h) (\<lambda>(v, h1).
                Some (map_prod IPtr id (alloc (CSnapshotFailed op v) h1)))
          | CRepeatLimit n k \<Rightarrow> Some (map_prod IPtr id (alloc (CRepeatLimit n k) h))
          | CRepeatTimeout n d \<Rightarrow> Some (map_prod IPtr id (alloc (CRepeatTimeout n d) h))
          | CCompactRepeatCompensation n p \<Rightarrow>
              Option.bind (clone_cell p h) (\<lambda>(p1, h1).
                Some (map_prod IPtr id (alloc (CCompactRepeatCompensation n p1) h1)))
          | CStateMigrationFailed n f t e \<Rightarrow>
              Option.bind (cloneObserverCause e h) (\<lambda>(v, h1).
                Some (map_prod IPtr id (alloc (CStateMigrationFailed n f t v) h1)))
          | CCompensationFailed original compensation \<Rightarrow>
              Option.bind (cloneObserverCause original h) (\<lambda>(v1, h1).
              Option.bind (cloneObserverCause compensation h1) (\<lambda>(v2, h2).
                Some (map_prod IPtr id (alloc (CCompensationFailed v1 v2) h2))))
          | CStepFailed n p e \<Rightarrow>
              Option.bind (clone_cell p h) (\<lambda>(p1, h1).
              Option.bind (cloneObserverCause e h1) (\<lambda>(v, h2).
                Some (map_prod IPtr id (alloc (CStepFailed n p1 v) h2))))
          | CPollTimeout n d \<Rightarrow> Some (map_prod IPtr id (alloc (CPollTimeout n d) h))
          | CVersionMismatch n sv pv mv \<Rightarrow> Some (map_prod IPtr id (alloc (CVersionMismatch n sv pv mv) h))
          | _ \<Rightarrow> Some (IPtr a, h)))"

section \<open>What a heap value stands for\<close>

text \<open>A slice of strings in the heap; \<open>reads_path h p xs A\<close> also names the cell.\<close>

inductive reads_path :: "eheap \<Rightarrow> ptr \<Rightarrow> string list \<Rightarrow> nat set \<Rightarrow> bool" for h :: eheap where
  nil_path: "reads_path h None [] {}"
| at_path: "load h a = Some (CStrings xs) \<Longrightarrow> reads_path h (Some a) xs {a}"

text \<open>\<open>reads h v e A\<close>: the heap value stands for the error \<open>e\<close> of \<^theory_text>\<open>Pipeline_Errors\<close>, and \<open>A\<close> holds the cells
  of the pipeline's own structs and slices it goes through down to the first opaque error.\<close>

inductive reads :: "eheap \<Rightarrow> ival \<Rightarrow> err \<Rightarrow> nat set \<Rightarrow> bool" for h :: eheap where
  snooze: "reads h (ISnooze d) (ErrSnooze d) {}"
| retry_after: "load h a = Some (CRetryAfter d INil) \<Longrightarrow> reads h (IPtr a) (ErrRetryAfter d None) {a}"
| retry_after_cause: "load h a = Some (CRetryAfter d v) \<Longrightarrow> reads h v e A \<Longrightarrow>
    reads h (IPtr a) (ErrRetryAfter d (Some e)) (insert a A)"
| snapshot_failed: "load h a = Some (CSnapshotFailed op v) \<Longrightarrow> reads h v e A \<Longrightarrow>
    reads h (IPtr a) (ErrSnapshotFailed op e) (insert a A)"
| repeat_limit: "load h a = Some (CRepeatLimit n k) \<Longrightarrow> reads h (IPtr a) (ErrRepeatLimit n k) {a}"
| repeat_timeout: "load h a = Some (CRepeatTimeout n d) \<Longrightarrow> reads h (IPtr a) (ErrRepeatTimeout n d) {a}"
| compact: "load h a = Some (CCompactRepeatCompensation n p) \<Longrightarrow> reads_path h p xs A \<Longrightarrow>
    reads h (IPtr a) (ErrCompactRepeatCompensation n xs) (insert a A)"
| migration: "load h a = Some (CStateMigrationFailed n f t v) \<Longrightarrow> reads h v e A \<Longrightarrow>
    reads h (IPtr a) (ErrStateMigrationFailed n f t e) (insert a A)"
| compensation: "load h a = Some (CCompensationFailed v1 v2) \<Longrightarrow> reads h v1 e1 A1 \<Longrightarrow> reads h v2 e2 A2 \<Longrightarrow>
    reads h (IPtr a) (ErrCompensationFailed e1 e2) (insert a (A1 \<union> A2))"
| step_failed: "load h a = Some (CStepFailed n p v) \<Longrightarrow> reads_path h p xs A1 \<Longrightarrow> reads h v e A2 \<Longrightarrow>
    reads h (IPtr a) (ErrStepFailed n xs e) (insert a (A1 \<union> A2))"
| poll_timeout: "load h a = Some (CPollTimeout n d) \<Longrightarrow> reads h (IPtr a) (ErrPollTimeout n d) {a}"
| version: "load h a = Some (CVersionMismatch n sv pv mv) \<Longrightarrow>
    reads h (IPtr a) (ErrVersionMismatch n sv pv mv) {a}"
| new: "load h a = Some (COpaque (KNew t) []) \<Longrightarrow> reads h (IPtr a) (ErrNew t) {}"
| no_compensate: "load h a = Some (COpaque KNoCompensate []) \<Longrightarrow> reads h (IPtr a) ErrNoCompensate {}"
| errorf: "load h a = Some (COpaque (KErrorf t) vs) \<Longrightarrow>
    list_all2 (\<lambda>v e. \<exists>A. reads h v e A) vs es \<Longrightarrow> reads h (IPtr a) (Errorf t es) {}"

lemma load_append: "load h a = Some c \<Longrightarrow> load (h @ t) a = Some c"
  by (auto simp: load_def nth_append split: if_splits)

lemma load_alloc [simp]: "load (h @ [c]) (length h) = Some c"
  by (simp add: load_def)

lemma reads_path_append: "reads_path h p xs A \<Longrightarrow> reads_path (h @ t) p xs A"
  by (induction rule: reads_path.induct) (auto intro: reads_path.intros load_append)

text \<open>A reading depends only on the cells that were there.\<close>

definition same_cells :: "eheap \<Rightarrow> eheap \<Rightarrow> bool" where
  "same_cells h h2 \<longleftrightarrow> (\<forall>a c. load h a = Some c \<longrightarrow> load h2 a = Some c)"

lemma same_cells_append [simp]: "same_cells h (h @ t)"
  by (simp add: same_cells_def load_append)

lemma reads_path_same: "reads_path h p xs A \<Longrightarrow> same_cells h h2 \<Longrightarrow> reads_path h2 p xs A"
  by (induction rule: reads_path.induct) (auto simp: same_cells_def intro: reads_path.intros)

lemma reads_same: "reads h v e A \<Longrightarrow> same_cells h h2 \<Longrightarrow> reads h2 v e A"
proof (induction rule: reads.induct)
  case (errorf a t vs es)
  then have "load h2 a = Some (COpaque (KErrorf t) vs)" by (simp add: same_cells_def)
  moreover have "list_all2 (\<lambda>v e. \<exists>A. reads h2 v e A) vs es"
    using errorf by (auto elim!: list.rel_mono_strong)
  ultimately show ?case by (rule reads.errorf)
qed (auto simp: same_cells_def intro: reads.intros reads_path_same [unfolded same_cells_def])

section \<open>The copy\<close>

text \<open>What a copy made in a heap promises: it only adds cells, stands for the same thing there and has only
  new cells. \<open>copied rd h y h'\<close> says it of the result \<open>y\<close>, for its reading \<open>rd\<close>.\<close>

definition copied :: "(eheap \<Rightarrow> 'p \<Rightarrow> nat set \<Rightarrow> bool) \<Rightarrow> eheap \<Rightarrow> 'p \<Rightarrow> eheap \<Rightarrow> bool" where
  "copied rd h y h' \<longleftrightarrow> (\<exists>t A. h' = h @ t \<and> rd h' y A \<and> A \<subseteq> {length h ..< length h'})"

lemma copiedE:
  assumes "copied rd h y h'"
  obtains t A where "h' = h @ t" "rd h' y A" "A \<subseteq> {length h ..< length h'}"
  using assms unfolding copied_def by blast

lemma clone_cell_copies:
  assumes "reads_path h p xs A"
  shows "\<exists>q h'. clone_cell p h = Some (q, h') \<and> copied (\<lambda>h p. reads_path h p xs) h q h'"
  using assms
proof cases
  case nil_path
  then show ?thesis by (auto simp: clone_cell_def copied_def intro: reads_path.intros)
next
  case (at_path a)
  then have "clone_cell p h = Some (Some (length h), h @ [CStrings xs])" by (simp add: clone_cell_def alloc_def)
  moreover have "reads_path (h @ [CStrings xs]) (Some (length h)) xs {length h}"
    by (rule reads_path.at_path) simp
  ultimately show ?thesis by (auto simp: copied_def)
qed

abbreviation copies_error :: "err \<Rightarrow> eheap \<Rightarrow> ival \<Rightarrow> eheap \<Rightarrow> bool" where
  "copies_error e \<equiv> copied (\<lambda>h v. reads h v e)"

lemma copied_leaf: "(\<And>h a. load h a = Some c \<Longrightarrow> reads h (IPtr a) e {a}) \<Longrightarrow>
    copies_error e h (IPtr (length h)) (h @ [c])"
  unfolding copied_def by (intro exI [where x = "[c]"] exI [where x = "{length h}"]) auto

lemma copied_opaque: "reads h v e {} \<Longrightarrow> copies_error e h v h"
  unfolding copied_def by (intro exI [where x = "[]"] exI [where x = "{}"]) auto

text \<open>A struct with one nested error.\<close>

lemma copied_wrap:
  assumes "copies_error e h v h1"
    and "\<And>h a v A. load h a = Some (c v) \<Longrightarrow> reads h v e A \<Longrightarrow> reads h (IPtr a) e' (insert a A)"
  shows "copies_error e' h (IPtr (length h1)) (h1 @ [c v])"
proof -
  obtain t A where t: "h1 = h @ t" "reads h1 v e A" "A \<subseteq> {length h ..< length h1}"
    using assms(1) by (rule copiedE)
  have "reads (h1 @ [c v]) (IPtr (length h1)) e' (insert (length h1) A)"
    using t(2) by (intro assms(2)) (auto intro: reads_same)
  with t show ?thesis unfolding copied_def
    by (intro exI [where x = "t @ [c v]"] exI [where x = "insert (length h1) A"]) auto
qed

lemma copied_wrap_path:
  assumes "copied (\<lambda>h p. reads_path h p xs) h p h1"
    and "\<And>h a A. load h a = Some c \<Longrightarrow> reads_path h p xs A \<Longrightarrow> reads h (IPtr a) e (insert a A)"
  shows "copies_error e h (IPtr (length h1)) (h1 @ [c])"
proof -
  obtain t A where t: "h1 = h @ t" "reads_path h1 p xs A" "A \<subseteq> {length h ..< length h1}"
    using assms(1) by (rule copiedE)
  have "reads (h1 @ [c]) (IPtr (length h1)) e (insert (length h1) A)"
    using t(2) by (intro assms(2)) (auto intro: reads_path_append)
  with t show ?thesis unfolding copied_def
    by (intro exI [where x = "t @ [c]"] exI [where x = "insert (length h1) A"]) auto
qed

text \<open>A copy made after another one leaves the first alone.\<close>

lemma copied_both:
  assumes "copied r1 h y h1" "copied r2 h1 z h2" "\<And>t A. r1 h1 y A \<Longrightarrow> r1 (h1 @ t) y A"
  shows "copied (\<lambda>h (y, z) A. \<exists>A1 A2. A = A1 \<union> A2 \<and> r1 h y A1 \<and> r2 h z A2) h (y, z) h2"
proof -
  obtain t1 A1 where t1: "h1 = h @ t1" "r1 h1 y A1" "A1 \<subseteq> {length h ..< length h1}" using assms(1) by (rule copiedE)
  obtain t2 A2 where t2: "h2 = h1 @ t2" "r2 h2 z A2" "A2 \<subseteq> {length h1 ..< length h2}" using assms(2) by (rule copiedE)
  have "r1 h2 y A1" using assms(3) t1(2) t2(1) by blast
  with t1 t2 show ?thesis unfolding copied_def
    by (intro exI [where x = "t1 @ t2"] exI [where x = "A1 \<union> A2"]) auto
qed

lemma copied_wrap_both:
  assumes "copied (\<lambda>h (y, z) A. \<exists>A1 A2. A = A1 \<union> A2 \<and> r1 h y A1 \<and> r2 h z A2) h (y, z) h2"
    and "\<And>t A. r1 h2 y A \<Longrightarrow> r1 (h2 @ t) y A" "\<And>t A. r2 h2 z A \<Longrightarrow> r2 (h2 @ t) z A"
    and "\<And>h a A1 A2. load h a = Some (c y z) \<Longrightarrow> r1 h y A1 \<Longrightarrow> r2 h z A2 \<Longrightarrow> reads h (IPtr a) e (insert a (A1 \<union> A2))"
  shows "copies_error e h (IPtr (length h2)) (h2 @ [c y z])"
proof -
  obtain t A1 A2 where t: "h2 = h @ t" "r1 h2 y A1" "r2 h2 z A2" "A1 \<union> A2 \<subseteq> {length h ..< length h2}"
    using assms(1) by (rule copiedE) auto
  have "reads (h2 @ [c y z]) (IPtr (length h2)) e (insert (length h2) (A1 \<union> A2))"
    using t(2,3) by (intro assms(4) assms(2,3)) auto
  with t show ?thesis unfolding copied_def
    by (intro exI [where x = "t @ [c y z]"] exI [where x = "insert (length h2) (A1 \<union> A2)"]) auto
qed

lemmas clone_simps = cloneObserverCause.simps alloc_def bind_eq_Some_conv

text \<open>Every error that stands for a value of \<^theory_text>\<open>Pipeline_Errors\<close> is copied: the recursion ends.\<close>

lemma same_cells_load: "same_cells h k \<Longrightarrow> load h a = Some c \<Longrightarrow> load k a = Some c"
  by (simp add: same_cells_def)

lemma copied_same: "copied rd h y h' \<Longrightarrow> same_cells k h \<Longrightarrow> same_cells k h'"
  by (auto simp: copied_def same_cells_def load_append)

lemma cloneObserverCause_copies:
  assumes "reads h v e A" and "same_cells h k"
  shows "\<exists>v' h'. cloneObserverCause v k = Some (v', h') \<and> copies_error e k v' h'"
  using assms
proof (induction arbitrary: k rule: reads.induct)
  case (snooze d)
  show ?case by (simp add: clone_simps copied_opaque reads.snooze)
next
  case (retry_after a d)
  then have "load k a = Some (CRetryAfter d INil)" by (simp add: same_cells_load)
  moreover have "copies_error (ErrRetryAfter d None) k (IPtr (length k)) (k @ [CRetryAfter d INil])"
    by (rule copied_leaf) (rule reads.retry_after)
  ultimately show ?case by (simp add: clone_simps)
next
  case (retry_after_cause a d v e A)
  from same_cells_load [OF retry_after_cause.prems retry_after_cause.hyps(1)] retry_after_cause.IH [OF retry_after_cause.prems]
  show ?case by (subst cloneObserverCause.simps) (auto simp: alloc_def intro!: copied_wrap [where c = "CRetryAfter d"] reads.retry_after_cause)
next
  case (snapshot_failed a op v e A)
  from same_cells_load [OF snapshot_failed.prems snapshot_failed.hyps(1)] snapshot_failed.IH [OF snapshot_failed.prems]
  show ?case by (subst cloneObserverCause.simps) (auto simp: alloc_def intro!: copied_wrap [where c = "CSnapshotFailed op"] reads.snapshot_failed)
next
  case (repeat_limit a n i)
  from same_cells_load [OF repeat_limit.prems repeat_limit.hyps]
  show ?case by (subst cloneObserverCause.simps) (auto simp: alloc_def intro: copied_leaf reads.repeat_limit)
next
  case (repeat_timeout a n d)
  from same_cells_load [OF repeat_timeout.prems repeat_timeout.hyps]
  show ?case by (subst cloneObserverCause.simps) (auto simp: alloc_def intro: copied_leaf reads.repeat_timeout)
next
  case (compact a n p xs A)
  then have p: "load k a = Some (CCompactRepeatCompensation n p)" "reads_path k p xs A"
    by (auto intro: same_cells_load reads_path_same)
  from clone_cell_copies [OF p(2)] obtain q h1 where
    q: "clone_cell p k = Some (q, h1)" "copied (\<lambda>h p. reads_path h p xs) k q h1" by blast
  have "copies_error (ErrCompactRepeatCompensation n xs) k (IPtr (length h1)) (h1 @ [CCompactRepeatCompensation n q])"
    by (rule copied_wrap_path [OF q(2)]) (rule reads.compact)
  with p(1) q(1) show ?case by (subst cloneObserverCause.simps) (simp add: alloc_def)
next
  case (migration a n f t v e A)
  from same_cells_load [OF migration.prems migration.hyps(1)] migration.IH [OF migration.prems]
  show ?case by (subst cloneObserverCause.simps) (auto simp: alloc_def intro!: copied_wrap [where c = "CStateMigrationFailed n f t"] reads.migration)
next
  case (compensation a v1 v2 e1 A1 e2 A2)
  from compensation.IH(1) [OF compensation.prems] obtain w1 h1 where
    w1: "cloneObserverCause v1 k = Some (w1, h1)" "copies_error e1 k w1 h1" by blast
  from compensation.IH(2) [OF copied_same [OF w1(2) compensation.prems]] obtain w2 h2 where
    w2: "cloneObserverCause v2 h1 = Some (w2, h2)" "copies_error e2 h1 w2 h2" by blast
  have "copies_error (ErrCompensationFailed e1 e2) k (IPtr (length h2)) (h2 @ [CCompensationFailed w1 w2])"
    by (rule copied_wrap_both [OF copied_both [OF w1(2) w2(2)], where c = CCompensationFailed]) (auto intro: reads.compensation reads_same)
  with w1(1) w2(1) same_cells_load [OF compensation.prems compensation.hyps(1)] show ?case
    by (subst cloneObserverCause.simps) (simp add: alloc_def)
next
  case (step_failed a n p v xs A1 e A2)
  then have p: "load k a = Some (CStepFailed n p v)" "reads_path k p xs A1"
    by (auto intro: same_cells_load reads_path_same)
  from clone_cell_copies [OF p(2)] obtain q h1 where
    q: "clone_cell p k = Some (q, h1)" "copied (\<lambda>h p. reads_path h p xs) k q h1" by blast
  from step_failed.IH [OF copied_same [OF q(2) step_failed.prems]] obtain w h2 where
    w: "cloneObserverCause v h1 = Some (w, h2)" "copies_error e h1 w h2" by blast
  have "copies_error (ErrStepFailed n xs e) k (IPtr (length h2)) (h2 @ [CStepFailed n q w])"
    by (rule copied_wrap_both [OF copied_both [OF q(2) w(2)], where c = "CStepFailed n"])
      (auto intro: reads.step_failed reads_same reads_path_append)
  with p(1) q(1) w(1) show ?case by (subst cloneObserverCause.simps) (simp add: alloc_def)
next
  case (poll_timeout a n d)
  from same_cells_load [OF poll_timeout.prems poll_timeout.hyps]
  show ?case by (subst cloneObserverCause.simps) (auto simp: alloc_def intro: copied_leaf reads.poll_timeout)
next
  case (version a n sv pv mv)
  from same_cells_load [OF version.prems version.hyps]
  show ?case by (subst cloneObserverCause.simps) (auto simp: alloc_def intro: copied_leaf reads.version)
next
  case (new a t)
  from same_cells_load [OF new.prems new.hyps]
  show ?case by (subst cloneObserverCause.simps) (auto intro: copied_opaque reads.new)
next
  case (no_compensate a)
  from same_cells_load [OF no_compensate.prems no_compensate.hyps]
  show ?case by (subst cloneObserverCause.simps) (auto intro: copied_opaque reads.no_compensate)
next
  case (errorf a t vs es)
  have "reads h (IPtr a) (Errorf t es) {}" by (rule reads.errorf [OF errorf.hyps]) (use errorf in \<open>auto elim: list.rel_mono_strong\<close>)
  from copied_opaque [OF reads_same [OF this errorf.prems]] same_cells_load [OF errorf.prems errorf.hyps]
  show ?case by (subst cloneObserverCause.simps) auto
qed

section \<open>The event\<close>

text \<open>An event as \<open>observe\<close> is given it: \<open>Scalars\<close> holds the fields without addresses.\<close>

record event_cell =
  Scalars :: event
  EPath :: ptr
  EIteration :: ptr
  ECause :: ival

definition path_at :: "eheap \<Rightarrow> ptr \<Rightarrow> string list" where
  "path_at h p = (case p of None \<Rightarrow> [] | Some a \<Rightarrow> (case load h a of Some (CStrings xs) \<Rightarrow> xs | _ \<Rightarrow> []))"

text \<open>The pointer \<open>repeatIterationForPath\<close> returns refers to a variable of its own.\<close>

definition find_iteration :: "('v, 'w) pipeline \<Rightarrow> path \<Rightarrow> ptr \<Rightarrow> eheap \<Rightarrow> ptr \<times> eheap" where
  "find_iteration p path it h =
     (if it \<noteq> None then (it, h)
      else case repeatIterationForPath (PSteps p) path of
             None \<Rightarrow> (None, h)
           | Some k \<Rightarrow> map_prod Some id (alloc (CInt k) h))"

text \<open>The part of \<open>observe\<close> before the call of the observer.\<close>

definition detach :: "('v, 'w) pipeline \<Rightarrow> run_state \<Rightarrow> event_cell \<Rightarrow> eheap \<Rightarrow> (event_cell \<times> eheap) option" where
  "detach p st c h =
     Option.bind (clone_cell (EPath c) h) (\<lambda>(stepPath, h1).
     let (found, h2) = find_iteration p (path_at h1 stepPath) (EIteration c) h1 in
     Option.bind (clone_cell found h2) (\<lambda>(iteration, h3).
     Option.bind (cloneObserverCause (ECause c) h3) (\<lambda>(cause, h4).
       Some (\<lparr>Scalars = (Scalars c)\<lparr>EvPipelineName := PName p, EvPipelineVersion := PVersion p,
                EvRunStatus := Status st\<rparr>,
              EPath = stepPath, EIteration = iteration, ECause = cause\<rparr>, h4))))"

text \<open>The same on values, as \<^const>\<open>observe\<close> has it.\<close>

definition event_out :: "('v, 'w) pipeline \<Rightarrow> run_state \<Rightarrow> event \<Rightarrow> event" where
  "event_out p st ev =
     ev\<lparr>EvPipelineName := PName p, EvPipelineVersion := PVersion p, EvRunStatus := Status st,
        EvRepeatIteration := or_else (EvRepeatIteration ev) (repeatIterationForPath (PSteps p) (EvStepPath ev))\<rparr>"

lemma observe_delivers:
  "observe env p ev m =
     Some ((), case observer env of None \<Rightarrow> m | Some ob \<Rightarrow> m\<lparr>world := ob (event_out p (rs m) ev) (world m)\<rparr>)"
  by (simp add: observe_def event_out_def ret_def upd_def split: option.splits)

inductive reads_int :: "eheap \<Rightarrow> ptr \<Rightarrow> int option \<Rightarrow> nat set \<Rightarrow> bool" for h :: eheap where
  nil_int: "reads_int h None None {}"
| at_int: "load h a = Some (CInt k) \<Longrightarrow> reads_int h (Some a) (Some k) {a}"

inductive reads_cause :: "eheap \<Rightarrow> ival \<Rightarrow> err option \<Rightarrow> nat set \<Rightarrow> bool" for h :: eheap where
  nil_cause: "reads_cause h INil None {}"
| some_cause: "reads h v e A \<Longrightarrow> reads_cause h v (Some e) A"

definition reads_event :: "eheap \<Rightarrow> event_cell \<Rightarrow> event \<Rightarrow> nat set \<Rightarrow> bool" where
  "reads_event h c ev A \<longleftrightarrow>
     (\<exists>A1 A2 A3. A = A1 \<union> A2 \<union> A3 \<and> reads_path h (EPath c) (EvStepPath ev) A1 \<and>
        reads_int h (EIteration c) (EvRepeatIteration ev) A2 \<and> reads_cause h (ECause c) (EvCause ev) A3 \<and>
        Scalars c = ev\<lparr>EvStepPath := [], EvRepeatIteration := None, EvCause := None\<rparr>)"

lemma reads_eventI:
  assumes "reads_path h (EPath c) (EvStepPath ev) A1" "reads_int h (EIteration c) (EvRepeatIteration ev) A2"
    "reads_cause h (ECause c) (EvCause ev) A3"
    and "Scalars c = ev\<lparr>EvStepPath := [], EvRepeatIteration := None, EvCause := None\<rparr>"
  shows "reads_event h c ev (A1 \<union> A2 \<union> A3)"
  using assms unfolding reads_event_def by blast

lemma reads_int_same: "reads_int h p k A \<Longrightarrow> same_cells h h2 \<Longrightarrow> reads_int h2 p k A"
  by (induction rule: reads_int.induct) (auto simp: same_cells_def intro: reads_int.intros)

lemma reads_cause_same: "reads_cause h v e A \<Longrightarrow> same_cells h h2 \<Longrightarrow> reads_cause h2 v e A"
  by (induction rule: reads_cause.induct) (auto intro: reads_cause.intros reads_same)

lemmas reads_again = reads_path_same reads_int_same reads_cause_same

lemma reads_event_same: "reads_event h c ev A \<Longrightarrow> same_cells h h2 \<Longrightarrow> reads_event h2 c ev A"
  unfolding reads_event_def by (blast intro: reads_again)

lemma path_at_reads: "reads_path h p xs A \<Longrightarrow> path_at h p = xs"
  by (induction rule: reads_path.induct) (simp_all add: path_at_def)

lemma reads_int_alloc: "reads_int (h @ [CInt i]) (Some (length h)) (Some i) {length h}"
  by (rule reads_int.at_int) simp

lemma clone_int_copies:
  assumes "reads_int h p k A"
  shows "\<exists>q h'. clone_cell p h = Some (q, h') \<and> copied (\<lambda>h p. reads_int h p k) h q h'"
  using assms
proof cases
  case nil_int
  then show ?thesis by (auto simp: clone_cell_def copied_def intro: reads_int.intros)
next
  case (at_int a k)
  then have "clone_cell p h = Some (Some (length h), h @ [CInt k])" by (simp add: clone_cell_def alloc_def)
  with at_int reads_int_alloc [of h k] show ?thesis by (auto simp: copied_def)
qed

lemma find_iteration_reads:
  assumes "reads_int h it k A" and "find_iteration p xs it h = (q, h')"
  shows "(\<exists>t. h' = h @ t) \<and> (\<exists>B. reads_int h' q (or_else k (repeatIterationForPath (PSteps p) xs)) B)"
  using assms
proof cases
  case nil_int
  then show ?thesis using assms(2)
    by (auto simp: find_iteration_def alloc_def or_else_def split: option.splits
        intro: reads_int.nil_int reads_int_alloc)
next
  case (at_int a i)
  then show ?thesis using assms by (auto simp: find_iteration_def or_else_def)
qed

lemma cloneObserverCause_cause:
  assumes "reads_cause h v e A"
  shows "\<exists>w h'. cloneObserverCause v h = Some (w, h') \<and> copied (\<lambda>h v. reads_cause h v e) h w h'"
  using assms
proof cases
  case nil_cause
  then show ?thesis
    by (subst cloneObserverCause.simps) (auto simp: copied_def intro: reads_cause.intros)
next
  case (some_cause e')
  have "same_cells h h" by (simp add: same_cells_def)
  from cloneObserverCause_copies [OF some_cause(2) this] some_cause(1) show ?thesis
    by (auto simp: copied_def intro: reads_cause.some_cause)
qed

lemma detach_copies:
  assumes "reads_event h c ev A"
  shows "\<exists>c' h'. detach p st c h = Some (c', h') \<and> copied (\<lambda>h c. reads_event h c (event_out p st ev)) h c' h'"
proof -
  from assms obtain A1 A2 A3 where ev: "reads_path h (EPath c) (EvStepPath ev) A1"
      "reads_int h (EIteration c) (EvRepeatIteration ev) A2" "reads_cause h (ECause c) (EvCause ev) A3"
      "Scalars c = ev\<lparr>EvStepPath := [], EvRepeatIteration := None, EvCause := None\<rparr>"
    unfolding reads_event_def by blast
  obtain q1 h1 t1 B1 where 1: "clone_cell (EPath c) h = Some (q1, h1)" "h1 = h @ t1"
      "reads_path h1 q1 (EvStepPath ev) B1" "B1 \<subseteq> {length h ..< length h1}"
    using clone_cell_copies [OF ev(1)] by (auto simp: copied_def)
  obtain q2 h2 where 2: "find_iteration p (EvStepPath ev) (EIteration c) h1 = (q2, h2)" by fastforce
  have "reads_int h1 (EIteration c) (EvRepeatIteration ev) A2" using ev(2) 1(2) by (auto intro: reads_again)
  from find_iteration_reads [OF this 2] obtain t2 B2 where 3: "h2 = h1 @ t2"
      "reads_int h2 q2 (EvRepeatIteration (event_out p st ev)) B2"
    by (auto simp: event_out_def)
  obtain q3 h3 t3 B3 where 4: "clone_cell q2 h2 = Some (q3, h3)" "h3 = h2 @ t3"
      "reads_int h3 q3 (EvRepeatIteration (event_out p st ev)) B3" "B3 \<subseteq> {length h2 ..< length h3}"
    using clone_int_copies [OF 3(2)] by (auto simp: copied_def)
  have "reads_cause h3 (ECause c) (EvCause ev) A3" using ev(3) 1(2) 3(1) 4(2) by (auto intro: reads_again)
  then obtain w h4 t4 B4 where 5: "cloneObserverCause (ECause c) h3 = Some (w, h4)" "h4 = h3 @ t4"
      "reads_cause h4 w (EvCause ev) B4" "B4 \<subseteq> {length h3 ..< length h4}"
    using cloneObserverCause_cause [of h3 "ECause c" "EvCause ev" A3] by (auto simp: copied_def)
  let ?c = "\<lparr>Scalars = (Scalars c)\<lparr>EvPipelineName := PName p, EvPipelineVersion := PVersion p, EvRunStatus := Status st\<rparr>,
     EPath = q1, EIteration = q3, ECause = w\<rparr>"
  have "detach p st c h = Some (?c, h4)"
    using 1(1) 2 4(1) 5(1) path_at_reads [OF 1(3)] by (simp add: detach_def)
  moreover have "reads_event h4 ?c (event_out p st ev) (B1 \<union> B3 \<union> B4)"
  proof (rule reads_eventI)
    show "reads_path h4 (EPath ?c) (EvStepPath (event_out p st ev)) B1"
      using 1(3) 3(1) 4(2) 5(2) by (auto simp: event_out_def intro: reads_again)
    show "reads_int h4 (EIteration ?c) (EvRepeatIteration (event_out p st ev)) B3"
      using reads_int_same [OF 4(3), of h4] 5(2) by simp
    show "reads_cause h4 (ECause ?c) (EvCause (event_out p st ev)) B4" using 5(3) by (simp add: event_out_def)
    show "Scalars ?c = (event_out p st ev)\<lparr>EvStepPath := [], EvRepeatIteration := None, EvCause := None\<rparr>"
      using ev(4) by (simp add: event_out_def)
  qed
  moreover have "h4 = h @ t1 @ t2 @ t3 @ t4" "B1 \<union> B3 \<union> B4 \<subseteq> {length h ..< length h4}"
    using 1(2,4) 3(1) 4(2,4) 5(2,4) by auto
  ultimately show ?thesis unfolding copied_def by blast
qed

text \<open>C13. Whatever event the executor builds, \<open>observe\<close> hands over a copy: it stands for the event the
  value-level \<open>observe\<close> delivers, every struct, path and counter it goes through down to the first opaque
  error is a new cell, and after any writes of the observer to those cells the executor's own event and
  error read as before. In particular the copy of an error always ends.\<close>

theorem observer_cannot_touch_executor:
  assumes "reads_event h c ev A"
  shows "\<exists>c' h' A'. detach p st c h = Some (c', h') \<and> reads_event h' c' (event_out p st ev) A' \<and>
    A' \<inter> {..<length h} = {} \<and> (\<forall>h2. mutates A' h' h2 \<longrightarrow> reads_event h2 c ev A)"
proof -
  obtain c' h' t A' where d: "detach p st c h = Some (c', h')" "h' = h @ t"
      "reads_event h' c' (event_out p st ev) A'" "A' \<subseteq> {length h ..< length h'}"
    using detach_copies [OF assms, of p st] by (auto simp: copied_def)
  have "reads_event h2 c ev A" if "mutates A' h' h2" for h2
  proof (rule reads_event_same [OF assms])
    from d(4) have "a \<notin> A'" if "a < length h" for a using that by auto
    with mutates_elsewhere [OF that] d(2) show "same_cells h h2"
      by (auto simp: same_cells_def load_def nth_append split: if_splits)
  qed
  with d show ?thesis by (intro exI [where x = c'] exI [where x = h'] exI [where x = A']) auto
qed

definition sample_causes :: eheap where
  "sample_causes = [CStrings [''a''], COpaque (KNew ''boom'') [], CStepFailed ''a'' (Some 0) (IPtr 1)]"

definition sample_cause_event :: event_cell where
  "sample_cause_event = \<lparr>Scalars = Ev EventStepFailed [] 1 None 0 ''step'' None, EPath = Some 0, EIteration = None,
     ECause = IPtr 2\<rparr>"

definition sample_event :: event where
  "sample_event = Ev EventStepFailed [''a''] 1 None 0 ''step'' (Some (ErrStepFailed ''a'' [''a''] (ErrNew ''boom'')))"

definition no_steps :: "(string, nat) pipeline" where
  "no_steps = \<lparr>PName = ''p'', PSteps = [], PVersion = 1, PMinResumeVersion = None\<rparr>"

lemma observer_cannot_touch_executor_witness:
  "\<exists>c' h' A'. detach no_steps zero_run_state sample_cause_event sample_causes = Some (c', h') \<and>
     reads_event h' c' (event_out no_steps zero_run_state sample_event) A' \<and> A' \<inter> {..<3} = {}"
proof -
  let ?h = sample_causes
  have p: "reads_path ?h (Some 0) [''a''] {0}"
    by (rule reads_path.at_path) (simp add: sample_causes_def load_def)
  have o': "reads ?h (IPtr 1) (ErrNew ''boom'') {}"
    by (rule reads.new) (simp add: sample_causes_def load_def)
  have c: "reads ?h (IPtr 2) (ErrStepFailed ''a'' [''a''] (ErrNew ''boom'')) (insert 2 ({0} \<union> {}))"
    by (rule reads.step_failed [OF _ p o']) (simp add: sample_causes_def load_def)
  have "reads_event ?h sample_cause_event sample_event ({0} \<union> {} \<union> insert 2 ({0} \<union> {}))"
    by (rule reads_eventI)
      (use p c in \<open>simp_all add: sample_cause_event_def sample_event_def Ev_def reads_int.nil_int reads_cause.some_cause\<close>)
  from observer_cannot_touch_executor [OF this, of no_steps zero_run_state]
  moreover have "length ?h = 3" by (simp add: sample_causes_def)
  ultimately show ?thesis by metis
qed

text \<open>Below an opaque error nothing is copied, so that \<open>errors.Is\<close> still finds the callback's own error. An
  error of the pipeline's types that a callback returns, say from a run of its own, is wrapped by the
  executor's \<open>fmt.Errorf\<close> and stays one cell, which the executor's error and the observer's copy both reach:
  a write to it changes both.\<close>

definition wrapped_limit :: eheap where
  "wrapped_limit = [CRepeatLimit ''inner'' 3, COpaque (KErrorf ''decide: ...'') [IPtr 0], CStepFailed ''route'' None (IPtr 1)]"

lemma opaque_cause_is_shared: "load h a = Some (COpaque k vs) \<Longrightarrow> cloneObserverCause (IPtr a) h = Some (IPtr a, h)"
  by (subst cloneObserverCause.simps) simp

lemma wrapped_cause_is_shared:
  "cloneObserverCause (IPtr 2) wrapped_limit = Some (IPtr 3, wrapped_limit @ [CStepFailed ''route'' None (IPtr 1)])"
  by (subst cloneObserverCause.simps)
    (simp add: opaque_cause_is_shared wrapped_limit_def load_def clone_cell_def alloc_def)

lemma wrapped_cause_reads:
  "reads (wrapped_limit[0 := CRepeatLimit ''inner'' k]) (IPtr 2)
     (ErrStepFailed ''route'' [] (Errorf ''decide: ...'' [ErrRepeatLimit ''inner'' k])) {2}"
proof -
  let ?h = "wrapped_limit[0 := CRepeatLimit ''inner'' k]"
  have "reads ?h (IPtr 0) (ErrRepeatLimit ''inner'' k) {0}"
    by (rule reads.repeat_limit) (simp add: wrapped_limit_def load_def)
  then have "reads ?h (IPtr 1) (Errorf ''decide: ...'' [ErrRepeatLimit ''inner'' k]) {}"
    by (intro reads.errorf) (auto simp: wrapped_limit_def load_def)
  from reads.step_failed [OF _ reads_path.nil_path this, of 2 "''route''"] show ?thesis
    by (simp add: wrapped_limit_def load_def)
qed

end
