(* ===== verification/Pipeline_Cancel.thy ===== *)
theory Pipeline_Cancel
  imports Pipeline_Resolve
begin

text \<open>
  A run that is cancelled inside a Branch or a Repeat, resumed on the state it returned. On the way out
  every enclosing \<open>executeSteps\<close> overwrites \<open>CurrentPath\<close> with its own, shallower path, so the
  returned state no longer says where in the Branch or Repeat the run was. Two runs are evaluated: the
  resumed run skips the rest of a Branch, and repeats the completed steps of a Repeat. For a Branch this
  is then proved of every run.
\<close>

definition two_step_branch :: "(string, nat) pipeline" where
  "two_step_branch = mk_pipeline
     [Branch ''route'' (Some (\<lambda>d w. ((''fast'', None), d, Suc w)))
        [(''fast'', [Action ''first'' ok_action [], Action ''second'' ok_action []])] [],
      Action ''final'' ok_action []]"

definition two_step_repeat :: "(string, nat) pipeline" where
  "two_step_repeat = mk_pipeline
     [Repeat ''rounds'' [Action ''first'' ok_action [WithCompensate ok_action], Action ''second'' ok_action []]
        (Some (\<lambda>i d w. ((True, 0, None), d, Suc w))) [],
      Action ''final'' ok_action []]"

fun actions_called :: "eff list \<Rightarrow> path list" where
  "actions_called [] = []"
| "actions_called (DoCalled p e # xs) = p # actions_called xs"
| "actions_called (_ # xs) = actions_called xs"

text \<open>The context is cancelled from tick \<open>t\<close> on in the first run and alive in the second.\<close>

definition cancelled_then_resumed ::
    "(string, nat) pipeline \<Rightarrow> nat \<Rightarrow> ((path list \<times> run_status) \<times> (path list \<times> run_status \<times> path list)) option" where
  "cancelled_then_resumed p t =
     (case Run (sample_env (\<lambda>_. False) (\<lambda>w. w \<ge> t)) p zero_run_state 0 of
        Some (Some e, m) \<Rightarrow>
          (case Run good_env p (rs m) 0 of
             Some (None, m') \<Rightarrow> Some ((actions_called (effs m), Status (rs m)),
               (actions_called (effs m'), Status (rs m'), map Path (CompletedSteps (rs m'))))
           | _ \<Rightarrow> None)
      | _ \<Rightarrow> None)"

text \<open>Cancelled after the first of two actions of a branch path, the resumed run completes the pipeline
  without ever calling the second.\<close>

lemma cancelled_branch_skips_steps:
  "cancelled_then_resumed two_step_branch 8 =
     Some (([[''route'', ''fast'', ''first'']], RunStatusRunning),
       ([[''final'']], RunStatusCompleted, [[''route''], [''route'', ''fast'', ''first''], [''final'']]))"
  by code_simp

text \<open>Cancelled after the first of two actions of an iteration, the resumed run calls it again and records it
  twice, so that a later compensation would call its compensator twice.\<close>

lemma cancelled_repeat_repeats_steps:
  "cancelled_then_resumed two_step_repeat 4 =
     Some (([[''rounds'', ''0'', ''first'']], RunStatusRunning),
       ([[''rounds'', ''0'', ''first''], [''rounds'', ''0'', ''second''], [''final'']], RunStatusCompleted,
        [[''rounds'', ''0'', ''first''], [''rounds'', ''0'', ''first''], [''rounds'', ''0'', ''second''], [''rounds''],
         [''final'']]))"
  by code_simp

section \<open>Where a cancelled run points\<close>

lemma ErrNew_simps [simp]:
  "\<not> is_snapshot_failed (ErrNew t)" "\<not> isDeferred (ErrNew t)" "as_type sel_step_failed (ErrNew t) = None"
  "\<not> errors_is (ErrNew t) ErrNoCompensate"
  by (simp_all add: is_snapshot_failed_def as_type_def isDeferred_iff errors_is_iff)

lemma normalize_retry_ErrNew: "normalize_retry e = ErrNew t \<Longrightarrow> e = ErrNew t"
  by (cases e) (auto simp: normalize_retry_def Let_def split: if_splits)

text \<open>Storing the data can fail only with an error that wraps that of \<open>json.Marshal\<close>, a snapshot only with
  \<open>ErrSnapshotFailed\<close>; neither moves the state.\<close>

lemma marshal_keys_error: "marshal_keys f d ks acc = Inl e \<Longrightarrow> e \<noteq> ErrNew t"
  by (induction ks arbitrary: acc) (auto simp: errorf_wrap_def split: option.splits dval.splits sum.splits)

lemma save_data_cases:
  assumes "save_data env m = Some (x, m')"
  obtains (stored) mp where "x = None" "m' = m\<lparr>rs := (rs m)\<lparr>Data := Some mp\<rparr>\<rparr>"
    | (refused) e where "x = Some e" "\<And>t. e \<noteq> ErrNew t" "m' = m"
  using assms marshal_keys_error [of "jsonMarshal env" "store m" "rangeData env (store m)" Mapping.empty]
  by (auto simp: save_data_def bnd_Some_iff seqm_Some_iff marshalData_def split: sum.splits)

lemma snapshot_result:
  assumes "snapshot env p op m = Some (x, m')"
  shows "(\<exists>v. rs m' = (rs m)\<lparr>Revision := v\<rparr>) \<and> (x = None \<or> (\<exists>e. x = Some (ErrSnapshotFailed op e)))"
proof (cases "snapshotFn env = None \<and> casSnapshotFn env = None")
  case True
  then have "rs m' = (rs m)\<lparr>Revision := Revision (rs m)\<rparr>" "x = None" using assms by (auto simp: snapshot_def)
  then show ?thesis by blast
next
  case False
  obtain t m1 where t: "(if observer env \<noteq> None then now env else ret 0) m = Some (t, m1)" and run: "on_err (call_snapshot env op)
      (\<lambda>e. let e' = ErrSnapshotFailed op e in
         seqm (observe_snapshot env p EventSnapshotFailed t op (Some e')) (ret (Some e')))
      (seqm (observe_snapshot env p EventSnapshotSucceeded t op None) (ret None)) m1 = Some (x, m')"
    using assms unfolding snapshot_def if_not_P [OF False] bnd_Some_iff by blast
  have m1: "rs m1 = rs m" using t by (auto simp: now_Some_iff split: if_splits)
  from run obtain y m2 where m: "call_snapshot env op m1 = Some (y, m2)" and
    rest: "(case y of
        Some e \<Rightarrow> seqm (observe_snapshot env p EventSnapshotFailed t op (Some (ErrSnapshotFailed op e)))
                    (ret (Some (ErrSnapshotFailed op e)))
      | None \<Rightarrow> seqm (observe_snapshot env p EventSnapshotSucceeded t op None) (ret None)) m2 = Some (x, m')"
    by (auto simp: on_err_Some_iff Let_def)
  from rest have "rs m' = rs m2" "x = None \<or> (\<exists>e. x = Some (ErrSnapshotFailed op e))"
    by (auto simp: seqm_Some_iff world_only_def dest!: keepsD [OF observe_snapshot_world_only] split: option.splits)
  moreover have "\<exists>v. rs m2 = (rs m)\<lparr>Revision := v\<rparr>"
    using m1 call_snapshot_SomeD [OF m] by (cases y) (auto intro: exI [of _ "Revision (rs m)"])
  ultimately show ?thesis by simp
qed

lemma cancel_at_path: "cancel_at env p q ce m = Some (r, m') \<Longrightarrow> CurrentPath (rs m') = q"
  by (auto simp: cancel_at_def set_path_def seqm_Some_iff dest!: observe_run_effs)

lemma start_compensation_status:
  assumes run: "start_compensation env p q e m = Some (r, m')"
  shows "Status (rs m') \<noteq> RunStatusRunning"
proof -
  let ?m = "m\<lparr>rs := (rs m)\<lparr>Error := err_text e, FailedStepPath := q, Status := RunStatusCompensating,
      CompensationIndex := int (length (CompletedSteps (rs m))) - 1,
      RepeatTimeout := (case as_type sel_repeat_timeout e of
          Some (n, d) \<Rightarrow> Some \<lparr>TimeoutStepName = n, TimeoutMaxDuration = d\<rparr>
        | None \<Rightarrow> RepeatTimeout (rs m))\<rparr>\<rparr>"
  have "comp_progress p (CompletedSteps (rs ?m)) (remaining p (rs ?m)) ?m r m'"
    by (rule start_compensation_progress
        [where k = "if as_type sel_repeat_timeout e \<noteq> None then fail e else ret None"])
      (use run in \<open>auto simp: start_compensation_def seqm_Some_iff split: if_splits\<close>)
  then show ?thesis by (auto simp: comp_progress_def)
qed

text \<open>An error of the context that leaves a scope of a run that still runs: the state points at the step of
  this scope, wherever in that step the run was.\<close>

lemma handled_cancellation:
  assumes run: "handle_step_error env p q e m = Some (Some (ErrNew t), m')" and st: "Status (rs m') = RunStatusRunning"
  shows "CurrentPath (rs m') = q"
proof -
  have e: "\<not> is_snapshot_failed e" "\<not> isDeferred e"
    using run by (auto simp: handle_step_error_def dest!: normalize_retry_ErrNew [OF sym] split: if_splits)
  then obtain c m1 where c: "ctx_err env m = Some (c, m1)" and rest: "(case c of
      Some ce \<Rightarrow> on_err (save_data env) fail (cancel_at env p q ce)
    | None \<Rightarrow> bnd get_rs (\<lambda>st.
           if Status st \<noteq> RunStatusRunning then fail e
           else if (case as_type sel_step_failed e of
                      Some (n, q', e') \<Rightarrow> length q' > length q | None \<Rightarrow> False) then fail e
           else if errors_is e ErrNoCompensate then fail_without_compensation env p q e
           else start_compensation env p q e)) m1 = Some (Some (ErrNew t), m')"
    using run by (auto simp: handle_step_error_def on_err_Some_iff)
  show ?thesis
  proof (cases c)
    case (Some ce)
    then obtain x m2 where "save_data env m1 = Some (x, m2)"
      "(case x of Some e \<Rightarrow> fail e | None \<Rightarrow> cancel_at env p q ce) m2 = Some (Some (ErrNew t), m')"
      using rest by (auto simp: on_err_Some_iff)
    then show ?thesis by (cases rule: save_data_cases) (auto dest: cancel_at_path)
  next
    case None
    have "fail_without_compensation env p q e m1 = Some (Some (ErrNew t), m') \<Longrightarrow> e = ErrNew t"
      by (auto simp: fail_without_compensation_def on_err_Some_iff seqm_Some_iff
          elim!: save_data_cases dest!: snapshot_result split: option.splits)
    with rest None st start_compensation_status [of env p q e m1] show ?thesis
      by (auto simp: bnd_Some_iff split: if_splits)
  qed
qed

lemma cancelled_loop_path:
  "steps_loop env p rec pa resume first ss m = Some (Some (ErrNew t), m') \<Longrightarrow> Status (rs m') = RunStatusRunning \<Longrightarrow>
     \<exists>s \<in> set ss. CurrentPath (rs m') = pa @ [StepName s]"
proof (induction ss arbitrary: first m)
  case (Cons s ss)
  consider (rest) f n where "steps_loop env p rec pa resume f ss n = Some (Some (ErrNew t), m')"
    | (top) ce n where "cancel_at env p (pa @ [StepName s]) ce n = Some (Some (ErrNew t), m')"
    | (step) e n where "handle_step_error env p (pa @ [StepName s]) e n = Some (Some (ErrNew t), m')"
    using Cons.prems(1)
    by (auto simp: bnd_Some_iff on_err_Some_iff seqm_Some_iff Let_def split: if_splits option.splits)
  then show ?case
    using Cons.IH [OF _ Cons.prems(2)] handled_cancellation [OF _ Cons.prems(2)]
    by cases (auto dest: cancel_at_path)
qed simp

section \<open>Callbacks outside a step\<close>

definition calls_outside :: "string \<Rightarrow> ('v, 'w) mach \<Rightarrow> ('v, 'w) mach \<Rightarrow> bool" where
  "calls_outside n m m' \<longleftrightarrow>
     (\<exists>new. effs m' = effs m @ new \<and> (\<forall>c \<in> set new. \<forall>q. step_call c = Some q \<longrightarrow> hd q \<noteq> n))"

lemma calls_outsideI:
  "effs m' = effs m @ new \<Longrightarrow> (\<forall>c \<in> set new. \<forall>q. step_call c = Some q \<longrightarrow> hd q \<noteq> n) \<Longrightarrow> calls_outside n m m'"
  unfolding calls_outside_def by blast

lemma calls_outside_quiet: "effs m' = effs m \<Longrightarrow> calls_outside n m m'"
  by (rule calls_outsideI [of _ _ "[]"]) simp_all

lemma calls_outside_trans: "calls_outside n s t \<Longrightarrow> calls_outside n t u \<Longrightarrow> calls_outside n s u"
  unfolding calls_outside_def by fastforce

interpretation co: run_property "calls_outside n" env p "\<lambda>e m m'. is_snapshot_failed e \<and> calls_outside n m m'"
  "\<lambda>q s. q \<noteq> [] \<and> hd q \<noteq> n" for n env p
proof unfold_locales
  fix m m' :: "('a, 'b) mach" and op
  show "calls_outside n s t \<Longrightarrow> calls_outside n t u \<Longrightarrow> calls_outside n s u" for s t u :: "('a, 'b) mach"
    by (rule calls_outside_trans)
  show "calls_outside n m m'" if "call_snapshot env op m = Some (None, m')"
    using call_snapshot_SomeD [OF that] by (auto intro: calls_outsideI)
  show "is_snapshot_failed (ErrSnapshotFailed op e) \<and> calls_outside n m m'"
    if "call_snapshot env op m = Some (Some e, m')" for e
    using call_snapshot_SomeD [OF that] by (auto intro: calls_outsideI [of _ _ "[SnapshotErr op]"])
  show "calls_outside n m (m\<lparr>store := d, world := w, effs := effs m @ [c]\<rparr>)"
    if "\<And>q. step_call c = Some q \<Longrightarrow> \<exists>s :: ('a, 'b) step. q \<noteq> [] \<and> hd q \<noteq> n" for c d w
    using that by (intro calls_outsideI [of _ _ "[c]"]) auto
  show "is_snapshot_failed e \<and> calls_outside n m (m'\<lparr>world := u\<rparr>)"
    if "is_snapshot_failed e \<and> calls_outside n m m'" for e u
    using that by (auto simp: calls_outside_def)
qed (auto simp: placed_def intro: calls_outside_quiet calls_outside_trans)

lemma co_keeps: "co.safe n m \<Longrightarrow> keeps (calls_outside n) m"
  by (rule co.safe_imp_keeps) simp_all

text \<open>The version handling calls no step, and compensation none either.\<close>

lemma admit_outside: "admit env p m = Some (r, m') \<Longrightarrow> calls_outside n m m'"
proof -
  assume m: "admit env p m = Some (r, m')"
  have "calls_outside n m m' \<or> (\<exists>e. r = Some (Some e) \<and> is_snapshot_failed e \<and> calls_outside n m m')"
    by (rule co.safe_admit [OF _ co.safe_migrate m]) (simp_all add: calls_outside_quiet)
  then show ?thesis by blast
qed

text \<open>Unlike \<open>safe_run_admitted\<close>, for a list of steps behind the step \<open>n\<close>.\<close>

lemma steps_outside:
  assumes "n \<notin> StepName ` set ss"
  shows "keeps (calls_outside n) (steps_loop env p (executeSteps env p) [] resume first ss)"
proof (rule co_keeps, rule co.safe_steps_loop)
  show "placed (\<lambda>q s. q \<noteq> [] \<and> hd q \<noteq> n) ss []" using assms by (auto simp: placed_def)
  show "co.runs n (executeSteps env p) s" if "s \<in> set ss" for s
    unfolding co.runs_def using co.safe_executeSteps by blast
qed

section \<open>A run cancelled inside a Branch, and its resumption\<close>

lemma find_index_split:
  "distinct (map StepName ss) \<Longrightarrow> s \<in> set ss \<Longrightarrow>
     \<exists>pre rest. ss = pre @ s # rest \<and> find_index_from i ss (StepName s) = i + length pre \<and> StepName s \<notin> StepName ` set rest"
proof (induction ss arbitrary: i)
  case (Cons a ss)
  show ?case
  proof (cases "StepName a = StepName s")
    case True
    with Cons.prems have "a # ss = [] @ s # ss" "StepName s \<notin> StepName ` set ss" by (auto simp: image_iff)
    with True show ?thesis by (intro exI [of _ "[]"] exI [of _ ss]) simp
  next
    case False
    with Cons obtain pre rest where "ss = pre @ s # rest" "find_index_from (Suc i) ss (StepName s) = Suc i + length pre"
      "StepName s \<notin> StepName ` set rest" by (metis distinct.simps(2) list.simps(9) set_ConsD)
    with False show ?thesis by (intro exI [of _ "a # pre"] exI [of _ rest]) simp
  qed
qed simp

text \<open>\<open>Run\<close> after admission, up to the step loop.\<close>

lemma run_admitted_cases:
  assumes run: "run_admitted env p u = Some (r, m)"
  obtains (canceled) ce where "r = Some ce" "effs m = effs u"
    | (compensating) "Status (rs u) = RunStatusCompensating"
    | (refused) op e where "r = Some (ErrSnapshotFailed op e)" "\<And>n. calls_outside n u m"
    | (steps) m1 m2 x where "Status (rs u) \<noteq> RunStatusCompensating"
        "\<exists>d v. rs m1 = (rs u)\<lparr>Status := RunStatusRunning, Data := d, Revision := v\<rparr>" "\<And>n. calls_outside n u m1"
        "executeSteps env p (PSteps p) (findTopLevelIndex (PSteps p) (CurrentPath (rs u))) [] m1 = Some (x, m2)"
        "(case x of Some e \<Rightarrow> fail e | None \<Rightarrow> complete_run env p) m2 = Some (r, m)"
proof -
  obtain c mr m0 where mr: "restore_store u = Some ((), mr)" and c: "ctx_err env mr = Some (c, m0)" and rest: "(case c of Some ce \<Rightarrow> run_canceled env p ce | None \<Rightarrow>
      bnd get_rs (\<lambda>st. if Status st = RunStatusCompensating then resume_compensation env p else run_steps env p)) m0
        = Some (r, m)"
    using run by (auto simp: run_admitted_def seqm_Some_iff on_err_Some_iff)
  have m0: "rs m0 = rs u" "effs m0 = effs u" using mr c by (auto simp: restore_store_def ctx_err_Some_iff)
  show ?thesis
  proof (cases c)
    case (Some ce)
    with rest m0 show ?thesis
      by (intro canceled [of ce]) (auto simp: run_canceled_def seqm_Some_iff dest!: observe_run_effs)
  next
    case None
    show ?thesis
    proof (cases "Status (rs u) = RunStatusCompensating")
      case False
      let ?op = "if Status (rs u) \<noteq> RunStatusRunning then ''transition to running'' else ''resume execution''"
      let ?steps = "executeSteps env p (PSteps p) (findTopLevelIndex (PSteps p) (CurrentPath (rs u))) []"
      have "run_steps env p m0 = Some (r, m)" using rest None False m0(1) by (simp add: bnd_get_rs)
      then obtain d y m1 where y: "snapshot env p ?op (m0\<lparr>rs := (rs u)\<lparr>Status := RunStatusRunning, Data := d\<rparr>\<rparr>) = Some (y, m1)"
        and k: "(case y of Some e \<Rightarrow> fail e | None \<Rightarrow> on_err ?steps fail (complete_run env p)) m1 = Some (r, m)"
        using m0(1)
        by (auto simp: run_steps_def bnd_Some_iff seqm_Some_iff on_err_Some_iff set_status_def
            save_data_unchecked_def)
      have out: "calls_outside n u m1" for n
        using keepsD [OF co_keeps [OF co.safe_snapshot] y, of n] m0(2) by (simp add: calls_outside_def)
      from snapshot_result [OF y] obtain v where v: "rs m1 = (rs u)\<lparr>Status := RunStatusRunning, Data := d, Revision := v\<rparr>"
        and y2: "y = None \<or> (\<exists>e. y = Some (ErrSnapshotFailed ?op e))" by auto
      show ?thesis
      proof (cases y)
        case None
        with k obtain x m2 where "?steps m1 = Some (x, m2)" "(case x of Some e \<Rightarrow> fail e | None \<Rightarrow> complete_run env p) m2 = Some (r, m)"
          by (auto simp: on_err_Some_iff)
        with False v out show ?thesis by (intro steps) auto
      next
        case (Some e)
        with y2 obtain e' where "y = Some (ErrSnapshotFailed ?op e')" by blast
        with k out refused [of ?op e'] show ?thesis by simp
      qed
    qed (rule compensating)
  qed
qed

lemma complete_run_error: "complete_run env p m = Some (Some e, m') \<Longrightarrow> e \<noteq> ErrNew t"
  by (auto simp: complete_run_def bnd_Some_iff seqm_Some_iff on_err_Some_iff
      dest!: snapshot_result split: if_splits option.splits)

lemma no_step_called:
  assumes "\<And>n. calls_outside n a m" "effs a = []" "c \<in> set (effs m)"
  shows "step_call c = None"
proof (rule ccontr)
  assume "step_call c \<noteq> None"
  then obtain q where "step_call c = Some q" by blast
  with assms(1) [of "hd q"] assms(2,3) show False by (auto simp: calls_outside_def)
qed

lemma cancelled_run_path:
  assumes run: "Run env p st w = Some (Some (ErrNew t), m)" and st: "Status (rs m) = RunStatusRunning"
    and called: "c \<in> set (effs m)" "step_call c \<noteq> None"
  shows "\<exists>s \<in> set (PSteps p). CurrentPath (rs m) = [StepName s]"
  using run
proof (cases rule: Run_cases)
  case (ended u)
  with no_step_called [OF admit_outside [OF ended(5)] ended(3) called(1)] called(2) show ?thesis by simp
next
  case (admitted a u)
  have quiet: "step_call c = None" if "c \<in> set (effs u)" for c
    by (rule no_step_called [OF admit_outside [OF admitted(5)] admitted(3) that])
  from admitted(6) show ?thesis
  proof (cases rule: run_admitted_cases)
    case (canceled ce)
    with quiet called show ?thesis by auto
  next
    case compensating
    with admitted_compensation_progress [OF admitted(6)] st show ?thesis by (auto simp: comp_progress_def)
  next
    case (steps m1 m2 x)
    have "x = Some (ErrNew t) \<and> m2 = m" using steps(5) complete_run_error [of env p m2 "ErrNew t" m t] by (cases x) auto
    then have "steps_loop env p (executeSteps env p) [] (CurrentPath (rs m1)) True
        (drop (findTopLevelIndex (PSteps p) (CurrentPath (rs u))) (PSteps p)) m1 = Some (Some (ErrNew t), m)"
      using steps(4) by (simp add: executeSteps.simps [of env p "PSteps p"] bnd_Some_iff)
    from cancelled_loop_path [OF this st] show ?thesis by (auto dest: in_set_dropD)
  qed simp
qed (use called in auto)

lemma resumed_behind:
  assumes run: "Run env p st w = Some (r, m)" and mig: "MigratorCalled None \<notin> set (effs m)"
    and st: "Status st = RunStatusRunning" "CurrentPath st = [StepName s]" "isStepCompleted st [StepName s]" and s: "s \<in> set (PSteps p)"
    and c: "c \<in> set (effs m)" "step_call c = Some q"
  shows "hd q \<noteq> StepName s"
  using run
proof (cases rule: Run_cases)
  case (ended u)
  with no_step_called [OF admit_outside [OF ended(5)] ended(3) c(1)] c(2) show ?thesis by simp
next
  case (admitted a u)
  let ?n = "StepName s"
  have "distinct (map StepName (PSteps p))"
    using validated_names_distinct admitted(1) by (auto simp: validate_def validateSteps_def split: if_splits)
  from find_index_split [OF this s, of 0] obtain rest where
    rest: "drop (find_index_from 0 (PSteps p) ?n) (PSteps p) = s # rest" "?n \<notin> StepName ` set rest" by auto
  have "journal_step u m" using admitted(6) by (rule keepsD [OF journal_execution(2)])
  with mig have "MigratorCalled None \<notin> set (effs u)" by (auto simp: journal_step_def)
  note ad = admit_without_migration [OF admitted(5) this]
  have u: "Status (rs u) = RunStatusRunning" "CurrentPath (rs u) = [?n]" "isStepCompleted (rs u) [?n]"
    using ad(2) admitted(4) st by (auto simp: isStepCompleted_def)
  have "calls_outside ?n u m" using admitted(6)
  proof (cases rule: run_admitted_cases)
    case (steps m1 m2 x)
    then have m1: "CurrentPath (rs m1) = [?n]" "isStepCompleted (rs m1) [?n]" using u by (auto simp: isStepCompleted_def)
    have "steps_loop env p (executeSteps env p) [] [?n] False rest m1 = Some (x, m2)"
      using steps(4) u rest m1
      by (simp add: executeSteps.simps [of env p "PSteps p"] findTopLevelIndex_def bnd_def gets_def get_rs_def Let_def)
    then have "calls_outside ?n m1 m2" by (rule keepsD [OF steps_outside [OF rest(2)]])
    moreover have "calls_outside ?n m2 m"
      using steps(5) keepsD [OF co_keeps [OF co.safe_complete_run]]
      by (auto intro: calls_outside_quiet split: option.splits)
    ultimately show ?thesis using steps(3) calls_outside_trans by blast
  qed (use u in \<open>auto intro: calls_outside_quiet\<close>)
  with admit_outside [OF admitted(5)] have "calls_outside ?n a m" by (rule calls_outside_trans)
  with admitted(3) c show ?thesis by (auto simp: calls_outside_def)
qed (use c in auto)

text \<open>C14. A run that returns the error of its context while its state is still running, after a callback of
  a step was called, returns a state that points at a step of the top level, wherever below that step it
  was. If this step is recorded as completed, as a Branch is as soon as it has decided, then no later run
  on that state calls anything of the step: under whatever callbacks, storage and context, unless a
  migrator replaces the state, none of its callbacks that enter, do, check, decide or repeat has a path
  that starts with the step's name. The steps of the chosen path that had not run are never run.\<close>

theorem cancelled_branch_is_passed_over:
  assumes "Run env p st w = Some (Some (ErrNew t), m)" and "Status (rs m) = RunStatusRunning"
    and "c \<in> set (effs m)" and "step_call c \<noteq> None"
  shows "\<exists>s \<in> set (PSteps p). CurrentPath (rs m) = [StepName s] \<and>
    (isStepCompleted (rs m) [StepName s] \<longrightarrow>
      (\<forall>env' w' r m'. Run env' p (rs m) w' = Some (r, m') \<and> MigratorCalled None \<notin> set (effs m') \<longrightarrow>
        (\<forall>c' q. c' \<in> set (effs m') \<and> step_call c' = Some q \<longrightarrow> hd q \<noteq> StepName s)))"
proof -
  obtain s where s: "s \<in> set (PSteps p)" "CurrentPath (rs m) = [StepName s]"
    using cancelled_run_path [OF assms] by blast
  have "hd q \<noteq> StepName s" if "isStepCompleted (rs m) [StepName s]" "Run env' p (rs m) w' = Some (r, m')"
      "MigratorCalled None \<notin> set (effs m')" "c' \<in> set (effs m')" "step_call c' = Some q" for env' w' r m' c' q
    using resumed_behind [OF that(2,3) assms(2) s(2) that(1) s(1) that(4,5)] .
  with s show ?thesis by blast
qed

text \<open>The run of \<^const>\<open>two_step_branch\<close> that is cancelled after the first of the two actions of its path.\<close>

lemma cancelled_branch_is_passed_over_witness:
  "\<exists>m. Run (sample_env (\<lambda>_. False) (\<lambda>w. w \<ge> 8)) two_step_branch zero_run_state 0
       = Some (Some (ErrNew ''context canceled''), m)
     \<and> DoCalled [''route'', ''fast'', ''first''] None \<in> set (effs m) \<and> CurrentPath (rs m) = [''route'']
     \<and> (\<exists>r m'. Run good_env two_step_branch (rs m) 0 = Some (r, m')
          \<and> DoCalled [''route'', ''fast'', ''second''] None \<notin> set (effs m'))"
proof -
  let ?run = "Run (sample_env (\<lambda>_. False) (\<lambda>w. w \<ge> 8)) two_step_branch zero_run_state 0"
  let ?c = "DoCalled [''route'', ''fast'', ''first''] None" and ?c' = "DoCalled [''route'', ''fast'', ''second''] None"
  have "map_option (\<lambda>x. fst x = Some (ErrNew ''context canceled'') \<and> Status (rs (snd x)) = RunStatusRunning
      \<and> List.member (effs (snd x)) ?c \<and> CurrentPath (rs (snd x)) = [''route'']
      \<and> isStepCompleted (rs (snd x)) [''route'']
      \<and> map_option (\<lambda>y. List.member (effs (snd y)) (MigratorCalled None)) (Run good_env two_step_branch (rs (snd x)) 0)
          = Some False) ?run = Some True" by code_simp
  then obtain m where m: "?run = Some (Some (ErrNew ''context canceled''), m)" "Status (rs m) = RunStatusRunning"
    "?c \<in> set (effs m)" and path: "CurrentPath (rs m) = [''route'']" and completed: "isStepCompleted (rs m) [''route'']"
    and again: "map_option (\<lambda>y. List.member (effs (snd y)) (MigratorCalled None)) (Run good_env two_step_branch (rs m) 0)
      = Some False"
    by (auto simp del: fun_upd_apply)
  from again obtain r m' where m': "Run good_env two_step_branch (rs m) 0 = Some (r, m')"
    "MigratorCalled None \<notin> set (effs m')" by auto
  have "hd q \<noteq> ''route''" if "c' \<in> set (effs m')" "step_call c' = Some q" for c' q
    using cancelled_branch_is_passed_over [OF m] path completed m' that by auto
  from this [of ?c' "[''route'', ''fast'', ''second'']"] have "?c' \<notin> set (effs m')" by auto
  with m path m'(1) show ?thesis by blast
qed

end
