(* ===== verification/Go_Fmt.thy ===== *)
theory Go_Fmt
  imports Go_Time
begin

text \<open>
  \<open>fmt.Sprintf\<close> (\<open>doPrintf\<close>, \<open>printArg\<close>, \<open>badVerb\<close> of Go's \<open>fmt\<close>) for the arguments the modelled packages
  log: strings, integers, booleans, durations, errors and paths. Flags, widths, argument indexes and the
  number formats other than decimal are left out: the result is \<open>None\<close> for a format that uses them. A
  missing argument, an unexpected one, a wrong verb and a \<open>%\<close> at the end are formatted as Go does.
\<close>

section \<open>Arguments\<close>

datatype arg =
    ANil
  | AString string
  | AInt int
  | ABool bool
  | ADuration int
  | AError string string
  | AStrings "string list"

text \<open>\<open>AError ty text\<close> is an error of dynamic type \<open>ty\<close> whose \<open>Error()\<close> is \<open>text\<close>.\<close>

fun type_name :: "arg \<Rightarrow> string" where
  "type_name ANil = ''<nil>''"
| "type_name (AString _) = ''string''"
| "type_name (AInt _) = ''int''"
| "type_name (ABool _) = ''bool''"
| "type_name (ADuration _) = ''time.Duration''"
| "type_name (AError ty _) = ty"
| "type_name (AStrings _) = ''[]string''"

definition show_bool :: "bool \<Rightarrow> string" where
  "show_bool b = (if b then ''true'' else ''false'')"

text \<open>The verb \<open>%v\<close>.\<close>

fun show_arg :: "arg \<Rightarrow> string" where
  "show_arg ANil = ''<nil>''"
| "show_arg (AString s) = s"
| "show_arg (AInt i) = itoa i"
| "show_arg (ABool b) = show_bool b"
| "show_arg (ADuration d) = duration_string d"
| "show_arg (AError _ text) = text"
| "show_arg (AStrings xs) = show_strings xs"

text \<open>\<open>%!verb(type=value)\<close>; the value is printed without its methods.\<close>

definition bad_verb :: "char \<Rightarrow> arg \<Rightarrow> string option" where
  "bad_verb v a =
     (case a of
        ANil \<Rightarrow> Some (''%!'' @ [v] @ ''(<nil>)'')
      | AError _ _ \<Rightarrow> None
      | ADuration d \<Rightarrow> Some (''%!'' @ [v] @ ''(time.Duration='' @ itoa d @ '')'')
      | _ \<Rightarrow> Some (''%!'' @ [v] @ ''('' @ type_name a @ ''='' @ show_arg a @ '')''))"

definition print_arg :: "char \<Rightarrow> arg \<Rightarrow> string option" where
  "print_arg v a =
     (if v = CHR ''T'' then Some (type_name a)
      else if v = CHR ''p'' then None
      else case a of
             ANil \<Rightarrow> if v = CHR ''v'' then Some (show_arg a) else bad_verb v a
           | AString s \<Rightarrow>
               if v = CHR ''v'' \<or> v = CHR ''s'' then Some s
               else if v = CHR ''q'' then Some (go_quote s)
               else if v = CHR ''x'' \<or> v = CHR ''X'' then None
               else bad_verb v a
           | AInt i \<Rightarrow>
               if v = CHR ''v'' \<or> v = CHR ''d'' then Some (itoa i)
               else if v \<in> set ''boOxXcqU'' then None
               else bad_verb v a
           | ABool b \<Rightarrow> if v = CHR ''v'' \<or> v = CHR ''t'' then Some (show_bool b) else bad_verb v a
           | ADuration d \<Rightarrow>
               if v = CHR ''v'' \<or> v = CHR ''s'' then Some (duration_string d)
               else if v = CHR ''q'' then Some (go_quote (duration_string d))
               else if v = CHR ''d'' then Some (itoa d)
               else if v \<in> set ''boOxXcU'' then None
               else bad_verb v a
           | AError _ text \<Rightarrow>
               if v = CHR ''v'' \<or> v = CHR ''s'' then Some text
               else if v = CHR ''q'' then Some (go_quote text)
               else None
           | AStrings xs \<Rightarrow>
               if v = CHR ''v'' \<or> v = CHR ''s'' then Some (show_strings xs)
               else if v = CHR ''q'' then Some (show_strings (map go_quote xs))
               else None)"

section \<open>The format\<close>

text \<open>Arguments no verb took.\<close>

definition show_extra :: "arg \<Rightarrow> string" where
  "show_extra a = (if a = ANil then ''<nil>'' else type_name a @ ''='' @ show_arg a)"

definition extra_args :: "arg list \<Rightarrow> string" where
  "extra_args args = (if args = [] then '''' else ''%!(EXTRA '' @ join '', '' (map show_extra args) @ '')'')"

text \<open>Characters after \<open>%\<close> that start a flag, a width, a precision or an argument index, and bytes of
  a longer character.\<close>

definition unmodelled_verb :: "char \<Rightarrow> bool" where
  "unmodelled_verb v \<longleftrightarrow> v \<in> set ''#+- .*['' \<or> digit_of v \<noteq> None \<or> (of_char v :: nat) \<ge> 128"

fun sprintf :: "string \<Rightarrow> arg list \<Rightarrow> string option" where
  "sprintf [] args = Some (extra_args args)"
| "sprintf (c # cs) args =
     (if c \<noteq> CHR ''%'' then map_option ((#) c) (sprintf cs args)
      else case cs of
             [] \<Rightarrow> Some (''%!(NOVERB)'' @ extra_args args)
           | v # rest \<Rightarrow>
               if v = CHR ''%'' then map_option ((#) v) (sprintf rest args)
               else if unmodelled_verb v then None
               else case args of
                      [] \<Rightarrow> map_option ((@) (''%!'' @ [v] @ ''(MISSING)'')) (sprintf rest [])
                    | a # as \<Rightarrow>
                        Option.bind (print_arg v a) (\<lambda>s. map_option ((@) s) (sprintf rest as)))"

declare sprintf.simps [simp del]

lemmas sprintf_eval = sprintf.simps print_arg_def bad_verb_def unmodelled_verb_def digit_of_def show_bool_def

section \<open>Formats that take their arguments\<close>

text \<open>\<open>fits f args\<close>: the format is complete and its verbs take exactly these arguments.\<close>

fun fits :: "string \<Rightarrow> arg list \<Rightarrow> bool" where
  "fits [] args = (args = [])"
| "fits (c # cs) args =
     (if c \<noteq> CHR ''%'' then fits cs args
      else case cs of
             [] \<Rightarrow> False
           | v # rest \<Rightarrow>
               if v = CHR ''%'' then fits rest args
               else \<not> unmodelled_verb v \<and> (case args of [] \<Rightarrow> False | a # as \<Rightarrow> fits rest as))"

lemma sprintf_Nil [simp]: "sprintf '''' args = Some (extra_args args)"
  by (simp add: sprintf.simps)

lemma extra_args_Nil [simp]: "extra_args [] = ''''"
  by (simp add: extra_args_def)

text \<open>Such a format can be followed by another one with its arguments.\<close>

lemma sprintf_append:
  "fits f args \<Longrightarrow> sprintf (f @ g) (args @ more) =
     Option.bind (sprintf f args) (\<lambda>s. map_option ((@) s) (sprintf g more))"
proof (induction f args rule: fits.induct)
  case (1 args)
  then show ?case by (cases "sprintf g more") simp_all
next
  case (2 c cs args)
  show ?case
  proof (cases "c = CHR ''%''")
    case False
    with 2 show ?thesis
      by (cases "sprintf cs args"; cases "sprintf g more") (simp_all add: sprintf.simps(2) [of c])
  next
    case c: True
    with 2 obtain v rest where cs: "cs = v # rest" by (auto split: list.splits)
    show ?thesis
    proof (cases "v = CHR ''%''")
      case True
      with 2 c cs show ?thesis
        by (cases "sprintf rest args"; cases "sprintf g more") (simp_all add: sprintf.simps(2) [of "CHR ''%''"])
    next
      case False
      with 2 c cs obtain a as where "args = a # as" "\<not> unmodelled_verb v" "fits rest as"
        by (auto split: list.splits)
      with 2 c cs False show ?thesis
        by (cases "print_arg v a"; cases "sprintf rest as"; cases "sprintf g more")
          (simp_all add: sprintf.simps(2) [of "CHR ''%''"])
    qed
  qed
qed

lemma fits_literal: "CHR ''%'' \<notin> set s \<Longrightarrow> fits s []"
  by (induction s) auto

lemma sprintf_literal: "CHR ''%'' \<notin> set s \<Longrightarrow> sprintf s args = Some (s @ extra_args args)"
  by (induction s) (auto simp: sprintf.simps(2))

lemma sprintf_prefix:
  assumes "CHR ''%'' \<notin> set s"
  shows "sprintf (s @ f) args = map_option ((@) s) (sprintf f args)"
  using sprintf_append [OF fits_literal [OF assms], of f args] sprintf_literal [OF assms, of "[]"] by simp

lemma sprintf_line:
  "fits f args \<Longrightarrow> sprintf (f @ s) args = Option.bind (sprintf f args) (\<lambda>t. map_option ((@) t) (sprintf s []))"
  using sprintf_append [of f args s "[]"] by simp

end
