(* ===== verification/Workflow_State.thy ===== *)
theory Workflow_State
  imports Go_Time
begin

text \<open>
  Package \<open>workflow\<close>, its data: errors and control-flow sentinels (\<open>errors.go\<close>,
  \<open>step_retry_policies.go\<close>), step statuses and step states (\<open>step_status.go\<close>, \<open>step_state.go\<close>),
  the workflow's state (\<open>workflow_state.go\<close>), stages and steps with their options (\<open>stage.go\<close>,
  \<open>step.go\<close>), the workflow's configuration and options (\<open>workflow.go\<close>, \<open>workflow_options.go\<close>), the
  shared variables (\<open>workflow_vars.go\<close>) and snapshots (\<open>snapshot.go\<close>, \<open>workflow_methods.go\<close>).

  A Go \<open>Workflow\<close> is split in two. The record \<open>workflow\<close> is its configuration: stages, hooks and
  settings, which callbacks are taken not to change while the workflow runs. The record \<open>wpub\<close> is
  the data every callback can read and write: the workflow's state, the states of the steps by
  step name (\<open>init\<close> rejects two steps of one name), the variables and the skip-error flag. The
  values of \<open>any\<close> are of type \<open>'v\<close>, the outside world of type \<open>'w\<close>. Instants are nanoseconds
  since Go's zero time.
\<close>

section \<open>Errors\<close>

text \<open>\<open>OtherErr\<close> is an error that wraps nothing, \<open>WrapErr\<close> one with its text and what it wraps.\<close>

datatype werr =
    ErrSkipStep
  | ErrSkipStage
  | ErrBreakStages
  | ErrExitWorkflow
  | ErrSilent
  | ErrNotFound
  | OtherErr string
  | WrapErr string "werr list"

fun werr_text :: "werr \<Rightarrow> string" where
  "werr_text ErrSkipStep = ''skip step''"
| "werr_text ErrSkipStage = ''skip stage''"
| "werr_text ErrBreakStages = ''break stages''"
| "werr_text ErrExitWorkflow = ''exit''"
| "werr_text ErrSilent = ''silent''"
| "werr_text ErrNotFound = ''not found''"
| "werr_text (OtherErr t) = t"
| "werr_text (WrapErr t es) = t"

text \<open>\<open>errors.Is\<close>, the error first: the error itself or, depth first, what it wraps.\<close>

fun werr_is :: "werr \<Rightarrow> werr \<Rightarrow> bool" where
  "werr_is (WrapErr t es) target \<longleftrightarrow> target = WrapErr t es \<or> list_ex (\<lambda>e. werr_is e target) es"
| "werr_is e target \<longleftrightarrow> target = e"

definition SilentError :: "werr option \<Rightarrow> werr option" where
  "SilentError e =
     (case e of
        None \<Rightarrow> None
      | Some e' \<Rightarrow> Some (WrapErr (werr_text ErrSilent @ '': '' @ werr_text e') [ErrSilent, e']))"

definition isControlFlowError :: "werr \<Rightarrow> bool" where
  "isControlFlowError e \<longleftrightarrow>
     werr_is e ErrSkipStep \<or> werr_is e ErrSkipStage \<or> werr_is e ErrBreakStages \<or> werr_is e ErrExitWorkflow"

section \<open>Step statuses and step states\<close>

type_synonym step_status = string

definition StepStatusPending :: step_status where "StepStatusPending = ''pending''"
definition StepStatusProcessing :: step_status where "StepStatusProcessing = ''processing''"
definition StepStatusCompleted :: step_status where "StepStatusCompleted = ''completed''"
definition StepStatusFailed :: step_status where "StepStatusFailed = ''failed''"
definition StepStatusSuspended :: step_status where "StepStatusSuspended = ''suspended''"
definition StepStatusSkipped :: step_status where "StepStatusSkipped = ''skipped''"

lemmas status_defs = StepStatusPending_def StepStatusProcessing_def StepStatusCompleted_def
  StepStatusFailed_def StepStatusSuspended_def StepStatusSkipped_def

definition status_Valid :: "step_status \<Rightarrow> bool" where
  "status_Valid s \<longleftrightarrow>
     s \<in> {StepStatusPending, StepStatusProcessing, StepStatusCompleted, StepStatusFailed,
          StepStatusSuspended, StepStatusSkipped}"

definition AllStepStatuses :: "step_status list" where
  "AllStepStatuses =
     [StepStatusPending, StepStatusProcessing, StepStatusCompleted, StepStatusFailed,
      StepStatusSuspended, StepStatusSkipped]"

lemma AllStepStatuses_valid: "set AllStepStatuses = Collect status_Valid"
  by (auto simp: AllStepStatuses_def status_Valid_def)

record 'v step_state =
  PreviousStage :: "string option"
  PreviousStep :: "string option"
  CurrentStage :: string
  CurrentStep :: string
  SNextStage :: "string option"
  SNextStep :: "string option"
  StartTime :: "int option"
  EndTime :: "int option"
  Status :: step_status
  SError :: string
  Args :: "(string, 'v) gomap"

definition NewStepState :: "'v step_state" where
  "NewStepState =
     \<lparr>PreviousStage = None, PreviousStep = None, CurrentStage = [], CurrentStep = [],
      SNextStage = None, SNextStep = None, StartTime = None, EndTime = None,
      Status = [], SError = [], Args = None\<rparr>"

definition SetPreviousStage :: "'v step_state \<Rightarrow> string \<Rightarrow> 'v step_state" where
  "SetPreviousStage s stage = (if stage \<noteq> [] then s\<lparr>PreviousStage := Some stage\<rparr> else s)"
definition SetPreviousStep :: "'v step_state \<Rightarrow> string \<Rightarrow> 'v step_state" where
  "SetPreviousStep s step = (if step \<noteq> [] then s\<lparr>PreviousStep := Some step\<rparr> else s)"
definition SetCurrentStage :: "'v step_state \<Rightarrow> string \<Rightarrow> 'v step_state" where
  "SetCurrentStage s stage = s\<lparr>CurrentStage := stage\<rparr>"
definition SetCurrentStep :: "'v step_state \<Rightarrow> string \<Rightarrow> 'v step_state" where
  "SetCurrentStep s step = s\<lparr>CurrentStep := step\<rparr>"
definition SetNextStage :: "'v step_state \<Rightarrow> string \<Rightarrow> 'v step_state" where
  "SetNextStage s stage = (if stage \<noteq> [] then s\<lparr>SNextStage := Some stage\<rparr> else s)"
definition SetNextStep :: "'v step_state \<Rightarrow> string \<Rightarrow> 'v step_state" where
  "SetNextStep s step = (if step \<noteq> [] then s\<lparr>SNextStep := Some step\<rparr> else s)"
definition SetStartTime :: "'v step_state \<Rightarrow> int \<Rightarrow> 'v step_state" where
  "SetStartTime s t = (if t \<noteq> 0 then s\<lparr>StartTime := Some t\<rparr> else s)"
definition SetEndTime :: "'v step_state \<Rightarrow> int \<Rightarrow> 'v step_state" where
  "SetEndTime s t = (if t \<noteq> 0 then s\<lparr>EndTime := Some t\<rparr> else s)"
definition SetStatus :: "'v step_state \<Rightarrow> step_status \<Rightarrow> 'v step_state" where
  "SetStatus s status = s\<lparr>Status := status\<rparr>"
definition SetError :: "'v step_state \<Rightarrow> werr option \<Rightarrow> 'v step_state" where
  "SetError s e = s\<lparr>SError := (case e of None \<Rightarrow> [] | Some e' \<Rightarrow> werr_text e')\<rparr>"
definition SetArgs :: "'v step_state \<Rightarrow> (string, 'v) gomap \<Rightarrow> 'v step_state" where
  "SetArgs s args = s\<lparr>Args := args\<rparr>"
definition SetArg :: "'v step_state \<Rightarrow> string \<Rightarrow> 'v \<Rightarrow> 'v step_state" where
  "SetArg s key v = s\<lparr>Args := map_option (Mapping.update key v) (go_make (Args s))\<rparr>"

lemmas step_state_setters = SetPreviousStage_def SetPreviousStep_def SetCurrentStage_def
  SetCurrentStep_def SetNextStage_def SetNextStep_def SetStartTime_def SetEndTime_def
  SetStatus_def SetError_def SetArgs_def SetArg_def

definition clone_state :: "'v step_state \<Rightarrow> 'v step_state" where
  "clone_state s =
     \<lparr>PreviousStage = PreviousStage s, PreviousStep = PreviousStep s, CurrentStage = CurrentStage s,
      CurrentStep = CurrentStep s, SNextStage = SNextStage s, SNextStep = SNextStep s,
      StartTime = StartTime s, EndTime = EndTime s, Status = Status s, SError = SError s,
      Args = Args s\<rparr>"

lemma clone_state_id [simp]: "clone_state s = s"
  by (simp add: clone_state_def)

section \<open>The state of the workflow\<close>

record wf_state =
  IsSuspended :: bool
  IsCompleted :: bool
  IsFailed :: bool
  CustomError :: "string option"
  WError :: string
  NextStage :: string
  NextStep :: string

definition wf_state_zero :: wf_state where
  "wf_state_zero =
     \<lparr>IsSuspended = False, IsCompleted = False, IsFailed = False, CustomError = None,
      WError = [], NextStage = [], NextStep = []\<rparr>"

definition ws_SetSuspended :: "wf_state \<Rightarrow> bool \<Rightarrow> wf_state" where
  "ws_SetSuspended w b = w\<lparr>IsSuspended := b\<rparr>"
definition ws_SetCompleted :: "wf_state \<Rightarrow> bool \<Rightarrow> wf_state" where
  "ws_SetCompleted w b = w\<lparr>IsCompleted := b\<rparr>"
definition ws_SetFailed :: "wf_state \<Rightarrow> bool \<Rightarrow> wf_state" where
  "ws_SetFailed w b = w\<lparr>IsFailed := b\<rparr>"
definition ws_SetCustomError :: "wf_state \<Rightarrow> string option \<Rightarrow> wf_state" where
  "ws_SetCustomError w v = w\<lparr>CustomError := v\<rparr>"
definition ws_SetErrorMsg :: "wf_state \<Rightarrow> string \<Rightarrow> wf_state" where
  "ws_SetErrorMsg w msg = w\<lparr>WError := msg\<rparr>"
definition ws_SetError :: "wf_state \<Rightarrow> werr option \<Rightarrow> wf_state" where
  "ws_SetError w e = (case e of None \<Rightarrow> w | Some e' \<Rightarrow> w\<lparr>WError := werr_text e'\<rparr>)"
definition GoToStage :: "wf_state \<Rightarrow> string \<Rightarrow> wf_state" where
  "GoToStage w ref = w\<lparr>NextStage := ref\<rparr>"
definition GoToStep :: "wf_state \<Rightarrow> string \<Rightarrow> wf_state" where
  "GoToStep w ref = w\<lparr>NextStep := ref\<rparr>"

lemmas wf_state_setters = ws_SetSuspended_def ws_SetCompleted_def ws_SetFailed_def
  ws_SetCustomError_def ws_SetErrorMsg_def ws_SetError_def GoToStage_def GoToStep_def

definition finished :: "wf_state \<Rightarrow> bool" where
  \<comment> \<open>\<open>checkStatus\<close>, whose logging is left out\<close>
  "finished w \<longleftrightarrow> IsCompleted w \<or> IsSuspended w \<or> IsFailed w"

section \<open>What callbacks see\<close>

record 'v wpub =
  WState :: wf_state
  stepStates :: "string \<Rightarrow> 'v step_state option"
  vars :: "(string, 'v) gomap"
  isSkipError :: bool

type_synonym ('v, 'w) callback = "'v wpub \<Rightarrow> 'w \<Rightarrow> werr option \<times> 'v wpub \<times> 'w"

record 'v wsnapshot =
  StepsStates :: "'v step_state list"
  WorkflowState :: wf_state
  SVars :: "(string, 'v) gomap"

definition SetVar :: "'v wpub \<Rightarrow> string \<Rightarrow> 'v \<Rightarrow> 'v wpub" where
  "SetVar w key v = w\<lparr>vars := map_option (Mapping.update key v) (go_make (vars w))\<rparr>"

text \<open>\<open>assert_type\<close> is the type assertion \<open>v.(T)\<close> of the instance.\<close>

definition GetVar :: "('v \<Rightarrow> 't option) \<Rightarrow> 'v wpub \<Rightarrow> string \<Rightarrow> 't option" where
  "GetVar assert_type w key =
     (case go_lookup (vars w) key of None \<Rightarrow> None | Some v \<Rightarrow> assert_type v)"

fun GetArg_in :: "('v \<Rightarrow> 't option) \<Rightarrow> 'v step_state list \<Rightarrow> string \<Rightarrow> string \<Rightarrow> werr + 't" where
  "GetArg_in assert_type [] stepName key = Inl (OtherErr ''step not found'')"
| "GetArg_in assert_type (s # ss) stepName key =
     (if CurrentStep s \<noteq> stepName then GetArg_in assert_type ss stepName key
      else case go_lookup (Args s) key of
             None \<Rightarrow> Inl (WrapErr (''value not found for key '' @ key @ '': '' @ werr_text ErrNotFound) [ErrNotFound])
           | Some v \<Rightarrow> (case assert_type v of
                          None \<Rightarrow> Inl (OtherErr ''type assertion failed'')
                        | Some t \<Rightarrow> Inr t))"

definition GetArg :: "('v \<Rightarrow> 't option) \<Rightarrow> 'v wsnapshot \<Rightarrow> string \<Rightarrow> string \<Rightarrow> werr + 't" where
  "GetArg assert_type sh stepName key =
     (if stepName = [] then Inl (OtherErr ''step is empty'')
      else if key = [] then Inl (OtherErr ''key is empty'')
      else GetArg_in assert_type (StepsStates sh) stepName key)"

section \<open>Stages, steps and the workflow's configuration\<close>

datatype ('v, 'w) retry_policy =
    Linear
  | Backoff
  | CustomPolicy "('v, 'w) callback"

record ('v, 'w) wstep =
  SName :: string
  Kind :: string
  Func :: "('v, 'w) callback option"
  StepArgs :: "'v option"
  Timeout :: int
  MaxRetries :: int
  RetryPolicy :: "('v, 'w) retry_policy option"
  SBeforeFn :: "('v, 'w) callback option"
  SAfterFn :: "('v, 'w) callback option"
  FinishWorkflow :: bool

definition setDefaultValues :: "('v, 'w) wstep \<Rightarrow> ('v, 'w) wstep" where
  "setDefaultValues s =
     (let s = (if Timeout s = 0 then s\<lparr>Timeout := 1 * Second\<rparr> else s);
          s = (if MaxRetries s = 0 then s\<lparr>MaxRetries := 1\<rparr> else s)
      in if RetryPolicy s = None then s\<lparr>RetryPolicy := Some Linear\<rparr> else s)"

type_synonym ('v, 'w) step_option = "('v, 'w) wstep \<Rightarrow> ('v, 'w) wstep"

definition NewStep ::
    "string \<Rightarrow> ('v, 'w) callback option \<Rightarrow> ('v, 'w) step_option list \<Rightarrow> ('v, 'w) wstep \<times> string" where
  "NewStep name fn opts =
     (foldl (\<lambda>s opt. opt s)
        \<lparr>SName = name, Kind = [], Func = fn, StepArgs = None, Timeout = 0, MaxRetries = 0,
         RetryPolicy = None, SBeforeFn = None, SAfterFn = None, FinishWorkflow = False\<rparr> opts, name)"

definition WithStepBeforeFn :: "('v, 'w) callback option \<Rightarrow> ('v, 'w) step_option" where
  "WithStepBeforeFn fn s = s\<lparr>SBeforeFn := fn\<rparr>"
definition WithStepAfterFn :: "('v, 'w) callback option \<Rightarrow> ('v, 'w) step_option" where
  "WithStepAfterFn fn s = s\<lparr>SAfterFn := fn\<rparr>"
definition WithStepTimeout :: "int \<Rightarrow> ('v, 'w) step_option" where
  "WithStepTimeout d s = s\<lparr>Timeout := d\<rparr>"
definition WithStepRetryPolicy :: "('v, 'w) retry_policy option \<Rightarrow> ('v, 'w) step_option" where
  "WithStepRetryPolicy fn s = s\<lparr>RetryPolicy := fn\<rparr>"
definition WithStepMaxRetries :: "int \<Rightarrow> ('v, 'w) step_option" where
  "WithStepMaxRetries r s = s\<lparr>MaxRetries := r\<rparr>"
definition WithStepArgs :: "'v option \<Rightarrow> ('v, 'w) step_option" where
  "WithStepArgs args s = s\<lparr>StepArgs := args\<rparr>"
definition WithStepKind :: "string \<Rightarrow> ('v, 'w) step_option" where
  "WithStepKind k s = s\<lparr>Kind := k\<rparr>"

text \<open>The setters of an existing step (\<open>step_methods.go\<close>).\<close>

definition SetFunc :: "('v, 'w) callback option \<Rightarrow> ('v, 'w) step_option" where
  "SetFunc value s = s\<lparr>Func := value\<rparr>"
definition SetTimeout :: "int \<Rightarrow> ('v, 'w) step_option" where
  "SetTimeout value s = s\<lparr>Timeout := value\<rparr>"
definition SetMaxRetries :: "int \<Rightarrow> ('v, 'w) step_option" where
  "SetMaxRetries value s = s\<lparr>MaxRetries := value\<rparr>"
definition SetRetryPolicy :: "('v, 'w) retry_policy option \<Rightarrow> ('v, 'w) step_option" where
  "SetRetryPolicy value s = s\<lparr>RetryPolicy := value\<rparr>"
definition step_SetBeforeFn :: "('v, 'w) callback option \<Rightarrow> ('v, 'w) step_option" where
  "step_SetBeforeFn value s = s\<lparr>SBeforeFn := value\<rparr>"
definition step_SetAfterFn :: "('v, 'w) callback option \<Rightarrow> ('v, 'w) step_option" where
  "step_SetAfterFn value s = s\<lparr>SAfterFn := value\<rparr>"
definition SetStepFinishWorkflow :: "bool \<Rightarrow> ('v, 'w) step_option" where
  "SetStepFinishWorkflow value s = s\<lparr>FinishWorkflow := value\<rparr>"

record ('v, 'w) wstage =
  StName :: string
  Steps :: "('v, 'w) wstep option list"
  StBeforeFn :: "('v, 'w) callback option"
  StAfterFn :: "('v, 'w) callback option"

type_synonym ('v, 'w) stage_option = "('v, 'w) wstage \<Rightarrow> ('v, 'w) wstage"

definition NewStage :: "string \<Rightarrow> ('v, 'w) stage_option list \<Rightarrow> ('v, 'w) wstage \<times> string" where
  "NewStage name opts =
     (foldl (\<lambda>s opt. opt s) \<lparr>StName = name, Steps = [], StBeforeFn = None, StAfterFn = None\<rparr> opts, name)"

definition WithStageBeforeFn :: "('v, 'w) callback option \<Rightarrow> ('v, 'w) stage_option" where
  "WithStageBeforeFn fn s = s\<lparr>StBeforeFn := fn\<rparr>"
definition WithStageAfterFn :: "('v, 'w) callback option \<Rightarrow> ('v, 'w) stage_option" where
  "WithStageAfterFn fn s = s\<lparr>StAfterFn := fn\<rparr>"
definition WithStageSteps :: "('v, 'w) wstep option list \<Rightarrow> ('v, 'w) stage_option" where
  "WithStageSteps steps s = s\<lparr>Steps := steps\<rparr>"

record ('v, 'w) workflow =
  Name :: string
  Stages :: "('v, 'w) wstage option list"
  BeforeFn :: "('v, 'w) callback option"
  AfterFn :: "('v, 'w) callback option"
  OnFailureFn :: "(werr \<Rightarrow> ('v, 'w) callback) option"
  BeforeAllStepsFn :: "(string \<Rightarrow> string \<Rightarrow> ('v, 'w) callback) option"
  AfterAllStepsFn :: "(string \<Rightarrow> string \<Rightarrow> ('v, 'w) callback) option"
  SnapshotFn :: "('v wsnapshot \<Rightarrow> ('v, 'w) callback) option"
  compensationStageRef :: "string option"
  compensationStepRef :: "string option"
  Debug :: bool
  shutdownTimeout :: int

text \<open>A new workflow and the options, which set the configuration or the public data.\<close>

type_synonym ('v, 'w) workflow_option =
  "('v, 'w) workflow \<times> 'v wpub \<Rightarrow> ('v, 'w) workflow \<times> 'v wpub"

definition wpub_zero :: "'v wpub" where
  "wpub_zero = \<lparr>WState = wf_state_zero, stepStates = (\<lambda>_. None), vars = None, isSkipError = False\<rparr>"

definition workflow_New :: "('v, 'w) workflow_option list \<Rightarrow> ('v, 'w) workflow \<times> 'v wpub" where
  "workflow_New opts =
     foldl (\<lambda>w opt. opt w)
       (\<lparr>Name = [], Stages = [], BeforeFn = None, AfterFn = None, OnFailureFn = None,
         BeforeAllStepsFn = None, AfterAllStepsFn = None, SnapshotFn = None,
         compensationStageRef = None, compensationStepRef = None, Debug = False, shutdownTimeout = 0\<rparr>,
        wpub_zero) opts"

definition WithName :: "string \<Rightarrow> ('v, 'w) workflow_option" where
  "WithName n = apfst (\<lambda>w. w\<lparr>Name := n\<rparr>)"
definition WithDebug :: "bool \<Rightarrow> ('v, 'w) workflow_option" where
  "WithDebug d = apfst (\<lambda>w. w\<lparr>Debug := d\<rparr>)"
definition WithState :: "wf_state \<Rightarrow> ('v, 'w) workflow_option" where
  "WithState s = apsnd (\<lambda>w. w\<lparr>WState := s\<rparr>)"
definition WithBeforeFn :: "('v, 'w) callback option \<Rightarrow> ('v, 'w) workflow_option" where
  "WithBeforeFn fn = apfst (\<lambda>w. w\<lparr>BeforeFn := fn\<rparr>)"
definition WithAfterFn :: "('v, 'w) callback option \<Rightarrow> ('v, 'w) workflow_option" where
  "WithAfterFn fn = apfst (\<lambda>w. w\<lparr>AfterFn := fn\<rparr>)"
definition WithBeforeAllStepsFn ::
    "(string \<Rightarrow> string \<Rightarrow> ('v, 'w) callback) option \<Rightarrow> ('v, 'w) workflow_option" where
  "WithBeforeAllStepsFn fn = apfst (\<lambda>w. w\<lparr>BeforeAllStepsFn := fn\<rparr>)"
definition WithAfterAllStepsFn ::
    "(string \<Rightarrow> string \<Rightarrow> ('v, 'w) callback) option \<Rightarrow> ('v, 'w) workflow_option" where
  "WithAfterAllStepsFn fn = apfst (\<lambda>w. w\<lparr>AfterAllStepsFn := fn\<rparr>)"
definition WithOnFailureFn :: "(werr \<Rightarrow> ('v, 'w) callback) option \<Rightarrow> ('v, 'w) workflow_option" where
  "WithOnFailureFn fn = apfst (\<lambda>w. w\<lparr>OnFailureFn := fn\<rparr>)"
definition wf_WithSnapshotFn :: "('v wsnapshot \<Rightarrow> ('v, 'w) callback) option \<Rightarrow> ('v, 'w) workflow_option" where
  "wf_WithSnapshotFn fn = apfst (\<lambda>w. w\<lparr>SnapshotFn := fn\<rparr>)"
definition WithCompensationStage :: "string \<Rightarrow> string \<Rightarrow> ('v, 'w) workflow_option" where
  "WithCompensationStage stageRef stepRef =
     apfst (\<lambda>w. w\<lparr>compensationStageRef := Some stageRef, compensationStepRef := Some stepRef\<rparr>)"
definition WithShutdownTimeout :: "int \<Rightarrow> ('v, 'w) workflow_option" where
  "WithShutdownTimeout d = apfst (\<lambda>w. w\<lparr>shutdownTimeout := d\<rparr>)"

lemmas workflow_option_defs = WithName_def WithDebug_def WithState_def WithBeforeFn_def
  WithAfterFn_def WithBeforeAllStepsFn_def WithAfterAllStepsFn_def WithOnFailureFn_def
  wf_WithSnapshotFn_def WithCompensationStage_def WithShutdownTimeout_def

text \<open>The setters of \<open>workflow_methods.go\<close> change an existing workflow in the same way.\<close>

definition SetName :: "string \<Rightarrow> ('v, 'w) workflow_option" where
  "SetName name = apfst (\<lambda>w. w\<lparr>Name := name\<rparr>)"
definition SetState :: "wf_state \<Rightarrow> ('v, 'w) workflow_option" where
  "SetState state = apsnd (\<lambda>w. w\<lparr>WState := state\<rparr>)"
definition SetStages :: "('v, 'w) wstage option list \<Rightarrow> ('v, 'w) workflow_option" where
  "SetStages stages = apfst (\<lambda>w. w\<lparr>Stages := stages\<rparr>)"
definition SetDebug :: "bool \<Rightarrow> ('v, 'w) workflow_option" where
  "SetDebug debug = apfst (\<lambda>w. w\<lparr>Debug := debug\<rparr>)"
definition SetBeforeFn :: "('v, 'w) callback option \<Rightarrow> ('v, 'w) workflow_option" where
  "SetBeforeFn fn = apfst (\<lambda>w. w\<lparr>BeforeFn := fn\<rparr>)"
definition SetBeforeAllStepsFn ::
    "(string \<Rightarrow> string \<Rightarrow> ('v, 'w) callback) option \<Rightarrow> ('v, 'w) workflow_option" where
  "SetBeforeAllStepsFn fn = apfst (\<lambda>w. w\<lparr>BeforeAllStepsFn := fn\<rparr>)"
definition SetAfterFn :: "('v, 'w) callback option \<Rightarrow> ('v, 'w) workflow_option" where
  "SetAfterFn fn = apfst (\<lambda>w. w\<lparr>AfterFn := fn\<rparr>)"
definition wf_SetOnFailureFn :: "(werr \<Rightarrow> ('v, 'w) callback) option \<Rightarrow> ('v, 'w) workflow_option" where
  "wf_SetOnFailureFn fn = apfst (\<lambda>w. w\<lparr>OnFailureFn := fn\<rparr>)"
definition SetSnapshotFn :: "('v wsnapshot \<Rightarrow> ('v, 'w) callback) option \<Rightarrow> ('v, 'w) workflow_option" where
  "SetSnapshotFn fn = apfst (\<lambda>w. w\<lparr>SnapshotFn := fn\<rparr>)"
definition SetSkipError :: "bool \<Rightarrow> 'v wpub \<Rightarrow> 'v wpub" where
  "SetSkipError skip w = w\<lparr>isSkipError := skip\<rparr>"

section \<open>Snapshots\<close>

text \<open>\<open>StepStates\<close> reads every stage and step: a nil one is a nil dereference.\<close>

definition step_states_of :: "'v wpub \<Rightarrow> ('v, 'w) wstep \<Rightarrow> 'v step_state list" where
  "step_states_of w step =
     (case stepStates w (SName step) of
        None \<Rightarrow> []
      | Some s \<Rightarrow> let st = clone_state s in if status_Valid (Status st) then [st] else [])"

fun all_steps :: "('v, 'w) wstage option list \<Rightarrow> (('v, 'w) wstage \<times> ('v, 'w) wstep) list option" where
  "all_steps [] = Some []"
| "all_steps (None # sts) = None"
| "all_steps (Some st # sts) =
     (if list_ex Option.is_none (Steps st) then None
      else map_option ((@) (map (\<lambda>s. (st, the s)) (Steps st))) (all_steps sts))"

definition StepStates :: "('v, 'w) workflow \<Rightarrow> 'v wpub \<Rightarrow> 'v step_state list option" where
  "StepStates cfg w =
     map_option (\<lambda>steps. concat (map (\<lambda>(st, step). step_states_of w step) steps)) (all_steps (Stages cfg))"

definition GetSnapshot :: "('v, 'w) workflow \<Rightarrow> 'v wpub \<Rightarrow> 'v wsnapshot option" where
  "GetSnapshot cfg w =
     map_option (\<lambda>ss. \<lparr>StepsStates = ss, WorkflowState = WState w, SVars = vars w\<rparr>) (StepStates cfg w)"

fun restore_step :: "string \<Rightarrow> ('v, 'w) wstep option list \<Rightarrow> 'v step_state \<Rightarrow> 'v wpub \<Rightarrow> 'v wpub option" where
  "restore_step stage [] state w = Some w"
| "restore_step stage (step # steps) state w =
     (if stage = CurrentStage state then
        (case step of
           None \<Rightarrow> None
         | Some s \<Rightarrow>
             restore_step stage steps state
               (if SName s = CurrentStep state
                then w\<lparr>stepStates := (stepStates w)(SName s \<mapsto> state)\<rparr> else w))
      else restore_step stage steps state w)"

fun restore_stage :: "('v, 'w) wstage option list \<Rightarrow> 'v step_state \<Rightarrow> 'v wpub \<Rightarrow> 'v wpub option" where
  "restore_stage [] state w = Some w"
| "restore_stage (None # stages) state w = None"
| "restore_stage (Some st # stages) state w =
     Option.bind (restore_step (StName st) (Steps st) state w) (restore_stage stages state)"

fun restore_states :: "('v, 'w) wstage option list \<Rightarrow> 'v step_state list \<Rightarrow> 'v wpub \<Rightarrow> 'v wpub option" where
  "restore_states stages [] w = Some w"
| "restore_states stages (state # states) w =
     Option.bind (restore_stage stages state w) (restore_states stages states)"

definition SetSnapshot :: "('v, 'w) workflow \<Rightarrow> 'v wsnapshot \<Rightarrow> 'v wpub \<Rightarrow> (werr option \<times> 'v wpub) option" where
  "SetSnapshot cfg sh w =
     map_option (\<lambda>w'. (None, w'\<lparr>WState := WorkflowState sh, vars := SVars sh\<rparr>))
       (restore_states (Stages cfg) (StepsStates sh) w)"

text \<open>The JSON forms. \<open>marshal\<close> is \<open>json.MarshalIndent\<close> (with \<open>True\<close>) or \<open>json.Marshal\<close>, whose error is
  ignored (the text is then empty); \<open>unmarshal\<close> is \<open>json.Unmarshal\<close>.\<close>

definition GetJSONSnapshot ::
    "(bool \<Rightarrow> 'v wsnapshot \<Rightarrow> string option) \<Rightarrow> ('v, 'w) workflow \<Rightarrow> 'v wpub \<Rightarrow> string option" where
  "GetJSONSnapshot marshal cfg w =
     map_option (\<lambda>sh. case marshal (Debug cfg) sh of None \<Rightarrow> [] | Some b \<Rightarrow> b) (GetSnapshot cfg w)"

definition SetJSONSnapshot ::
    "(string \<Rightarrow> werr + 'v wsnapshot) \<Rightarrow> ('v, 'w) workflow \<Rightarrow> string \<Rightarrow> 'v wpub \<Rightarrow> (werr option \<times> 'v wpub) option" where
  "SetJSONSnapshot unmarshal cfg snapshot w =
     (case unmarshal snapshot of
        Inl e \<Rightarrow> Some (Some e, w)
      | Inr sh \<Rightarrow> SetSnapshot cfg sh w)"

text \<open>\<open>CurrentStage\<close> and \<open>CurrentStep\<close> dereference the state of every step they visit.\<close>

fun last_started :: "'v wpub \<Rightarrow> ('v, 'w) wstep option list \<Rightarrow> ('v, 'w) wstep option option" where
  \<comment> \<open>over the steps in reverse; \<open>None\<close> is a nil dereference\<close>
  "last_started w [] = Some None"
| "last_started w (step # rest) =
     (case step of
        None \<Rightarrow> None
      | Some s \<Rightarrow> (case stepStates w (SName s) of
                    None \<Rightarrow> None
                  | Some st \<Rightarrow> if status_Valid (Status st) then Some (Some s) else last_started w rest))"

fun current_stage_in ::
    "'v wpub \<Rightarrow> ('v, 'w) wstage option list \<Rightarrow> ('v, 'w) wstage option \<Rightarrow> ('v, 'w) wstage option option" where
  "current_stage_in w [] res = Some res"
| "current_stage_in w (stage # rest) res =
     (case stage of
        None \<Rightarrow> None
      | Some st \<Rightarrow> (case last_started w (rev (Steps st)) of
                     None \<Rightarrow> None
                   | Some None \<Rightarrow> current_stage_in w rest res
                   | Some (Some _) \<Rightarrow> Some (Some st)))"

definition wf_CurrentStage :: "('v, 'w) workflow \<Rightarrow> 'v wpub \<Rightarrow> ('v, 'w) wstage option option" where
  "wf_CurrentStage cfg w =
     current_stage_in w (rev (Stages cfg)) (case Stages cfg of [] \<Rightarrow> None | st # _ \<Rightarrow> st)"

definition wf_CurrentStep :: "('v, 'w) workflow \<Rightarrow> 'v wpub \<Rightarrow> ('v, 'w) wstep option option" where
  "wf_CurrentStep cfg w =
     (case wf_CurrentStage cfg w of
        None \<Rightarrow> None
      | Some None \<Rightarrow> Some None
      | Some (Some st) \<Rightarrow>
          (case last_started w (rev (Steps st)) of
             None \<Rightarrow> None
           | Some (Some s) \<Rightarrow> Some (Some s)
           | Some None \<Rightarrow> Some (case Steps st of [] \<Rightarrow> None | s # _ \<Rightarrow> s)))"

end
