(* ===== verification/Loggers.thy ===== *)
theory Loggers
  imports Go_Fmt Pipeline_Env Workflow_State "HOL-Library.Sublist"
begin

text \<open>
  Package \<open>loggerutil\<close> and the logging of the packages that use it: the \<open>Logger\<close> interface, \<open>EmptyLogger\<close>
  and \<open>TestLogger\<close>, the executor's log methods (\<open>pipeline/logger.go\<close>) with the recovery of an observer's
  panic that logs (\<open>observe\<close>), and the workflow's (\<open>workflow/workflow_helpers.go\<close>).

  A logger works on an output of its own type; for \<open>TestLogger\<close> it is what was written to stdout so far.
  \<open>None\<close> stands for a format \<^theory_text>\<open>Go_Fmt\<close> does not model. Logging never changes the state of a run, so the
  other theories leave the calls out.
\<close>

section \<open>Package loggerutil\<close>

type_synonym 'o log_fn = "string \<Rightarrow> arg list \<Rightarrow> 'o \<Rightarrow> 'o option"

record 'o logger =
  LDebugf :: "'o log_fn"
  LDebugw :: "'o log_fn"
  LInfof :: "'o log_fn"
  LInfow :: "'o log_fn"
  LWarnf :: "'o log_fn"
  LWarnw :: "'o log_fn"
  LErrorf :: "'o log_fn"
  LErrorw :: "'o log_fn"

definition log_nothing :: "'o log_fn" where
  "log_nothing format args out = Some out"

definition EmptyLogger :: "'o logger" where
  "EmptyLogger = \<lparr>LDebugf = log_nothing, LDebugw = log_nothing, LInfof = log_nothing, LInfow = log_nothing,
     LWarnf = log_nothing, LWarnw = log_nothing, LErrorf = log_nothing, LErrorw = log_nothing\<rparr>"

definition newline :: char where
  "newline = CHR 0x0A"

text \<open>\<open>fmt.Printf\<close>.\<close>

definition printf :: "string log_fn" where
  "printf format args out = map_option ((@) out) (sprintf format args)"

definition TestLogger_Debugf :: "string log_fn" where
  "TestLogger_Debugf format = printf (''[DEBUG] '' @ format @ [newline])"
definition TestLogger_Debugw :: "string log_fn" where
  "TestLogger_Debugw format = printf (''[DEBUG] '' @ format @ [newline])"
definition TestLogger_Infof :: "string log_fn" where
  "TestLogger_Infof format = printf (''[INFO] '' @ format @ [newline])"
definition TestLogger_Infow :: "string log_fn" where
  "TestLogger_Infow format = printf (''[INFO] '' @ format @ [newline])"
definition TestLogger_Warnf :: "string log_fn" where
  "TestLogger_Warnf format = printf (''[WARN] '' @ format @ [newline])"
definition TestLogger_Warnw :: "string log_fn" where
  "TestLogger_Warnw format = printf (''[WARN] '' @ format @ [newline])"
definition TestLogger_Errorf :: "string log_fn" where
  "TestLogger_Errorf format = printf (''[ERROR] '' @ format @ [newline])"
definition TestLogger_Errorw :: "string log_fn" where
  "TestLogger_Errorw format = printf (''[ERROR] '' @ format @ [newline])"

definition NewTestLogger :: "string logger" where
  "NewTestLogger = \<lparr>LDebugf = TestLogger_Debugf, LDebugw = TestLogger_Debugw, LInfof = TestLogger_Infof,
     LInfow = TestLogger_Infow, LWarnf = TestLogger_Warnf, LWarnw = TestLogger_Warnw,
     LErrorf = TestLogger_Errorf, LErrorw = TestLogger_Errorw\<rparr>"

lemmas test_logger_defs = NewTestLogger_def TestLogger_Debugf_def TestLogger_Debugw_def TestLogger_Infof_def
  TestLogger_Infow_def TestLogger_Warnf_def TestLogger_Warnw_def TestLogger_Errorf_def TestLogger_Errorw_def

definition log_methods :: "'o logger \<Rightarrow> 'o log_fn set" where
  "log_methods l = {LDebugf l, LDebugw l, LInfof l, LInfow l, LWarnf l, LWarnw l, LErrorf l, LErrorw l}"

section \<open>The executor's log methods\<close>

record 'o exec_log =
  elogger :: "'o logger option"
  edebug :: bool

definition WithLogger_exec :: "'o logger option \<Rightarrow> 'o exec_log \<Rightarrow> 'o exec_log" where
  "WithLogger_exec l e = e\<lparr>elogger := l\<rparr>"
definition WithDebug_exec :: "bool \<Rightarrow> 'o exec_log \<Rightarrow> 'o exec_log" where
  "WithDebug_exec debug e = e\<lparr>edebug := debug\<rparr>"

definition pipeline_format :: "string \<Rightarrow> string option" where
  "pipeline_format format = sprintf ''[pipeline] %s'' [AString format]"

definition exec_Debugf :: "'o exec_log \<Rightarrow> 'o log_fn" where
  "exec_Debugf e format args out =
     (case elogger e of
        Some l \<Rightarrow> if edebug e then Option.bind (pipeline_format format) (\<lambda>f. LDebugf l f args out) else Some out
      | None \<Rightarrow> Some out)"
definition exec_Infof :: "'o exec_log \<Rightarrow> 'o log_fn" where
  "exec_Infof e format args out =
     (case elogger e of Some l \<Rightarrow> Option.bind (pipeline_format format) (\<lambda>f. LInfof l f args out) | None \<Rightarrow> Some out)"
definition exec_Warnf :: "'o exec_log \<Rightarrow> 'o log_fn" where
  "exec_Warnf e format args out =
     (case elogger e of Some l \<Rightarrow> Option.bind (pipeline_format format) (\<lambda>f. LWarnf l f args out) | None \<Rightarrow> Some out)"
definition exec_Errorf :: "'o exec_log \<Rightarrow> 'o log_fn" where
  "exec_Errorf e format args out =
     (case elogger e of Some l \<Rightarrow> Option.bind (pipeline_format format) (\<lambda>f. LErrorf l f args out) | None \<Rightarrow> Some out)"

lemmas exec_log_defs = exec_Debugf_def exec_Infof_def exec_Warnf_def exec_Errorf_def

text \<open>The call of the observer: a panic is recovered and logged, what the observer did before it stays.\<close>

fun event_text :: "event_type \<Rightarrow> string" where
  "event_text EventPipelineStarted = ''pipeline_started''"
| "event_text EventPipelineCompleted = ''pipeline_completed''"
| "event_text EventStepStarted = ''step_started''"
| "event_text EventStepCompleted = ''step_completed''"
| "event_text EventStepFailed = ''step_failed''"
| "event_text EventDelayedContinuation = ''delayed_continuation''"
| "event_text EventRepeatIterationStarted = ''repeat_iteration_started''"
| "event_text EventRepeatIterationCompleted = ''repeat_iteration_completed''"
| "event_text EventCompensationStarted = ''compensation_started''"
| "event_text EventCompensationSucceeded = ''compensation_succeeded''"
| "event_text EventCompensationFailed = ''compensation_failed''"
| "event_text EventSnapshotSucceeded = ''snapshot_succeeded''"
| "event_text EventSnapshotFailed = ''snapshot_failed''"
| "event_text EventStateMigrationSucceeded = ''state_migration_succeeded''"
| "event_text EventStateMigrationFailed = ''state_migration_failed''"
| "event_text EventVersionMismatch = ''version_mismatch''"
| "event_text EventContextCanceled = ''context_canceled''"

definition deliver :: "'o exec_log \<Rightarrow> (event \<Rightarrow> 'w \<Rightarrow> 'w \<times> arg option) \<Rightarrow> event \<Rightarrow> 'w \<Rightarrow> 'o \<Rightarrow> 'w \<times> 'o option" where
  "deliver e ob ev w out =
     (case ob ev w of
        (w', None) \<Rightarrow> (w', Some out)
      | (w', Some recovered) \<Rightarrow>
          (w', exec_Errorf e ''observer panic during %s: %v'' [AString (event_text (Type ev)), recovered] out))"

section \<open>The workflow's log methods\<close>

definition commonLogFields :: "('v, 'w) workflow \<Rightarrow> wf_state \<Rightarrow> arg list" where
  "commonLogFields w st =
     (if Name w \<noteq> '''' then [AString ''workflow'', AString (Name w)] else [])
   @ (if NextStage st \<noteq> '''' then [AString ''next_stage'', AString (NextStage st)] else [])
   @ (if NextStep st \<noteq> '''' then [AString ''next_step'', AString (NextStep st)] else [])
   @ (if IsSuspended st then [AString ''is_suspended'', ABool (IsSuspended st)] else [])
   @ (if IsCompleted st then [AString ''is_completed'', ABool (IsCompleted st)] else [])
   @ (if IsFailed st then [AString ''is_failed'', ABool (IsFailed st)] else [])"

definition wf_Debugf :: "'o logger option \<Rightarrow> ('v, 'w) workflow \<Rightarrow> wf_state \<Rightarrow> 'o log_fn" where
  "wf_Debugf logger w st format args out =
     (case logger of
        Some l \<Rightarrow> if Debug w then Option.bind (sprintf format args) (\<lambda>m. LDebugw l m (commonLogFields w st) out) else Some out
      | None \<Rightarrow> Some out)"
definition wf_Infof :: "'o logger option \<Rightarrow> ('v, 'w) workflow \<Rightarrow> wf_state \<Rightarrow> 'o log_fn" where
  "wf_Infof logger w st format args out =
     (case logger of Some l \<Rightarrow> Option.bind (sprintf format args) (\<lambda>m. LInfow l m (commonLogFields w st) out) | None \<Rightarrow> Some out)"
definition wf_Warnf :: "'o logger option \<Rightarrow> ('v, 'w) workflow \<Rightarrow> wf_state \<Rightarrow> 'o log_fn" where
  "wf_Warnf logger w st format args out =
     (case logger of Some l \<Rightarrow> Option.bind (sprintf format args) (\<lambda>m. LWarnw l m (commonLogFields w st) out) | None \<Rightarrow> Some out)"
definition wf_Errorf :: "'o logger option \<Rightarrow> ('v, 'w) workflow \<Rightarrow> wf_state \<Rightarrow> 'o log_fn" where
  "wf_Errorf logger w st format args out =
     (case logger of Some l \<Rightarrow> Option.bind (sprintf format args) (\<lambda>m. LErrorw l m (commonLogFields w st) out) | None \<Rightarrow> Some out)"

lemmas wf_log_defs = wf_Debugf_def wf_Infof_def wf_Warnf_def wf_Errorf_def

text \<open>\<open>checkStatus\<close> with its messages; its result is \<^const>\<open>finished\<close>.\<close>

definition checkStatus :: "'o logger option \<Rightarrow> ('v, 'w) workflow \<Rightarrow> wf_state \<Rightarrow> 'o \<Rightarrow> bool \<times> 'o option" where
  "checkStatus logger w st out =
     (let say = (\<lambda>b msg out. if b then wf_Debugf logger w st msg [] out else Some out)
      in (finished st,
          Option.bind (say (IsCompleted st) ''workflow is completed, skipping'' out)
          (\<lambda>out. Option.bind (say (IsSuspended st) ''workflow is suspended, skipping'' out)
          (\<lambda>out. say (IsFailed st) ''workflow is failed, skipping'' out))))"

section \<open>Loggers that only append\<close>

locale appending =
  fixes l :: "'o logger" and le :: "'o \<Rightarrow> 'o \<Rightarrow> bool"
  assumes same: "le out out"
    and chain: "le out out' \<Longrightarrow> le out' out'' \<Longrightarrow> le out out''"
    and appends: "f \<in> log_methods l \<Longrightarrow> f format args out = Some out' \<Longrightarrow> le out out'"
begin

lemma method_appends:
  "LDebugf l format args out = Some out' \<Longrightarrow> le out out'" "LDebugw l format args out = Some out' \<Longrightarrow> le out out'"
  "LInfof l format args out = Some out' \<Longrightarrow> le out out'" "LInfow l format args out = Some out' \<Longrightarrow> le out out'"
  "LWarnf l format args out = Some out' \<Longrightarrow> le out out'" "LWarnw l format args out = Some out' \<Longrightarrow> le out out'"
  "LErrorf l format args out = Some out' \<Longrightarrow> le out out'" "LErrorw l format args out = Some out' \<Longrightarrow> le out out'"
  by (rule appends [rotated], assumption, simp add: log_methods_def)+

lemma executor_appends:
  assumes "g \<in> {exec_Debugf e, exec_Infof e, exec_Warnf e, exec_Errorf e}" and "elogger e = Some l"
    and "g format args out = Some out'"
  shows "le out out'"
  using assms
  by (auto simp: exec_log_defs bind_eq_Some_conv same split: if_splits intro: method_appends)

lemma workflow_appends:
  assumes "g \<in> {wf_Debugf (Some l) w st, wf_Infof (Some l) w st, wf_Warnf (Some l) w st, wf_Errorf (Some l) w st}"
    and "g format args out = Some out'"
  shows "le out out'"
  using assms
  by (auto simp: wf_log_defs bind_eq_Some_conv same split: if_splits intro: method_appends)

lemma checkStatus_appends:
  assumes "checkStatus (Some l) w st out = (b, Some out')"
  shows "le out out'"
proof -
  have said: "le o1 o2" if "(if c then wf_Debugf (Some l) w st msg [] o1 else Some o1) = Some o2" for c msg o1 o2
    using that workflow_appends [of "wf_Debugf (Some l) w st" w st msg "[]" o1 o2] by (auto simp: same split: if_splits)
  from assms show ?thesis
    unfolding checkStatus_def Let_def prod.inject bind_eq_Some_conv by (blast intro: said chain)
qed

end

interpretation empty_logger: appending EmptyLogger "(=)"
  by unfold_locales (auto simp: log_methods_def EmptyLogger_def log_nothing_def)

interpretation test_logger: appending NewTestLogger prefix
  by unfold_locales (auto simp: log_methods_def test_logger_defs printf_def)

section \<open>What is written\<close>

lemma pipeline_format_is [simp]: "pipeline_format format = Some (''[pipeline] '' @ format)"
  by (simp add: pipeline_format_def sprintf_eval)

lemma newline_plain [simp]: "newline \<noteq> CHR ''%''"
  by (simp add: newline_def)

text \<open>One line of \<open>TestLogger\<close>: a literal prefix, the format with its arguments, the newline, and after it
  whatever arguments the format did not take.\<close>

lemma printf_line:
  assumes "fits format args" and "CHR ''%'' \<notin> set pre"
  shows "printf (pre @ format @ [newline]) (args @ rest) out =
    map_option (\<lambda>msg. out @ pre @ msg @ [newline] @ extra_args rest) (sprintf format args)"
proof -
  have "sprintf [newline] rest = Some (newline # extra_args rest)" by (simp add: sprintf.simps(2))
  then show ?thesis
    using sprintf_prefix [OF assms(2), of "format @ [newline]" "args @ rest"] sprintf_append [OF assms(1), of "[newline]" rest]
    by (cases "sprintf format args") (simp_all add: printf_def)
qed

lemma printf_pipeline_line:
  assumes "fits format args" and "sprintf format args = Some msg" and "CHR ''%'' \<notin> set pre"
  shows "printf (pre @ (''[pipeline] '' @ format) @ [newline]) args out = Some (out @ pre @ ''[pipeline] '' @ msg @ [newline])"
proof -
  have "fits (''[pipeline] '' @ format) args" using assms(1) by simp
  moreover have "sprintf (''[pipeline] '' @ format) args = Some (''[pipeline] '' @ msg)"
    using assms(2) by (subst sprintf_prefix) auto
  ultimately show ?thesis using printf_line [of "''[pipeline] '' @ format" args pre "[]" out] assms(3) by simp
qed

text \<open>Every message the packages log is a complete format whose verbs take exactly the arguments given.\<close>

lemma pipeline_formats_fit:
  "fits ''pipeline %q: starting from index %d in path %v'' [AString n, AInt i, AStrings xs]"
  "fits ''pipeline %q: completed successfully'' [AString n]"
  "fits ''pipeline %q: step %q failed (no compensate): %v'' [AString n, AString m, AError ty e]"
  "fits ''pipeline %q: step %q failed: %v'' [AString n, AString m, AError ty e]"
  "fits ''action step: %s'' [AString n]"
  "fits ''step %q completed'' [AString n]"
  "fits ''poll step: %s'' [AString n]"
  "fits ''poll step %q completed'' [AString n]"
  "fits ''branch step: %s (deciding)'' [AString n]"
  "fits ''branch %q chose path %q'' [AString n, AString m]"
  "fits ''pipeline %q: starting compensation'' [AString n]"
  "fits ''compensation: step at path %v not found or has no compensator'' [AStrings xs]"
  "fits ''compensating step %q'' [AString n]"
  "fits ''compensated step %q'' [AString n]"
  "fits ''pipeline %q: compensation complete, status=failed'' [AString n]"
  "fits ''step %q not found in pipeline, starting from beginning'' [AString n]"
  "fits ''step %q attempt %d failed: %v, retrying in %s'' [AString n, AInt i, AError ty e, ADuration d]"
  "fits ''observer panic during %s: %v'' [AString n, recovered]"
  by (simp_all add: unmodelled_verb_def digit_of_def)

lemma workflow_formats_fit:
  "fits ''step [%s] failed with error: %s'' [AString n, AError ty e]"
  "fits ''retrying in %s'' [ADuration d]"
  "fits ''snapshot on failure: %s'' [AError ty e]"
  "fits ''workflow on failure: %s'' [AError ty e]"
  "fits ''snapshot after compensation: %s'' [AError ty e]"
  "fits ''workflow after: %s'' [AError ty e]"
  "fits ''start workflow: %s'' [AString n]"
  "fits ''stages count: %d'' [AInt i]"
  "fits ''start stage: %s'' [AString n]"
  "fits ''skipping stage: %s (next stage)'' [AString n]"
  "fits ''skipping stage: %s (no steps)'' [AString n]"
  "fits ''executing step: %s / %s'' [AString n, AString m]"
  "fits ''skipping step: %s (already completed)'' [AString n]"
  "fits ''skipping step: %s (skipped)'' [AString n]"
  "fits ''skipping step: %s (suspended)'' [AString n]"
  "fits ''skipping step: %s (next step %s)'' [AString n, AString m]"
  "fits ''snapshot after step: %s'' [AError ty e]"
  "fits ''snapshot before step: %s'' [AError ty e]"
  by (simp_all add: unmodelled_verb_def digit_of_def)

text \<open>With \<open>TestLogger\<close> a log call of the executor whose format takes its arguments writes exactly one
  line: the level, \<open>[pipeline]\<close>, the formatted message, a newline; \<open>Debugf\<close> only when debugging is on.
  Without a logger, or with \<open>EmptyLogger\<close>, nothing is written.\<close>

theorem executor_log_line:
  assumes "fits format args" and "sprintf format args = Some msg"
  shows "map (\<lambda>log. log \<lparr>elogger = Some NewTestLogger, edebug = d\<rparr> format args out) [exec_Infof, exec_Warnf, exec_Errorf, exec_Debugf] =
      [Some (out @ ''[INFO] [pipeline] '' @ msg @ [newline]), Some (out @ ''[WARN] [pipeline] '' @ msg @ [newline]),
       Some (out @ ''[ERROR] [pipeline] '' @ msg @ [newline]),
       Some (if d then out @ ''[DEBUG] [pipeline] '' @ msg @ [newline] else out)] \<and>
    map (\<lambda>log. log \<lparr>elogger = None, edebug = d\<rparr> format args out) [exec_Infof, exec_Warnf, exec_Errorf, exec_Debugf] = replicate 4 (Some out) \<and>
    map (\<lambda>log. log \<lparr>elogger = Some EmptyLogger, edebug = d\<rparr> format args out) [exec_Infof, exec_Warnf, exec_Errorf, exec_Debugf] =
      replicate 4 (Some out)"
proof -
  note line = printf_pipeline_line [OF assms]
  show ?thesis
    using line [of "''[INFO] ''" out] line [of "''[WARN] ''" out] line [of "''[ERROR] ''" out] line [of "''[DEBUG] ''" out]
    by (simp add: exec_log_defs test_logger_defs EmptyLogger_def log_nothing_def numeral_eq_Suc)
qed

lemma executor_log_line_witness:
  "exec_Infof \<lparr>elogger = Some NewTestLogger, edebug = False\<rparr> ''step %q completed'' [AString ''a''] '''' =
     Some (''[INFO] [pipeline] step '' @ go_quote ''a'' @ '' completed'' @ [newline])"
  using executor_log_line [OF pipeline_formats_fit(6), of "''a''" "''step '' @ go_quote ''a'' @ '' completed''" False "''''"]
  by (simp add: sprintf_eval)

text \<open>With \<open>TestLogger\<close> a log call of a workflow puts the state fields behind the end of the line, as
  arguments the format did not take, so the line of a named workflow does not end with a newline and the
  next one continues it. A workflow without debugging writes no debug line.\<close>

theorem workflow_log_line:
  assumes "sprintf format args = Some msg" and "CHR ''%'' \<notin> set msg"
  shows "map (\<lambda>log. log (Some NewTestLogger) w st format args out) [wf_Infof, wf_Warnf, wf_Errorf, wf_Debugf] =
      [Some (out @ ''[INFO] '' @ msg @ [newline] @ extra_args (commonLogFields w st)),
       Some (out @ ''[WARN] '' @ msg @ [newline] @ extra_args (commonLogFields w st)),
       Some (out @ ''[ERROR] '' @ msg @ [newline] @ extra_args (commonLogFields w st)),
       Some (if Debug w then out @ ''[DEBUG] '' @ msg @ [newline] @ extra_args (commonLogFields w st) else out)] \<and>
    (Name w \<noteq> '''' \<longrightarrow> last (extra_args (commonLogFields w st)) = CHR '')'')"
proof -
  have fit: "fits msg []" using assms(2) by (rule fits_literal)
  have plain: "sprintf msg [] = Some msg" using sprintf_literal [OF assms(2), of "[]"] by simp
  note line = printf_line [OF fit, of _ "commonLogFields w st" out, unfolded plain, simplified]
  have "commonLogFields w st \<noteq> []" if "Name w \<noteq> ''''" using that by (simp add: commonLogFields_def)
  then show ?thesis
    using line [of "''[INFO] ''"] line [of "''[WARN] ''"] line [of "''[ERROR] ''"] line [of "''[DEBUG] ''"] assms(1)
    by (simp add: wf_log_defs test_logger_defs extra_args_def)
qed

definition named_workflow :: "(nat, nat) workflow" where
  "named_workflow = fst (workflow_New [WithName ''w''])"

lemma workflow_log_line_witness:
  "wf_Infof (Some NewTestLogger) named_workflow wf_state_zero ''start stage: %s'' [AString ''s''] '''' =
     Some (''[INFO] start stage: s'' @ [newline] @ ''%!(EXTRA string=workflow, string=w)'')"
  using workflow_log_line [of "''start stage: %s''" "[AString ''s'']" "''start stage: s''"
      "named_workflow" wf_state_zero "''''"]
  by (simp add: sprintf_eval commonLogFields_def wf_state_zero_def extra_args_def show_extra_def
      named_workflow_def workflow_New_def WithName_def)

text \<open>A panicking observer changes nothing but the log, and what it did before the panic stays.\<close>

lemma deliver_recovers:
  assumes "ob ev w = (w', Some (AString r))"
  shows "deliver \<lparr>elogger = Some NewTestLogger, edebug = d\<rparr> ob ev w out =
    (w', Some (out @ ''[ERROR] [pipeline] observer panic during '' @ event_text (Type ev) @ '': '' @ r @ [newline]))"
  using executor_log_line [OF pipeline_formats_fit(18), of "event_text (Type ev)" "AString r"] assms
  by (simp add: deliver_def sprintf_eval)

end
