(* ===== verification/Clocks.thy ===== *)
theory Clocks
  imports Pipeline_Errors
begin

text \<open>
  The executor's system clock (\<open>pipeline/clock.go\<close>) and the small packages around time and printing:
  \<open>TimeIt\<close> (\<open>timeutil/timeit.go\<close>) and \<open>PrintJSON\<close> (\<open>testutil/print.go\<close>).

  Everywhere else a clock is a parameter. Here \<open>systemClock.Sleep\<close> is the \<open>select\<close> it is written as: a
  timer, the end of the context, and a choice of Go's when both are ready. Instants are nanoseconds.
\<close>

section \<open>systemClock.Sleep\<close>

text \<open>How the \<open>select\<close> ends, at which instant.\<close>

datatype wake = TimerFired int | ContextDone int

fun woken_at :: "wake \<Rightarrow> int" where
  "woken_at (TimerFired t) = t"
| "woken_at (ContextDone t) = t"

text \<open>The timer is made at \<open>start\<close>, the \<open>select\<close> first looks at its cases at \<open>polled\<close>, the context ends at
  \<open>ends\<close>, if at all. The cases ready at \<open>polled\<close> are all possible; when none is, the one that becomes ready
  first is taken, and of two that become ready together either one.\<close>

definition timer_fires :: "int \<Rightarrow> int \<Rightarrow> int" where
  "timer_fires start duration = start + normalizeDuration duration"

definition sleep_outcomes :: "int \<Rightarrow> int \<Rightarrow> int option \<Rightarrow> int \<Rightarrow> wake list" where
  "sleep_outcomes start polled ends duration =
     (let fires = timer_fires start duration;
          ready = (if fires \<le> polled then [TimerFired polled] else [])
                @ (case ends of Some c \<Rightarrow> if c \<le> polled then [ContextDone polled] else [] | None \<Rightarrow> [])
      in if ready \<noteq> [] then ready
         else case ends of
                None \<Rightarrow> [TimerFired fires]
              | Some c \<Rightarrow> if fires < c then [TimerFired fires]
                          else if c < fires then [ContextDone c] else [TimerFired fires, ContextDone c])"

text \<open>What \<open>Sleep\<close> returns for each; \<open>ctxErr\<close> is \<open>ctx.Err()\<close> of the ended context.\<close>

definition sleep_result :: "err \<Rightarrow> wake \<Rightarrow> err option" where
  "sleep_result ctxErr w = (case w of TimerFired _ \<Rightarrow> None | ContextDone _ \<Rightarrow> Some ctxErr)"

text \<open>What the executor relies on: a sleep always ends, not before it was called; a nil result means that the
  whole duration has passed, an error that the context has ended.\<close>

locale sleeper =
  fixes outcomes :: "int \<Rightarrow> int \<Rightarrow> int option \<Rightarrow> int \<Rightarrow> wake list"
  assumes ends_somehow: "outcomes start polled ends d \<noteq> []"
    and full_time: "start \<le> polled \<Longrightarrow> TimerFired t \<in> set (outcomes start polled ends d) \<Longrightarrow> start + max d 0 \<le> t"
    and cancelled: "start \<le> polled \<Longrightarrow> ContextDone t \<in> set (outcomes start polled ends d) \<Longrightarrow>
      \<exists>c. ends = Some c \<and> c \<le> t"
begin

lemma uncancelled_sleep_completes:
  assumes "start \<le> polled"
  shows "set (outcomes start polled None d) \<noteq> {} \<and> (\<forall>w \<in> set (outcomes start polled None d). \<exists>t. w = TimerFired t)"
proof -
  have "\<exists>t. w = TimerFired t" if "w \<in> set (outcomes start polled None d)" for w
    using cancelled [OF assms, of _ None d] that by (cases w) auto
  with ends_somehow show ?thesis by auto
qed

text \<open>Sleeps one after the other, as in a retry loop: \<open>naps now ds t\<close> when they all return nil, the last at
  \<open>t\<close>.\<close>

inductive naps :: "int \<Rightarrow> int list \<Rightarrow> int \<Rightarrow> bool" where
  awake: "naps t [] t"
| nap: "start \<le> polled \<Longrightarrow> TimerFired t \<in> set (outcomes start polled ends d) \<Longrightarrow> t \<le> next \<Longrightarrow> naps next ds t' \<Longrightarrow>
    naps start (d # ds) t'"

lemma naps_take: "naps start ds t \<Longrightarrow> start + sum_list (map (\<lambda>d. max d 0) ds) \<le> t"
proof (induction rule: naps.induct)
  case (nap start polled t ends d "next" ds t')
  from full_time [OF nap(1,2)] nap show ?case by simp
qed simp

end

interpretation system: sleeper sleep_outcomes
proof
  show "sleep_outcomes start polled ends d \<noteq> []" for start polled ends d
    by (simp add: sleep_outcomes_def Let_def split: option.splits)
  show "start + max d 0 \<le> t" if "TimerFired t \<in> set (sleep_outcomes start polled ends d)" for start polled ends d t
    using that by (auto simp: sleep_outcomes_def timer_fires_def normalizeDuration_def Let_def split: option.splits if_splits)
  show "\<exists>c. ends = Some c \<and> c \<le> t"
    if "ContextDone t \<in> set (sleep_outcomes start polled ends d)" for start polled ends d t
    using that by (auto simp: sleep_outcomes_def Let_def split: option.splits if_splits)
qed

text \<open>A sleep of no duration under a context that has ended may return nil: both cases are ready.\<close>

lemma ended_context_may_sleep:
  "map (sleep_result e) (sleep_outcomes 0 0 (Some 0) 0) = [None, Some e]"
  by (simp add: sleep_outcomes_def timer_fires_def normalizeDuration_def sleep_result_def)

section \<open>TimeIt\<close>

text \<open>\<open>now\<close> is \<open>time.Now\<close>, the outside world is threaded through.\<close>

definition TimeIt :: "('w \<Rightarrow> int \<times> 'w) \<Rightarrow> ('w \<Rightarrow> 'e option \<times> 'w) \<Rightarrow> 'w \<Rightarrow> (int \<times> 'e option) \<times> 'w" where
  "TimeIt now fn w =
     (let (start, w1) = now w; (err, w2) = fn w1; (t, w3) = now w2 in ((time_sub t start, err), w3))"

lemma TimeIt_measures:
  assumes clock: "\<And>w. now w = (time w, w)" and fn: "fn w = (e, w')" and "time w' = time w + d" "in_i64 d"
  shows "TimeIt now fn w = ((d, e), w')"
  using assms by (simp add: TimeIt_def time_sub_def in_i64_def max_int64_def min_int64_def)

section \<open>PrintJSON\<close>

text \<open>\<open>marshal\<close> is \<open>json.MarshalIndent\<close> with two spaces; \<open>out\<close> is what stdout holds.\<close>

definition PrintJSON :: "('v \<Rightarrow> 'e + string) \<Rightarrow> 'v \<Rightarrow> string \<Rightarrow> 'e option \<times> string" where
  "PrintJSON marshal v out =
     (case marshal v of
        Inl e \<Rightarrow> (Some e, out)
      | Inr b \<Rightarrow> (None, out @ b @ [CHR 0x0A]))"

lemma PrintJSON_all_or_nothing:
  "fst (PrintJSON marshal v out) \<noteq> None \<longleftrightarrow> snd (PrintJSON marshal v out) = out"
  by (simp add: PrintJSON_def split: sum.splits)

end
