(* ===== verification/Retry.thy ===== *)
theory Retry
  imports Go_Time
begin

text \<open>
  Package \<open>retry\<close>: the options of a \<open>Retry\<close> (\<open>retry/retry.go\<close>, \<open>retry/options.go\<close>), the policies
  (\<open>retry/policies.go\<close>), the errors (\<open>retry/errors.go\<close>) and \<open>Do\<close> with its three loops.

  The world \<open>'w\<close> holds what the retried function, the callbacks, the clock and the context can read
  or change. The bounded loops are \<open>fun\<close>s on the attempts left; the infinite one is a partial
  function, so that \<open>None\<close> is a call that never returns. A ghost trace records what was done.
\<close>

section \<open>Errors and policies\<close>

definition PolicyLinear :: int where "PolicyLinear = 0"
definition PolicyBackoff :: int where "PolicyBackoff = 1"
definition PolicyInfinite :: int where "PolicyInfinite = 2"

lemmas policy_defs = PolicyLinear_def PolicyBackoff_def PolicyInfinite_def

text \<open>\<open>OtherErr\<close> is an error of the caller, the context or \<open>fmt.Errorf\<close> without \<open>%w\<close>; \<open>WrapErr\<close> one
  that wraps others.\<close>

datatype rerr =
    ErrRetry
  | ErrExit
  | OtherErr string
  | WrapErr string "rerr list"
  | RetryError int int "rerr option"

definition policy_String :: "int \<Rightarrow> string" where
  "policy_String p =
     (if p = PolicyLinear then ''linear'' else if p = PolicyBackoff then ''backoff''
      else if p = PolicyInfinite then ''infinite'' else ''unknown'')"

definition policy_Validate :: "int \<Rightarrow> rerr option" where
  "policy_Validate p =
     (if p = PolicyLinear \<or> p = PolicyBackoff \<or> p = PolicyInfinite then None
      else Some (OtherErr ''invalid retry policy''))"

fun rerr_text :: "rerr \<Rightarrow> string" where
  "rerr_text ErrRetry = ''retry''"
| "rerr_text ErrExit = ''exit''"
| "rerr_text (OtherErr t) = t"
| "rerr_text (WrapErr t es) = t"
| "rerr_text (RetryError p n e) =
     policy_String p @ '' retry failed after '' @ itoa n @ '' attempts: ''
       @ (case e of None \<Rightarrow> ''<nil>'' | Some e' \<Rightarrow> rerr_text e')"

text \<open>\<open>errors.Is\<close>: the error itself or, depth first, what it wraps.\<close>

fun retry_is :: "rerr \<Rightarrow> rerr \<Rightarrow> bool" where
  "retry_is target ErrRetry \<longleftrightarrow> target = ErrRetry"
| "retry_is target ErrExit \<longleftrightarrow> target = ErrExit"
| "retry_is target (OtherErr t) \<longleftrightarrow> target = OtherErr t"
| "retry_is target (WrapErr t es) \<longleftrightarrow> target = WrapErr t es \<or> list_ex (retry_is target) es"
| "retry_is target (RetryError p n e) \<longleftrightarrow>
     target = RetryError p n e \<or> (case e of None \<Rightarrow> False | Some e' \<Rightarrow> retry_is target e')"

section \<open>Configuration\<close>

text \<open>\<open>ctx\<close> is the context's \<open>Err\<close>, when a context is configured.\<close>

record 'w retry =
  ctx :: "('w \<Rightarrow> rerr option \<times> 'w) option"
  maxAttempts :: int
  policy :: int
  delay :: int
  maxDelay :: int
  onFailedFn :: "('w \<Rightarrow> 'w) option"
  onSuccessFn :: "('w \<Rightarrow> 'w) option"

type_synonym 'w retry_option = "'w retry \<Rightarrow> 'w retry"

definition retry_New :: "'w retry_option list \<Rightarrow> 'w retry" where
  "retry_New opts =
     foldl (\<lambda>r opt. opt r)
       \<lparr>ctx = None, maxAttempts = 5, policy = PolicyBackoff, delay = 1 * Second, maxDelay = 0,
        onFailedFn = None, onSuccessFn = None\<rparr> opts"

definition WithMaxAttempts :: "int \<Rightarrow> 'w retry_option" where "WithMaxAttempts n r = r\<lparr>maxAttempts := n\<rparr>"
definition WithPolicy :: "int \<Rightarrow> 'w retry_option" where "WithPolicy p r = r\<lparr>policy := p\<rparr>"
definition WithDelay :: "int \<Rightarrow> 'w retry_option" where "WithDelay d r = r\<lparr>delay := d\<rparr>"
definition WithMaxDelay :: "int \<Rightarrow> 'w retry_option" where "WithMaxDelay d r = r\<lparr>maxDelay := d\<rparr>"
definition WithContext :: "('w \<Rightarrow> rerr option \<times> 'w) option \<Rightarrow> 'w retry_option" where
  "WithContext c r = r\<lparr>ctx := c\<rparr>"
definition WithOnFailedFn :: "('w \<Rightarrow> 'w) option \<Rightarrow> 'w retry_option" where
  "WithOnFailedFn f r = r\<lparr>onFailedFn := f\<rparr>"
definition WithOnSuccessFn :: "('w \<Rightarrow> 'w) option \<Rightarrow> 'w retry_option" where
  "WithOnSuccessFn f r = r\<lparr>onSuccessFn := f\<rparr>"

text \<open>The setters of \<open>Retry\<close> do the same to an existing value.\<close>

definition SetMaxAttempts :: "'w retry \<Rightarrow> int \<Rightarrow> 'w retry" where "SetMaxAttempts r n = r\<lparr>maxAttempts := n\<rparr>"
definition SetPolicy :: "'w retry \<Rightarrow> int \<Rightarrow> 'w retry" where "SetPolicy r p = r\<lparr>policy := p\<rparr>"
definition SetDelay :: "'w retry \<Rightarrow> int \<Rightarrow> 'w retry" where "SetDelay r d = r\<lparr>delay := d\<rparr>"
definition SetMaxDelay :: "'w retry \<Rightarrow> int \<Rightarrow> 'w retry" where "SetMaxDelay r d = r\<lparr>maxDelay := d\<rparr>"
definition SetContext :: "'w retry \<Rightarrow> ('w \<Rightarrow> rerr option \<times> 'w) option \<Rightarrow> 'w retry" where
  "SetContext r c = r\<lparr>ctx := c\<rparr>"
definition SetOnFailedFn :: "'w retry \<Rightarrow> ('w \<Rightarrow> 'w) option \<Rightarrow> 'w retry" where
  "SetOnFailedFn r f = r\<lparr>onFailedFn := f\<rparr>"
definition SetOnSuccessFn :: "'w retry \<Rightarrow> ('w \<Rightarrow> 'w) option \<Rightarrow> 'w retry" where
  "SetOnSuccessFn r f = r\<lparr>onSuccessFn := f\<rparr>"

text \<open>\<open>backoffDelay\<close>: the shift wraps at 64 bits.\<close>

definition backoffDelay :: "'w retry \<Rightarrow> int \<Rightarrow> int" where
  "backoffDelay r attempt =
     (let shift = min (attempt - 1) 62;
          d = i64 (delay r * 2 ^ nat shift)
      in if d \<le> 0 then (if maxDelay r > 0 then maxDelay r else delay r)
         else if maxDelay r > 0 \<and> d > maxDelay r then maxDelay r
         else d)"

section \<open>Running\<close>

text \<open>\<open>wait d w\<close> is the \<open>select\<close> of \<open>sleep\<close>, or \<open>time.Sleep\<close> when there is no context: whether the
  context was done before \<open>d\<close> elapsed, and the world afterwards. \<open>Checked e\<close> in the trace is a call of the
  context's \<open>Err\<close> and its answer.\<close>

datatype reff = Checked "rerr option" | Attempt "rerr option" | OnFailed | OnSuccess | Waited int

record 'w retry_env =
  wait :: "int \<Rightarrow> 'w \<Rightarrow> bool \<times> 'w"

record 'w rmach =
  rworld :: 'w
  reffs :: "reff list"

type_synonym ('w, 'a) rexec = "('w rmach, 'a) go"

definition ctxErr :: "'w retry \<Rightarrow> ('w, rerr option) rexec" where
  "ctxErr r =
     (\<lambda>m. case ctx r of
            None \<Rightarrow> Some (None, m)
          | Some err \<Rightarrow> let (e, w) = err (rworld m) in Some (e, m\<lparr>rworld := w, reffs := reffs m @ [Checked e]\<rparr>))"

definition retry_sleep :: "'w retry_env \<Rightarrow> 'w retry \<Rightarrow> int \<Rightarrow> ('w, rerr option) rexec" where
  "retry_sleep env r d =
     (\<lambda>m. let (interrupted, w) = wait env d (rworld m);
              m' = m\<lparr>rworld := w, reffs := reffs m @ [Waited d]\<rparr>
          in if ctx r \<noteq> None \<and> interrupted then ctxErr r m' else Some (None, m'))"

definition call_fn :: "('w \<Rightarrow> rerr option \<times> 'w) \<Rightarrow> ('w, rerr option) rexec" where
  "call_fn fn = (\<lambda>m. let (e, w) = fn (rworld m) in Some (e, m\<lparr>rworld := w, reffs := reffs m @ [Attempt e]\<rparr>))"

definition run_hook :: "reff \<Rightarrow> ('w \<Rightarrow> 'w) option \<Rightarrow> ('w, unit) rexec" where
  "run_hook tag f =
     (case f of
        None \<Rightarrow> ret ()
      | Some g \<Rightarrow> upd (\<lambda>m. m\<lparr>rworld := g (rworld m), reffs := reffs m @ [tag]\<rparr>))"

text \<open>The loop shared, up to the delay and the policy reported at the end, by \<open>linearRetry\<close> and
  \<open>backoffRetry\<close>: \<open>n\<close> attempts are left, \<open>attempt\<close> is the loop variable.\<close>

fun attempt_loop ::
    "'w retry_env \<Rightarrow> 'w retry \<Rightarrow> int \<Rightarrow> (int \<Rightarrow> int) \<Rightarrow> ('w \<Rightarrow> rerr option \<times> 'w) \<Rightarrow> nat \<Rightarrow> int \<Rightarrow> rerr option \<Rightarrow>
       ('w, rerr option) rexec" where
  "attempt_loop env r pol delayOf fn 0 attempt lastErr =
     ret (Some (RetryError pol (maxAttempts r) lastErr))"
| "attempt_loop env r pol delayOf fn (Suc n) attempt lastErr =
     on_err (ctxErr r) (\<lambda>ce. ret (Some ce))
     (on_err (call_fn fn)
       (\<lambda>e. seqm (run_hook OnFailed (onFailedFn r))
          (if retry_is ErrExit e then ret (Some e)
           else on_err (if attempt < maxAttempts r then retry_sleep env r (delayOf attempt) else ret None)
             (\<lambda>se. ret (Some se))
             (attempt_loop env r pol delayOf fn n (attempt + 1) (Some e))))
       (ret None))"

definition linearRetry ::
    "'w retry_env \<Rightarrow> 'w retry \<Rightarrow> ('w \<Rightarrow> rerr option \<times> 'w) \<Rightarrow> ('w, rerr option) rexec" where
  "linearRetry env r fn = attempt_loop env r PolicyLinear (\<lambda>_. delay r) fn (nat (maxAttempts r)) 1 None"

definition backoffRetry ::
    "'w retry_env \<Rightarrow> 'w retry \<Rightarrow> ('w \<Rightarrow> rerr option \<times> 'w) \<Rightarrow> ('w, rerr option) rexec" where
  "backoffRetry env r fn = attempt_loop env r PolicyBackoff (backoffDelay r) fn (nat (maxAttempts r)) 1 None"

text \<open>One round of \<open>infiniteRetry\<close>: \<open>Some result\<close> ends the loop.\<close>

definition infinite_round ::
    "'w retry_env \<Rightarrow> 'w retry \<Rightarrow> ('w \<Rightarrow> rerr option \<times> 'w) \<Rightarrow> ('w, rerr option option) rexec" where
  "infinite_round env r fn =
     on_err (ctxErr r) (\<lambda>ce. ret (Some (Some ce)))
     (on_err (call_fn fn)
       (\<lambda>e. seqm (run_hook OnFailed (onFailedFn r))
          (if retry_is ErrExit e then ret (Some (Some e))
           else on_err (retry_sleep env r (delay r)) (\<lambda>se. ret (Some (Some se))) (ret None)))
       (ret (Some None)))"

partial_function (option) infinite_loop ::
    "'w retry_env \<Rightarrow> 'w retry \<Rightarrow> ('w \<Rightarrow> rerr option \<times> 'w) \<Rightarrow> 'w rmach \<Rightarrow> (rerr option \<times> 'w rmach) option" where
  [code]: "infinite_loop env r fn m =
     (case infinite_round env r fn m of
        None \<Rightarrow> None
      | Some (res, m') \<Rightarrow> (case res of Some x \<Rightarrow> Some (x, m') | None \<Rightarrow> infinite_loop env r fn m'))"

definition infiniteRetry ::
    "'w retry_env \<Rightarrow> 'w retry \<Rightarrow> ('w \<Rightarrow> rerr option \<times> 'w) \<Rightarrow> ('w, rerr option) rexec" where
  "infiniteRetry env r fn =
     (if ctx r = None then ret (Some (OtherErr ''infinite retry cannot be initialized without ctx''))
      else infinite_loop env r fn)"

definition retry_Do ::
    "'w retry_env \<Rightarrow> 'w retry \<Rightarrow> ('w \<Rightarrow> rerr option \<times> 'w) option \<Rightarrow> ('w, rerr option) rexec" where
  "retry_Do env r fn =
     (case fn of
        None \<Rightarrow> ret (Some (OtherErr ''retry function cannot be nil''))
      | Some f \<Rightarrow>
          (if policy r \<noteq> PolicyInfinite \<and> maxAttempts r < 1 then
             ret (Some (OtherErr (''retry: maxAttempts must be >= 1, got '' @ itoa (maxAttempts r))))
           else
             bnd (if policy r = PolicyLinear then linearRetry env r f
                  else if policy r = PolicyBackoff then backoffRetry env r f
                  else if policy r = PolicyInfinite then infiniteRetry env r f
                  else ret (Some (OtherErr ''unsupported retry policy'')))
               (\<lambda>e. seqm (if e = None then run_hook OnSuccess (onSuccessFn r) else ret ()) (ret e))))"

end
