(* ===== verification/Retry_Props.thy ===== *)
theory Retry_Props
  imports Retry
begin

text \<open>
  Properties of package \<open>retry\<close>: the complete trace of a bounded run, the delays of the backoff
  policy, and the infinite policy, which returns exactly when the function succeeds, exits or the
  context ends.
\<close>

section \<open>Traces\<close>

text \<open>Before every attempt the context, if there is one, is asked and has answered nil. A wait that the end
  of the context cut short asks it again; \<open>d\<close> says that this happened and the answer was nil. So a failed
  attempt with the wait after it is a pair of its error and \<open>d\<close>; \<open>schedule\<close> has the attempts from number \<open>k\<close>
  on.\<close>

definition checked :: "'w retry \<Rightarrow> reff list" where
  "checked r = (if ctx r = None then [] else [Checked None])"

definition failed_block :: "'w retry \<Rightarrow> rerr \<Rightarrow> reff list" where
  "failed_block r e = Attempt (Some e) # (if onFailedFn r = None then [] else [OnFailed])"

definition waited :: "int \<Rightarrow> bool \<Rightarrow> reff list" where
  "waited t d = Waited t # (if d then [Checked None] else [])"

fun schedule :: "'w retry \<Rightarrow> (int \<Rightarrow> int) \<Rightarrow> int \<Rightarrow> (rerr \<times> bool) list \<Rightarrow> reff list" where
  "schedule r delayOf k [] = []"
| "schedule r delayOf k ((e, d) # es) =
     checked r @ failed_block r e @ waited (delayOf k) d @ schedule r delayOf (k + 1) es"

text \<open>The failures before the last attempt: none wraps \<open>ErrExit\<close>.\<close>

definition retried :: "'w retry \<Rightarrow> (rerr \<times> bool) list \<Rightarrow> bool" where
  "retried r es \<longleftrightarrow> (\<forall>(e, d) \<in> set es. \<not> retry_is ErrExit e \<and> (d \<longrightarrow> ctx r \<noteq> None))"

lemma retried_simps [simp]:
  "retried r []" "retried r ((e, d) # es) \<longleftrightarrow> (\<not> retry_is ErrExit e \<and> (d \<longrightarrow> ctx r \<noteq> None)) \<and> retried r es"
  by (auto simp: retried_def)

text \<open>How a loop that may make \<open>n\<close> attempts, the first one number \<open>k\<close>, ends: by success, by a failure
  that wraps \<open>ErrExit\<close>, by an error the context has just given, which is then the result, or after \<open>n\<close>
  failures.\<close>

datatype ending = Succeeded | Exited | Canceled | Exhausted

fun ends_with :: "'w retry \<Rightarrow> int \<Rightarrow> nat \<Rightarrow> ending \<Rightarrow> (rerr \<times> bool) list \<Rightarrow> rerr option \<Rightarrow> reff list \<Rightarrow> bool" where
  "ends_with r pol n Succeeded es res tail \<longleftrightarrow> res = None \<and> tail = checked r @ [Attempt None] \<and> length es < n"
| "ends_with r pol n Exited es res tail \<longleftrightarrow>
     (\<exists>e. res = Some e \<and> retry_is ErrExit e \<and> tail = checked r @ failed_block r e) \<and> length es < n"
| "ends_with r pol n Canceled es res tail \<longleftrightarrow>
     (\<exists>e. res = Some e \<and> ctx r \<noteq> None \<and> tail = [Checked (Some e)]) \<and> length es < n"
| "ends_with r pol n Exhausted es res tail \<longleftrightarrow>
     (\<exists>e. res = Some (RetryError pol (maxAttempts r) (Some e)) \<and> \<not> retry_is ErrExit e
        \<and> tail = checked r @ failed_block r e) \<and> length es + 1 = n"

definition loop_trace ::
    "'w retry \<Rightarrow> int \<Rightarrow> (int \<Rightarrow> int) \<Rightarrow> nat \<Rightarrow> int \<Rightarrow> rerr option \<Rightarrow> reff list \<Rightarrow> bool" where
  "loop_trace r pol delayOf n k res effs \<longleftrightarrow>
     (\<exists>es tail why. effs = schedule r delayOf k es @ tail \<and> retried r es \<and> ends_with r pol n why es res tail)"

lemma loop_trace_end:
  "ends_with r pol n why [] res tail \<Longrightarrow> loop_trace r pol delayOf n k res tail"
  unfolding loop_trace_def by (rule exI [where x = "[]"]) auto

lemma ends_with_Suc: "ends_with r pol n why es res tail \<Longrightarrow> ends_with r pol (Suc n) why (x # es) res tail"
  by (cases why) auto

lemma loop_trace_step:
  assumes "loop_trace r pol delayOf n (k + 1) res effs" and "\<not> retry_is ErrExit e" and "d \<longrightarrow> ctx r \<noteq> None"
  shows "loop_trace r pol delayOf (Suc n) k res (checked r @ failed_block r e @ waited (delayOf k) d @ effs)"
proof -
  obtain es tail why where "effs = schedule r delayOf (k + 1) es @ tail" "retried r es"
    "ends_with r pol n why es res tail"
    using assms(1) unfolding loop_trace_def by blast
  then have "checked r @ failed_block r e @ waited (delayOf k) d @ effs = schedule r delayOf k ((e, d) # es) @ tail
      \<and> retried r ((e, d) # es) \<and> ends_with r pol (Suc n) why ((e, d) # es) res tail"
    using assms(2,3) ends_with_Suc by auto
  then show ?thesis unfolding loop_trace_def by blast
qed

section \<open>One operation\<close>

lemma ctxErr_cases:
  obtains w where "ctxErr r m = Some (None, m\<lparr>rworld := w, reffs := reffs m @ checked r\<rparr>)"
    | e w where "ctxErr r m = Some (Some e, m\<lparr>rworld := w, reffs := reffs m @ [Checked (Some e)]\<rparr>)" "ctx r \<noteq> None"
proof (cases "ctx r")
  case None
  then have "ctxErr r m = Some (None, m\<lparr>rworld := rworld m, reffs := reffs m @ checked r\<rparr>)"
    by (simp add: ctxErr_def checked_def)
  then show ?thesis by (rule that(1))
next
  case (Some err)
  then show ?thesis using that by (cases "fst (err (rworld m))") (auto simp: ctxErr_def checked_def split_beta)
qed

lemma retry_sleep_cases:
  obtains w d where "retry_sleep env r t m = Some (None, m\<lparr>rworld := w, reffs := reffs m @ waited t d\<rparr>)" "d \<longrightarrow> ctx r \<noteq> None"
    | e w where "retry_sleep env r t m = Some (Some e, m\<lparr>rworld := w, reffs := reffs m @ waited t False @ [Checked (Some e)]\<rparr>)"
      "ctx r \<noteq> None"
proof -
  obtain i w where w: "wait env t (rworld m) = (i, w)" by fastforce
  let ?m = "m\<lparr>rworld := w, reffs := reffs m @ [Waited t]\<rparr>"
  show ?thesis
  proof (cases "ctx r \<noteq> None \<and> i")
    case True
    then have *: "retry_sleep env r t m = ctxErr r ?m" by (simp add: retry_sleep_def w)
    show ?thesis
    proof (cases r ?m rule: ctxErr_cases)
      case (1 w')
      then show ?thesis using * True that(1) [where w = w' and d = True] by (simp add: checked_def waited_def)
    next
      case (2 e w')
      then show ?thesis using * that(2) [where e = e and w = w'] by (simp add: waited_def)
    qed
  next
    case False
    then have "retry_sleep env r t m = Some (None, ?m)" by (auto simp: retry_sleep_def w)
    then show ?thesis using that(1) [where w = w and d = False] by (simp add: waited_def)
  qed
qed

lemma call_fn_eq: "fn (rworld m) = (e, w) \<Longrightarrow> call_fn fn m = Some (e, m\<lparr>rworld := w, reffs := reffs m @ [Attempt e]\<rparr>)"
  by (simp add: call_fn_def)

lemma run_hook_eq:
  "\<exists>w. run_hook tag f m = Some ((), m\<lparr>rworld := w, reffs := reffs m @ (if f = None then [] else [tag])\<rparr>)"
  by (cases f) (auto simp: run_hook_def ret_def upd_def intro: exI [where x = "rworld m"])

text \<open>A failed attempt with its hook.\<close>

lemma failed_attempt:
  fixes m :: "'w rmach"
  assumes "fn (rworld m) = (Some e, w)"
  shows "\<exists>w'. \<forall>(h :: rerr \<Rightarrow> ('w, 'a) rexec) k.
    on_err (call_fn fn) (\<lambda>e. seqm (run_hook OnFailed (onFailedFn r)) (h e)) k m
      = h e (m\<lparr>rworld := w', reffs := reffs m @ failed_block r e\<rparr>)"
proof -
  obtain w' where "run_hook OnFailed (onFailedFn r) (m\<lparr>rworld := w, reffs := reffs m @ [Attempt (Some e)]\<rparr>)
      = Some ((), m\<lparr>rworld := w', reffs := reffs m @ failed_block r e\<rparr>)"
    using run_hook_eq [of OnFailed "onFailedFn r" "m\<lparr>rworld := w, reffs := reffs m @ [Attempt (Some e)]\<rparr>"]
    by (auto simp: failed_block_def)
  then show ?thesis
    using call_fn_eq [where fn = fn, OF assms] by (intro exI [of _ w']) (simp add: on_err_def seqm_def bnd_def)
qed

section \<open>The bounded policies\<close>

lemma attempt_loop_trace:
  fixes m :: "'w rmach"
  assumes "0 < n" and "int n = maxAttempts r - k + 1"
  shows "\<exists>res m' effs. attempt_loop env r pol delayOf fn n k lastE m = Some (res, m')
    \<and> reffs m' = reffs m @ effs \<and> loop_trace r pol delayOf n k res effs"
  using assms
proof (induction n arbitrary: k lastE m)
  case (Suc n)
  let ?goal = "\<lambda>run m. \<exists>res m' effs. run = Some (res, m') \<and> reffs m' = reffs m @ effs
    \<and> loop_trace r pol delayOf (Suc n) k res effs"
  show ?case
  proof (cases r m rule: ctxErr_cases)
    case (2 e w)
    then have "attempt_loop env r pol delayOf fn (Suc n) k lastE m
        = Some (Some e, m\<lparr>rworld := w, reffs := reffs m @ [Checked (Some e)]\<rparr>)"
      by (simp add: on_err_def bnd_def ret_def)
    moreover have "loop_trace r pol delayOf (Suc n) k (Some e) [Checked (Some e)]"
      by (rule loop_trace_end [where why = Canceled]) (simp add: 2(2))
    ultimately show ?thesis by fastforce
  next
    case (1 w)
    let ?m = "m\<lparr>rworld := w, reffs := reffs m @ checked r\<rparr>"
    obtain x w' where fn: "fn w = (x, w')" by fastforce
    show ?thesis
    proof (cases x)
      case None
      then have "attempt_loop env r pol delayOf fn (Suc n) k lastE m
          = Some (None, m\<lparr>rworld := w', reffs := reffs m @ checked r @ [Attempt None]\<rparr>)"
        using call_fn_eq [of fn ?m] fn by (simp add: on_err_def bnd_def ret_def 1)
      moreover have "loop_trace r pol delayOf (Suc n) k None (checked r @ [Attempt None])"
        by (rule loop_trace_end [where why = Succeeded]) simp
      ultimately show ?thesis by fastforce
    next
      case (Some e)
      obtain w2 where run: "attempt_loop env r pol delayOf fn (Suc n) k lastE m =
          (if retry_is ErrExit e then ret (Some e)
           else on_err (if k < maxAttempts r then retry_sleep env r (delayOf k) else ret None)
             (\<lambda>se. ret (Some se)) (attempt_loop env r pol delayOf fn n (k + 1) (Some e)))
          (m\<lparr>rworld := w2, reffs := reffs m @ checked r @ failed_block r e\<rparr>)"
      proof -
        have "fn (rworld ?m) = (Some e, w')" using fn Some by simp
        from failed_attempt [where fn = fn and r = r, OF this]
        obtain w2 where w2: "\<forall>(h :: rerr \<Rightarrow> ('w, rerr option) rexec) k.
            on_err (call_fn fn) (\<lambda>e. seqm (run_hook OnFailed (onFailedFn r)) (h e)) k ?m
              = h e (?m\<lparr>rworld := w2, reffs := reffs ?m @ failed_block r e\<rparr>)"
          by blast
        show ?thesis
          by (rule that [of w2]) (simp add: on_err_def [of "ctxErr r"] bnd_def [of "ctxErr r"] 1 w2)
      qed
      let ?m2 = "m\<lparr>rworld := w2, reffs := reffs m @ checked r @ failed_block r e\<rparr>"
      consider "retry_is ErrExit e" | "\<not> retry_is ErrExit e" "n = 0" | "\<not> retry_is ErrExit e" "0 < n" by blast
      then show ?thesis
      proof cases
        case 1
        then have "attempt_loop env r pol delayOf fn (Suc n) k lastE m = Some (Some e, ?m2)"
          by (simp only: run if_True) (simp add: ret_def)
        moreover have "loop_trace r pol delayOf (Suc n) k (Some e) (checked r @ failed_block r e)"
          by (rule loop_trace_end [where why = Exited]) (simp add: 1)
        ultimately show ?thesis by fastforce
      next
        case 2
        then have "attempt_loop env r pol delayOf fn (Suc n) k lastE m
            = Some (Some (RetryError pol (maxAttempts r) (Some e)), ?m2)"
          using Suc.prems(2) unfolding run by (simp add: on_err_def bnd_def ret_def)
        moreover have "loop_trace r pol delayOf (Suc n) k (Some (RetryError pol (maxAttempts r) (Some e)))
            (checked r @ failed_block r e)"
          by (rule loop_trace_end [where why = Exhausted]) (simp add: 2)
        ultimately show ?thesis by fastforce
      next
        case 3
        then have k: "k < maxAttempts r" "int n = maxAttempts r - (k + 1) + 1" using Suc.prems(2) by auto
        show ?thesis
        proof (cases rule: retry_sleep_cases [where env = env and r = r and t = "delayOf k" and m = ?m2])
          case (1 w3 d)
          let ?m3 = "?m2\<lparr>rworld := w3, reffs := reffs ?m2 @ waited (delayOf k) d\<rparr>"
          obtain res m' effs where *: "attempt_loop env r pol delayOf fn n (k + 1) (Some e) ?m3 = Some (res, m')"
            "reffs m' = reffs ?m3 @ effs" "loop_trace r pol delayOf n (k + 1) res effs"
            using Suc.IH [OF 3(2) k(2)] by blast
          have "attempt_loop env r pol delayOf fn (Suc n) k lastE m = Some (res, m')"
            using 3 k 1(1) * by (simp only: run) (simp add: on_err_def bnd_def)
          then show ?thesis
            using *(2) loop_trace_step [OF *(3) 3(1) 1(2)] by auto
        next
          case (2 e' w3)
          have "loop_trace r pol delayOf (Suc n) k (Some e')
              (checked r @ failed_block r e @ waited (delayOf k) False @ [Checked (Some e')])"
            by (rule loop_trace_step [OF loop_trace_end [where why = Canceled] 3(1)]) (use 2(2) 3(2) in simp_all)
          moreover have "attempt_loop env r pol delayOf fn (Suc n) k lastE m = Some (Some e',
              ?m2\<lparr>rworld := w3, reffs := reffs ?m2 @ waited (delayOf k) False @ [Checked (Some e')]\<rparr>)"
            using 3 k 2(1) by (simp only: run) (simp add: on_err_def bnd_def ret_def)
          ultimately show ?thesis by fastforce
        qed
      qed
    qed
  qed
qed simp

text \<open>The delay after an attempt under each policy.\<close>

definition policy_delay :: "'w retry \<Rightarrow> int \<Rightarrow> int" where
  "policy_delay r k = (if policy r = PolicyBackoff then backoffDelay r k else delay r)"

lemma policy_delay_eq:
  "policy r = PolicyBackoff \<Longrightarrow> policy_delay r = backoffDelay r"
  "policy r \<noteq> PolicyBackoff \<Longrightarrow> policy_delay r = (\<lambda>_. delay r)"
  by (simp_all add: policy_delay_def fun_eq_iff)

definition success_hook :: "'w retry \<Rightarrow> rerr option \<Rightarrow> reff list" where
  "success_hook r res = (if res = None \<and> onSuccessFn r \<noteq> None then [OnSuccess] else [])"

lemma finish_Do:
  "\<exists>m''. seqm (if res = None then run_hook OnSuccess (onSuccessFn r) else ret ()) (ret res) m' = Some (res, m'')
     \<and> reffs m'' = reffs m' @ success_hook r res"
  using run_hook_eq [of OnSuccess "onSuccessFn r" m']
  by (auto simp: seqm_def bnd_def success_hook_def ret_def)

text \<open>C24. \<open>Do\<close> with the linear or the backoff policy always returns, after at most \<open>maxAttempts\<close>
  attempts. Its whole trace is known: before every attempt the context, if any, has answered nil; failed
  attempts are followed by the failure callback and the policy's delay, until the function succeeds (nil is
  returned), fails with an error wrapping \<open>ErrExit\<close> (returned unchanged), the context gives an error, before
  an attempt or in a wait (that error is returned, and nothing is done after it), or the last allowed attempt
  fails, when the \<open>*Error\<close> with the last cause is returned. The success callback runs exactly after success.\<close>

theorem Do_bounded_trace:
  assumes "policy r = PolicyLinear \<or> policy r = PolicyBackoff" and "1 \<le> maxAttempts r"
  shows "\<exists>res m' effs. retry_Do env r (Some fn) m = Some (res, m')
    \<and> reffs m' = reffs m @ effs @ success_hook r res
    \<and> loop_trace r (policy r) (policy_delay r) (nat (maxAttempts r)) 1 res effs"
proof -
  let ?loop = "attempt_loop env r (policy r) (policy_delay r) fn (nat (maxAttempts r)) 1 None"
  have "retry_Do env r (Some fn) m =
      bnd ?loop (\<lambda>e. seqm (if e = None then run_hook OnSuccess (onSuccessFn r) else ret ()) (ret e)) m"
    using assms by (auto simp: retry_Do_def linearRetry_def backoffRetry_def policy_delay_eq policy_defs)
  moreover obtain res m' effs where "?loop m = Some (res, m')" "reffs m' = reffs m @ effs"
    "loop_trace r (policy r) (policy_delay r) (nat (maxAttempts r)) 1 res effs"
    using attempt_loop_trace [of "nat (maxAttempts r)" r 1 env "policy r" "policy_delay r" fn None m] assms(2)
    by auto
  ultimately show ?thesis
    using finish_Do [of res r m'] by (auto simp: bnd_def)
qed

text \<open>A function that fails until the world has counted \<open>k\<close> calls, and a sample configuration.\<close>

definition flaky :: "nat \<Rightarrow> rerr \<Rightarrow> nat \<Rightarrow> rerr option \<times> nat" where
  "flaky k e w = (if w < k then Some e else None, Suc w)"

definition never_interrupted :: "nat retry_env" where
  "never_interrupted = \<lparr>wait = \<lambda>d w. (False, w)\<rparr>"

definition sample_retry :: "nat retry" where
  "sample_retry = retry_New [WithMaxAttempts 3, WithOnFailedFn (Some id), WithMaxDelay (90 * Second)]"

lemma Do_bounded_trace_witness:
  "(\<exists>res m' effs. retry_Do never_interrupted sample_retry (Some (flaky 5 ErrRetry)) \<lparr>rworld = 0, reffs = []\<rparr> = Some (res, m')
      \<and> reffs m' = [] @ effs @ success_hook sample_retry res
      \<and> loop_trace sample_retry PolicyBackoff (policy_delay sample_retry) 3 1 res effs)
    \<and> (\<exists>m'. retry_Do never_interrupted sample_retry (Some (flaky 5 ErrRetry)) \<lparr>rworld = 0, reffs = []\<rparr>
        = Some (Some (RetryError PolicyBackoff 3 (Some ErrRetry)), m')
        \<and> [x \<leftarrow> reffs m'. case x of Waited d \<Rightarrow> True | _ \<Rightarrow> False] = [Waited Second, Waited (2 * Second)])"
proof
  have "policy sample_retry = PolicyLinear \<or> policy sample_retry = PolicyBackoff" "1 \<le> maxAttempts sample_retry"
    and "policy sample_retry = PolicyBackoff" "nat (maxAttempts sample_retry) = 3"
    by (simp_all add: sample_retry_def retry_New_def WithMaxAttempts_def WithOnFailedFn_def WithMaxDelay_def)
  with Do_bounded_trace [of sample_retry never_interrupted "flaky 5 ErrRetry" "\<lparr>rworld = 0, reffs = []\<rparr>"]
  show "\<exists>res m' effs. retry_Do never_interrupted sample_retry (Some (flaky 5 ErrRetry)) \<lparr>rworld = 0, reffs = []\<rparr> = Some (res, m')
      \<and> reffs m' = [] @ effs @ success_hook sample_retry res
      \<and> loop_trace sample_retry PolicyBackoff (policy_delay sample_retry) 3 1 res effs"
    by simp
  show "\<exists>m'. retry_Do never_interrupted sample_retry (Some (flaky 5 ErrRetry)) \<lparr>rworld = 0, reffs = []\<rparr>
        = Some (Some (RetryError PolicyBackoff 3 (Some ErrRetry)), m')
        \<and> [x \<leftarrow> reffs m'. case x of Waited d \<Rightarrow> True | _ \<Rightarrow> False] = [Waited Second, Waited (2 * Second)]"
    by (rule exI [where x = "\<lparr>rworld = 3, reffs = [Attempt (Some ErrRetry), OnFailed, Waited Second,
      Attempt (Some ErrRetry), OnFailed, Waited (2 * Second), Attempt (Some ErrRetry), OnFailed]\<rparr>"]) code_simp
qed

section \<open>Backoff\<close>

text \<open>While the doubled delay fits 64 bits, the backoff policy waits \<open>delay * 2 ^ (attempt - 1)\<close>,
  capped by \<open>maxDelay\<close> when that is set.\<close>

theorem backoffDelay_exact:
  assumes "0 < delay r" and "1 \<le> attempt" and "delay r * 2 ^ nat (attempt - 1) \<le> max_int64"
  shows "backoffDelay r attempt =
    (if maxDelay r > 0 then min (maxDelay r) (delay r * 2 ^ nat (attempt - 1)) else delay r * 2 ^ nat (attempt - 1))"
proof -
  have "(2 :: int) ^ nat (attempt - 1) \<le> delay r * 2 ^ nat (attempt - 1)" using assms(1) by simp
  also have "\<dots> < 2 ^ 63" using assms(3) by (simp add: max_int64_def)
  finally have "nat (attempt - 1) < 63" by (rule power_less_imp_less_exp [rotated]) simp
  then have "min (attempt - 1) 62 = attempt - 1" by simp
  moreover have "0 < delay r * 2 ^ nat (attempt - 1)" using assms(1) by simp
  moreover from this have "i64 (delay r * 2 ^ nat (attempt - 1)) = delay r * 2 ^ nat (attempt - 1)"
    using assms(3) by (intro i64_id) (simp add: in_i64_def min_int64_def)
  ultimately show ?thesis by (simp add: backoffDelay_def Let_def)
qed

lemma backoffDelay_exact_witness:
  "backoffDelay sample_retry 7 = 64 * Second \<and> backoffDelay sample_retry 8 = 90 * Second"
  using backoffDelay_exact [of sample_retry 7] backoffDelay_exact [of sample_retry 8]
  by (simp add: sample_retry_def retry_New_def WithMaxAttempts_def WithOnFailedFn_def WithMaxDelay_def
      Second_def max_int64_def)

text \<open>With a positive \<open>maxDelay\<close> every backoff delay is positive and at most \<open>maxDelay\<close>, whatever the
  delay and the attempt number, also when the shift overflows.\<close>

theorem backoffDelay_capped:
  assumes "0 < maxDelay r"
  shows "0 < backoffDelay r attempt \<and> backoffDelay r attempt \<le> maxDelay r"
  using assms by (simp add: backoffDelay_def Let_def)

lemma backoffDelay_capped_witness:
  "0 < backoffDelay sample_retry 1000 \<and> backoffDelay sample_retry 1000 \<le> 90 * Second"
  using backoffDelay_capped [of sample_retry 1000]
  by (simp add: sample_retry_def retry_New_def WithMaxAttempts_def WithOnFailedFn_def WithMaxDelay_def Second_def)

text \<open>Without \<open>maxDelay\<close> the guard against overflow sees only products that wrap to a value below
  one: with the default configuration attempt 35 falls back to one second, and attempt 38 waits a
  wrapped product of some 263 years that is no power-of-two multiple of the delay.\<close>

theorem backoffDelay_overflow_undetected:
  "backoffDelay (retry_New []) 34 = Second * 2 ^ 33
    \<and> backoffDelay (retry_New []) 35 = Second
    \<and> backoffDelay (retry_New []) 38 = 8311744956033138688
    \<and> backoffDelay (retry_New []) 38 \<noteq> Second * 2 ^ 37"
  by code_simp

section \<open>The infinite policy\<close>

definition infinite_trace :: "'w retry \<Rightarrow> rerr option \<Rightarrow> reff list \<Rightarrow> bool" where
  "infinite_trace r res effs \<longleftrightarrow>
     (\<exists>es tail why. effs = schedule r (\<lambda>_. delay r) 1 es @ tail \<and> retried r es
        \<and> why \<noteq> Exhausted \<and> ends_with r PolicyInfinite (Suc (length es)) why es res tail)"

lemma schedule_const: "schedule r (\<lambda>_. d) k es = schedule r (\<lambda>_. d) 1 es"
proof (induction es arbitrary: k)
  case (Cons x es)
  show ?case using Cons.IH [of "k + 1"] Cons.IH [of 2] by (cases x) simp
qed simp

lemma infinite_trace_end:
  "why \<noteq> Exhausted \<Longrightarrow> ends_with r PolicyInfinite 1 why [] res tail \<Longrightarrow> infinite_trace r res tail"
  unfolding infinite_trace_def by (rule exI [where x = "[]"]) auto

lemma infinite_trace_step:
  assumes "infinite_trace r res effs" and "\<not> retry_is ErrExit e" and "d \<longrightarrow> ctx r \<noteq> None"
  shows "infinite_trace r res (checked r @ failed_block r e @ waited (delay r) d @ effs)"
proof -
  obtain es tail why where *: "effs = schedule r (\<lambda>_. delay r) 1 es @ tail" "retried r es"
    "why \<noteq> Exhausted" "ends_with r PolicyInfinite (Suc (length es)) why es res tail"
    using assms(1) unfolding infinite_trace_def by blast
  moreover have "ends_with r PolicyInfinite (Suc (length ((e, d) # es))) why ((e, d) # es) res tail"
    using *(4) by (simp add: ends_with_Suc)
  ultimately show ?thesis
    unfolding infinite_trace_def
    using assms(2,3) schedule_const [of r "delay r" 2 es]
    by (intro exI [of _ "(e, d) # es"] exI [of _ tail] exI [of _ why]) auto
qed

text \<open>What one round does.\<close>

definition round_result :: "'w retry \<Rightarrow> rerr option option \<Rightarrow> reff list \<Rightarrow> bool" where
  "round_result r res effs \<longleftrightarrow>
     (case res of
        Some x \<Rightarrow> infinite_trace r x effs
      | None \<Rightarrow> (\<exists>e d. \<not> retry_is ErrExit e \<and> (d \<longrightarrow> ctx r \<noteq> None)
          \<and> effs = checked r @ failed_block r e @ waited (delay r) d))"

lemma infinite_round_total:
  fixes m :: "'w rmach"
  shows "\<exists>res m' effs. infinite_round env r fn m = Some (res, m') \<and> reffs m' = reffs m @ effs \<and> round_result r res effs"
proof (cases r m rule: ctxErr_cases)
  case (2 e w)
  then have "infinite_round env r fn m = Some (Some (Some e), m\<lparr>rworld := w, reffs := reffs m @ [Checked (Some e)]\<rparr>)"
    by (simp add: infinite_round_def on_err_def bnd_def ret_def)
  moreover have "round_result r (Some (Some e)) [Checked (Some e)]"
    using 2(2) by (simp add: round_result_def infinite_trace_end [where why = Canceled])
  ultimately show ?thesis by fastforce
next
  case (1 w)
  let ?m = "m\<lparr>rworld := w, reffs := reffs m @ checked r\<rparr>"
  obtain x w' where fn: "fn (rworld ?m) = (x, w')" by fastforce
  show ?thesis
  proof (cases x)
    case None
    then have "infinite_round env r fn m
        = Some (Some None, ?m\<lparr>rworld := w', reffs := reffs m @ checked r @ [Attempt None]\<rparr>)"
      using call_fn_eq [where fn = fn, OF fn] by (simp add: infinite_round_def on_err_def bnd_def ret_def 1)
    moreover have "round_result r (Some None) (checked r @ [Attempt None])"
      by (simp add: round_result_def infinite_trace_end [where why = Succeeded])
    ultimately show ?thesis by fastforce
  next
    case (Some e)
    obtain w2 where w2: "\<forall>(h :: rerr \<Rightarrow> ('w, rerr option option) rexec) k.
        on_err (call_fn fn) (\<lambda>e. seqm (run_hook OnFailed (onFailedFn r)) (h e)) k ?m
          = h e (?m\<lparr>rworld := w2, reffs := reffs ?m @ failed_block r e\<rparr>)"
      using failed_attempt [where fn = fn and r = r, OF fn [unfolded Some]] by blast
    let ?m2 = "m\<lparr>rworld := w2, reffs := reffs m @ checked r @ failed_block r e\<rparr>"
    have run: "infinite_round env r fn m =
        (if retry_is ErrExit e then ret (Some (Some e))
         else on_err (retry_sleep env r (delay r)) (\<lambda>se. ret (Some (Some se))) (ret None)) ?m2"
      unfolding infinite_round_def by (simp add: on_err_def [of "ctxErr r"] bnd_def [of "ctxErr r"] 1 w2)
    show ?thesis
    proof (cases "retry_is ErrExit e")
      case True
      then have "round_result r (Some (Some e)) (checked r @ failed_block r e)"
        by (simp add: round_result_def infinite_trace_end [where why = Exited])
      with True show ?thesis unfolding run by (fastforce simp: ret_def)
    next
      case False
      show ?thesis
      proof (cases rule: retry_sleep_cases [where env = env and r = r and t = "delay r" and m = ?m2])
        case (1 w3 d)
        have "round_result r None (checked r @ failed_block r e @ waited (delay r) d)"
          using False 1(2) by (auto simp: round_result_def)
        with False 1(1) show ?thesis unfolding run by (fastforce simp: on_err_def bnd_def ret_def)
      next
        case (2 e' w3)
        have "infinite_trace r (Some e') (checked r @ failed_block r e @ waited (delay r) False @ [Checked (Some e')])"
          by (rule infinite_trace_step [OF infinite_trace_end [where why = Canceled] False]) (use 2(2) in simp_all)
        then have "round_result r (Some (Some e')) (checked r @ failed_block r e @ waited (delay r) False @ [Checked (Some e')])"
          by (simp add: round_result_def)
        with False 2(1) show ?thesis unfolding run by (fastforce simp: on_err_def bnd_def ret_def)
      qed
    qed
  qed
qed

lemma infinite_loop_trace:
  fixes m :: "'w rmach"
  assumes "infinite_loop env r fn m = Some y"
  shows "\<exists>effs. reffs (snd y) = reffs m @ effs \<and> infinite_trace r (fst y) effs"
proof (rule infinite_loop.raw_induct [OF _ assms])
  fix f :: "'w retry_env \<Rightarrow> 'w retry \<Rightarrow> ('w \<Rightarrow> rerr option \<times> 'w) \<Rightarrow> 'w rmach \<Rightarrow> (rerr option \<times> 'w rmach) option"
    and env r fn m y
  assume 1: "\<And>env r fn m y. f env r fn m = Some y \<Longrightarrow>
      \<exists>effs. reffs (snd y) = reffs m @ effs \<and> infinite_trace r (fst y) effs"
    "(case infinite_round env r fn m of None \<Rightarrow> None
      | Some (res, m') \<Rightarrow> (case res of Some x \<Rightarrow> Some (x, m') | None \<Rightarrow> f env r fn m')) = Some y"
  obtain x m1 effs where round: "infinite_round env r fn m = Some (x, m1)" "reffs m1 = reffs m @ effs"
    "round_result r x effs"
    using infinite_round_total by blast
  show "\<exists>effs. reffs (snd y) = reffs m @ effs \<and> infinite_trace r (fst y) effs"
  proof (cases x)
    case (Some z)
    then show ?thesis using 1(2) round by (auto simp: round_result_def)
  next
    case None
    then have "f env r fn m1 = Some y" using 1(2) round(1) by simp
    then obtain rest where "reffs (snd y) = reffs m1 @ rest" "infinite_trace r (fst y) rest" using 1(1) by blast
    moreover obtain e d where e: "\<not> retry_is ErrExit e" "d \<longrightarrow> ctx r \<noteq> None"
      "effs = checked r @ failed_block r e @ waited (delay r) d"
      using round(3) None by (auto simp: round_result_def)
    ultimately have "infinite_trace r (fst y) (effs @ rest)"
      using infinite_trace_step [OF _ e(1,2)] by simp
    then show ?thesis using round(2) \<open>reffs (snd y) = reffs m1 @ rest\<close> by auto
  qed
qed

lemma retry_Do_infinite:
  assumes "policy r = PolicyInfinite" and "ctx r \<noteq> None" and "retry_Do env r (Some fn) m = Some (res, m')"
  obtains m1 where "infinite_loop env r fn m = Some (res, m1)" "reffs m' = reffs m1 @ success_hook r res"
proof -
  obtain x m1 where "infinite_loop env r fn m = Some (x, m1)"
    "seqm (if x = None then run_hook OnSuccess (onSuccessFn r) else ret ()) (ret x) m1 = Some (res, m')"
    using assms by (auto simp: retry_Do_def infiniteRetry_def policy_defs bnd_Some_iff)
  with finish_Do [of x r m1] that show ?thesis by auto
qed

text \<open>C26. The infinite policy never gives up: when \<open>Do\<close> returns, the function has just succeeded, or it
  has just failed with an error wrapping \<open>ErrExit\<close>, which is returned unchanged, or the context has just
  given an error, before an attempt or in a wait, and that error is returned. Before that there are only
  failed attempts, each made after the context answered nil and followed by the failure callback and the
  configured delay.\<close>

theorem infinite_Do_trace:
  assumes "policy r = PolicyInfinite" and "ctx r \<noteq> None" and "retry_Do env r (Some fn) m = Some (res, m')"
  shows "\<exists>effs. reffs m' = reffs m @ effs @ success_hook r res \<and> infinite_trace r res effs"
proof -
  obtain m1 where "infinite_loop env r fn m = Some (res, m1)" "reffs m' = reffs m1 @ success_hook r res"
    using retry_Do_infinite [OF assms] .
  with infinite_loop_trace [of env r fn m "(res, m1)"] show ?thesis by auto
qed

definition live_ctx :: "(nat \<Rightarrow> bool) \<Rightarrow> nat \<Rightarrow> rerr option \<times> nat" where
  "live_ctx finished w = (if finished w then Some (OtherErr ''context canceled'') else None, w)"

definition endless_retry :: "(nat \<Rightarrow> bool) \<Rightarrow> nat retry" where
  "endless_retry finished = retry_New [WithPolicy PolicyInfinite, WithContext (Some (live_ctx finished))]"

lemma infinite_Do_trace_witness:
  "\<exists>effs. [Checked None, Attempt (Some ErrRetry), Waited Second, Checked None, Attempt (Some ErrRetry), Waited Second,
        Checked None, Attempt None] = effs @ success_hook (endless_retry (\<lambda>_. False)) None
    \<and> infinite_trace (endless_retry (\<lambda>_. False)) None effs"
proof -
  let ?r = "endless_retry (\<lambda>_. False)"
  have "retry_Do never_interrupted ?r (Some (flaky 2 ErrRetry)) \<lparr>rworld = 0, reffs = []\<rparr> =
      Some (None, \<lparr>rworld = 3, reffs = [Checked None, Attempt (Some ErrRetry), Waited Second, Checked None,
        Attempt (Some ErrRetry), Waited Second, Checked None, Attempt None]\<rparr>)"
    by code_simp
  moreover have "policy ?r = PolicyInfinite" "ctx ?r \<noteq> None"
    by (simp_all add: endless_retry_def retry_New_def WithPolicy_def WithContext_def)
  ultimately show ?thesis
    using infinite_Do_trace [of ?r never_interrupted "flaky 2 ErrRetry" "\<lparr>rworld = 0, reffs = []\<rparr>"] by fastforce
qed

text \<open>Liveness needs a context that stays alive: its \<open>Err\<close> gives nil, waits are not interrupted and,
  like the hooks, leave the world alone.\<close>

definition steady :: "'w retry_env \<Rightarrow> 'w retry \<Rightarrow> bool" where
  "steady env r \<longleftrightarrow>
     (\<exists>err. ctx r = Some err \<and> (\<forall>w. err w = (None, w))) \<and> (\<forall>d w. wait env d w = (False, w))
     \<and> (onFailedFn r = None \<or> onFailedFn r = Some id)"

text \<open>\<open>plays fn es w w'\<close>: from \<open>w\<close> the function fails with the errors \<open>es\<close> in turn, then succeeds.\<close>

fun plays :: "('w \<Rightarrow> rerr option \<times> 'w) \<Rightarrow> rerr list \<Rightarrow> 'w \<Rightarrow> 'w \<Rightarrow> bool" where
  "plays fn [] w w' \<longleftrightarrow> fn w = (None, w')"
| "plays fn (e # es) w w' \<longleftrightarrow>
     (case fn w of (x, w1) \<Rightarrow> x = Some e \<and> \<not> retry_is ErrExit e \<and> plays fn es w1 w')"

lemma steady_round:
  assumes "steady env r" and "fn (rworld m) = (Some e, w)" and "\<not> retry_is ErrExit e"
  shows "infinite_round env r fn m
    = Some (None, m\<lparr>rworld := w, reffs := reffs m @ checked r @ failed_block r e @ waited (delay r) False\<rparr>)"
  using assms
  by (auto simp: checked_def waited_def infinite_round_def steady_def on_err_def seqm_def bnd_def ctxErr_def call_fn_def run_hook_def
      ret_def upd_def retry_sleep_def failed_block_def split: option.splits)

lemma steady_success:
  assumes "steady env r" and "fn (rworld m) = (None, w)"
  shows "infinite_round env r fn m = Some (Some None, m\<lparr>rworld := w, reffs := reffs m @ checked r @ [Attempt None]\<rparr>)"
  using assms by (auto simp: checked_def infinite_round_def steady_def on_err_def bnd_def ctxErr_def call_fn_def ret_def)

text \<open>Failures after which no wait was cut short.\<close>

abbreviation undisturbed :: "rerr list \<Rightarrow> (rerr \<times> bool) list" where
  "undisturbed es \<equiv> map (\<lambda>e. (e, False)) es"

lemma steady_loop:
  assumes "steady env r" and "plays fn es (rworld m) w'"
  shows "infinite_loop env r fn m = Some (None, m\<lparr>rworld := w',
    reffs := reffs m @ schedule r (\<lambda>_. delay r) 1 (undisturbed es) @ checked r @ [Attempt None]\<rparr>)"
  using assms(2)
proof (induction es arbitrary: m)
  case Nil
  then show ?case
    by (subst infinite_loop.simps) (simp add: steady_success [where fn = fn, OF assms(1)])
next
  case (Cons e es)
  obtain w1 where w1: "fn (rworld m) = (Some e, w1)" "\<not> retry_is ErrExit e" "plays fn es w1 w'"
    using Cons.prems by (auto split: prod.splits)
  let ?m1 = "m\<lparr>rworld := w1, reffs := reffs m @ checked r @ failed_block r e @ waited (delay r) False\<rparr>"
  have "infinite_loop env r fn m = infinite_loop env r fn ?m1"
    by (subst infinite_loop.simps) (simp add: steady_round [where fn = fn, OF assms(1) w1(1,2)])
  also have "\<dots> = Some (None, ?m1\<lparr>rworld := w', reffs := reffs ?m1 @ schedule r (\<lambda>_. delay r) 1 (undisturbed es)
      @ checked r @ [Attempt None]\<rparr>)"
    by (rule Cons.IH) (use w1(3) in simp)
  finally show ?case by (simp add: schedule_const [of r "delay r" 2])
qed

text \<open>C25. The infinite policy terminates as soon as the function succeeds: with a context that stays
  alive, if the function fails any number of times and then succeeds, \<open>Do\<close> returns nil after exactly
  these calls, however many they are.\<close>

theorem infinite_Do_returns:
  assumes "policy r = PolicyInfinite" and "steady env r" and "plays fn es (rworld m) w'"
  shows "\<exists>m'. retry_Do env r (Some fn) m = Some (None, m')
    \<and> reffs m' = reffs m @ schedule r (\<lambda>_. delay r) 1 (undisturbed es) @ checked r @ [Attempt None] @ success_hook r None"
proof -
  have "ctx r \<noteq> None" using assms(2) by (auto simp: steady_def)
  then have "retry_Do env r (Some fn) m = bnd (infinite_loop env r fn)
      (\<lambda>e. seqm (if e = None then run_hook OnSuccess (onSuccessFn r) else ret ()) (ret e)) m"
    using assms(1) by (auto simp: retry_Do_def infiniteRetry_def policy_defs)
  then show ?thesis
    using finish_Do [of None r "m\<lparr>rworld := w', reffs := reffs m @ schedule r (\<lambda>_. delay r) 1 (undisturbed es) @ checked r @ [Attempt None]\<rparr>"]
    by (auto simp: bnd_def steady_loop [OF assms(2,3)])
qed

lemma infinite_Do_returns_witness:
  "\<exists>m'. retry_Do never_interrupted (endless_retry (\<lambda>_. False)) (Some (flaky 2 ErrRetry)) \<lparr>rworld = 0, reffs = []\<rparr>
        = Some (None, m')
    \<and> reffs m' = [] @ schedule (endless_retry (\<lambda>_. False)) (\<lambda>_. delay (endless_retry (\<lambda>_. False))) 1
          [(ErrRetry, False), (ErrRetry, False)] @ [Checked None, Attempt None] @ success_hook (endless_retry (\<lambda>_. False)) None"
  using infinite_Do_returns [of "endless_retry (\<lambda>_. False)" never_interrupted "flaky 2 ErrRetry"
      "[ErrRetry, ErrRetry]" "\<lparr>rworld = 0, reffs = []\<rparr>" 3]
  by (simp add: endless_retry_def retry_New_def WithPolicy_def WithContext_def steady_def live_ctx_def
      never_interrupted_def flaky_def checked_def)

end
