(* ===== verification/Go_Steps.thy ===== *)
theory Go_Steps
  imports Main
begin

text \<open>
  Transition systems of concurrent components: the states reachable by interleaved steps, and the
  interface of an inductive invariant, possibly relative to one that is already established.
\<close>

inductive reaches :: "('s \<Rightarrow> 's \<Rightarrow> bool) \<Rightarrow> 's \<Rightarrow> 's \<Rightarrow> bool" for move :: "'s \<Rightarrow> 's \<Rightarrow> bool" and s0 :: 's where
  start: "reaches move s0 s0"
| move: "reaches move s0 s \<Longrightarrow> move s s' \<Longrightarrow> reaches move s0 s'"

lemma reaches_trans: "reaches move s1 s2 \<Longrightarrow> reaches move s0 s1 \<Longrightarrow> reaches move s0 s2"
  by (induction rule: reaches.induct) (auto intro: reaches.move)

text \<open>\<open>K\<close> is a fact known of every reachable state, \<open>I\<close> the invariant to establish.\<close>

locale step_invariant =
  fixes move :: "'s \<Rightarrow> 's \<Rightarrow> bool" and s0 :: 's and K :: "'s \<Rightarrow> bool" and I :: "'s \<Rightarrow> bool"
  assumes known: "reaches move s0 s \<Longrightarrow> K s"
    and initially: "I s0"
    and preserved: "K s \<Longrightarrow> I s \<Longrightarrow> move s s' \<Longrightarrow> I s'"
begin

lemma always: "reaches move s0 s \<Longrightarrow> I s"
  by (induction rule: reaches.induct) (auto intro: initially preserved known)

lemma always_known: "reaches move s0 s \<Longrightarrow> K s \<and> I s"
  by (simp add: known always)

end

end
