(* ===== verification/Broker.thy ===== *)
theory Broker
  imports Go_Steps "HOL-Library.Sublist"
begin

text \<open>
  Package \<open>broker\<close> (\<open>broker/broker.go\<close>) as a transition system. Any number of client goroutines call
  \<open>Subscribe\<close>, \<open>Unsubscribe\<close>, \<open>Publish\<close> and \<open>Stop\<close>; one goroutine runs \<open>Start\<close>; readers receive from
  subscriber channels. A step is one atomic action of one of them: an atomic load, a \<open>sync.Map\<close>
  operation, a channel operation. The label says which, and resolves what Go leaves open (the ready
  arm of a \<open>select\<close>, the next key of a \<open>Range\<close>).

  Channels are numbered in the order of their creation. \<open>Range\<close> has \<open>sync.Map\<close>'s contract: it visits no
  key twice, visits every key present from its start to its end, and may or may not visit keys stored
  or deleted meanwhile. Logging is not modelled.
\<close>

section \<open>State\<close>

record 'm chan =
  buf :: "'m list"
  is_closed :: bool

type_synonym 'm envelope = "'m \<times> nat list"

text \<open>The goroutine of \<open>Start\<close>: at its \<open>select\<close>, after the \<open>LoadAndDelete\<close> of \<open>removeAndClose\<close>, inside
  \<open>broadcast\<close> with the recipients left, inside \<open>closeAllSubscribers\<close> with the keys its \<open>Range\<close> still has
  to visit, finished, or ended by a panic that nothing recovers.\<close>

datatype 'm server =
    NotStarted
  | Selecting
  | Claimed nat
  | Sending 'm "nat list"
  | ClosingAll "nat set"
  | ClosingClaimed "nat set" nat
  | Exited
  | Crashed

text \<open>A client goroutine: between calls, in \<open>Subscribe\<close> after its check, in \<open>Publish\<close> during its \<open>Range\<close>
  (message, keys visited, keys to visit) and at its \<open>select\<close>, in \<open>Stop\<close> before \<open>close(stopCh)\<close> and at
  \<open><-doneCh\<close>.\<close>

datatype 'm client =
    Outside
  | Subscribing
  | Ranging 'm "nat list" "nat set"
  | Enqueuing 'm "nat list"
  | Stopping
  | AwaitingDone

text \<open>What happened, for the statements about order: a channel joined, an envelope was queued, a
  message entered a channel's buffer, a message was received from a channel.\<close>

datatype 'm happened = Joined nat | Published 'm "nat list" | Delivered nat 'm | Received nat 'm

record 'm broker =
  subs :: "nat set"
  publishCh :: "'m envelope list"
  unsubCh :: "nat list"
  stopCh :: bool
  doneCh :: bool
  closed :: bool
  chans :: "nat \<Rightarrow> 'm chan"
  next_chan :: nat
  server :: "'m server"
  client :: "nat \<Rightarrow> 'm client"
  late :: "nat set"
  history :: "'m happened list"

text \<open>\<open>late\<close> (the channels stored after \<open>closed\<close> was set) and \<open>history\<close> are ghost state.\<close>

definition subscriberBuffer :: nat where "subscriberBuffer = 8"
definition publishBuffer :: nat where "publishBuffer = 16"
definition unsubBuffer :: nat where "unsubBuffer = 16"

definition NewBroker :: "'m broker" where
  "NewBroker =
     \<lparr>subs = {}, publishCh = [], unsubCh = [], stopCh = False, doneCh = False, closed = False,
      chans = (\<lambda>_. \<lparr>buf = [], is_closed = False\<rparr>), next_chan = 0, server = NotStarted,
      client = (\<lambda>_. Outside), late = {}, history = []\<rparr>"

section \<open>Actions\<close>

definition occur :: "'m happened \<Rightarrow> 'm broker \<Rightarrow> 'm broker" where
  "occur e b = b\<lparr>history := history b @ [e]\<rparr>"

definition goto :: "nat \<Rightarrow> 'm client \<Rightarrow> 'm broker \<Rightarrow> 'm broker" where
  "goto t pc b = b\<lparr>client := (client b)(t := pc)\<rparr>"

definition serve :: "'m server \<Rightarrow> 'm broker \<Rightarrow> 'm broker" where
  "serve pc b = b\<lparr>server := pc\<rparr>"

text \<open>\<open>guard c x\<close>: the step is enabled when \<open>c\<close> holds.\<close>

definition guard :: "bool \<Rightarrow> 'a \<Rightarrow> 'a option" where
  "guard c x = (if c then Some x else None)"

text \<open>\<open>close(ch)\<close> by the broker; closing a closed channel panics, and \<open>Start\<close> does not recover.\<close>

definition close_chan :: "nat \<Rightarrow> 'm server \<Rightarrow> 'm broker \<Rightarrow> 'm broker" where
  "close_chan k pc b =
     (if is_closed (chans b k) then serve Crashed b
      else serve pc (b\<lparr>chans := (chans b)(k := (chans b k)\<lparr>is_closed := True\<rparr>)\<rparr>))"

text \<open>\<open>safeSend\<close>: the panic of a send on a closed channel is recovered and removes the subscription; a
  full buffer skips the message.\<close>

definition safeSend :: "nat \<Rightarrow> 'm \<Rightarrow> 'm broker \<Rightarrow> 'm broker" where
  "safeSend k msg b =
     (if is_closed (chans b k) then b\<lparr>subs := subs b - {k}\<rparr>
      else if length (buf (chans b k)) < subscriberBuffer then
        occur (Delivered k msg) (b\<lparr>chans := (chans b)(k := (chans b k)\<lparr>buf := buf (chans b k) @ [msg]\<rparr>)\<rparr>)
      else b)"

section \<open>Steps\<close>

datatype 'm label =
    \<comment> \<open>clients\<close>
    SubCheck nat | SubStore nat
  | Unsubscribe nat | UnsubscribeStopped
  | PubCheck nat 'm | PubVisit nat nat | PubRangeEnd nat | PubSend nat | PubDrop nat
  | StopSwap nat | StopClose nat | StopReturn nat
  | Receive nat
    \<comment> \<open>the goroutine of \<open>Start\<close>\<close>
  | Start
  | SrvStop | SrvUnsub | SrvTake | SrvClose
  | SrvSend | SrvSent
  | SrvVisit nat | SrvCloseEach | SrvDone
    \<comment> \<open>a subscriber closes its own channel\<close>
  | OwnerClose nat

fun subscribe_step :: "'m label \<Rightarrow> 'm broker \<Rightarrow> 'm broker option" where
  "subscribe_step (SubCheck t) b =
     guard (client b t = Outside) (if closed b then b else goto t Subscribing b)"
| "subscribe_step (SubStore t) b =
     guard (client b t = Subscribing)
       (let k = next_chan b in
        occur (Joined k) (goto t Outside
          (b\<lparr>subs := insert k (subs b), next_chan := Suc k,
             chans := (chans b)(k := \<lparr>buf = [], is_closed = False\<rparr>),
             late := (if closed b then insert k (late b) else late b)\<rparr>)))"
| "subscribe_step _ b = None"

text \<open>\<open>Unsubscribe\<close> is one \<open>select\<close>; its argument may be any channel, also an unknown one.\<close>

fun unsubscribe_step :: "'m label \<Rightarrow> 'm broker \<Rightarrow> 'm broker option" where
  "unsubscribe_step (Unsubscribe k) b =
     guard (length (unsubCh b) < unsubBuffer) (b\<lparr>unsubCh := unsubCh b @ [k]\<rparr>)"
| "unsubscribe_step UnsubscribeStopped b = guard (doneCh b) b"
| "unsubscribe_step _ b = None"

fun publish_step :: "'m label \<Rightarrow> 'm broker \<Rightarrow> 'm broker option" where
  "publish_step (PubCheck t msg) b =
     guard (client b t = Outside) (if closed b then b else goto t (Ranging msg [] (subs b)) b)"
| "publish_step (PubVisit t k) b =
     (case client b t of
        Ranging msg got must \<Rightarrow>
          guard (k \<in> subs b \<and> k \<notin> set got) (goto t (Ranging msg (got @ [k]) must) b)
      | _ \<Rightarrow> None)"
| "publish_step (PubRangeEnd t) b =
     (case client b t of
        Ranging msg got must \<Rightarrow>
          guard (must \<inter> subs b \<subseteq> set got) (goto t (if got = [] then Outside else Enqueuing msg got) b)
      | _ \<Rightarrow> None)"
| "publish_step (PubSend t) b =
     (case client b t of
        Enqueuing msg recipients \<Rightarrow>
          guard (length (publishCh b) < publishBuffer)
            (occur (Published msg recipients)
              (goto t Outside (b\<lparr>publishCh := publishCh b @ [(msg, recipients)]\<rparr>)))
      | _ \<Rightarrow> None)"
| "publish_step (PubDrop t) b =
     (case client b t of
        Enqueuing msg recipients \<Rightarrow> guard (stopCh b) (goto t Outside b)
      | _ \<Rightarrow> None)"
| "publish_step _ b = None"

fun stop_step :: "'m label \<Rightarrow> 'm broker \<Rightarrow> 'm broker option" where
  "stop_step (StopSwap t) b =
     guard (client b t = Outside) (if closed b then b else goto t Stopping (b\<lparr>closed := True\<rparr>))"
| "stop_step (StopClose t) b =
     guard (client b t = Stopping) (goto t AwaitingDone (b\<lparr>stopCh := True\<rparr>))"
| "stop_step (StopReturn t) b =
     guard (client b t = AwaitingDone \<and> doneCh b) (goto t Outside b)"
| "stop_step _ b = None"

text \<open>A receive from a subscriber channel takes the oldest buffered message, also from a closed one.\<close>

fun reader_step :: "'m label \<Rightarrow> 'm broker \<Rightarrow> 'm broker option" where
  "reader_step (Receive k) b =
     (case buf (chans b k) of
        [] \<Rightarrow> None
      | msg # rest \<Rightarrow>
          guard (k < next_chan b)
            (occur (Received k msg) (b\<lparr>chans := (chans b)(k := (chans b k)\<lparr>buf := rest\<rparr>)\<rparr>)))"
| "reader_step (OwnerClose k) b =
     guard (k < next_chan b \<and> \<not> is_closed (chans b k))
       (b\<lparr>chans := (chans b)(k := (chans b k)\<lparr>is_closed := True\<rparr>)\<rparr>)"
| "reader_step _ b = None"

fun server_step :: "'m label \<Rightarrow> 'm broker \<Rightarrow> 'm broker option" where
  "server_step Start b = guard (server b = NotStarted) (serve Selecting b)"
| "server_step SrvStop b = guard (server b = Selecting \<and> stopCh b) (serve (ClosingAll (subs b)) b)"
| "server_step SrvUnsub b =
     (case unsubCh b of
        [] \<Rightarrow> None
      | k # ks \<Rightarrow>
          guard (server b = Selecting)
            (if k \<in> subs b then serve (Claimed k) (b\<lparr>unsubCh := ks, subs := subs b - {k}\<rparr>)
             else b\<lparr>unsubCh := ks\<rparr>))"
| "server_step SrvClose b = (case server b of Claimed k \<Rightarrow> Some (close_chan k Selecting b) | _ \<Rightarrow> None)"
| "server_step SrvTake b =
     (case publishCh b of
        [] \<Rightarrow> None
      | (msg, recipients) # es \<Rightarrow>
          guard (server b = Selecting) (serve (Sending msg recipients) (b\<lparr>publishCh := es\<rparr>)))"
| "server_step SrvSend b =
     (case server b of Sending msg (k # ks) \<Rightarrow> Some (serve (Sending msg ks) (safeSend k msg b)) | _ \<Rightarrow> None)"
| "server_step SrvSent b = (case server b of Sending msg [] \<Rightarrow> Some (serve Selecting b) | _ \<Rightarrow> None)"
| "server_step (SrvVisit k) b =
     (case server b of
        ClosingAll must \<Rightarrow>
          guard (k \<in> subs b) (serve (ClosingClaimed must k) (b\<lparr>subs := subs b - {k}\<rparr>))
      | _ \<Rightarrow> None)"
| "server_step SrvCloseEach b =
     (case server b of ClosingClaimed must k \<Rightarrow> Some (close_chan k (ClosingAll must) b) | _ \<Rightarrow> None)"
| "server_step SrvDone b =
     (case server b of
        ClosingAll must \<Rightarrow> guard (must \<inter> subs b = {}) (serve Exited (b\<lparr>doneCh := True\<rparr>))
      | _ \<Rightarrow> None)"
| "server_step _ b = None"

text \<open>All steps; \<open>run\<close> is a sequence of them, \<open>None\<close> when one is not enabled. \<open>well_behaved\<close> runs contain
  no \<open>OwnerClose\<close>: only the broker closes subscriber channels.\<close>

definition bstep :: "'m label \<Rightarrow> 'm broker \<Rightarrow> 'm broker option" where
  "bstep l b =
     (case l of
        SubCheck _ \<Rightarrow> subscribe_step l b | SubStore _ \<Rightarrow> subscribe_step l b
      | Unsubscribe _ \<Rightarrow> unsubscribe_step l b | UnsubscribeStopped \<Rightarrow> unsubscribe_step l b
      | PubCheck _ _ \<Rightarrow> publish_step l b | PubVisit _ _ \<Rightarrow> publish_step l b | PubRangeEnd _ \<Rightarrow> publish_step l b
      | PubSend _ \<Rightarrow> publish_step l b | PubDrop _ \<Rightarrow> publish_step l b
      | StopSwap _ \<Rightarrow> stop_step l b | StopClose _ \<Rightarrow> stop_step l b | StopReturn _ \<Rightarrow> stop_step l b
      | Receive _ \<Rightarrow> reader_step l b | OwnerClose _ \<Rightarrow> reader_step l b
      | _ \<Rightarrow> server_step l b)"

fun brun :: "'m label list \<Rightarrow> 'm broker \<Rightarrow> 'm broker option" where
  "brun [] b = Some b"
| "brun (l # ls) b = (case bstep l b of None \<Rightarrow> None | Some b' \<Rightarrow> brun ls b')"

text \<open>The moves of the system with (\<open>owners\<close>) or without subscribers that close their channels
  themselves, and the states any interleaving of them reaches.\<close>

definition broker_move :: "bool \<Rightarrow> 'm broker \<Rightarrow> 'm broker \<Rightarrow> bool" where
  "broker_move owners b b' \<longleftrightarrow> (\<exists>l. bstep l b = Some b' \<and> (owners \<or> (\<forall>k. l \<noteq> OwnerClose k)))"

abbreviation reachable :: "bool \<Rightarrow> 'm broker \<Rightarrow> bool" where
  "reachable owners \<equiv> reaches (broker_move owners) NewBroker"

definition owner_free :: "'m label list \<Rightarrow> bool" where
  "owner_free ls \<longleftrightarrow> list_all (\<lambda>l. case l of OwnerClose k \<Rightarrow> False | _ \<Rightarrow> True) ls"

lemma brun_reachable:
  "brun ls b = Some b' \<Longrightarrow> reachable owners b \<Longrightarrow> owners \<or> owner_free ls \<Longrightarrow> reachable owners b'"
proof (induction ls arbitrary: b)
  case (Cons l ls)
  obtain b1 where b1: "bstep l b = Some b1" "brun ls b1 = Some b'"
    using Cons.prems(1) by (auto split: option.splits)
  have "broker_move owners b b1"
    using b1(1) Cons.prems(3) by (auto simp: broker_move_def owner_free_def)
  with Cons.prems(2) have "reachable owners b1" by (rule reaches.move)
  with Cons.IH [OF b1(2)] Cons.prems(3) show ?case by (auto simp: owner_free_def)
qed simp

lemma guard_Some_iff [simp]: "guard c x = Some y \<longleftrightarrow> c \<and> y = x"
  by (auto simp: guard_def)

text \<open>When each step is enabled and what it does.\<close>

lemma bstep_client_iff:
  "bstep (SubCheck t) b = Some b' \<longleftrightarrow> client b t = Outside \<and> b' = (if closed b then b else goto t Subscribing b)"
  "bstep (SubStore t) b = Some b' \<longleftrightarrow> client b t = Subscribing \<and>
     b' = occur (Joined (next_chan b)) (goto t Outside
          (b\<lparr>subs := insert (next_chan b) (subs b), next_chan := Suc (next_chan b),
             chans := (chans b)(next_chan b := \<lparr>buf = [], is_closed = False\<rparr>),
             late := (if closed b then insert (next_chan b) (late b) else late b)\<rparr>))"
  "bstep (Unsubscribe k) b = Some b' \<longleftrightarrow> length (unsubCh b) < unsubBuffer \<and> b' = b\<lparr>unsubCh := unsubCh b @ [k]\<rparr>"
  "bstep UnsubscribeStopped b = Some b' \<longleftrightarrow> doneCh b \<and> b' = b"
  "bstep (PubCheck t msg) b = Some b' \<longleftrightarrow>
     client b t = Outside \<and> b' = (if closed b then b else goto t (Ranging msg [] (subs b)) b)"
  "bstep (PubVisit t k) b = Some b' \<longleftrightarrow> (\<exists>msg got must. client b t = Ranging msg got must
     \<and> k \<in> subs b \<and> k \<notin> set got \<and> b' = goto t (Ranging msg (got @ [k]) must) b)"
  "bstep (PubRangeEnd t) b = Some b' \<longleftrightarrow> (\<exists>msg got must. client b t = Ranging msg got must
     \<and> must \<inter> subs b \<subseteq> set got \<and> b' = goto t (if got = [] then Outside else Enqueuing msg got) b)"
  "bstep (PubSend t) b = Some b' \<longleftrightarrow> (\<exists>msg rs. client b t = Enqueuing msg rs
     \<and> length (publishCh b) < publishBuffer
     \<and> b' = occur (Published msg rs) (goto t Outside (b\<lparr>publishCh := publishCh b @ [(msg, rs)]\<rparr>)))"
  "bstep (PubDrop t) b = Some b' \<longleftrightarrow> (\<exists>msg rs. client b t = Enqueuing msg rs \<and> stopCh b \<and> b' = goto t Outside b)"
  "bstep (StopSwap t) b = Some b' \<longleftrightarrow>
     client b t = Outside \<and> b' = (if closed b then b else goto t Stopping (b\<lparr>closed := True\<rparr>))"
  "bstep (StopClose t) b = Some b' \<longleftrightarrow> client b t = Stopping \<and> b' = goto t AwaitingDone (b\<lparr>stopCh := True\<rparr>)"
  "bstep (StopReturn t) b = Some b' \<longleftrightarrow> client b t = AwaitingDone \<and> doneCh b \<and> b' = goto t Outside b"
  "bstep (Receive k) b = Some b' \<longleftrightarrow> (\<exists>msg rest. buf (chans b k) = msg # rest \<and> k < next_chan b
     \<and> b' = occur (Received k msg) (b\<lparr>chans := (chans b)(k := (chans b k)\<lparr>buf := rest\<rparr>)\<rparr>))"
  "bstep (OwnerClose k) b = Some b' \<longleftrightarrow> k < next_chan b \<and> \<not> is_closed (chans b k)
     \<and> b' = b\<lparr>chans := (chans b)(k := (chans b k)\<lparr>is_closed := True\<rparr>)\<rparr>"
  by (auto simp: bstep_def Let_def split: client.splits list.splits)

lemma bstep_server_iff:
  "bstep Start b = Some b' \<longleftrightarrow> server b = NotStarted \<and> b' = serve Selecting b"
  "bstep SrvStop b = Some b' \<longleftrightarrow> server b = Selecting \<and> stopCh b \<and> b' = serve (ClosingAll (subs b)) b"
  "bstep SrvUnsub b = Some b' \<longleftrightarrow> (\<exists>k ks. unsubCh b = k # ks \<and> server b = Selecting
     \<and> b' = (if k \<in> subs b then serve (Claimed k) (b\<lparr>unsubCh := ks, subs := subs b - {k}\<rparr>)
             else b\<lparr>unsubCh := ks\<rparr>))"
  "bstep SrvClose b = Some b' \<longleftrightarrow> (\<exists>k. server b = Claimed k \<and> b' = close_chan k Selecting b)"
  "bstep SrvTake b = Some b' \<longleftrightarrow> (\<exists>msg rs es. publishCh b = (msg, rs) # es \<and> server b = Selecting
     \<and> b' = serve (Sending msg rs) (b\<lparr>publishCh := es\<rparr>))"
  "bstep SrvSend b = Some b' \<longleftrightarrow> (\<exists>msg k ks. server b = Sending msg (k # ks)
     \<and> b' = serve (Sending msg ks) (safeSend k msg b))"
  "bstep SrvSent b = Some b' \<longleftrightarrow> (\<exists>msg. server b = Sending msg [] \<and> b' = serve Selecting b)"
  "bstep (SrvVisit k) b = Some b' \<longleftrightarrow> (\<exists>must. server b = ClosingAll must \<and> k \<in> subs b
     \<and> b' = serve (ClosingClaimed must k) (b\<lparr>subs := subs b - {k}\<rparr>))"
  "bstep SrvCloseEach b = Some b' \<longleftrightarrow> (\<exists>must k. server b = ClosingClaimed must k
     \<and> b' = close_chan k (ClosingAll must) b)"
  "bstep SrvDone b = Some b' \<longleftrightarrow> (\<exists>must. server b = ClosingAll must \<and> must \<inter> subs b = {}
     \<and> b' = serve Exited (b\<lparr>doneCh := True\<rparr>))"
  by (auto simp: bstep_def split: server.splits list.splits prod.splits)

lemmas bstep_iff = bstep_client_iff bstep_server_iff
lemmas action_defs = occur_def goto_def serve_def safeSend_def

end
