(* ===== verification/Broker_Props.thy ===== *)
theory Broker_Props
  imports Broker
begin

text \<open>
  Properties of the broker over all interleavings: it never panics, what subscribers receive, in which
  order, and what \<open>Stop\<close> guarantees.
\<close>

section \<open>Ownership of channels\<close>

text \<open>The channel the server has taken out of \<open>subs\<close> and not yet closed.\<close>

fun claimed :: "'m server \<Rightarrow> nat option" where
  "claimed (Claimed k) = Some k"
| "claimed (ClosingClaimed must k) = Some k"
| "claimed _ = None"

text \<open>While no subscriber closes its channel: a subscribed or claimed channel is open, every other one
  that was created is closed, and the server has not crashed.\<close>

definition owned :: "'m broker \<Rightarrow> bool" where
  "owned b \<longleftrightarrow>
     server b \<noteq> Crashed \<and> subs b \<subseteq> {..<next_chan b}
     \<and> (\<forall>k \<in> subs b. \<not> is_closed (chans b k))
     \<and> (\<forall>k. claimed (server b) = Some k \<longrightarrow> k < next_chan b \<and> k \<notin> subs b \<and> \<not> is_closed (chans b k))
     \<and> (\<forall>k < next_chan b. k \<notin> subs b \<longrightarrow> claimed (server b) \<noteq> Some k \<longrightarrow> is_closed (chans b k))
     \<and> (doneCh b \<longleftrightarrow> server b = Exited)"

lemma owned_close:
  assumes "owned b" and "claimed (server b) = Some k" and "claimed pc = None" "pc \<noteq> Crashed" "pc \<noteq> Exited"
  shows "owned (close_chan k pc b)"
proof -
  have k: "k < next_chan b" "k \<notin> subs b" "\<not> is_closed (chans b k)" and "server b \<noteq> Exited"
    using assms(1,2) by (auto simp: owned_def)
  then have "close_chan k pc b = serve pc (b\<lparr>chans := (chans b)(k := (chans b k)\<lparr>is_closed := True\<rparr>)\<rparr>)"
    by (simp add: close_chan_def)
  with assms k \<open>server b \<noteq> Exited\<close> show ?thesis
    unfolding owned_def by (auto simp: serve_def)
qed

lemma owned_step:
  assumes "owned b" and "bstep l b = Some b'" and "\<forall>k. l \<noteq> OwnerClose k"
  shows "owned b'"
proof (cases "l = SrvClose \<or> l = SrvCloseEach")
  case True
  with assms show ?thesis by (auto simp: bstep_iff intro!: owned_close)
next
  case False
  with assms show ?thesis
    by (cases l; clarsimp simp: bstep_iff; auto simp: action_defs owned_def less_Suc_eq split: if_splits)
qed

interpretation ownership: step_invariant "broker_move False" NewBroker "\<lambda>_. True" owned
proof
  show "owned NewBroker" by (simp add: owned_def NewBroker_def)
qed (auto simp: broker_move_def intro: owned_step)

section \<open>Histories\<close>

fun joined :: "'m happened list \<Rightarrow> nat set" where
  "joined [] = {}"
| "joined (Joined k # h) = insert k (joined h)"
| "joined (_ # h) = joined h"

fun published :: "'m happened list \<Rightarrow> 'm envelope list" where
  "published [] = []"
| "published (Published m rs # h) = (m, rs) # published h"
| "published (_ # h) = published h"

fun delivered :: "nat \<Rightarrow> 'm happened list \<Rightarrow> 'm list" where
  "delivered k [] = []"
| "delivered k (Delivered j m # h) = (if j = k then [m] else []) @ delivered k h"
| "delivered k (_ # h) = delivered k h"

fun received :: "nat \<Rightarrow> 'm happened list \<Rightarrow> 'm list" where
  "received k [] = []"
| "received k (Received j m # h) = (if j = k then [m] else []) @ received k h"
| "received k (_ # h) = received k h"

text \<open>The messages addressed to a channel, in the order in which they were queued.\<close>

definition addressed_to :: "nat \<Rightarrow> 'm envelope list \<Rightarrow> 'm list" where
  "addressed_to k es = map fst (filter (\<lambda>e. k \<in> set (snd e)) es)"

text \<open>Every message was addressed to channels that had joined before, each at most once.\<close>

fun well_addressed :: "nat set \<Rightarrow> 'm happened list \<Rightarrow> bool" where
  "well_addressed js [] \<longleftrightarrow> True"
| "well_addressed js (Joined k # h) \<longleftrightarrow> k \<notin> js \<and> well_addressed (insert k js) h"
| "well_addressed js (Published m rs # h) \<longleftrightarrow> set rs \<subseteq> js \<and> distinct rs \<and> well_addressed js h"
| "well_addressed js (_ # h) \<longleftrightarrow> well_addressed js h"

lemma joined_append [simp]: "joined (h @ h') = joined h \<union> joined h'"
  by (induction h rule: joined.induct) auto

lemma published_append [simp]: "published (h @ h') = published h @ published h'"
  by (induction h rule: published.induct) auto

lemma delivered_append [simp]: "delivered k (h @ h') = delivered k h @ delivered k h'"
  by (induction k h rule: delivered.induct) auto

lemma received_append [simp]: "received k (h @ h') = received k h @ received k h'"
  by (induction k h rule: received.induct) auto

lemma well_addressed_append [simp]:
  "well_addressed js (h @ h') \<longleftrightarrow> well_addressed js h \<and> well_addressed (js \<union> joined h) h'"
  by (induction js h rule: well_addressed.induct) (auto simp: insert_commute)

lemma addressed_to_append [simp]: "addressed_to k (es @ es') = addressed_to k es @ addressed_to k es'"
  by (simp add: addressed_to_def)

lemma addressed_to_simps [simp]:
  "addressed_to k [] = []"
  "addressed_to k (e # es) = (if k \<in> set (snd e) then fst e # addressed_to k es else addressed_to k es)"
  by (simp_all add: addressed_to_def)

lemma well_addressed_published:
  "well_addressed js h \<Longrightarrow> e \<in> set (published h) \<Longrightarrow> set (snd e) \<subseteq> js \<union> joined h \<and> distinct (snd e)"
  by (induction js h rule: well_addressed.induct) auto

section \<open>Who is addressed\<close>

text \<open>Channels have joined in the order of their numbers, and everything that will address a message
  names channels that have joined.\<close>

fun client_ok :: "nat \<Rightarrow> 'm client \<Rightarrow> bool" where
  "client_ok n (Ranging m got must) \<longleftrightarrow> set got \<subseteq> {..<n} \<and> distinct got"
| "client_ok n (Enqueuing m rs) \<longleftrightarrow> set rs \<subseteq> {..<n} \<and> distinct rs"
| "client_ok n _ \<longleftrightarrow> True"

lemma client_ok_Suc: "client_ok n pc \<Longrightarrow> client_ok (Suc n) pc"
  by (cases pc) auto

definition addressing :: "'m broker \<Rightarrow> bool" where
  "addressing b \<longleftrightarrow>
     joined (history b) = {..<next_chan b} \<and> well_addressed {} (history b)
     \<and> subs b \<subseteq> {..<next_chan b} \<and> (\<forall>t. client_ok (next_chan b) (client b t))"

lemma addressing_step:
  assumes "addressing b" and "bstep l b = Some b'"
  shows "addressing b'"
proof -
  have c: "client_ok (next_chan b) (client b t)" for t using assms(1) by (simp add: addressing_def)
  have ranging: "set got \<subseteq> {..<next_chan b}" "distinct got" if "client b t = Ranging m got must" for t m got must
    using c [of t] that by auto
  have enqueuing: "set rs \<subseteq> {..<next_chan b}" "distinct rs" if "client b t = Enqueuing m rs" for t m rs
    using c [of t] that by auto
  show ?thesis
    using assms
    by (cases l; clarsimp simp: bstep_iff; simp add: action_defs close_chan_def addressing_def split: if_splits;
        fastforce simp: lessThan_Suc client_ok_Suc [OF c] c dest: ranging enqueuing)
qed

interpretation addressing: step_invariant "broker_move owners" NewBroker "\<lambda>_. True" addressing
proof
  show "addressing NewBroker" by (auto simp: addressing_def NewBroker_def)
qed (auto simp: broker_move_def intro: addressing_step)

section \<open>Order of delivery\<close>

text \<open>The envelopes taken from the queue so far, \<open>taken\<close>, may all have been delivered to \<open>k\<close>, except the
  last one while the server still has \<open>k\<close> on its list.\<close>

fun sending_ok :: "'m server \<Rightarrow> 'm envelope list \<Rightarrow> bool" where
  "sending_ok (Sending m rest) taken \<longleftrightarrow>
     taken \<noteq> [] \<and> fst (last taken) = m \<and> set rest \<subseteq> set (snd (last taken)) \<and> distinct rest"
| "sending_ok _ taken \<longleftrightarrow> True"

fun due :: "'m server \<Rightarrow> 'm envelope list \<Rightarrow> nat \<Rightarrow> 'm envelope list" where
  "due (Sending m rest) taken k = (if k \<in> set rest then butlast taken else taken)"
| "due _ taken k = taken"

definition fifo_with :: "'m envelope list \<Rightarrow> 'm broker \<Rightarrow> bool" where
  "fifo_with taken b \<longleftrightarrow>
     published (history b) = taken @ publishCh b \<and> sending_ok (server b) taken
     \<and> (\<forall>k. subseq (delivered k (history b)) (addressed_to k (due (server b) taken k)))"

definition fifo :: "'m broker \<Rightarrow> bool" where
  "fifo b \<longleftrightarrow> (\<exists>taken. fifo_with taken b)"

lemma addressed_to_last:
  "taken \<noteq> [] \<Longrightarrow> addressed_to k taken
     = addressed_to k (butlast taken) @ (if k \<in> set (snd (last taken)) then [fst (last taken)] else [])"
  by (subst append_butlast_last_id [symmetric]) (simp_all del: append_butlast_last_id)

lemma fifo_take:
  assumes "fifo_with taken b" and "well_addressed {} (history b)"
    and "publishCh b = (m, rs) # es" and "server b = Selecting"
  shows "fifo_with (taken @ [(m, rs)]) (serve (Sending m rs) (b\<lparr>publishCh := es\<rparr>))"
proof -
  have "(m, rs) \<in> set (published (history b))" using assms(1,3) by (simp add: fifo_with_def)
  with assms(2) have "distinct rs" by (auto dest: well_addressed_published)
  with assms show ?thesis by (simp add: fifo_with_def serve_def)
qed

lemma subseq_append_right: "subseq xs ys \<Longrightarrow> subseq xs (ys @ zs)"
  using list_emb_append_mono [of _ xs ys "[]" zs] by simp

lemma subseq_append_mono: "subseq xs ys \<Longrightarrow> subseq (xs @ zs) (ys @ zs)"
  by simp

lemma fifo_send:
  assumes "fifo_with taken b" and "server b = Sending m (k # ks)"
  shows "fifo_with taken (serve (Sending m ks) (safeSend k m b))"
proof -
  have ok: "taken \<noteq> []" "fst (last taken) = m" "k \<in> set (snd (last taken))" "set ks \<subseteq> set (snd (last taken))"
    "k \<notin> set ks" "distinct ks" and sub: "\<And>j. subseq (delivered j (history b)) (addressed_to j (due (server b) taken j))"
    using assms by (auto simp: fifo_with_def)
  have k: "subseq (delivered k (history b)) (addressed_to k (butlast taken))" using sub [of k] assms(2) by simp
  have "subseq (delivered k (history b)) (addressed_to k taken)"
    "subseq (delivered k (history b) @ [m]) (addressed_to k taken)"
    using k ok by (simp_all add: addressed_to_last subseq_append_right subseq_append_mono)
  moreover have "due (server b) taken j = due (Sending m ks) taken j" if "j \<noteq> k" for j using assms(2) that by simp
  ultimately have "subseq (delivered j (history (safeSend k m b))) (addressed_to j (due (Sending m ks) taken j))" for j
    using sub [of j] ok by (cases "j = k") (auto simp: safeSend_def occur_def)
  moreover have "published (history (safeSend k m b)) = taken @ publishCh (safeSend k m b)"
    using assms(1) by (simp add: fifo_with_def safeSend_def occur_def)
  ultimately show ?thesis using ok by (simp add: fifo_with_def serve_def)
qed

lemma fifo_step:
  assumes "addressing b" and "fifo b" and "bstep l b = Some b'"
  shows "fifo b'"
proof -
  obtain taken where f: "fifo_with taken b" using assms(2) by (auto simp: fifo_def)
  consider "l = SrvTake" | "l = SrvSend" | "l \<noteq> SrvTake" "l \<noteq> SrvSend" by blast
  then show ?thesis
  proof cases
    case 1
    with assms f show ?thesis by (auto simp: bstep_iff fifo_def addressing_def intro: fifo_take)
  next
    case 2
    with assms(3) f show ?thesis by (auto simp: bstep_iff fifo_def intro: fifo_send)
  next
    case 3
    with assms(3) f have "fifo_with taken b'"
      by (cases l; clarsimp simp: bstep_iff; auto simp: occur_def goto_def serve_def close_chan_def fifo_with_def)
    then show ?thesis by (auto simp: fifo_def)
  qed
qed

interpretation fifo: step_invariant "broker_move owners" NewBroker addressing fifo
proof
  show "fifo NewBroker" by (auto simp: fifo_def fifo_with_def NewBroker_def)
qed (auto simp: broker_move_def intro: fifo_step addressing.always)

section \<open>Buffers\<close>

text \<open>One channel: what was delivered is what was received followed by what is buffered; nothing happens
  on channels not yet created.\<close>

definition chan_ok :: "'m broker \<Rightarrow> nat \<Rightarrow> bool" where
  "chan_ok b k \<longleftrightarrow>
     delivered k (history b) = received k (history b) @ buf (chans b k)
     \<and> (next_chan b \<le> k \<longrightarrow> buf (chans b k) = [] \<and> delivered k (history b) = [])
     \<and> length (buf (chans b k)) \<le> subscriberBuffer"

definition queues_ok :: "'m broker \<Rightarrow> bool" where
  "queues_ok b \<longleftrightarrow>
     (\<forall>e \<in> set (publishCh b). set (snd e) \<subseteq> {..<next_chan b})
     \<and> (case server b of Sending m rest \<Rightarrow> set rest \<subseteq> {..<next_chan b} | _ \<Rightarrow> True)
     \<and> length (publishCh b) \<le> publishBuffer \<and> length (unsubCh b) \<le> unsubBuffer"

definition buffered :: "'m broker \<Rightarrow> bool" where
  "buffered b \<longleftrightarrow> queues_ok b \<and> (\<forall>k. chan_ok b k)"

lemma queues_ok_step:
  assumes "addressing b" and "queues_ok b" and "bstep l b = Some b'"
  shows "queues_ok b'"
proof -
  have enqueuing: "set rs \<subseteq> {..<next_chan b}" if "client b t = Enqueuing m rs" for t m rs
    using assms(1) that by (auto simp: addressing_def) (metis client_ok.simps(2) lessThan_iff subsetD)
  have Suc: "set rs \<subseteq> {..<Suc n}" if "set rs \<subseteq> {..<n}" for rs n
    using that by (auto simp: less_Suc_eq)
  show ?thesis
    using assms(2,3)
    by (cases l; clarsimp simp: bstep_iff; simp add: action_defs close_chan_def queues_ok_def Suc enqueuing
        split: if_splits server.splits)
qed

lemma chan_ok_step:
  assumes "queues_ok b" and c: "chan_ok b j" and "bstep l b = Some b'"
  shows "chan_ok b' j"
proof -
  have sending: "k < next_chan b" if "server b = Sending m (k # ks)" for k m ks
    using assms(1) that by (simp add: queues_ok_def)
  show ?thesis
    using assms(3) c
    by (cases l; clarsimp simp: bstep_iff; simp add: action_defs close_chan_def chan_ok_def split: if_splits;
        fastforce dest: sending)
qed

interpretation buffered: step_invariant "broker_move owners" NewBroker addressing buffered
proof
  show "buffered NewBroker" by (simp add: buffered_def chan_ok_def queues_ok_def NewBroker_def)
qed (auto simp: broker_move_def buffered_def intro: queues_ok_step chan_ok_step addressing.always)

section \<open>Stopping\<close>

text \<open>From the moment \<open>closeAllSubscribers\<close> starts, every channel still subscribed is one it has yet to
  visit or one that joined after \<open>Stop\<close> set \<open>closed\<close>.\<close>

definition closing :: "'m broker \<Rightarrow> bool" where
  "closing b \<longleftrightarrow>
     (stopCh b \<longrightarrow> closed b) \<and> (\<forall>t. client b t = Stopping \<longrightarrow> closed b)
     \<and> (case server b of
          ClosingAll must \<Rightarrow> closed b \<and> subs b \<subseteq> must \<union> late b
        | ClosingClaimed must k \<Rightarrow> closed b \<and> subs b \<subseteq> must \<union> late b
        | Exited \<Rightarrow> closed b \<and> subs b \<subseteq> late b
        | _ \<Rightarrow> True)"

lemma closing_step:
  assumes "closing b" and "bstep l b = Some b'"
  shows "closing b'"
  using assms
  by (cases l; clarsimp simp: bstep_iff; simp add: action_defs close_chan_def closing_def split: if_splits server.splits;
      blast)

interpretation closing: step_invariant "broker_move owners" NewBroker "\<lambda>_. True" closing
proof
  show "closing NewBroker" by (simp add: closing_def NewBroker_def)
qed (auto simp: broker_move_def intro: closing_step)

section \<open>Properties\<close>

text \<open>C30. As long as subscribers leave closing to the broker, no interleaving makes the broker's
  goroutine panic: it never closes a channel twice, and every subscribed channel is open.\<close>

theorem broker_never_panics:
  assumes "reachable False b"
  shows "server b \<noteq> Crashed \<and> (\<forall>k \<in> subs b. \<not> is_closed (chans b k))"
  using ownership.always [OF assms] by (simp add: owned_def)

lemma addressed_before_joining:
  assumes "well_addressed {} (pre @ Joined k # post)"
  shows "addressed_to k (published pre) = []"
proof -
  have "k \<notin> set (snd e)" if "e \<in> set (published pre)" for e
    using well_addressed_published [OF _ that, of "{}"] assms by auto
  then show ?thesis by (simp add: addressed_to_def)
qed

lemma subseq_append_cut: "subseq (xs @ ys) zs \<Longrightarrow> subseq xs zs"
  using subseq_order.order_trans [of xs "xs @ ys" zs] by (simp add: subseq_append_right)

lemma received_in_order:
  assumes "reachable owners b"
  shows "subseq (received k (history b)) (addressed_to k (published (history b)))"
proof -
  obtain taken where taken: "fifo_with taken b"
    using fifo.always [OF assms] by (auto simp: fifo_def)
  have "subseq (delivered k (history b)) (addressed_to k (due (server b) taken k))"
    using taken by (simp add: fifo_with_def)
  moreover have "subseq (addressed_to k (due (server b) taken k)) (addressed_to k taken)"
    using taken by (cases "server b") (auto simp: fifo_with_def addressed_to_last subseq_append_right)
  moreover have "subseq (addressed_to k taken) (addressed_to k (published (history b)))"
    using taken by (simp add: fifo_with_def subseq_append_right)
  ultimately have "subseq (delivered k (history b)) (addressed_to k (published (history b)))"
    using subseq_order.order_trans by blast
  moreover have "delivered k (history b) = received k (history b) @ buf (chans b k)"
    using buffered.always [OF assms] by (simp add: buffered_def chan_ok_def)
  ultimately show ?thesis by (metis subseq_append_cut)
qed

text \<open>C29. A subscriber receives only messages queued after it joined, each at most once and in the order
  in which they were queued, whatever is dropped on full buffers, unsubscribed or closed meanwhile.\<close>

theorem subscriber_receives_later_messages_in_order:
  assumes "reachable owners b" and "history b = pre @ Joined k # post"
  shows "subseq (received k (history b)) (addressed_to k (published post))"
proof -
  have "well_addressed {} (history b)" using addressing.always [OF assms(1)] by (simp add: addressing_def)
  then have "addressed_to k (published pre) = []"
    using addressed_before_joining [of pre k post] assms(2) by simp
  with received_in_order [OF assms(1), of k] assms(2) show ?thesis by simp
qed

text \<open>C31. Once the broker's goroutine has ended, every channel whose \<open>Subscribe\<close> stored it before \<open>Stop\<close>
  set the closed flag is closed, so readers of these channels terminate.\<close>

theorem stop_closes_subscribers:
  assumes "reachable False b" and "doneCh b" and "k < next_chan b" and "k \<notin> late b"
  shows "is_closed (chans b k)"
proof -
  have "server b = Exited" "k \<notin> subs b \<longrightarrow> is_closed (chans b k)"
    using ownership.always [OF assms(1)] assms(2,3) by (auto simp: owned_def)
  with closing.always [OF assms(1)] assms(4) show ?thesis by (auto simp: closing_def)
qed

text \<open>The queues stay within the capacities they are created with, 16 envelopes, 16 unsubscribe
  requests and 8 messages per subscriber.\<close>

theorem broker_queues_bounded:
  assumes "reachable owners b"
  shows "length (publishCh b) \<le> 16 \<and> length (unsubCh b) \<le> 16 \<and> length (buf (chans b k)) \<le> 8"
  using buffered.always [OF assms]
  by (simp add: buffered_def queues_ok_def chan_ok_def publishBuffer_def unsubBuffer_def subscriberBuffer_def)

section \<open>Stop terminates\<close>

text \<open>The labels of the broker's goroutine.\<close>

fun server_label :: "'m label \<Rightarrow> bool" where
  "server_label Start = True" | "server_label SrvStop = True" | "server_label SrvUnsub = True"
| "server_label SrvTake = True" | "server_label SrvClose = True" | "server_label SrvSend = True"
| "server_label SrvSent = True" | "server_label (SrvVisit k) = True" | "server_label SrvCloseEach = True"
| "server_label SrvDone = True" | "server_label _ = False"

definition alone_reaches_done :: "'m broker \<Rightarrow> bool" where
  "alone_reaches_done b \<longleftrightarrow> (\<exists>ls b'. list_all server_label ls \<and> brun ls b = Some b' \<and> doneCh b')"

lemma alone_step:
  "bstep l b = Some b' \<Longrightarrow> server_label l \<Longrightarrow> alone_reaches_done b' \<Longrightarrow> alone_reaches_done b"
  unfolding alone_reaches_done_def
  by (metis brun.simps(2) list.pred_inject(2) option.simps(5))

lemma alone_done: "doneCh b \<Longrightarrow> alone_reaches_done b"
  unfolding alone_reaches_done_def by (rule exI [of _ "[]"]) simp

lemma alone_closing:
  assumes "finite S" and "subs b = S" and "owned b" and "server b = ClosingAll must"
  shows "alone_reaches_done b"
  using assms
proof (induction S arbitrary: b rule: finite_induct)
  case empty
  then have "bstep SrvDone b = Some (serve Exited (b\<lparr>doneCh := True\<rparr>))" by (simp add: bstep_iff)
  then show ?case by (rule alone_step) (simp_all add: alone_done serve_def)
next
  case (insert k S)
  let ?b1 = "serve (ClosingClaimed must k) (b\<lparr>subs := subs b - {k}\<rparr>)"
  let ?b2 = "close_chan k (ClosingAll must) ?b1"
  have 1: "bstep (SrvVisit k) b = Some ?b1" using insert.prems by (simp add: bstep_iff)
  have o1: "owned ?b1" by (rule owned_step [OF insert.prems(2) 1]) simp
  have 2: "bstep SrvCloseEach ?b1 = Some ?b2" by (simp add: bstep_iff serve_def)
  have o2: "owned ?b2" by (rule owned_step [OF o1 2]) simp
  have "\<not> is_closed (chans ?b1 k)" using o1 by (simp add: owned_def serve_def)
  then have "subs ?b2 = S" "server ?b2 = ClosingAll must"
    using insert.hyps insert.prems by (auto simp: close_chan_def serve_def)
  with insert.IH o2 have "alone_reaches_done ?b2" by blast
  then have "alone_reaches_done ?b1" by (rule alone_step [OF 2, rotated]) simp
  then show ?case by (rule alone_step [OF 1, rotated]) simp
qed

lemma alone_selecting:
  assumes "owned b" and "stopCh b" and "server b = Selecting"
  shows "alone_reaches_done b"
proof -
  have 1: "bstep SrvStop b = Some (serve (ClosingAll (subs b)) b)" using assms by (simp add: bstep_iff)
  have "subs b \<subseteq> {..<next_chan b}" using assms(1) by (simp add: owned_def)
  then have "finite (subs b)" by (rule finite_subset) simp
  moreover have "owned (serve (ClosingAll (subs b)) b)" by (rule owned_step [OF assms(1) 1]) simp
  ultimately have "alone_reaches_done (serve (ClosingAll (subs b)) b)"
    by (intro alone_closing) (auto simp: serve_def)
  with 1 show ?thesis by (auto intro: alone_step)
qed

lemma alone_sending:
  assumes "owned b" and "stopCh b" and "server b = Sending m ks"
  shows "alone_reaches_done b"
  using assms
proof (induction ks arbitrary: b)
  case Nil
  then have 1: "bstep SrvSent b = Some (serve Selecting b)" by (simp add: bstep_iff)
  have "owned (serve Selecting b)" by (rule owned_step [OF Nil.prems(1) 1]) simp
  then have "alone_reaches_done (serve Selecting b)"
    using Nil.prems by (intro alone_selecting) (auto simp: serve_def)
  with 1 show ?case by (auto intro: alone_step)
next
  case (Cons k ks)
  let ?b1 = "serve (Sending m ks) (safeSend k m b)"
  have 1: "bstep SrvSend b = Some ?b1" using Cons.prems by (simp add: bstep_iff)
  have "owned ?b1" by (rule owned_step [OF Cons.prems(1) 1]) simp
  then have "alone_reaches_done ?b1"
    using Cons.prems by (intro Cons.IH) (auto simp: serve_def safeSend_def occur_def)
  with 1 show ?case by (auto intro: alone_step)
qed

lemma alone_claimed:
  assumes "owned b" and "stopCh b" and "claimed (server b) = Some k"
  shows "alone_reaches_done b"
proof -
  have is_open: "\<not> is_closed (chans b k)" using assms(1,3) by (simp add: owned_def)
  consider "server b = Claimed k" | must where "server b = ClosingClaimed must k"
    using assms(3) by (cases "server b") auto
  then show ?thesis
  proof cases
    case 1
    let ?b1 = "close_chan k Selecting b"
    have step: "bstep SrvClose b = Some ?b1" using 1 by (simp add: bstep_iff)
    have "owned ?b1" by (rule owned_step [OF assms(1) step]) simp
    then have "alone_reaches_done ?b1"
      using assms(2) is_open by (intro alone_selecting) (auto simp: close_chan_def serve_def)
    with step show ?thesis by (auto intro: alone_step)
  next
    case (2 must)
    let ?b1 = "close_chan k (ClosingAll must) b"
    have step: "bstep SrvCloseEach b = Some ?b1" using 2 by (simp add: bstep_iff)
    have o1: "owned ?b1" by (rule owned_step [OF assms(1) step]) simp
    then have "finite (subs ?b1)" by (auto simp: owned_def intro: finite_subset)
    with o1 have "alone_reaches_done ?b1"
      using is_open by (intro alone_closing) (auto simp: close_chan_def serve_def)
    with step show ?thesis by (auto intro: alone_step)
  qed
qed

text \<open>C32. As long as no subscriber closes its channel itself, \<open>Stop\<close> waits for nobody but the broker's goroutine:
  whenever \<open>stopCh\<close> is closed and the goroutine has been started, it can finish by its own steps alone, from
  any point of its loop, whatever publishers, subscribers and readers do or fail to do otherwise. (After a
  subscriber has closed its channel, closing all subscribers may crash instead.)\<close>

theorem stop_can_complete:
  assumes "reachable False b" and "stopCh b" and "server b \<noteq> NotStarted"
  shows "alone_reaches_done b"
proof -
  have o: "owned b" using ownership.always [OF assms(1)] .
  show ?thesis
  proof (cases "server b")
    case (ClosingAll must)
    have "finite (subs b)" using o by (auto simp: owned_def intro: finite_subset)
    with ClosingAll o show ?thesis by (intro alone_closing) auto
  qed (use assms o in \<open>auto intro: alone_selecting alone_sending alone_claimed alone_done simp: owned_def\<close>)
qed

section \<open>Runs\<close>

text \<open>Two subscribers, two messages (the second one queued after the second subscriber joined), a \<open>Stop\<close>;
  messages are numbers.\<close>

definition publish_labels :: "nat \<Rightarrow> nat \<Rightarrow> nat list \<Rightarrow> nat label list" where
  "publish_labels t msg ks = [PubCheck t msg] @ map (PubVisit t) ks @ [PubRangeEnd t, PubSend t]"

definition sample_labels :: "nat label list" where
  "sample_labels =
     [Start, SubCheck 1, SubStore 1] @ publish_labels 2 10 [0] @ [SubCheck 1, SubStore 1] @ publish_labels 2 20 [0, 1]
     @ [SrvTake, SrvSend, SrvSent, Receive 0, SrvTake, SrvSend, SrvSend, SrvSent, Receive 0, Receive 1, StopSwap 3, StopClose 3]"

definition stop_labels :: "nat label list" where
  "stop_labels = [SrvStop, SrvVisit 1, SrvCloseEach, SrvVisit 0, SrvCloseEach, SrvDone, StopReturn 3]"

definition after :: "nat label list \<Rightarrow> nat broker" where
  "after ls = the (brun ls NewBroker)"

lemma after_reachable:
  assumes "brun ls NewBroker \<noteq> None" and "owners \<or> owner_free ls"
  shows "reachable owners (after ls)"
proof -
  obtain b where b: "brun ls NewBroker = Some b" using assms(1) by blast
  show ?thesis
    unfolding after_def b option.sel by (rule brun_reachable [OF b reaches.start assms(2)])
qed

lemma sample_enabled:
  "brun sample_labels NewBroker \<noteq> None" "owner_free sample_labels"
  "brun (sample_labels @ stop_labels) NewBroker \<noteq> None" "owner_free (sample_labels @ stop_labels)"
  by code_simp+

lemma broker_never_panics_witness:
  "server (after sample_labels) \<noteq> Crashed
    \<and> \<not> is_closed (chans (after sample_labels) 0) \<and> \<not> is_closed (chans (after sample_labels) 1)"
proof -
  have "subs (after sample_labels) = {0, 1}" by code_simp
  with broker_never_panics [of "after sample_labels"] sample_enabled(1,2) show ?thesis
    by (simp add: after_reachable)
qed

lemma subscriber_receives_later_messages_in_order_witness:
  "subseq (received 1 (history (after sample_labels))) (addressed_to 1 [(20, [0, 1])])
    \<and> received 0 (history (after sample_labels)) = [10, 20] \<and> received 1 (history (after sample_labels)) = [20]"
proof -
  let ?h = "history (after sample_labels)"
  have "?h = take 2 ?h @ Joined 1 # drop 3 ?h" "published (drop 3 ?h) = [(20, [0, 1])]"
    "received 0 ?h = [10, 20]" "received 1 ?h = [20]"
    by code_simp+
  with subscriber_receives_later_messages_in_order [of False "after sample_labels" "take 2 ?h" 1 "drop 3 ?h"]
    sample_enabled(1,2)
  show ?thesis by (simp add: after_reachable)
qed

lemma stop_closes_subscribers_witness:
  "is_closed (chans (after (sample_labels @ stop_labels)) 1)"
proof -
  have "doneCh (after (sample_labels @ stop_labels))" "1 < next_chan (after (sample_labels @ stop_labels))"
    "1 \<notin> late (after (sample_labels @ stop_labels))"
    by code_simp+
  with stop_closes_subscribers [of "after (sample_labels @ stop_labels)" 1] sample_enabled(3,4)
  show ?thesis by (simp add: after_reachable)
qed

lemma broker_queues_bounded_witness:
  "length (publishCh (after sample_labels)) \<le> 16 \<and> length (unsubCh (after sample_labels)) \<le> 16
    \<and> length (buf (chans (after sample_labels) 0)) \<le> 8"
  using broker_queues_bounded [of False "after sample_labels" 0] sample_enabled(1,2) by (simp add: after_reachable)

lemma stop_can_complete_witness: "alone_reaches_done (after sample_labels)"
proof -
  have "stopCh (after sample_labels)" "server (after sample_labels) \<noteq> NotStarted" by code_simp+
  with stop_can_complete [of "after sample_labels"] sample_enabled(1,2) show ?thesis by (simp add: after_reachable)
qed

text \<open>\<open>Stop\<close> can miss a subscriber: a \<open>Subscribe\<close> that passes its check before \<open>Stop\<close> and stores its
  channel after \<open>closeAllSubscribers\<close> returns an open channel. \<open>Stop\<close> has returned, no call is in progress,
  and the goroutine that alone closes channels has ended.\<close>

theorem stop_leaves_late_subscriber_open:
  "case brun [Start, SubCheck 1, StopSwap 2, StopClose 2, SrvStop, SrvDone, SubStore 1, StopReturn 2] (NewBroker :: nat broker) of
     None \<Rightarrow> False
   | Some b \<Rightarrow> doneCh b \<and> server b = Exited \<and> 0 \<in> subs b \<and> 0 < next_chan b \<and> \<not> is_closed (chans b 0)
        \<and> client b 1 = Outside \<and> client b 2 = Outside"
  by code_simp

text \<open>A subscriber that closes its own channel, which \<open>safeSend\<close> is written to survive, takes the whole
  broker down when it then unsubscribes: \<open>removeAndClose\<close> closes the closed channel, and nothing recovers
  that panic.\<close>

theorem owner_close_crashes_broker:
  "case brun [Start, SubCheck 1, SubStore 1, OwnerClose 0, Unsubscribe 0, SrvUnsub, SrvClose] (NewBroker :: nat broker) of
     None \<Rightarrow> False
   | Some b \<Rightarrow> server b = Crashed"
  by code_simp

end
