(* ===== verification/Workflow.thy ===== *)
theory Workflow
  imports Workflow_State
begin

text \<open>
  Package \<open>workflow\<close>, the engine: the retry policies (\<open>step_retry_policies.go\<close>) and \<open>init\<close>,
  \<open>handleStep\<close>, \<open>handleStage\<close>, \<open>execute\<close>, \<open>finish\<close> and \<open>Run\<close> (\<open>workflow.go\<close>).

  The machine holds the public data, the private fields \<open>isStopped\<close>, \<open>executionStarted\<close> and
  \<open>prevStep\<close>, the world, and a ghost log of what was done. \<open>Run\<close> executes the workflow in a
  goroutine and stores \<open>isStopped\<close> from its own when the context ends: every load of \<open>isStopped\<close>
  first asks the environment whether that has happened by then. \<open>Interrupted e\<close> in the log is a wait cut
  short by the end of the context, with the answer of \<open>ctx.Err\<close>. \<open>None\<close> is a nil dereference or an
  execution that never returns.
\<close>

section \<open>The machine\<close>

datatype 'v weff =
    FuncCalled string "werr option"
  | Slept int
  | Interrupted "werr option"
  | Snapshotted "'v wsnapshot"

record ('v, 'w) wmach =
  pub :: "'v wpub"
  isStopped :: bool
  executionStarted :: bool
  prevStep :: "string option"
  wworld :: 'w
  weffs :: "'v weff list"

text \<open>\<open>now\<close> is \<open>time.Now\<close>; \<open>stopSeen\<close>: has \<open>Run\<close> stored \<open>isStopped\<close> by now; \<open>sleepInterrupted\<close>: did the
  context end first in \<open>sleepWithContext\<close>; \<open>ctxErr\<close> is \<open>ctx.Err\<close>; \<open>doneFirst\<close>: did \<open>Run\<close> receive from
  \<open>ctx.Done\<close> before the execution's result; \<open>graceOver\<close>: did the execution outlast the shutdown
  timeout.\<close>

record 'w wenv =
  now :: "'w \<Rightarrow> int \<times> 'w"
  stopSeen :: "'w \<Rightarrow> bool \<times> 'w"
  sleepInterrupted :: "int \<Rightarrow> 'w \<Rightarrow> bool \<times> 'w"
  ctxErr :: "'w \<Rightarrow> werr option \<times> 'w"
  doneFirst :: "'w \<Rightarrow> bool \<times> 'w"
  graceOver :: "int \<Rightarrow> 'w \<Rightarrow> bool \<times> 'w"

type_synonym ('v, 'w, 'a) wexec = "(('v, 'w) wmach, 'a) go"

definition ask :: "('w \<Rightarrow> 'a \<times> 'w) \<Rightarrow> ('v, 'w, 'a) wexec" where
  [go_defs]: "ask f = (\<lambda>m. let (x, w) = f (wworld m) in Some (x, m\<lparr>wworld := w\<rparr>))"

definition call_back :: "('v, 'w) callback \<Rightarrow> ('v, 'w, werr option) wexec" where
  [go_defs]: "call_back f = (\<lambda>m. let (e, p, w) = f (pub m) (wworld m) in Some (e, m\<lparr>pub := p, wworld := w\<rparr>))"

definition call_hook :: "('v, 'w) callback option \<Rightarrow> ('v, 'w, werr option) wexec" where
  \<comment> \<open>\<open>if fn != nil { if err := fn(...) ... }\<close>\<close>
  [go_defs]: "call_hook f = (case f of None \<Rightarrow> ret None | Some g \<Rightarrow> call_back g)"

definition log_eff :: "'v weff \<Rightarrow> ('v, 'w, unit) wexec" where
  [go_defs]: "log_eff e = upd (\<lambda>m. m\<lparr>weffs := weffs m @ [e]\<rparr>)"

definition upd_ws :: "(wf_state \<Rightarrow> wf_state) \<Rightarrow> ('v, 'w, unit) wexec" where
  [go_defs]: "upd_ws f = upd (\<lambda>m. m\<lparr>pub := (pub m)\<lparr>WState := f (WState (pub m))\<rparr>\<rparr>)"

definition state_of :: "string \<Rightarrow> ('v, 'w, 'v step_state) wexec" where
  \<comment> \<open>\<open>step.State\<close>, dereferenced\<close>
  [go_defs]: "state_of name = (\<lambda>m. case stepStates (pub m) name of None \<Rightarrow> None | Some s \<Rightarrow> Some (s, m))"

definition set_state :: "string \<Rightarrow> 'v step_state \<Rightarrow> ('v, 'w, unit) wexec" where
  [go_defs]: "set_state name s = upd (\<lambda>m. m\<lparr>pub := (pub m)\<lparr>stepStates := (stepStates (pub m))(name \<mapsto> s)\<rparr>\<rparr>)"

definition upd_state :: "string \<Rightarrow> ('v step_state \<Rightarrow> 'v step_state) \<Rightarrow> ('v, 'w, unit) wexec" where
  [go_defs]: "upd_state name f = bnd (state_of name) (\<lambda>s. set_state name (f s))"

definition load_stopped :: "'w wenv \<Rightarrow> ('v, 'w, bool) wexec" where
  "load_stopped env =
     bnd (ask (stopSeen env)) (\<lambda>seen.
     seqm (upd (\<lambda>m. m\<lparr>isStopped := isStopped m \<or> seen\<rparr>))
     (gets isStopped))"

definition take_snapshot :: "('v, 'w) workflow \<Rightarrow> ('v, 'w, unit) wexec" where
  \<comment> \<open>an error of the callback is only logged\<close>
  "take_snapshot cfg =
     (case SnapshotFn cfg of
        None \<Rightarrow> ret ()
      | Some f \<Rightarrow>
          (\<lambda>m. case GetSnapshot cfg (pub m) of
                 None \<Rightarrow> None
               | Some sh \<Rightarrow> seqm (log_eff (Snapshotted sh)) (bnd (call_back (f sh)) (\<lambda>_. ret ())) m))"

section \<open>Retry policies\<close>

definition sleepWithContext :: "'w wenv \<Rightarrow> int \<Rightarrow> ('v, 'w, werr option) wexec" where
  "sleepWithContext env d =
     seqm (log_eff (Slept d))
     (bnd (ask (sleepInterrupted env d)) (\<lambda>interrupted.
        if interrupted then bnd (ask (ctxErr env)) (\<lambda>e. seqm (log_eff (Interrupted e)) (ret e)) else ret None))"

definition call_func :: "('v, 'w) wstep \<Rightarrow> ('v, 'w, werr option) wexec" where
  "call_func step =
     (case Func step of
        None \<Rightarrow> panic
      | Some f \<Rightarrow> bnd (call_back f) (\<lambda>e. seqm (log_eff (FuncCalled (SName step) e)) (ret e)))"

text \<open>One round of the loops of \<open>RunWithLinear\<close> and \<open>RunWithBackoff\<close>, which differ in the delay only:
  \<open>Inl r\<close> returns \<open>r\<close>, \<open>Inr e\<close> goes to the next round with \<open>err = e\<close>.\<close>

definition retry_round ::
    "'w wenv \<Rightarrow> ('v, 'w) wstep \<Rightarrow> int \<Rightarrow> int \<Rightarrow> ('v, 'w, werr option + werr) wexec" where
  "retry_round env step delay retries =
     bnd (call_func step) (\<lambda>r. case r of
       None \<Rightarrow> ret (Inl None)
     | Some e \<Rightarrow>
         if isControlFlowError e then ret (Inl (Some e))
         else if retries + 1 < MaxRetries step \<or> MaxRetries step < 0 then
           bnd (sleepWithContext env delay) (\<lambda>s. case s of
             Some se \<Rightarrow> ret (Inl (Some se))
           | None \<Rightarrow> ret (Inr e))
         else ret (Inr e))"

partial_function (option) retry_from ::
    "'w wenv \<Rightarrow> ('v, 'w) wstep \<Rightarrow> (int \<Rightarrow> int) \<Rightarrow> int \<Rightarrow> int \<Rightarrow> werr option \<Rightarrow> ('v, 'w) wmach \<Rightarrow>
       (werr option \<times> ('v, 'w) wmach) option" where
  [code]: "retry_from env step next delay retries err m =
     (if retries < MaxRetries step \<or> MaxRetries step < 0 then
        (case retry_round env step delay retries m of
           None \<Rightarrow> None
         | Some (r, m') \<Rightarrow>
             (case r of
                Inl res \<Rightarrow> Some (res, m')
              | Inr e \<Rightarrow> retry_from env step next (next delay) (retries + 1) (Some e) m'))
      else Some (err, m))"

definition RunWithLinear :: "'w wenv \<Rightarrow> ('v, 'w) wstep \<Rightarrow> ('v, 'w, werr option) wexec" where
  "RunWithLinear env step = retry_from env step (\<lambda>d. d) (Timeout step) 0 None"

definition RunWithBackoff :: "'w wenv \<Rightarrow> ('v, 'w) wstep \<Rightarrow> ('v, 'w, werr option) wexec" where
  "RunWithBackoff env step =
     (let backoff = (if Timeout step \<le> 0 then 1 * Second else Timeout step)
      in retry_from env step (\<lambda>d. i64 (d * 2)) backoff 0 None)"

definition run_policy :: "'w wenv \<Rightarrow> ('v, 'w) wstep \<Rightarrow> ('v, 'w, werr option) wexec" where
  "run_policy env step =
     (case RetryPolicy step of
        None \<Rightarrow> panic
      | Some Linear \<Rightarrow> RunWithLinear env step
      | Some Backoff \<Rightarrow> RunWithBackoff env step
      | Some (CustomPolicy f) \<Rightarrow> call_back f)"

section \<open>Initialisation\<close>

text \<open>\<open>stageIndex\<close> and \<open>stepIndex\<close> are the names seen so far. The steps are returned with their default
  values; a step without a state gets a new one, and the states learn where they belong.\<close>

fun init_steps ::
    "string \<Rightarrow> ('v, 'w) wstep option list \<Rightarrow> nat \<Rightarrow> string list \<Rightarrow>
       ('v, 'w, werr + (('v, 'w) wstep list \<times> string list)) wexec" where
  "init_steps stage [] idx stepIndex = ret (Inr ([], stepIndex))"
| "init_steps stage (step # rest) idx stepIndex =
     (case step of
        None \<Rightarrow> ret (Inl (OtherErr (''step at index ['' @ itoa (int idx) @ ''] in stage ['' @ stage @ ''] is nil'')))
      | Some s \<Rightarrow>
          if SName s \<in> set stepIndex then
            ret (Inl (OtherErr (''step ['' @ SName s @ ''] is not unique (in stage ['' @ stage @ ''])'')))
          else
            seqm (upd (\<lambda>m. if stepStates (pub m) (SName s) = None
                            then m\<lparr>pub := (pub m)\<lparr>stepStates := (stepStates (pub m))(SName s \<mapsto> NewStepState)\<rparr>\<rparr>
                            else m))
            (let s' = setDefaultValues s in
             if Func s' = None then
               ret (Inl (OtherErr (''step ['' @ SName s @ ''] in stage ['' @ stage @ ''] has no function'')))
             else if RetryPolicy s' = None then
               ret (Inl (OtherErr (''step ['' @ SName s @ ''] in stage ['' @ stage @ ''] has no retry policy'')))
             else
               seqm (upd_state (SName s) (\<lambda>st. SetCurrentStep (SetCurrentStage st stage) (SName s)))
               (bnd (init_steps stage rest (idx + 1) (SName s # stepIndex)) (\<lambda>r.
                  ret (case r of Inl e \<Rightarrow> Inl e | Inr (ss, ix) \<Rightarrow> Inr (s' # ss, ix))))))"

record ('v, 'w) ready_stage =
  RName :: string
  RSteps :: "('v, 'w) wstep list"
  RBeforeFn :: "('v, 'w) callback option"
  RAfterFn :: "('v, 'w) callback option"

fun init_stages ::
    "('v, 'w) wstage option list \<Rightarrow> nat \<Rightarrow> string list \<Rightarrow> string list \<Rightarrow>
       ('v, 'w, werr + (('v, 'w) ready_stage list \<times> string list \<times> string list)) wexec" where
  "init_stages [] idx stageIndex stepIndex = ret (Inr ([], stageIndex, stepIndex))"
| "init_stages (stage # rest) idx stageIndex stepIndex =
     (case stage of
        None \<Rightarrow> ret (Inl (OtherErr (''stage at index ['' @ itoa (int idx) @ ''] is nil'')))
      | Some st \<Rightarrow>
          if StName st \<in> set stageIndex then
            ret (Inl (OtherErr (''stage ['' @ StName st @ ''] is not unique'')))
          else
            bnd (init_steps (StName st) (Steps st) 0 stepIndex) (\<lambda>r. case r of
              Inl e \<Rightarrow> ret (Inl e)
            | Inr (steps, stepIndex') \<Rightarrow>
                bnd (init_stages rest (idx + 1) (StName st # stageIndex) stepIndex') (\<lambda>r'.
                  ret (case r' of
                         Inl e \<Rightarrow> Inl e
                       | Inr (sts, ix) \<Rightarrow>
                           Inr (\<lparr>RName = StName st, RSteps = steps, RBeforeFn = StBeforeFn st,
                                 RAfterFn = StAfterFn st\<rparr> # sts, ix)))))"

definition check_ref :: "string \<Rightarrow> string option \<Rightarrow> string list \<Rightarrow> werr option" where
  "check_ref what ref index =
     (case ref of
        None \<Rightarrow> None
      | Some n \<Rightarrow>
          if n \<in> set index then None
          else Some (OtherErr (''compensation '' @ what @ '' ['' @ n @ ''] not found'')))"

definition init :: "('v, 'w) workflow \<Rightarrow> ('v, 'w, werr + ('v, 'w) ready_stage list) wexec" where
  "init cfg =
     bnd (init_stages (Stages cfg) 0 [] []) (\<lambda>r. case r of
       Inl e \<Rightarrow> ret (Inl e)
     | Inr (stages, stageIndex, stepIndex) \<Rightarrow>
         (case check_ref ''stage'' (compensationStageRef cfg) stageIndex of
            Some e \<Rightarrow> ret (Inl e)
          | None \<Rightarrow>
              (case check_ref ''step'' (compensationStepRef cfg) stepIndex of
                 Some e \<Rightarrow> ret (Inl e)
               | None \<Rightarrow> ret (Inr stages))))"

section \<open>Executing steps and stages\<close>

text \<open>The deferred function of \<open>handleStep\<close>, for the error it is about to return.\<close>

definition step_deferred ::
    "'w wenv \<Rightarrow> ('v, 'w) workflow \<Rightarrow> string \<Rightarrow> werr option \<Rightarrow> bool \<Rightarrow> ('v, 'w, unit) wexec" where
  "step_deferred env cfg name err stepSucceeded =
     bnd (ask (now env)) (\<lambda>t.
     seqm (upd_state name (\<lambda>s. SetEndTime s t))
     (seqm (upd_state name (\<lambda>s.
              if err = None \<or> stepSucceeded then SetStatus (SetError s None) StepStatusCompleted
              else if (case err of Some e \<Rightarrow> isControlFlowError e | None \<Rightarrow> False) then SetStatus s StepStatusSkipped
              else SetError (SetStatus s StepStatusFailed) err))
     (take_snapshot cfg)))"

definition all_steps_hook ::
    "(string \<Rightarrow> string \<Rightarrow> ('v, 'w) callback) option \<Rightarrow> string \<Rightarrow> string \<Rightarrow> ('v, 'w, werr option) wexec" where
  "all_steps_hook f stage step = call_hook (map_option (\<lambda>g. g stage step) f)"

text \<open>The work of a step between its bookkeeping: hooks, the retry policy, hooks. The flag is
  \<open>stepSucceeded\<close>.\<close>

definition step_work ::
    "'w wenv \<Rightarrow> ('v, 'w) workflow \<Rightarrow> string \<Rightarrow> ('v, 'w) wstep \<Rightarrow> ('v, 'w, werr option \<times> bool) wexec" where
  "step_work env cfg stage step =
     on_err (all_steps_hook (BeforeAllStepsFn cfg) stage (SName step)) (\<lambda>e. ret (Some e, False))
     (on_err (call_hook (SBeforeFn step)) (\<lambda>e. ret (Some e, False))
     (bnd (run_policy env step) (\<lambda>err.
      on_err (call_hook (SAfterFn step)) (\<lambda>e. ret (Some e, False))
     (on_err (all_steps_hook (AfterAllStepsFn cfg) stage (SName step)) (\<lambda>e. ret (Some e, False))
     (case err of
        Some e \<Rightarrow>
          ret (Some (WrapErr (''stage ['' @ stage @ ''] failed on step ['' @ SName step @ '']: '' @ werr_text e) [e]), False)
      | None \<Rightarrow> if FinishWorkflow step then ret (Some ErrBreakStages, True) else ret (None, True))))))"

definition step_begin :: "'w wenv \<Rightarrow> ('v, 'w) workflow \<Rightarrow> string \<Rightarrow> ('v, 'w, unit) wexec" where
  "step_begin env cfg name =
     bnd (ask (now env)) (\<lambda>t.
     seqm (upd_state name (\<lambda>s. SetStartTime s t))
     (seqm (upd_state name (\<lambda>s. SetStatus s StepStatusPending))
     (seqm (bnd (gets prevStep) (\<lambda>prev.
        case prev of
          None \<Rightarrow> ret ()
        | Some p \<Rightarrow> bnd (gets (\<lambda>m. stepStates (pub m) p)) (\<lambda>ps.
            case ps of
              None \<Rightarrow> ret ()
            | Some st \<Rightarrow> upd_state name (\<lambda>s.
                SetPreviousStep (SetPreviousStage s (CurrentStage st)) (CurrentStep st)))))
     (seqm (upd (\<lambda>m. m\<lparr>prevStep := Some name\<rparr>))
     (seqm (upd_state name (\<lambda>s. SetStatus s StepStatusProcessing))
     (take_snapshot cfg))))))"

definition run_step ::
    "'w wenv \<Rightarrow> ('v, 'w) workflow \<Rightarrow> string \<Rightarrow> ('v, 'w) wstep \<Rightarrow> ('v, 'w, werr option) wexec" where
  "run_step env cfg stage step =
     seqm (step_begin env cfg (SName step))
     (bnd (step_work env cfg stage step) (\<lambda>(err, stepSucceeded).
      seqm (step_deferred env cfg (SName step) err stepSucceeded) (ret err)))"

definition handleStep ::
    "'w wenv \<Rightarrow> ('v, 'w) workflow \<Rightarrow> string \<Rightarrow> ('v, 'w) wstep \<Rightarrow> ('v, 'w, werr option) wexec" where
  "handleStep env cfg stage step =
     bnd (gets (\<lambda>m. NextStep (WState (pub m)))) (\<lambda>nextStepName.
     seqm (if nextStepName \<noteq> [] \<and> nextStepName = SName step then upd_ws (\<lambda>s. s\<lparr>NextStep := []\<rparr>) else ret ())
     (bnd (gets (\<lambda>m. finished (WState (pub m)))) (\<lambda>done.
      if done then ret (Some ErrExitWorkflow)
      else bnd (state_of (SName step)) (\<lambda>st.
        if Status st = StepStatusCompleted then ret (Some ErrSkipStep)
        else if Status st = StepStatusSkipped then ret (Some ErrSkipStep)
        else if Status st = StepStatusSuspended then ret (Some ErrBreakStages)
        else if nextStepName \<noteq> [] \<and> nextStepName \<noteq> SName step then
          seqm (upd_state (SName step) (\<lambda>s. SetStatus s StepStatusSkipped)) (ret (Some ErrSkipStep))
        else
          seqm (if nextStepName \<noteq> [] then upd_ws (\<lambda>s. s\<lparr>NextStep := []\<rparr>) else ret ())
          (run_step env cfg stage step)))))"

fun handle_steps ::
    "'w wenv \<Rightarrow> ('v, 'w) workflow \<Rightarrow> ('v, 'w) ready_stage \<Rightarrow> ('v, 'w) wstep list \<Rightarrow> ('v, 'w, werr option) wexec" where
  "handle_steps env cfg stage [] = call_hook (RAfterFn stage)"
| "handle_steps env cfg stage (step # rest) =
     bnd (load_stopped env) (\<lambda>stopped.
     if stopped then ask (ctxErr env)
     else bnd (handleStep env cfg (RName stage) step) (\<lambda>r.
       case r of
         None \<Rightarrow> handle_steps env cfg stage rest
       | Some e \<Rightarrow>
           if werr_is e ErrBreakStages then ret (Some ErrBreakStages)
           else if werr_is e ErrSkipStep then handle_steps env cfg stage rest
           else if werr_is e ErrExitWorkflow then ret (Some ErrExitWorkflow)
           else ret (Some e)))"

definition handleStage ::
    "'w wenv \<Rightarrow> ('v, 'w) workflow \<Rightarrow> ('v, 'w) ready_stage \<Rightarrow> ('v, 'w, werr option) wexec" where
  "handleStage env cfg stage =
     bnd (gets (\<lambda>m. NextStage (WState (pub m)))) (\<lambda>nextStageName.
     bnd (gets (\<lambda>m. finished (WState (pub m)))) (\<lambda>done.
     if done then ret (Some ErrExitWorkflow)
     else if nextStageName \<noteq> [] \<and> nextStageName \<noteq> RName stage then ret (Some ErrSkipStage)
     else
       seqm (if nextStageName \<noteq> [] then upd_ws (\<lambda>s. s\<lparr>NextStage := []\<rparr>) else ret ())
       (if RSteps stage = [] then ret (Some ErrSkipStage)
        else on_err (call_hook (RBeforeFn stage)) (\<lambda>e. ret (Some e))
          (handle_steps env cfg stage (RSteps stage)))))"

section \<open>Executing the workflow\<close>

text \<open>How the loop over the stages ends: it returns from \<open>execute\<close>, or goes on to the completion with
  \<open>stepHandlerError\<close>.\<close>

datatype stages_end = Return "werr option" | Leave "werr option"

fun handle_stages ::
    "'w wenv \<Rightarrow> ('v, 'w) workflow \<Rightarrow> ('v, 'w) ready_stage list \<Rightarrow> ('v, 'w, stages_end) wexec" where
  "handle_stages env cfg [] = ret (Leave None)"
| "handle_stages env cfg (stage # rest) =
     bnd (load_stopped env) (\<lambda>stopped.
     if stopped then bnd (ask (ctxErr env)) (\<lambda>e. ret (Return e))
     else bnd (handleStage env cfg stage) (\<lambda>r.
       case r of
         None \<Rightarrow> handle_stages env cfg rest
       | Some e \<Rightarrow>
           if werr_is e ErrSkipStage then handle_stages env cfg rest
           else if werr_is e ErrBreakStages then ret (Leave None)
           else if werr_is e ErrExitWorkflow then ret (Return None)
           else ret (Leave (Some e))))"

definition complete_stages :: "('v, 'w) workflow \<Rightarrow> werr option \<Rightarrow> ('v, 'w, werr option) wexec" where
  "complete_stages cfg stepHandlerError =
     seqm (if stepHandlerError = None then upd_ws (\<lambda>s. ws_SetCompleted s True) else ret ())
     (bnd (call_hook (AfterFn cfg)) (\<lambda>_. ret stepHandlerError))"

definition execute :: "'w wenv \<Rightarrow> ('v, 'w) workflow \<Rightarrow> ('v, 'w, werr option) wexec" where
  "execute env cfg =
     seqm (upd (\<lambda>m. m\<lparr>executionStarted := False\<rparr>))
     (bnd (init cfg) (\<lambda>r. case r of
        Inl e \<Rightarrow> ret (Some (WrapErr (''workflow init: '' @ werr_text e) [e]))
      | Inr stages \<Rightarrow>
          bnd (gets (\<lambda>m. finished (WState (pub m)))) (\<lambda>done.
          if done then ret None
          else on_err (call_hook (BeforeFn cfg))
            (\<lambda>e. ret (Some (WrapErr (''workflow before: '' @ werr_text e) [e])))
            (seqm (upd (\<lambda>m. m\<lparr>executionStarted := True\<rparr>))
            (bnd (handle_stages env cfg stages) (\<lambda>end. case end of
               Return e \<Rightarrow> ret e
             | Leave e \<Rightarrow> complete_stages cfg e))))))"

text \<open>\<open>finish\<close>: the failure snapshot, \<open>OnFailureFn\<close>, the routing to the compensation stage.\<close>

definition route_compensation ::
    "('v, 'w) workflow \<Rightarrow> string \<Rightarrow> string \<Rightarrow> werr \<Rightarrow> ('v, 'w, unit) wexec" where
  "route_compensation cfg stageRef stepRef err =
     seqm (upd_ws (\<lambda>s. GoToStep (GoToStage (ws_SetError s (Some err)) stageRef) stepRef))
     (seqm (take_snapshot cfg)
     (upd (\<lambda>m. m\<lparr>pub := (pub m)\<lparr>isSkipError := True\<rparr>\<rparr>)))"

definition finish :: "('v, 'w) workflow \<Rightarrow> werr option \<Rightarrow> ('v, 'w, werr option) wexec" where
  "finish cfg err =
     (case err of
        None \<Rightarrow> ret None
      | Some e \<Rightarrow>
          seqm (take_snapshot cfg)
          (bnd (call_hook (map_option (\<lambda>f. f e) (OnFailureFn cfg))) (\<lambda>_.
           bnd (gets executionStarted) (\<lambda>started.
           seqm (case (compensationStageRef cfg, compensationStepRef cfg) of
                   (Some stageRef, Some stepRef) \<Rightarrow>
                     if started then route_compensation cfg stageRef stepRef e else ret ()
                 | _ \<Rightarrow> ret ())
           (bnd (gets (\<lambda>m. isSkipError (pub m))) (\<lambda>skip.
            ret (if skip then None else Some e)))))))"

text \<open>\<open>Run\<close>. When the grace period is over the execution is abandoned: the error is returned without
  \<open>finish\<close>, and the machine is the one the abandoned goroutine leaves in the end.\<close>

definition workflow_Run :: "'w wenv \<Rightarrow> ('v, 'w) workflow \<Rightarrow> ('v, 'w, werr option) wexec" where
  "workflow_Run env cfg =
     bnd (execute env cfg) (\<lambda>err.
     bnd (ask (doneFirst env)) (\<lambda>done.
     if \<not> done then finish cfg err
     else
       seqm (upd (\<lambda>m. m\<lparr>isStopped := True\<rparr>))
       (let timeout = (if shutdownTimeout cfg = 0 then 10 * Second else shutdownTimeout cfg) in
        bnd (ask (graceOver env timeout)) (\<lambda>over.
        if over then ret (Some (OtherErr ''workflow shutdown execution timeout''))
        else finish cfg err))))"

end
