(* ===== verification/Workflow_Rules.thy ===== *)
theory Workflow_Rules
  imports Workflow
begin

text \<open>
  Proof rules for the engine of package \<open>workflow\<close>: what \<open>init\<close> returns, the callbacks of a
  configuration, and the interface \<open>kept_workflow\<close>. A relation on machines that is kept by the
  callbacks and by the engine's elementary updates is kept by a whole run.
\<close>

section \<open>What init returns\<close>

lemma case_sum_Some_iff:
  "case_sum f g r s = Some z \<longleftrightarrow> (\<exists>e. r = Inl e \<and> f e s = Some z) \<or> (\<exists>y. r = Inr y \<and> g y s = Some z)"
  by (cases r) auto

lemma case_sum_Inr_iff:
  "Inr z = case_sum f g r \<longleftrightarrow> (\<exists>e. r = Inl e \<and> f e = Inr z) \<or> (\<exists>y. r = Inr y \<and> g y = Inr z)"
  by (cases r) auto

lemma case_sum_Inl_iff:
  "Inl z = case_sum f g r \<longleftrightarrow> (\<exists>e. r = Inl e \<and> f e = Inl z) \<or> (\<exists>y. r = Inr y \<and> g y = Inl z)"
  by (cases r) auto

lemmas sum_case_iffs = case_sum_Some_iff case_sum_Inr_iff case_sum_Inl_iff

lemma setDefaultValues_simps [simp]:
  "SName (setDefaultValues s) = SName s" "Func (setDefaultValues s) = Func s"
  "SBeforeFn (setDefaultValues s) = SBeforeFn s" "SAfterFn (setDefaultValues s) = SAfterFn s"
  "FinishWorkflow (setDefaultValues s) = FinishWorkflow s"
  "RetryPolicy (setDefaultValues s) = Some (case RetryPolicy s of None \<Rightarrow> Linear | Some q \<Rightarrow> q)"
  "MaxRetries (setDefaultValues s) = (if MaxRetries s = 0 then 1 else MaxRetries s)"
  "Timeout (setDefaultValues s) = (if Timeout s = 0 then 1 * Second else Timeout s)"
  by (auto simp: setDefaultValues_def Let_def split: option.splits)

definition readied :: "('v, 'w) wstage \<Rightarrow> ('v, 'w) ready_stage" where
  "readied st =
     \<lparr>RName = StName st, RSteps = map (setDefaultValues \<circ> the) (Steps st), RBeforeFn = StBeforeFn st,
      RAfterFn = StAfterFn st\<rparr>"

lemma init_steps_Inr:
  "init_steps stage steps idx ix m = Some (Inr (ss, ix'), m') \<Longrightarrow>
     ss = map (setDefaultValues \<circ> the) steps \<and> None \<notin> set steps
     \<and> set ix' = set ix \<union> (SName \<circ> the) ` set steps
     \<and> distinct (map (SName \<circ> the) steps) \<and> (SName \<circ> the) ` set steps \<inter> set ix = {}
     \<and> (\<forall>s. Some s \<in> set steps \<longrightarrow> Func s \<noteq> None)"
proof (induction steps arbitrary: idx ix m ss ix' m')
  case (Cons step rest)
  show ?case
  proof (cases step)
    case None
    with Cons.prems show ?thesis by simp
  next
    case (Some s)
    with Cons.prems obtain m1 ss1 where
      rest: "init_steps stage rest (Suc idx) (SName s # ix) m1 = Some (Inr (ss1, ix'), m')"
      and s: "SName s \<notin> set ix" "Func s \<noteq> None" "ss = setDefaultValues s # ss1"
      by (auto simp: bnd_Some_iff seqm_Some_iff Let_def sum_case_iffs split: if_split_asm)
    from Cons.IH [OF rest] s Some show ?thesis by auto
  qed
qed simp

definition step_names :: "('v, 'w) wstage option list \<Rightarrow> string set" where
  "step_names stages = {SName s |st s. Some st \<in> set stages \<and> Some s \<in> set (Steps st)}"

lemma step_names_simps [simp]:
  "step_names [] = {}" "step_names (Some st # stages) = {SName s |s. Some s \<in> set (Steps st)} \<union> step_names stages"
  by (auto simp: step_names_def)

lemma somes_the: "None \<notin> set xs \<Longrightarrow> (\<lambda>x. f (the x)) ` set xs = {f s |s. Some s \<in> set xs}"
proof -
  assume "None \<notin> set xs"
  then have "x = Some (the x)" if "x \<in> set xs" for x using that by (cases x) auto
  then show ?thesis by (auto simp: image_iff) (metis option.sel)+
qed

lemma init_stages_Inr:
  "init_stages stages idx gx ix m = Some (Inr (sts, gx', ix'), m') \<Longrightarrow>
     sts = map (readied \<circ> the) stages \<and> None \<notin> set stages
     \<and> set gx' = set gx \<union> (StName \<circ> the) ` set stages \<and> set ix' = set ix \<union> step_names stages
     \<and> (\<forall>st. Some st \<in> set stages \<longrightarrow> None \<notin> set (Steps st) \<and> (\<forall>s. Some s \<in> set (Steps st) \<longrightarrow> Func s \<noteq> None))"
proof (induction stages arbitrary: idx gx ix m sts gx' ix' m')
  case (Cons stage rest)
  show ?case
  proof (cases stage)
    case None
    with Cons.prems show ?thesis by simp
  next
    case (Some st)
    with Cons.prems obtain m1 ss ix1 sts1 where
      steps: "init_steps (StName st) (Steps st) 0 ix m = Some (Inr (ss, ix1), m1)"
      and rest: "init_stages rest (Suc idx) (StName st # gx) ix1 m1 = Some (Inr (sts1, gx', ix'), m')"
      and sts: "sts = \<lparr>RName = StName st, RSteps = ss, RBeforeFn = StBeforeFn st, RAfterFn = StAfterFn st\<rparr> # sts1"
      by (auto simp: bnd_Some_iff sum_case_iffs split: if_split_asm)
    from init_steps_Inr [OF steps] Cons.IH [OF rest] sts Some show ?thesis
      by (auto simp: readied_def somes_the)
  qed
qed simp

lemma init_Inr:
  "init cfg m = Some (Inr stages, m') \<Longrightarrow>
     stages = map (readied \<circ> the) (Stages cfg) \<and> None \<notin> set (Stages cfg)
     \<and> (\<forall>st. Some st \<in> set (Stages cfg) \<longrightarrow>
           None \<notin> set (Steps st) \<and> (\<forall>s. Some s \<in> set (Steps st) \<longrightarrow> Func s \<noteq> None))"
  by (auto simp: init_def bnd_Some_iff sum_case_iffs dest!: init_stages_Inr split: option.split_asm)

lemma ready_stage_from:
  assumes "init cfg m = Some (Inr sts, m')" and "st \<in> set sts"
  shows "\<exists>st0. Some st0 \<in> set (Stages cfg) \<and> st = readied st0"
proof -
  from init_Inr [OF assms(1)] assms(2) obtain x where x: "x \<in> set (Stages cfg)" "st = readied (the x)" "None \<notin> set (Stages cfg)"
    by auto
  then have "x \<noteq> None" by metis
  then obtain st0 where "x = Some st0" by blast
  with x show ?thesis by auto
qed

lemma ready_step_from:
  assumes "None \<notin> set (Steps st)" and "s \<in> set (RSteps (readied st))"
  shows "\<exists>s0. Some s0 \<in> set (Steps st) \<and> s = setDefaultValues s0"
proof -
  from assms obtain x where x: "x \<in> set (Steps st)" "s = setDefaultValues (the x)"
    by (auto simp: readied_def)
  then have "x \<noteq> None" using assms(1) by metis
  then obtain s0 where "x = Some s0" by blast
  with x show ?thesis by auto
qed

section \<open>The callbacks of a configuration\<close>

definition step_callbacks :: "('v, 'w) wstep \<Rightarrow> ('v, 'w) callback set" where
  "step_callbacks s =
     set_option (Func s) \<union> set_option (SBeforeFn s) \<union> set_option (SAfterFn s)
     \<union> (case RetryPolicy s of Some (CustomPolicy f) \<Rightarrow> {f} | _ \<Rightarrow> {})"

definition ready_callbacks :: "('v, 'w) ready_stage \<Rightarrow> ('v, 'w) callback set" where
  "ready_callbacks st =
     set_option (RBeforeFn st) \<union> set_option (RAfterFn st) \<union> (\<Union>s \<in> set (RSteps st). step_callbacks s)"

definition common_callbacks :: "('v, 'w) workflow \<Rightarrow> ('v, 'w) callback set" where
  "common_callbacks cfg =
     set_option (BeforeFn cfg) \<union> set_option (AfterFn cfg)
     \<union> (\<Union>g \<in> set_option (OnFailureFn cfg). range g)
     \<union> (\<Union>g \<in> set_option (BeforeAllStepsFn cfg). \<Union>a. range (g a))
     \<union> (\<Union>g \<in> set_option (AfterAllStepsFn cfg). \<Union>a. range (g a))
     \<union> (\<Union>g \<in> set_option (SnapshotFn cfg). range g)"

definition callbacks :: "('v, 'w) workflow \<Rightarrow> ('v, 'w) callback set" where
  "callbacks cfg =
     common_callbacks cfg \<union> (\<Union>st \<in> Option.these (set (Stages cfg)). ready_callbacks (readied st))"

lemma callbacks_stage: "Some st \<in> set (Stages cfg) \<Longrightarrow> ready_callbacks (readied st) \<subseteq> callbacks cfg"
  by (fastforce simp: callbacks_def Option.these_def)

lemma callbacks_common: "common_callbacks cfg \<subseteq> callbacks cfg"
  by (simp add: callbacks_def)

lemma common_in_callbacks:
  "BeforeFn cfg = Some f \<Longrightarrow> f \<in> callbacks cfg"
  "AfterFn cfg = Some f \<Longrightarrow> f \<in> callbacks cfg"
  "OnFailureFn cfg = Some g \<Longrightarrow> g e \<in> callbacks cfg"
  "BeforeAllStepsFn cfg = Some h \<Longrightarrow> h a b \<in> callbacks cfg"
  "AfterAllStepsFn cfg = Some h \<Longrightarrow> h a b \<in> callbacks cfg"
  using rangeI [of "h a" b] by (intro subsetD [OF callbacks_common]; simp add: common_callbacks_def; blast)+

section \<open>Runs of a retry loop\<close>

lemma retry_from_induct [consumes 1, case_names stop return again]:
  assumes "retry_from env step next d k e m = Some (r, m')"
    and "\<And>d k e m. \<not> (k < MaxRetries step \<or> MaxRetries step < 0) \<Longrightarrow> Q d k e m e m"
    and "\<And>d k e m r m1. k < MaxRetries step \<or> MaxRetries step < 0 \<Longrightarrow>
           retry_round env step d k m = Some (Inl r, m1) \<Longrightarrow> Q d k e m r m1"
    and "\<And>d k e m e1 m1 r m'. k < MaxRetries step \<or> MaxRetries step < 0 \<Longrightarrow>
           retry_round env step d k m = Some (Inr e1, m1) \<Longrightarrow>
           Q (next d) (k + 1) (Some e1) m1 r m' \<Longrightarrow> Q d k e m r m'"
  shows "Q d k e m r m'"
proof -
  have "env = env \<and> step = step \<and> next = next \<longrightarrow> Q d k e m (fst (r, m')) (snd (r, m'))"
  proof (rule retry_from.raw_induct [OF _ assms(1), where
        P = "\<lambda>env1 step1 next1 d k e m x.
               env1 = env \<and> step1 = step \<and> next1 = next \<longrightarrow> Q d k e m (fst x) (snd x)"])
    fix f env1 step1 next1 d k e m x
    assume rec: "\<And>env1 step1 next1 d k e m x. f env1 step1 next1 d k e m = Some x \<Longrightarrow>
        env1 = env \<and> step1 = step \<and> next1 = next \<longrightarrow> Q d k e m (fst x) (snd x)"
      and body: "(if k < MaxRetries step1 \<or> MaxRetries step1 < 0
          then (case retry_round env1 step1 d k m of None \<Rightarrow> None
                | Some (r, m') \<Rightarrow>
                    (case r of Inl res \<Rightarrow> Some (res, m')
                     | Inr e \<Rightarrow> f env1 step1 next1 (next1 d) (k + 1) (Some e) m'))
          else Some (e, m)) = Some x"
    show "env1 = env \<and> step1 = step \<and> next1 = next \<longrightarrow> Q d k e m (fst x) (snd x)"
    proof
      assume eq: "env1 = env \<and> step1 = step \<and> next1 = next"
      show "Q d k e m (fst x) (snd x)"
      proof (cases "k < MaxRetries step \<or> MaxRetries step < 0")
        case True
        with body eq obtain y m1 where round: "retry_round env step d k m = Some (y, m1)"
          by (auto split: option.splits)
        show ?thesis
        proof (cases y)
          case (Inl res)
          with body eq round True assms(3) show ?thesis by auto
        next
          case (Inr e1)
          with body eq round True have "f env step next (next d) (k + 1) (Some e1) m1 = Some x" by auto
          from rec [OF this] Inr round True show ?thesis by (cases x) (auto intro: assms(4))
        qed
      next
        case False
        with body eq assms(2) show ?thesis by auto
      qed
    qed
  qed
  then show ?thesis by simp
qed

section \<open>Relations kept by a run\<close>

text \<open>\<open>touch k\<close>: the relation allows every update of the state of step \<open>k\<close> and calls of its function.
  For the other steps the interpretation has to show that \<open>handleStep\<close> keeps the relation. \<open>kept_steps\<close> is
  about all of a run but its flag \<open>executionStarted\<close>, \<open>kept_workflow\<close> about whole runs.\<close>

locale kept_steps = kept_relation R
  for R :: "('v, 'w) wmach \<Rightarrow> ('v, 'w) wmach \<Rightarrow> bool" +
  fixes env :: "'w wenv" and cfg :: "('v, 'w) workflow" and touch :: "string \<Rightarrow> bool"
  assumes kept_world: "R m (m\<lparr>wworld := w\<rparr>)"
    and kept_flags: "(isStopped m \<longrightarrow> b) \<Longrightarrow> R m (m\<lparr>isStopped := b\<rparr>)" "R m (m\<lparr>prevStep := p\<rparr>)"
    and kept_ws: "R m (m\<lparr>pub := (pub m)\<lparr>WState := s\<rparr>\<rparr>)"
    and kept_skip: "R m (m\<lparr>pub := (pub m)\<lparr>isSkipError := b\<rparr>\<rparr>)"
    and kept_log: "(\<And>n r. e \<noteq> FuncCalled n r) \<Longrightarrow> R m (m\<lparr>weffs := weffs m @ [e]\<rparr>)"
    and kept_called: "touch k \<Longrightarrow> R m (m\<lparr>weffs := weffs m @ [FuncCalled k r]\<rparr>)"
    and kept_state: "touch k \<Longrightarrow> R m (m\<lparr>pub := (pub m)\<lparr>stepStates := (stepStates (pub m))(k \<mapsto> st)\<rparr>\<rparr>)"
    and kept_born: "stepStates (pub m) k = None \<Longrightarrow>
           R m (m\<lparr>pub := (pub m)\<lparr>stepStates := (stepStates (pub m))(k \<mapsto> NewStepState)\<rparr>\<rparr>)"
    and kept_place: "stepStates (pub m) k = Some st \<Longrightarrow>
           R m (m\<lparr>pub := (pub m)\<lparr>stepStates := (stepStates (pub m))(k \<mapsto> SetCurrentStep (SetCurrentStage st a) k)\<rparr>\<rparr>)"
    and kept_callback: "f \<in> callbacks cfg \<Longrightarrow> keeps R (call_back f)"
    and kept_untouched: "step_callbacks step \<subseteq> callbacks cfg \<Longrightarrow> \<not> touch (SName step) \<Longrightarrow>
           keeps R (handleStep env cfg stage step)"
begin

lemma kept_ask: "keeps R (ask f)"
  by (auto simp: keeps_def ask_def Let_def kept_world split: prod.splits)

lemma kept_log_eff: "(\<And>n r. e \<noteq> FuncCalled n r) \<Longrightarrow> keeps R (log_eff e)"
  unfolding log_eff_def by (intro kept_upd kept_log) simp

lemma kept_upd_ws: "keeps R (upd_ws f)"
  unfolding upd_ws_def by (intro kept_upd kept_ws)

lemma kept_hook: "(\<And>f. h = Some f \<Longrightarrow> f \<in> callbacks cfg) \<Longrightarrow> keeps R (call_hook h)"
  by (cases h) (auto simp: call_hook_def intro: kept_ret kept_callback)

lemma kept_state_of: "keeps R (state_of k)"
  by (auto simp: keeps_def state_of_def kept_refl split: option.splits)

lemma kept_upd_state: "touch k \<Longrightarrow> keeps R (upd_state k f)"
  unfolding upd_state_def set_state_def
  by (intro kept_bnd kept_state_of kept_upd kept_state)

lemma kept_load_stopped: "keeps R (load_stopped env)"
  unfolding load_stopped_def by (intro kept_rules kept_ask kept_upd kept_flags) simp

lemma kept_take_snapshot: "keeps R (take_snapshot cfg)"
proof (cases "SnapshotFn cfg")
  case None
  then show ?thesis by (simp add: take_snapshot_def kept_ret)
next
  case (Some f)
  have "f sh \<in> callbacks cfg" for sh
    using callbacks_common [of cfg] Some by (auto simp: common_callbacks_def)
  then have "keeps R (seqm (log_eff (Snapshotted sh)) (bnd (call_back (f sh)) (\<lambda>_. ret ())))" for sh
    by (intro kept_rules kept_log_eff kept_callback) simp_all
  then show ?thesis
    unfolding take_snapshot_def by (auto simp: keeps_def Some split: option.splits)
qed

lemma kept_sleep: "keeps R (sleepWithContext env d)"
  unfolding sleepWithContext_def by (intro kept_rules kept_log_eff kept_ask) (auto intro!: kept_rules kept_log_eff kept_ask)

lemma kept_call_func:
  assumes "touch (SName step)" "step_callbacks step \<subseteq> callbacks cfg"
  shows "keeps R (call_func step)"
proof (cases "Func step")
  case (Some f)
  then have "f \<in> callbacks cfg" using assms by (auto simp: step_callbacks_def)
  then show ?thesis unfolding call_func_def log_eff_def
    by (auto simp: Some intro!: kept_bnd kept_seqm kept_ret kept_upd kept_called kept_callback assms)
qed (simp add: call_func_def kept_panic)

lemma kept_retry_round:
  assumes "touch (SName step)" "step_callbacks step \<subseteq> callbacks cfg"
  shows "keeps R (retry_round env step d k)"
  unfolding retry_round_def
  by (auto intro!: kept_bnd kept_ret kept_call_func [OF assms] kept_sleep split: option.split)

lemma kept_retry_from:
  assumes "touch (SName step)" "step_callbacks step \<subseteq> callbacks cfg"
  shows "keeps R (retry_from env step next d k e)"
proof (rule keepsI)
  fix m r m' assume "retry_from env step next d k e m = Some (r, m')"
  then show "R m m'"
    by (induction rule: retry_from_induct)
      (auto intro: kept_refl kept_trans dest: keepsD [OF kept_retry_round [OF assms]])
qed

lemma kept_run_policy:
  assumes "touch (SName step)" "step_callbacks step \<subseteq> callbacks cfg"
  shows "keeps R (run_policy env step)"
proof (cases "RetryPolicy step")
  case (Some q)
  have "f \<in> callbacks cfg" if "q = CustomPolicy f" for f
    using assms(2) Some that by (simp add: step_callbacks_def)
  with Some kept_retry_from [OF assms] kept_callback show ?thesis
    by (cases q) (simp_all add: run_policy_def RunWithLinear_def RunWithBackoff_def Let_def)
qed (simp add: run_policy_def kept_panic)

lemma kept_all_steps_hook:
  assumes "\<And>g. h = Some g \<Longrightarrow> g a b \<in> callbacks cfg"
  shows "keeps R (all_steps_hook h a b)"
  unfolding all_steps_hook_def using assms by (intro kept_hook) auto

lemma kept_run_step:
  assumes "touch (SName step)" "step_callbacks step \<subseteq> callbacks cfg"
  shows "keeps R (run_step env cfg stage step)"
proof -
  have "keeps R (step_begin env cfg (SName step))"
    unfolding step_begin_def
    by (intro kept_rules kept_ask kept_upd_state assms kept_upd kept_flags kept_take_snapshot)
      (auto intro!: kept_rules kept_upd_state assms split: option.split)
  moreover have "keeps R (step_work env cfg stage step)"
    unfolding step_work_def using assms(2)
    by (intro kept_rules kept_all_steps_hook kept_hook kept_run_policy assms)
      (auto intro: common_in_callbacks kept_ret simp: step_callbacks_def split: option.split)
  moreover have "keeps R (step_deferred env cfg (SName step) e ok)" for e ok
    unfolding step_deferred_def
    by (intro kept_rules kept_ask kept_upd_state assms kept_take_snapshot)
  ultimately show ?thesis
    unfolding run_step_def by (auto intro!: kept_rules split: prod.split)
qed

lemma kept_handleStep:
  assumes "step_callbacks step \<subseteq> callbacks cfg"
  shows "keeps R (handleStep env cfg stage step)"
proof (cases "touch (SName step)")
  case True
  note run = kept_run_step [OF True assms]
  show ?thesis
    unfolding handleStep_def
    by (auto intro!: kept_rules kept_upd_ws kept_state_of kept_upd_state run True)
qed (rule kept_untouched [OF assms])

lemma kept_handle_steps:
  assumes "ready_callbacks st \<subseteq> callbacks cfg"
  shows "set steps \<subseteq> set (RSteps st) \<Longrightarrow> keeps R (handle_steps env cfg st steps)"
proof (induction steps)
  case Nil
  then show ?case using assms by (auto simp: ready_callbacks_def intro: kept_hook)
next
  case (Cons step rest)
  then have "step_callbacks step \<subseteq> callbacks cfg" using assms by (auto simp: ready_callbacks_def)
  with Cons show ?case
    by (auto intro!: kept_rules kept_load_stopped kept_ask kept_handleStep split: option.split)
qed

lemma kept_handleStage:
  assumes "ready_callbacks st \<subseteq> callbacks cfg"
  shows "keeps R (handleStage env cfg st)"
proof -
  have "f \<in> callbacks cfg" if "RBeforeFn st = Some f" for f
    using assms that by (auto simp: ready_callbacks_def)
  then show ?thesis
    unfolding handleStage_def
    by (auto intro!: kept_rules kept_upd_ws kept_hook kept_handle_steps [OF assms])
qed

lemma kept_handle_stages:
  "(\<And>st. st \<in> set sts \<Longrightarrow> ready_callbacks st \<subseteq> callbacks cfg) \<Longrightarrow> keeps R (handle_stages env cfg sts)"
proof (induction sts)
  case (Cons st rest)
  then have "keeps R (handleStage env cfg st)" by (intro kept_handleStage) simp
  with Cons show ?case
    by (auto intro!: kept_rules kept_load_stopped kept_ask split: option.split)
qed (simp add: kept_ret)

lemma kept_init_steps: "keeps R (init_steps stage steps idx ix)"
proof (induction steps arbitrary: idx ix)
  case (Cons step rest)
  show ?case
  proof (cases step)
    case (Some s)
    have "keeps R (upd (\<lambda>m. if stepStates (pub m) (SName s) = None
        then m\<lparr>pub := (pub m)\<lparr>stepStates := (stepStates (pub m))(SName s \<mapsto> NewStepState)\<rparr>\<rparr> else m))"
      by (intro kept_upd) (auto intro: kept_born kept_refl)
    moreover have "keeps R (upd_state (SName s) (\<lambda>st. SetCurrentStep (SetCurrentStage st stage) (SName s)))"
      by (auto simp: keeps_def upd_state_def bnd_Some_iff state_of_def set_state_def kept_place
        split: option.splits)
    ultimately show ?thesis
      using Cons Some by (auto intro!: kept_rules simp: Let_def)
  qed (simp add: kept_ret)
qed (simp add: kept_ret)

lemma kept_init_stages: "keeps R (init_stages stages idx gx ix)"
proof (induction stages arbitrary: idx gx ix)
  case (Cons stage rest)
  then show ?case
    by (auto intro!: kept_rules kept_init_steps split: option.split sum.split)
qed (simp add: kept_ret)

lemma kept_init: "keeps R (init cfg)"
  unfolding init_def by (auto intro!: kept_rules kept_init_stages split: option.split sum.split)

lemma kept_finish: "keeps R (finish cfg err)"
proof (cases err)
  case (Some e)
  have "keeps R (route_compensation cfg a b e)" for a b
    unfolding route_compensation_def
    by (intro kept_rules kept_upd_ws kept_take_snapshot kept_upd kept_skip)
  then show ?thesis
    unfolding finish_def Some option.case
    by (intro kept_rules kept_take_snapshot kept_hook)
      (auto intro: kept_ret common_in_callbacks split: option.split)
qed (simp add: finish_def kept_ret)

end

locale kept_workflow = kept_steps R env cfg touch
  for R :: "('v, 'w) wmach \<Rightarrow> ('v, 'w) wmach \<Rightarrow> bool" and env cfg touch +
  assumes kept_started: "R m (m\<lparr>executionStarted := b\<rparr>)"
begin

lemma kept_execute: "keeps R (execute env cfg)"
proof (rule keepsI)
  fix m r m' assume "execute env cfg m = Some (r, m')"
  then obtain x m1 where
    init: "init cfg (m\<lparr>executionStarted := False\<rparr>) = Some (x, m1)"
    and rest: "(case x of Inl e \<Rightarrow> ret (Some (WrapErr (''workflow init: '' @ werr_text e) [e]))
      | Inr stages \<Rightarrow>
          bnd (gets (\<lambda>m. finished (WState (pub m)))) (\<lambda>done.
          if done then ret None
          else on_err (call_hook (BeforeFn cfg))
            (\<lambda>e. ret (Some (WrapErr (''workflow before: '' @ werr_text e) [e])))
            (seqm (upd (\<lambda>m. m\<lparr>executionStarted := True\<rparr>))
            (bnd (handle_stages env cfg stages) (\<lambda>end. case end of
               Return e \<Rightarrow> ret e
             | Leave e \<Rightarrow> complete_stages cfg e))))) m1 = Some (r, m')" (is "?rest m1 = _")
    by (auto simp: execute_def seqm_Some_iff bnd_Some_iff)
  have "R m m1"
    using kept_trans [OF kept_started keepsD [OF kept_init init]] .
  moreover have "keeps R ?rest"
  proof (cases x)
    case (Inr stages)
    have "keeps R (handle_stages env cfg stages)"
      by (rule kept_handle_stages) (use ready_stage_from [OF init [unfolded Inr]] callbacks_stage in blast)
    moreover have "keeps R (complete_stages cfg e)" for e
      unfolding complete_stages_def by (intro kept_rules kept_hook) (auto intro: kept_upd_ws kept_ret common_in_callbacks)
    ultimately show ?thesis
      using Inr by (auto intro!: kept_rules kept_hook kept_upd kept_started common_in_callbacks(1) split: stages_end.split)
  qed (simp add: kept_ret)
  ultimately show "R m m'" using rest by (auto dest: keepsD intro: kept_trans)
qed

theorem kept_Run: "keeps R (workflow_Run env cfg)"
  unfolding workflow_Run_def
  by (auto intro!: kept_rules kept_execute kept_ask kept_finish kept_upd kept_flags simp: Let_def)

end

end
