(* ===== verification/Workflow_Props.thy ===== *)
theory Workflow_Props
  imports Workflow_Rules
begin

text \<open>
  Properties of the workflow engine: settled steps are left alone, retries are bounded, runs
  return, setup failures are not routed, and how a failed run continues at its compensation.
\<close>

section \<open>Settled steps\<close>

text \<open>A step is settled with status \<open>v\<close>. Callbacks that respect it may do anything but give the step
  another status.\<close>

definition settled_statuses :: "step_status set" where
  "settled_statuses = {StepStatusCompleted, StepStatusSkipped, StepStatusSuspended}"

definition has_status :: "string \<Rightarrow> step_status \<Rightarrow> 'v wpub \<Rightarrow> bool" where
  "has_status n v p \<longleftrightarrow> (\<exists>s. stepStates p n = Some s \<and> Status s = v)"

definition respects_status :: "string \<Rightarrow> step_status \<Rightarrow> ('v, 'w) callback \<Rightarrow> bool" where
  "respects_status n v f \<longleftrightarrow> (\<forall>p w. has_status n v p \<longrightarrow> has_status n v (fst (snd (f p w))))"

definition calls_of :: "string \<Rightarrow> 'v weff list \<Rightarrow> werr option list" where
  "calls_of n es = concat (map (\<lambda>e. case e of FuncCalled k r \<Rightarrow> if k = n then [r] else [] | _ \<Rightarrow> []) es)"

lemma calls_of_append [simp]: "calls_of n (xs @ ys) = calls_of n xs @ calls_of n ys"
  by (simp add: calls_of_def)

lemma calls_of_simps [simp]:
  "calls_of n [] = []" "calls_of n [Slept d] = []" "calls_of n [Interrupted x] = []" "calls_of n [Snapshotted sh] = []"
  "calls_of n [FuncCalled k r] = (if k = n then [r] else [])"
  by (simp_all add: calls_of_def)

lemma calls_of_other: "(\<And>k r. e \<noteq> FuncCalled k r) \<Longrightarrow> calls_of n [e] = []"
  by (cases e) auto

definition leaves_settled ::
    "('v, 'w) workflow \<Rightarrow> string \<Rightarrow> step_status \<Rightarrow> ('v, 'w) wmach \<Rightarrow> ('v, 'w) wmach \<Rightarrow> bool" where
  "leaves_settled cfg n v m m' \<longleftrightarrow>
     v \<in> settled_statuses \<and> (\<forall>f \<in> callbacks cfg. respects_status n v f) \<and> has_status n v (pub m) \<longrightarrow>
     has_status n v (pub m') \<and> calls_of n (weffs m') = calls_of n (weffs m)"

lemma handleStep_settled:
  assumes "handleStep env cfg stage step m = Some (r, m')" and "has_status (SName step) v (pub m)"
    and "v \<in> settled_statuses"
  shows "stepStates (pub m') = stepStates (pub m) \<and> weffs m' = weffs m
    \<and> (r = Some ErrSkipStep \<or> r = Some ErrBreakStages \<or> r = Some ErrExitWorkflow)"
  using assms unfolding handleStep_def
  by (auto simp: bnd_Some_iff seqm_Some_iff has_status_def settled_statuses_def upd_ws_def
      state_of_def split: if_splits)

interpretation settled: kept_workflow "leaves_settled cfg n v" env cfg "\<lambda>k. k \<noteq> n" for cfg n v env
proof unfold_locales
  fix step :: "('a, 'b) wstep" and stage assume "\<not> SName step \<noteq> n"
  then show "keeps (leaves_settled cfg n v) (handleStep env cfg stage step)"
    using handleStep_settled [of env cfg stage step]
    by (fastforce simp: keeps_def leaves_settled_def has_status_def)
next
  fix f assume "f \<in> callbacks cfg"
  then show "keeps (leaves_settled cfg n v) (call_back f)"
    by (auto simp: keeps_def leaves_settled_def call_back_def respects_status_def Let_def
        split: prod.splits dest!: bspec)
       (metis fst_conv snd_conv)
qed (auto simp: leaves_settled_def has_status_def step_state_setters calls_of_other)

text \<open>C17. No run calls the function of a step that is completed, skipped or suspended, or changes its
  status, unless a callback of the workflow changes it.\<close>

theorem settled_steps_left_alone:
  assumes "workflow_Run env cfg m = Some (r, m')"
    and "has_status n v (pub m)" and "v \<in> settled_statuses"
    and "\<forall>f \<in> callbacks cfg. respects_status n v f"
  shows "has_status n v (pub m') \<and> calls_of n (weffs m') = calls_of n (weffs m)"
  using keepsD [OF settled.kept_Run assms(1)] assms(2-) by (simp add: leaves_settled_def)

section \<open>Retries\<close>

text \<open>What the retry loops do while attempts fail: the \<open>i\<close>-th failure is followed by a wait of
  \<open>delay i\<close>. The flag of a failure says that the wait was cut short although the context then gave no
  error.\<close>

fun retry_schedule :: "string \<Rightarrow> (nat \<Rightarrow> int) \<Rightarrow> nat \<Rightarrow> (werr \<times> bool) list \<Rightarrow> 'v weff list" where
  "retry_schedule n delay i [] = []"
| "retry_schedule n delay i ((e, d) # es) =
     FuncCalled n (Some e) # Slept (delay i) # (if d then [Interrupted None] else [])
       @ retry_schedule n delay (Suc i) es"

definition policy_delay :: "('v, 'w) wstep \<Rightarrow> ('v, 'w) retry_policy \<Rightarrow> nat \<Rightarrow> int" where
  "policy_delay step q i =
     (case q of
        Backoff \<Rightarrow> i64 ((if Timeout step \<le> 0 then 1 * Second else Timeout step) * 2 ^ i)
      | _ \<Rightarrow> Timeout step)"

text \<open>A loop of at most \<open>n\<close> attempts ended: by the result of its last attempt, or in a wait by the error
  the context gave when it was asked.\<close>

definition retry_ended ::
    "string \<Rightarrow> (nat \<Rightarrow> int) \<Rightarrow> nat \<Rightarrow> nat \<Rightarrow> werr option \<Rightarrow> 'v weff list \<Rightarrow> bool" where
  "retry_ended name delay i n r es \<longleftrightarrow>
     (\<exists>fails. (\<forall>(e, d) \<in> set fails. \<not> isControlFlowError e) \<and> length fails < n \<and>
        ((es = retry_schedule name delay i fails @ [FuncCalled name r]
          \<and> (case r of None \<Rightarrow> True | Some e \<Rightarrow> isControlFlowError e \<or> length fails + 1 = n))
         \<or> (\<exists>ce. r = Some ce \<and> fails \<noteq> [] \<and> es = retry_schedule name delay i fails @ [Interrupted (Some ce)])))"

lemma positive_retries: "MaxRetries step > 0 \<Longrightarrow> \<exists>n. MaxRetries step = int (0 + Suc n)"
  by (rule exI [of _ "nat (MaxRetries step) - 1"]) simp

lemma retry_ended_last:
  "r = None \<or> (\<exists>e. r = Some e \<and> (isControlFlowError e \<or> n = 0)) \<Longrightarrow>
     retry_ended name delay i (Suc n) r [FuncCalled name r]"
  unfolding retry_ended_def by (rule exI [of _ "[]"]) auto

lemma retry_ended_interrupted:
  "\<not> isControlFlowError e \<Longrightarrow> n > 0 \<Longrightarrow>
     retry_ended name delay i (Suc n) (Some ce) [FuncCalled name (Some e), Slept (delay i), Interrupted (Some ce)]"
  unfolding retry_ended_def by (rule exI [of _ "[(e, False)]"]) auto

lemma retry_ended_again:
  assumes "\<not> isControlFlowError e" and "retry_ended name delay (Suc i) n r es"
  shows "retry_ended name delay i (Suc n) r
    (FuncCalled name (Some e) # Slept (delay i) # (if d then [Interrupted None] else []) @ es)"
proof -
  from assms(2) obtain fails where "(\<forall>(e, d) \<in> set fails. \<not> isControlFlowError e)" "length fails < n"
    "(es = retry_schedule name delay (Suc i) fails @ [FuncCalled name r]
       \<and> (case r of None \<Rightarrow> True | Some e \<Rightarrow> isControlFlowError e \<or> length fails + 1 = n))
     \<or> (\<exists>ce. r = Some ce \<and> fails \<noteq> [] \<and> es = retry_schedule name delay (Suc i) fails @ [Interrupted (Some ce)])"
    unfolding retry_ended_def by blast
  with assms(1) show ?thesis
    unfolding retry_ended_def by (intro exI [of _ "(e, d) # fails"]) (auto split: option.splits)
qed

lemma sleep_cases:
  fixes m :: "('v, 'w) wmach"
  obtains m' d where "sleepWithContext env t m = Some (None, m')"
      "weffs m' = weffs m @ Slept t # (if d then [Interrupted None] else [])"
    | m' ce where "sleepWithContext env t m = Some (Some ce, m')" "weffs m' = weffs m @ [Slept t, Interrupted (Some ce)]"
proof -
  obtain i w where i: "sleepInterrupted env t (wworld m) = (i, w)" by fastforce
  obtain e w' where e: "ctxErr env w = (e, w')" by fastforce
  let ?m = "m\<lparr>wworld := w, weffs := weffs m @ [Slept t]\<rparr>"
  let ?m' = "m\<lparr>wworld := w', weffs := weffs m @ [Slept t, Interrupted e]\<rparr>"
  have run: "sleepWithContext env t m = (if i then Some (e, ?m') else Some (None, ?m))"
    using i e by (simp add: sleepWithContext_def seqm_def bnd_def log_eff_def upd_def ask_def ret_def)
  show ?thesis
  proof (cases i)
    case False
    then show ?thesis using that(1) [where m' = ?m and d = False] run by simp
  next
    case True
    then show ?thesis
      using that(1) [where m' = ?m' and d = True] that(2) [where m' = ?m'] run by (cases e) simp_all
  qed
qed

lemma call_func_cases:
  fixes m :: "('v, 'w) wmach"
  assumes "Func step \<noteq> None"
  shows "\<exists>r m'. call_func step m = Some (r, m') \<and> weffs m' = weffs m @ [FuncCalled (SName step) r]"
  using assms
  by (auto simp: call_func_def seqm_def bnd_def log_eff_def upd_def call_back_def ret_def Let_def
      split: prod.split)

lemma retry_from_ended:
  fixes m :: "('v, 'w) wmach"
  assumes "Func step \<noteq> None" and "\<And>j. nx (delay j) = delay (Suc j)"
    and "MaxRetries step = int (k + Suc n)"
  shows "\<exists>r m' es. retry_from env step nx (delay k) (int k) err m = Some (r, m')
    \<and> weffs m' = weffs m @ es \<and> retry_ended (SName step) delay k (Suc n) r es"
  using assms(3)
proof (induction n arbitrary: k err m)
  case (0 k err m)
  obtain r m1 where c: "call_func step m = Some (r, m1)" "weffs m1 = weffs m @ [FuncCalled (SName step) r]"
    using call_func_cases [OF assms(1)] by blast
  have "retry_from env step nx (delay k) (int k) err m = Some (r, m1)"
    using c(1) 0
    by (subst retry_from.simps, cases r)
      (auto simp: retry_round_def bnd_def ret_def retry_from.simps [of env step _ _ "_ + 1"])
  with c(2) show ?case by (cases r) (auto intro: retry_ended_last)
next
  case (Suc n k err m)
  obtain r m1 where c: "call_func step m = Some (r, m1)" "weffs m1 = weffs m @ [FuncCalled (SName step) r]"
    using call_func_cases [OF assms(1)] by blast
  show ?case
  proof (cases "\<exists>e. r = Some e \<and> \<not> isControlFlowError e")
    case False
    then have "retry_from env step nx (delay k) (int k) err m = Some (r, m1)"
      using c(1) Suc.prems by (subst retry_from.simps, cases r) (auto simp: retry_round_def bnd_def ret_def)
    with c(2) False show ?thesis by (cases r) (auto intro: retry_ended_last)
  next
    case True
    then obtain e where e: "r = Some e" "\<not> isControlFlowError e" by blast
    show ?thesis
    proof (cases rule: sleep_cases [where env = env and t = "delay k" and m = m1])
      case (2 m2 x)
      then have "retry_from env step nx (delay k) (int k) err m = Some (Some x, m2)"
        using c(1) e Suc.prems by (subst retry_from.simps) (auto simp: retry_round_def bnd_def ret_def)
      with c(2) 2(2) e show ?thesis by (simp add: retry_ended_interrupted)
    next
      case (1 m2 d)
      then have "retry_from env step nx (delay k) (int k) err m
          = retry_from env step nx (delay (Suc k)) (int (Suc k)) (Some e) m2"
        using c(1) e Suc.prems assms(2)
        by (subst retry_from.simps) (auto simp: retry_round_def bnd_def ret_def add.commute)
      moreover obtain r' m' es where
        "retry_from env step nx (delay (Suc k)) (int (Suc k)) (Some e) m2 = Some (r', m')"
        "weffs m' = weffs m2 @ es" "retry_ended (SName step) delay (Suc k) (Suc n) r' es"
        using Suc.IH [of "Suc k" "Some e" m2] Suc.prems by auto
      ultimately show ?thesis
        using c(2) 1(2) e(1) retry_ended_again [OF e(2), where d = d and name = "SName step" and delay = delay and i = k
          and n = "Suc n" and r = r' and es = es] by (simp split del: if_split)
    qed
  qed
qed

lemma i64_double: "i64 (i64 x * 2) = i64 (x * 2)"
proof -
  obtain q where q: "i64 x = x - 2 ^ 64 * q"
    by (simp add: i64_def minus_div_mult_eq_mod [symmetric] algebra_simps)
  have "i64 (x * 2 - 2 ^ 64 * (2 * q)) = i64 (x * 2)"
    using mod_mult_self2 [of "x * 2 + 2 ^ 63" "2 ^ 64" "- (2 * q)"] by (simp add: i64_def algebra_simps)
  moreover have "i64 x * 2 = x * 2 - 2 ^ 64 * (2 * q)" using q by simp
  ultimately show ?thesis by simp
qed

text \<open>C19. The linear or backoff policy of a step with a positive \<open>MaxRetries\<close> returns after at most
  \<open>MaxRetries\<close> calls of its function. It stops at the first success or control-flow error and returns it,
  waits the policy's delay between attempts (the timeout, or the doubled delay, which wraps at 64 bits),
  returns the last error after the last attempt, and otherwise only an error that the context gave when it
  cut a wait short; nothing is called after that.\<close>

theorem policy_retries_bounded:
  assumes "MaxRetries step > 0" and "Func step \<noteq> None"
    and "RetryPolicy step = Some q" and "q = Linear \<or> q = Backoff"
    and "in_i64 (Timeout step)"
  shows "\<exists>r m' es. run_policy env step m = Some (r, m') \<and> weffs m' = weffs m @ es
    \<and> retry_ended (SName step) (policy_delay step q) 0 (nat (MaxRetries step)) r es"
proof -
  obtain n where n: "MaxRetries step = int (0 + Suc n)"
    using positive_retries [OF assms(1)] by blast
  show ?thesis
  proof (cases "q = Backoff")
    case True
    let ?d = "if Timeout step \<le> 0 then 1 * Second else Timeout step"
    have d: "policy_delay step Backoff 0 = ?d"
      using assms(5) by (simp add: policy_delay_def i64_id Second_def in_i64_def min_int64_def max_int64_def)
    have "\<And>j. i64 (policy_delay step Backoff j * 2) = policy_delay step Backoff (Suc j)"
      using i64_double by (simp add: policy_delay_def mult.assoc mult.commute [of 2])
    from retry_from_ended [where delay = "policy_delay step Backoff" and nx = "\<lambda>d. i64 (d * 2)", OF assms(2) this n]
    show ?thesis
      using True assms(3) n d
      by (simp add: run_policy_def RunWithBackoff_def Let_def nat_add_distrib split del: if_split)
  next
    case False
    with assms(4) have q: "q = Linear" by simp
    from retry_from_ended [where delay = "policy_delay step Linear" and nx = "\<lambda>d. d", OF assms(2) _ n]
    show ?thesis
      using q assms(3) n by (simp add: run_policy_def RunWithLinear_def policy_delay_def nat_add_distrib)
  qed
qed

end
