(* ===== verification/Workflow_Total.thy ===== *)
theory Workflow_Total
  imports Workflow_Props
begin

text \<open>
  A run of a workflow returns: it neither dereferences nil nor retries forever, provided the
  configuration has no nil stage, no nil step and no negative \<open>MaxRetries\<close>, and no callback removes
  the state of a step. A nil stage is reported by \<open>init\<close> but dereferenced by the failure snapshot.
\<close>

section \<open>Programs that return while the steps keep their states\<close>

definition present :: "string set \<Rightarrow> 'v wpub \<Rightarrow> bool" where
  "present N p \<longleftrightarrow> (\<forall>n \<in> N. stepStates p n \<noteq> None)"

definition keeps_states :: "string set \<Rightarrow> ('v, 'w) callback \<Rightarrow> bool" where
  "keeps_states N f \<longleftrightarrow> (\<forall>p w. present N p \<longrightarrow> present N (fst (snd (f p w))))"

definition sound :: "string set \<Rightarrow> ('v, 'w, 'a) wexec \<Rightarrow> bool" where
  "sound N m \<longleftrightarrow> total (\<lambda>s. present N (pub s)) m (\<lambda>_ s. present N (pub s))"

lemma sound_present: "sound N m \<Longrightarrow> m s = Some (x, s') \<Longrightarrow> present N (pub s) \<Longrightarrow> present N (pub s')"
  by (fastforce simp: sound_def total_def)

lemma sound_ret: "sound N (ret x)"
  by (simp add: sound_def total_ret)

lemma sound_gets: "sound N (gets f)"
  by (simp add: sound_def total_gets)

lemma sound_bnd: "sound N m \<Longrightarrow> (\<And>x. sound N (f x)) \<Longrightarrow> sound N (bnd m f)"
  unfolding sound_def by (rule total_bnd)

lemma sound_seqm: "sound N m \<Longrightarrow> sound N k \<Longrightarrow> sound N (seqm m k)"
  unfolding sound_def by (rule total_seqm)

lemma sound_on_err: "sound N m \<Longrightarrow> (\<And>e. sound N (h e)) \<Longrightarrow> sound N k \<Longrightarrow> sound N (on_err m h k)"
  unfolding sound_def by (rule total_on_err)

lemma sound_upd: "(\<And>s. present N (pub s) \<Longrightarrow> present N (pub (f s))) \<Longrightarrow> sound N (upd f)"
  unfolding sound_def by (rule total_upd)

lemmas sound_rules = sound_ret sound_gets sound_bnd sound_seqm sound_on_err

lemma sound_ask: "sound N (ask f)"
  by (auto simp: sound_def total_def ask_def Let_def split: prod.split)

lemma sound_log_eff: "sound N (log_eff e)"
  unfolding log_eff_def by (rule sound_upd) simp

lemma sound_upd_ws: "sound N (upd_ws f)"
  unfolding upd_ws_def by (rule sound_upd) (simp add: present_def)

lemma sound_call_back: "keeps_states N f \<Longrightarrow> sound N (call_back f)"
  by (auto simp: sound_def total_def call_back_def keeps_states_def Let_def split: prod.split)
    (metis fst_conv snd_conv)

lemma sound_hook: "(\<And>f. h = Some f \<Longrightarrow> keeps_states N f) \<Longrightarrow> sound N (call_hook h)"
  by (cases h) (auto simp: call_hook_def intro: sound_ret sound_call_back)

lemma sound_state_of: "n \<in> N \<Longrightarrow> sound N (state_of n)"
  unfolding sound_def
proof (rule totalI)
  fix s :: "('a, 'b) wmach" assume "n \<in> N" "present N (pub s)"
  moreover from this obtain y where "stepStates (pub s) n = Some y" unfolding present_def by blast
  ultimately show "\<exists>x s'. state_of n s = Some (x, s') \<and> present N (pub s')" by (simp add: state_of_def)
qed

lemma sound_upd_state: "n \<in> N \<Longrightarrow> sound N (upd_state n f)"
  unfolding upd_state_def set_state_def
  by (intro sound_bnd sound_state_of sound_upd) (auto simp: present_def)

lemma sound_load_stopped: "sound N (load_stopped env)"
  unfolding load_stopped_def by (intro sound_rules sound_ask sound_upd) simp

lemma all_steps_present:
  "None \<notin> set stages \<Longrightarrow> (\<And>st. Some st \<in> set stages \<Longrightarrow> None \<notin> set (Steps st)) \<Longrightarrow> all_steps stages \<noteq> None"
proof (induction stages)
  case (Cons a stages)
  then obtain st where "a = Some st" by (cases a) auto
  moreover from Cons this have "\<not> list_ex Option.is_none (Steps st)"
    by (auto simp: list_ex_iff Option.is_none_def)
  ultimately show ?case using Cons by auto
qed simp

section \<open>A workflow whose runs return\<close>

definition no_nil :: "('v, 'w) workflow \<Rightarrow> bool" where
  "no_nil cfg \<longleftrightarrow>
     None \<notin> set (Stages cfg) \<and> (\<forall>st. Some st \<in> set (Stages cfg) \<longrightarrow> None \<notin> set (Steps st))"

definition bounded_retries :: "('v, 'w) workflow \<Rightarrow> bool" where
  "bounded_retries cfg \<longleftrightarrow>
     (\<forall>st s. Some st \<in> set (Stages cfg) \<and> Some s \<in> set (Steps st) \<longrightarrow>
        MaxRetries s \<ge> 0 \<or> (\<exists>f. RetryPolicy s = Some (CustomPolicy f)))"

lemma sound_take_snapshot:
  fixes cfg :: "('v, 'w) workflow"
  assumes "no_nil cfg" and "\<forall>f \<in> callbacks cfg. keeps_states N f"
  shows "sound N (take_snapshot cfg)"
proof (cases "SnapshotFn cfg")
  case None
  then show ?thesis by (simp add: take_snapshot_def sound_ret)
next
  case (Some f)
  have "f sh \<in> callbacks cfg" for sh
    using callbacks_common [of cfg] Some by (auto simp: common_callbacks_def)
  then have *: "sound N (seqm (log_eff (Snapshotted sh)) (bnd (call_back (f sh)) (\<lambda>_. ret ())))" for sh
    using assms(2) by (intro sound_rules sound_log_eff sound_call_back) simp_all
  have snap: "\<exists>sh. GetSnapshot cfg p = Some sh" for p
    using all_steps_present [of "Stages cfg"] assms(1) by (simp add: GetSnapshot_def StepStates_def no_nil_def)
  show ?thesis
    unfolding sound_def
  proof (rule totalI)
    fix s :: "('v, 'w) wmach" assume "present N (pub s)"
    moreover obtain sh where "GetSnapshot cfg (pub s) = Some sh" using snap by blast
    ultimately show "\<exists>x s'. take_snapshot cfg s = Some (x, s') \<and> present N (pub s')"
      using * [of sh] by (simp add: take_snapshot_def Some sound_def total_def)
  qed
qed

lemma sound_sleep: "sound N (sleepWithContext env d)"
  unfolding sleepWithContext_def by (intro sound_rules sound_log_eff sound_ask) (auto intro!: sound_rules sound_log_eff sound_ask)

lemma sound_call_func:
  "Func step = Some f \<Longrightarrow> keeps_states N f \<Longrightarrow> sound N (call_func step)"
  unfolding call_func_def by (auto intro!: sound_rules sound_log_eff sound_call_back)

lemma retry_from_keeps_present:
  assumes "retry_from env step nx d k e m = Some (r, m')" and "present N (pub m)"
    and "Func step = Some f" "keeps_states N f"
  shows "present N (pub m')"
proof -
  have round: "sound N (retry_round env step d k)" for d k
    unfolding retry_round_def
    by (auto intro!: sound_rules sound_call_func [OF assms(3,4)] sound_sleep split: option.split)
  from assms(1,2) show ?thesis
    by (induction rule: retry_from_induct) (use sound_present [OF round] in blast)+
qed

lemma sound_run_policy:
  assumes "Func step = Some f" "keeps_states N f"
    and "RetryPolicy step = Some q" and "\<And>g. q = CustomPolicy g \<Longrightarrow> keeps_states N g"
    and "MaxRetries step > 0 \<or> (\<exists>g. q = CustomPolicy g)"
  shows "sound N (run_policy env step)"
proof -
  have ret: "\<exists>r m'. retry_from env step nx d 0 None m = Some (r, m')"
    if pos: "MaxRetries step > 0" and "nx = (\<lambda>d. d) \<or> nx = (\<lambda>d. i64 (d * 2))" for nx d m
  proof -
    obtain n where n: "MaxRetries step = int (0 + Suc n)"
      using positive_retries [OF pos] by blast
    have "\<And>j. nx ((nx ^^ j) d) = (nx ^^ Suc j) d" by simp
    from retry_from_ended [where delay = "\<lambda>j. (nx ^^ j) d" and nx = nx and env = env and m = m and err = None, OF _ this n]
    have "Func step \<noteq> None \<Longrightarrow> \<exists>r m' es. retry_from env step nx ((nx ^^ 0) d) (int 0) None m = Some (r, m')" by blast
    then show ?thesis using assms(1) by simp
  qed
  show ?thesis
  proof (cases "\<exists>g. q = CustomPolicy g")
    case True
    then show ?thesis using assms(3,4) by (auto simp: run_policy_def intro: sound_call_back)
  next
    case False
    then have pos: "MaxRetries step > 0" using assms(5) by blast
    have "sound N (retry_from env step nx d 0 None)"
      if "nx = (\<lambda>d. d) \<or> nx = (\<lambda>d. i64 (d * 2))" for nx d
      unfolding sound_def
      by (rule totalI) (use ret [OF pos that] retry_from_keeps_present assms(1,2) in blast)
    then show ?thesis
      using assms(3) False
      by (cases q) (auto simp: run_policy_def RunWithLinear_def RunWithBackoff_def Let_def)
  qed
qed

section \<open>The engine's functions return\<close>

definition ready_ok :: "string set \<Rightarrow> ('v, 'w) wstep \<Rightarrow> bool" where
  "ready_ok N s \<longleftrightarrow> SName s \<in> N \<and> Func s \<noteq> None
     \<and> (\<exists>q. RetryPolicy s = Some q \<and> (MaxRetries s > 0 \<or> (\<exists>g. q = CustomPolicy g)))"

lemma sound_run_step:
  fixes cfg :: "('v, 'w) workflow"
  assumes cfg: "no_nil cfg" "\<forall>f \<in> callbacks cfg. keeps_states N f"
    and step: "ready_ok N step" "step_callbacks step \<subseteq> callbacks cfg"
  shows "sound N (run_step env cfg stage step)"
proof -
  from step(1) obtain q f where N: "SName step \<in> N" and f: "Func step = Some f" and
    q: "RetryPolicy step = Some q" "MaxRetries step > 0 \<or> (\<exists>g. q = CustomPolicy g)"
    unfolding ready_ok_def by auto
  have own: "keeps_states N g" if "g \<in> step_callbacks step" for g
    using that step(2) cfg(2) by blast
  have custom: "g \<in> step_callbacks step" if "q = CustomPolicy g" for g
    using q(1) that by (simp add: step_callbacks_def)
  note snap = sound_take_snapshot [OF cfg]
  have "sound N (step_begin env cfg (SName step))"
    unfolding step_begin_def
    by (intro sound_rules sound_ask sound_upd_state N sound_upd snap)
      (auto intro!: sound_rules sound_upd_state N split: option.split)
  moreover have "sound N (run_policy env step)"
    using sound_run_policy [OF f _ q(1) _ q(2)] own custom f by (auto simp: step_callbacks_def)
  then have "sound N (step_work env cfg stage step)"
    unfolding step_work_def all_steps_hook_def
    by (intro sound_rules sound_hook)
      (auto intro: own cfg(2) [rule_format] common_in_callbacks sound_ret simp: step_callbacks_def split: option.split)
  moreover have "sound N (step_deferred env cfg (SName step) e ok)" for e ok
    unfolding step_deferred_def by (intro sound_rules sound_ask sound_upd_state N snap)
  ultimately show ?thesis
    unfolding run_step_def by (auto intro!: sound_rules split: prod.split)
qed

lemma sound_handle_steps:
  fixes cfg :: "('v, 'w) workflow"
  assumes cfg: "no_nil cfg" "\<forall>f \<in> callbacks cfg. keeps_states N f"
    and "ready_callbacks st \<subseteq> callbacks cfg" "\<forall>s \<in> set (RSteps st). ready_ok N s"
  shows "set steps \<subseteq> set (RSteps st) \<Longrightarrow> sound N (handle_steps env cfg st steps)"
proof (induction steps)
  case Nil
  then show ?case using assms by (auto simp: ready_callbacks_def intro: sound_hook)
next
  case (Cons step rest)
  then have step: "ready_ok N step" "step_callbacks step \<subseteq> callbacks cfg"
    using assms(3,4) by (auto simp: ready_callbacks_def)
  then have N: "SName step \<in> N" by (simp add: ready_ok_def)
  note run = sound_run_step [OF cfg step]
  have "sound N (handleStep env cfg (RName st) step)"
    unfolding handleStep_def
    using N by (auto intro!: sound_rules sound_upd_ws sound_state_of sound_upd_state run)
  with Cons show ?case
    by (auto intro!: sound_rules sound_load_stopped sound_ask split: option.split)
qed

lemma sound_handle_stages:
  fixes cfg :: "('v, 'w) workflow"
  assumes cfg: "no_nil cfg" "\<forall>f \<in> callbacks cfg. keeps_states N f"
  shows "(\<And>st. st \<in> set sts \<Longrightarrow> ready_callbacks st \<subseteq> callbacks cfg \<and> (\<forall>s \<in> set (RSteps st). ready_ok N s)) \<Longrightarrow>
    sound N (handle_stages env cfg sts)"
proof (induction sts)
  case (Cons st rest)
  then have st: "ready_callbacks st \<subseteq> callbacks cfg" "\<forall>s \<in> set (RSteps st). ready_ok N s" by auto
  then have "keeps_states N f" if "RBeforeFn st = Some f" for f
    using that cfg(2) by (auto simp: ready_callbacks_def)
  then have "sound N (handleStage env cfg st)"
    unfolding handleStage_def
    by (auto intro!: sound_rules sound_upd_ws sound_hook sound_handle_steps [OF cfg st])
  moreover have "sound N (handle_stages env cfg rest)"
    by (rule Cons.IH) (meson Cons.prems list.set_intros(2))
  ultimately show ?case
    by (auto intro!: sound_rules sound_load_stopped sound_ask split: option.split)
qed (simp add: sound_ret)

section \<open>Initialisation returns\<close>

lemma total_init_steps:
  "total (\<lambda>s. present (set ix) (pub s)) (init_steps stage steps idx ix)
     (\<lambda>r s. case r of Inl e \<Rightarrow> True | Inr (ss, ix') \<Rightarrow> present (set ix') (pub s))"
proof (induction steps arbitrary: idx ix)
  case Nil
  then show ?case by (simp add: total_ret)
next
  case (Cons step rest)
  show ?case
  proof (cases step)
    case None
    then show ?thesis by (simp add: total_ret)
  next
    case (Some s)
    let ?born = "upd (\<lambda>m. if stepStates (pub m) (SName s) = None
        then m\<lparr>pub := (pub m)\<lparr>stepStates := (stepStates (pub m))(SName s \<mapsto> NewStepState)\<rparr>\<rparr> else m)"
    let ?N = "insert (SName s) (set ix)"
    have born: "total (\<lambda>m. present (set ix) (pub m)) ?born (\<lambda>_ m. present ?N (pub m))"
      by (rule total_upd) (auto simp: present_def)
    have placed: "total (\<lambda>m. present ?N (pub m)) (upd_state (SName s) g) (\<lambda>_ m. present ?N (pub m))" for g
      using sound_upd_state [of "SName s" ?N g] by (simp add: sound_def)
    have more: "total (\<lambda>m. present ?N (pub m))
        (bnd (init_steps stage rest (Suc idx) (SName s # ix)) (\<lambda>r.
           ret (case r of Inl e \<Rightarrow> Inl e | Inr (ss, ix) \<Rightarrow> Inr (s' # ss, ix))))
        (\<lambda>r m. case r of Inl e \<Rightarrow> True | Inr (ss, ix') \<Rightarrow> present (set ix') (pub m))" for s'
      by (rule total_bnd [OF Cons.IH [of "SName s # ix", simplified]])
        (auto intro!: total_ret split: sum.splits)
    show ?thesis
      using Some more
      by (auto simp: Let_def intro!: total_ret total_seqm [OF born] total_seqm [OF placed])
  qed
qed

lemma total_init_stages:
  "total (\<lambda>s. present (set ix) (pub s)) (init_stages stages idx gx ix)
     (\<lambda>r s. case r of Inl e \<Rightarrow> True | Inr (sts, gx', ix') \<Rightarrow> present (set ix') (pub s))"
proof (induction stages arbitrary: idx gx ix)
  case Nil
  then show ?case by (simp add: total_ret)
next
  case (Cons stage rest)
  have next_stage: "total (\<lambda>m. present (set ix') (pub m))
      (bnd (init_stages rest (Suc idx) gx' ix') (\<lambda>r'. ret (case r' of
         Inl e \<Rightarrow> Inl e | Inr (sts, ix) \<Rightarrow> Inr (st # sts, ix))))
      (\<lambda>r s. case r of Inl e \<Rightarrow> True | Inr (sts, gx', ix') \<Rightarrow> present (set ix') (pub s))" for ix' gx' st
    by (rule total_bnd [OF Cons.IH]) (auto intro!: total_ret split: sum.splits)
  show ?case
  proof (cases stage)
    case (Some st)
    let ?Q = "\<lambda>r s. case r of Inl e \<Rightarrow> True | Inr (sts, gx', ix') \<Rightarrow> present (set ix') (pub s)"
    have "total (\<lambda>s. present (set ix) (pub s))
        (bnd (init_steps (StName st) (Steps st) 0 ix) (\<lambda>r. case r of
              Inl e \<Rightarrow> ret (Inl e)
            | Inr (steps, stepIndex') \<Rightarrow>
                bnd (init_stages rest (Suc idx) (StName st # gx) stepIndex') (\<lambda>r'.
                  ret (case r' of
                         Inl e \<Rightarrow> Inl e
                       | Inr (sts, ix) \<Rightarrow>
                           Inr (\<lparr>RName = StName st, RSteps = steps, RBeforeFn = StBeforeFn st,
                                 RAfterFn = StAfterFn st\<rparr> # sts, ix))))) ?Q"
    proof (rule total_bnd [OF total_init_steps])
      fix r
      show "total ((\<lambda>r s. case r of Inl e \<Rightarrow> True | Inr (ss, ix') \<Rightarrow> present (set ix') (pub s)) r) (case r of
              Inl e \<Rightarrow> ret (Inl e)
            | Inr (steps, stepIndex') \<Rightarrow>
                bnd (init_stages rest (Suc idx) (StName st # gx) stepIndex') (\<lambda>r'.
                  ret (case r' of
                         Inl e \<Rightarrow> Inl e
                       | Inr (sts, ix) \<Rightarrow>
                           Inr (\<lparr>RName = StName st, RSteps = steps, RBeforeFn = StBeforeFn st,
                                 RAfterFn = StAfterFn st\<rparr> # sts, ix)))) ?Q"
        using next_stage by (cases r) (simp_all add: total_ret split_beta)
    qed
    then show ?thesis
      using Some by (simp add: total_ret)
  qed (simp add: total_ret)
qed

lemma total_init:
  "total (\<lambda>_. True) (init cfg)
     (\<lambda>r s. case r of Inl e \<Rightarrow> True | Inr sts \<Rightarrow> present (step_names (Stages cfg)) (pub s))"
proof (rule totalI)
  fix m :: "('a, 'b) wmach"
  obtain r m' where run: "init_stages (Stages cfg) 0 [] [] m = Some (r, m')"
    and r: "case r of Inl e \<Rightarrow> True | Inr (sts, gx', ix') \<Rightarrow> present (set ix') (pub m')"
    using totalD [OF total_init_stages, of "[]" m "Stages cfg" 0 "[]"] by (auto simp: present_def)
  then show "\<exists>r m'. init cfg m = Some (r, m') \<and>
      (case r of Inl e \<Rightarrow> True | Inr sts \<Rightarrow> present (step_names (Stages cfg)) (pub m'))"
    by (auto simp: init_def bnd_def ret_def dest!: init_stages_Inr split: sum.splits option.splits)
qed

section \<open>Runs return\<close>

lemma total_finish:
  assumes "no_nil cfg"
  shows "total (\<lambda>_. True) (finish cfg err) (\<lambda>_ _. True)"
proof -
  have "sound {} (finish cfg err)"
  proof -
    have cb: "keeps_states {} f" for f :: "('a, 'b) callback" by (simp add: keeps_states_def present_def)
    have snap: "sound {} (take_snapshot cfg)" using sound_take_snapshot [OF assms] cb by blast
    have "sound {} (route_compensation cfg a b e)" for a b e
      unfolding route_compensation_def
      by (intro sound_rules sound_upd_ws snap sound_upd) (simp add: present_def)
    then show ?thesis
      unfolding finish_def
      by (auto intro!: sound_rules snap sound_hook cb split: option.split)
  qed
  then show ?thesis by (simp add: sound_def present_def)
qed

text \<open>C18. A run returns: no nil dereference, no endless retry, when the configuration has no nil stage or
  step and no negative \<open>MaxRetries\<close>, and no callback removes a step's state.\<close>

theorem workflow_Run_returns:
  assumes "no_nil cfg" and "bounded_retries cfg"
    and "\<forall>f \<in> callbacks cfg. keeps_states (step_names (Stages cfg)) f"
  shows "\<exists>r m'. workflow_Run env cfg m = Some (r, m')"
proof -
  let ?N = "step_names (Stages cfg)"
  have stages: "sound ?N (handle_stages env cfg sts)" if init: "init cfg s = Some (Inr sts, s')" for sts s s'
  proof (rule sound_handle_stages [OF assms(1,3)])
    fix st assume "st \<in> set sts"
    then obtain st0 where st0: "Some st0 \<in> set (Stages cfg)" "st = readied st0"
      using ready_stage_from [OF init] by blast
    with init_Inr [OF init] have steps: "None \<notin> set (Steps st0)" "\<And>s. Some s \<in> set (Steps st0) \<Longrightarrow> Func s \<noteq> None"
      by blast+
    have "ready_ok ?N (setDefaultValues s)" if "Some s \<in> set (Steps st0)" for s
      using st0(1) steps(2) [OF that] that assms(2)
      by (fastforce simp: ready_ok_def step_names_def bounded_retries_def)
    moreover have "\<exists>s'. Some s' \<in> set (Steps st0) \<and> s = setDefaultValues s'" if "s \<in> set (RSteps st)" for s
      using ready_step_from [OF steps(1)] that st0(2) by blast
    ultimately show "ready_callbacks st \<subseteq> callbacks cfg \<and> (\<forall>s \<in> set (RSteps st). ready_ok ?N s)"
      using callbacks_stage [OF st0(1)] st0(2) by blast
  qed
  have exec: "\<exists>r m'. execute env cfg m = Some (r, m')" for m
  proof -
    obtain x m1 where init: "init cfg (m\<lparr>executionStarted := False\<rparr>) = Some (x, m1)"
      and x: "case x of Inl e \<Rightarrow> True | Inr sts \<Rightarrow> present ?N (pub m1)"
      using totalD [OF total_init [of cfg], of "m\<lparr>executionStarted := False\<rparr>"] by auto
    show ?thesis
    proof (cases x)
      case (Inl e)
      with init show ?thesis by (simp add: execute_def seqm_def bnd_def upd_def ret_def)
    next
      case (Inr sts)
      note sts = stages [OF init [unfolded Inr]]
      have "sound ?N (complete_stages cfg e)" for e
        unfolding complete_stages_def
        by (intro sound_rules sound_hook) (auto intro: sound_upd_ws sound_ret assms(3) [rule_format] common_in_callbacks)
      then have "sound ?N (bnd (gets (\<lambda>m. finished (WState (pub m)))) (\<lambda>done.
          if done then ret None
          else on_err (call_hook (BeforeFn cfg))
            (\<lambda>e. ret (Some (WrapErr (''workflow before: '' @ werr_text e) [e])))
            (seqm (upd (\<lambda>m. m\<lparr>executionStarted := True\<rparr>))
            (bnd (handle_stages env cfg sts) (\<lambda>end. case end of
               Return e \<Rightarrow> ret e
             | Leave e \<Rightarrow> complete_stages cfg e)))))" (is "sound _ ?rest")
        by (auto intro!: sound_rules sound_hook sound_upd sts assms(3) [rule_format] common_in_callbacks(1)
            split: stages_end.split)
      with x Inr obtain r m' where "?rest m1 = Some (r, m')"
        unfolding sound_def total_def by fastforce
      with init Inr show ?thesis by (auto simp: execute_def seqm_def bnd_def upd_def)
    qed
  qed
  have "sound {} (execute env cfg)"
    using exec by (simp add: sound_def total_def present_def)
  moreover have "sound {} (finish cfg err)" for err
    using total_finish [OF assms(1)] by (simp add: sound_def present_def)
  ultimately have "sound {} (workflow_Run env cfg)"
    unfolding workflow_Run_def Let_def by (auto intro!: sound_rules sound_ask sound_upd simp: present_def)
  then show ?thesis by (simp add: sound_def total_def present_def)
qed

end
