(* ===== verification/Workflow_Resume.thy ===== *)
theory Workflow_Resume
  imports Workflow_Total
begin

text \<open>
  Failure and compensation: which failures are routed to the compensation stage, and what the next
  run does there.
\<close>

section \<open>The functions a run calls\<close>

definition called :: "'v weff list \<Rightarrow> string list" where
  "called es = concat (map (\<lambda>e. case e of FuncCalled k r \<Rightarrow> [k] | _ \<Rightarrow> []) es)"

lemma called_append [simp]: "called (xs @ ys) = called xs @ called ys"
  by (simp add: called_def)

lemma called_simps [simp]:
  "called [] = []" "called [Slept d] = []" "called [Interrupted x] = []" "called [Snapshotted sh] = []" "called [FuncCalled k r] = [k]"
  by (simp_all add: called_def)

lemma called_other: "(\<And>k r. e \<noteq> FuncCalled k r) \<Longrightarrow> called [e] = []"
  by (cases e) auto

definition extends_calls :: "('v, 'w) wmach \<Rightarrow> ('v, 'w) wmach \<Rightarrow> bool" where
  "extends_calls m m' \<longleftrightarrow> (\<exists>rest. called (weffs m') = called (weffs m) @ rest)"

lemma call_back_weffs: "call_back f m = Some (r, m') \<Longrightarrow> weffs m' = weffs m \<and> isStopped m' = isStopped m"
  by (auto simp: call_back_def Let_def split: prod.splits)

interpretation calls: kept_workflow extends_calls env cfg "\<lambda>_. True" for env cfg
  by unfold_locales
    (auto simp: extends_calls_def keeps_def called_other dest!: call_back_weffs)

section \<open>Hooks that pass\<close>

text \<open>A hook passes if it returns nil and leaves the public data alone; it observes if it only leaves the
  data alone.\<close>

definition observes :: "('v, 'w) callback \<Rightarrow> bool" where
  "observes f \<longleftrightarrow> (\<forall>p w. fst (snd (f p w)) = p)"

definition passes :: "('v, 'w) callback \<Rightarrow> bool" where
  "passes f \<longleftrightarrow> (\<forall>p w. fst (f p w) = None \<and> fst (snd (f p w)) = p)"

lemma passes_observes: "passes f \<Longrightarrow> observes f"
  by (simp add: passes_def observes_def)

text \<open>\<open>inert P m\<close>: \<open>m\<close> returns nothing but keeps \<open>P\<close>, for a \<open>P\<close> that does not look at the world.\<close>

definition worldless :: "(('v, 'w) wmach \<Rightarrow> bool) \<Rightarrow> bool" where
  "worldless P \<longleftrightarrow> (\<forall>m w. P (m\<lparr>wworld := w\<rparr>) = P m)
     \<and> (\<forall>m e. (\<forall>k r. e \<noteq> FuncCalled k r) \<longrightarrow> P (m\<lparr>weffs := weffs m @ [e]\<rparr>) = P m)"

lemma post_ret: "(\<And>s. P s \<Longrightarrow> Q x s) \<Longrightarrow> post P (ret x) Q"
  by (simp add: post_def)

lemma post_gets: "(\<And>s. P s \<Longrightarrow> Q (f s) s) \<Longrightarrow> post P (gets f) Q"
  by (simp add: post_def)

lemma post_upd: "(\<And>s. P s \<Longrightarrow> Q () (f s)) \<Longrightarrow> post P (upd f) Q"
  by (simp add: post_def)

lemma post_seqm: "post P m (\<lambda>_. M) \<Longrightarrow> post M n Q \<Longrightarrow> post P (seqm m n) Q"
  unfolding seqm_def by (rule post_bnd)

lemma post_ask: "worldless P \<Longrightarrow> post P (ask f) (\<lambda>_. P)"
  by (auto simp: post_def ask_def worldless_def Let_def split: prod.splits)

lemma call_back_observes:
  assumes "observes f"
  shows "\<exists>w. call_back f m = Some (fst (f (pub m) (wworld m)), m\<lparr>wworld := w\<rparr>)"
proof -
  obtain e p w where f: "f (pub m) (wworld m) = (e, p, w)" by (cases "f (pub m) (wworld m)")
  with assms have "p = pub m" unfolding observes_def by (metis fst_conv snd_conv)
  with f show ?thesis by (intro exI [of _ w]) (simp add: call_back_def)
qed

lemma post_call_back:
  assumes "worldless P" and "observes f"
  shows "post P (call_back f) (\<lambda>r s. P s \<and> (passes f \<longrightarrow> r = None))"
proof (rule postI)
  fix s r s' assume "P s" and run: "call_back f s = Some (r, s')"
  with call_back_observes [OF assms(2), of s] assms(1) show "P s' \<and> (passes f \<longrightarrow> r = None)"
    by (auto simp: worldless_def passes_def)
qed

lemma post_hook:
  assumes "worldless P" and "\<And>f. h = Some f \<Longrightarrow> passes f"
  shows "post P (call_hook h) (\<lambda>r s. r = None \<and> P s)"
proof (cases h)
  case (Some f)
  with assms(2) have "passes f" by simp
  with post_call_back [OF assms(1) passes_observes] Some show ?thesis
    by (auto simp: call_hook_def post_def)
qed (simp add: call_hook_def post_ret)

lemma post_log_eff: "worldless P \<Longrightarrow> (\<And>k r. e \<noteq> FuncCalled k r) \<Longrightarrow> post P (log_eff e) (\<lambda>_. P)"
  by (simp add: post_def log_eff_def worldless_def)

lemma post_take_snapshot:
  assumes "worldless P" and "\<And>f sh. SnapshotFn cfg = Some f \<Longrightarrow> observes (f sh)"
  shows "post P (take_snapshot cfg) (\<lambda>_. P)"
proof (cases "SnapshotFn cfg")
  case (Some f)
  have "post P (seqm (log_eff (Snapshotted sh)) (bnd (call_back (f sh)) (\<lambda>_. ret ()))) (\<lambda>_. P)" for sh
    by (rule post_seqm [OF post_log_eff [OF assms(1)]],
        simp, rule post_bnd [OF post_call_back [OF assms(1) assms(2) [OF Some]]], rule post_ret) simp
  then show ?thesis by (auto simp: take_snapshot_def post_def Some split: option.splits)
qed (simp add: take_snapshot_def post_ret)

section \<open>Waiting for a step\<close>

text \<open>The machine is directed to step \<open>T\<close> of stage \<open>S\<close>, which is to run, no step of \<open>ks\<close> is suspended,
  and the functions \<open>c\<close> have been called. In stage \<open>S\<close> itself \<open>NextStage\<close> is already cleared.\<close>

definition awaiting :: "string \<Rightarrow> string \<Rightarrow> string set \<Rightarrow> string list \<Rightarrow> ('v, 'w) wmach \<Rightarrow> bool" where
  "awaiting S T ks c m \<longleftrightarrow>
     NextStage (WState (pub m)) = S \<and> NextStep (WState (pub m)) = T \<and> \<not> finished (WState (pub m))
     \<and> \<not> isStopped m \<and> called (weffs m) = c
     \<and> (\<forall>k \<in> ks. \<not> has_status k StepStatusSuspended (pub m))
     \<and> (\<forall>v \<in> settled_statuses. \<not> has_status T v (pub m))"

lemma worldless_awaiting: "worldless (awaiting S T ks c)"
  by (simp add: worldless_def awaiting_def called_other)

lemma post_load_stopped:
  assumes "\<And>w. \<not> fst (stopSeen env w)"
  shows "post (awaiting S T ks c) (load_stopped env) (\<lambda>r s. \<not> r \<and> awaiting S T ks c s)"
  unfolding load_stopped_def
proof (rule post_bnd)
  show "post (awaiting S T ks c) (ask (stopSeen env)) (\<lambda>r s. \<not> r \<and> awaiting S T ks c s)"
  proof (rule postI)
    fix s r s' assume run: "awaiting S T ks c s" "ask (stopSeen env) s = Some (r, s')"
    have "awaiting S T ks c s'" by (rule postD [OF post_ask [OF worldless_awaiting] run])
    moreover have "\<not> r" using run(2) assms [of "wworld s"] by (auto simp: ask_def split: prod.splits)
    ultimately show "\<not> r \<and> awaiting S T ks c s'" by simp
  qed
  fix x
  show "post (\<lambda>s. \<not> x \<and> awaiting S T ks c s)
      (seqm (upd (\<lambda>m. m\<lparr>isStopped := isStopped m \<or> x\<rparr>)) (gets isStopped)) (\<lambda>r s. \<not> r \<and> awaiting S T ks c s)"
    by (rule post_seqm [where M = "awaiting S T ks c", OF post_upd post_gets]) (auto simp: awaiting_def)
qed

lemma status_update:
  "has_status n v (p\<lparr>stepStates := (stepStates p)(k \<mapsto> s)\<rparr>) \<longleftrightarrow> (if n = k then Status s = v else has_status n v p)"
  by (auto simp: has_status_def)

lemma post_init_steps: "post (awaiting S T ks c) (init_steps stage steps idx ix) (\<lambda>_. awaiting S T ks c)"
proof (induction steps arbitrary: idx ix)
  case (Cons step rest)
  let ?A = "awaiting S T ks c"
  show ?case
  proof (cases step)
    case (Some s)
    have born: "post ?A (upd (\<lambda>m. if stepStates (pub m) (SName s) = None
        then m\<lparr>pub := (pub m)\<lparr>stepStates := (stepStates (pub m))(SName s \<mapsto> NewStepState)\<rparr>\<rparr> else m)) (\<lambda>_. ?A)"
      by (rule post_upd) (auto simp: awaiting_def status_update NewStepState_def settled_statuses_def status_defs)
    have placed: "post ?A (upd_state (SName s) (\<lambda>st. SetCurrentStep (SetCurrentStage st stage) (SName s))) (\<lambda>_. ?A)"
      by (rule postI)
        (auto simp: awaiting_def status_update upd_state_def state_of_def set_state_def bnd_Some_iff
          step_state_setters has_status_def split: option.splits)
    have more: "post ?A (bnd (init_steps stage rest (Suc idx) (SName s # ix)) (\<lambda>r. ret (f r))) (\<lambda>_. ?A)" for f
      by (rule post_bnd [OF Cons.IH]) (simp add: post_ret)
    show ?thesis
      using Some more by (auto simp: Let_def intro!: post_ret post_seqm [OF born] post_seqm [OF placed])
  qed (simp add: post_ret)
qed (simp add: post_ret)

lemma post_init_stages: "post (awaiting S T ks c) (init_stages stages idx gx ix) (\<lambda>_. awaiting S T ks c)"
proof (induction stages arbitrary: idx gx ix)
  case (Cons stage rest)
  let ?A = "awaiting S T ks c"
  have more: "post ?A (bnd (init_stages rest (Suc idx) gx' ix') (\<lambda>r. ret (f r))) (\<lambda>_. ?A)" for f gx' ix'
    by (rule post_bnd [OF Cons.IH]) (simp add: post_ret)
  have rest: "post ?A (case r of Inl e \<Rightarrow> ret (Inl e) | Inr (ss, ix') \<Rightarrow>
      bnd (init_stages rest (Suc idx) gx' ix') (\<lambda>r. ret (f ss r))) (\<lambda>_. ?A)" for r f gx'
    using more by (cases r) (auto simp: post_ret)
  show ?case
    using post_bnd [OF post_init_steps rest] by (cases stage) (auto simp: post_ret)
qed (simp add: post_ret)

lemma post_init: "post (awaiting S T ks c) (init cfg) (\<lambda>_. awaiting S T ks c)"
  using post_init_stages [of S T ks c "Stages cfg" 0 "[]" "[]"]
  by (auto simp: post_def init_def bnd_Some_iff sum_case_iffs split: option.splits)

section \<open>The awaited step is called first\<close>

definition reached :: "string \<Rightarrow> string list \<Rightarrow> ('v, 'w) wmach \<Rightarrow> bool" where
  "reached T c m \<longleftrightarrow> (\<exists>rest. called (weffs m) = c @ T # rest)"

definition calls_are :: "string list \<Rightarrow> ('v, 'w) wmach \<Rightarrow> bool" where
  "calls_are c m \<longleftrightarrow> called (weffs m) = c"

lemma worldless_calls_are: "worldless (calls_are c)"
  by (simp add: worldless_def calls_are_def called_other)

lemma post_reached: "keeps extends_calls m \<Longrightarrow> post (reached T c) m (\<lambda>_. reached T c)"
  by (fastforce simp: post_def keeps_def extends_calls_def reached_def)

lemma post_conseq:
  "post P m Q \<Longrightarrow> (\<And>s. P' s \<Longrightarrow> P s) \<Longrightarrow> (\<And>x s. Q x s \<Longrightarrow> Q' x s) \<Longrightarrow> post P' m Q'"
  unfolding post_def by blast

lemma post_on_err:
  assumes "post P m M" and "\<And>e. post (M (Some e)) (h e) Q" and "post (M None) k Q"
  shows "post P (on_err m h k) Q"
  unfolding on_err_def
proof (rule post_bnd [OF assms(1)])
  fix r show "post (M r) (case r of Some e \<Rightarrow> h e | None \<Rightarrow> k) Q"
    using assms(2,3) by (cases r) auto
qed

lemma post_vacuous: "(\<And>s. \<not> P s) \<Longrightarrow> post P m Q"
  by (simp add: post_def)

text \<open>A hook that passes, then the rest.\<close>

lemma post_passing_hook:
  assumes "worldless P" and "\<And>f. h = Some f \<Longrightarrow> passes f" and "post P k Q"
  shows "post P (on_err (call_hook h) g k) Q"
  by (rule post_on_err [OF post_hook [OF assms(1,2)]])
    (auto intro: post_vacuous post_conseq [OF assms(3)])

lemma call_func_called: "call_func step m = Some (r, m') \<Longrightarrow> called (weffs m') = called (weffs m) @ [SName step]"
  by (auto simp: call_func_def log_eff_def bnd_Some_iff seqm_Some_iff dest!: call_back_weffs split: option.splits)

lemma post_run_policy:
  assumes "MaxRetries step \<noteq> 0" and "RetryPolicy step = Some q" and "q = Linear \<or> q = Backoff"
    and "step_callbacks step \<subseteq> callbacks cfg"
  shows "post (calls_are c) (run_policy env step) (\<lambda>_. reached (SName step) c)"
proof -
  have loop: "reached (SName step) c m'"
    if run: "retry_from env step nx d 0 None m = Some (r, m')" and c: "calls_are c m" for nx d m r m'
  proof -
    from run assms(1) obtain x m1 where round: "retry_round env step d 0 m = Some (x, m1)"
      and rest: "(case x of Inl res \<Rightarrow> Some (res, m1) | Inr e \<Rightarrow> retry_from env step nx (nx d) (0 + 1) (Some e) m1) = Some (r, m')"
      by (subst (asm) retry_from.simps [of env step nx d 0 None m]) (auto split: option.splits if_splits)
    from round obtain y m0 where "call_func step m = Some (y, m0)" and
      "(case y of None \<Rightarrow> ret (Inl None) | Some e \<Rightarrow>
         if isControlFlowError e then ret (Inl (Some e))
         else if 0 + 1 < MaxRetries step \<or> MaxRetries step < 0 then
           bnd (sleepWithContext env d) (\<lambda>s. case s of Some se \<Rightarrow> ret (Inl (Some se)) | None \<Rightarrow> ret (Inr e))
         else ret (Inr e)) m0 = Some (x, m1)" (is "?rest m0 = _")
      by (auto simp: retry_round_def bnd_Some_iff)
    moreover have "keeps extends_calls ?rest"
      by (auto intro!: calls.kept_bnd calls.kept_ret calls.kept_sleep split: option.split)
    ultimately have "reached (SName step) c m1"
      using c call_func_called by (fastforce simp: keeps_def extends_calls_def reached_def calls_are_def)
    moreover have "extends_calls m1 m'"
    proof (cases x)
      case (Inr e)
      with rest keepsD [OF calls.kept_retry_from [OF _ assms(4)]] show ?thesis by auto
    qed (use rest in \<open>simp add: calls.kept_refl\<close>)
    ultimately show ?thesis by (auto simp: reached_def extends_calls_def)
  qed
  show ?thesis
    using assms(2,3) loop
    by (auto simp: post_def run_policy_def RunWithLinear_def RunWithBackoff_def Let_def)
qed

definition passing_hooks :: "('v, 'w) workflow \<Rightarrow> bool" where
  "passing_hooks cfg \<longleftrightarrow>
     (\<forall>f \<in> set_option (BeforeFn cfg). passes f)
     \<and> (\<forall>g a b. BeforeAllStepsFn cfg = Some g \<longrightarrow> passes (g a b))
     \<and> (\<forall>g sh. SnapshotFn cfg = Some g \<longrightarrow> observes (g sh))"

lemma post_run_step:
  assumes cfg: "passing_hooks cfg" and own: "step_callbacks step \<subseteq> callbacks cfg"
    and hook: "\<And>f. SBeforeFn step = Some f \<Longrightarrow> passes f"
    and policy: "MaxRetries step \<noteq> 0" "RetryPolicy step = Some q" "q = Linear \<or> q = Backoff"
  shows "post (calls_are c) (run_step env cfg stage step) (\<lambda>_. reached (SName step) c)"
proof -
  let ?P = "calls_are c" and ?R = "\<lambda>_. reached (SName step) c"
  note P = worldless_calls_are [of c]
  have free: "post ?P (upd_state k f) (\<lambda>_. ?P)" for k f
    by (auto simp: post_def calls_are_def upd_state_def bnd_Some_iff state_of_def set_state_def split: option.splits)
  have prev: "post ?P (bnd (gets prevStep) (\<lambda>prev. case prev of None \<Rightarrow> ret ()
        | Some p \<Rightarrow> bnd (gets (\<lambda>m. stepStates (pub m) p)) (\<lambda>ps. case ps of None \<Rightarrow> ret ()
            | Some st \<Rightarrow> upd_state (SName step) (\<lambda>s.
                SetPreviousStep (SetPreviousStage s (CurrentStage st)) (CurrentStep st))))) (\<lambda>_. ?P)"
    by (auto intro!: post_bnd [where M = "\<lambda>_. ?P"] post_gets post_ret free split: option.split)
  have snap: "post ?P (take_snapshot cfg) (\<lambda>_. ?P)"
    using cfg by (intro post_take_snapshot P) (simp add: passing_hooks_def)
  have begin_: "post ?P (step_begin env cfg (SName step)) (\<lambda>_. ?P)"
    unfolding step_begin_def
    by (intro post_bnd [OF post_ask [OF P]] post_seqm [OF free] post_seqm [OF prev] snap
        post_seqm [OF post_upd [where Q = "\<lambda>_. ?P"]]) (simp add: calls_are_def)
  have after: "post (reached (SName step) c) (on_err (call_hook (SAfterFn step)) (\<lambda>e. ret (Some e, False))
     (on_err (all_steps_hook (AfterAllStepsFn cfg) stage (SName step)) (\<lambda>e. ret (Some e, False))
     (case err of
        Some e \<Rightarrow>
          ret (Some (WrapErr (''stage ['' @ stage @ ''] failed on step ['' @ SName step @ '']: '' @ werr_text e) [e]), False)
      | None \<Rightarrow> if FinishWorkflow step then ret (Some ErrBreakStages, True) else ret (None, True)))) ?R" for err
    using own
    by (intro post_reached calls.kept_on_err calls.kept_hook calls.kept_all_steps_hook)
      (auto intro: common_in_callbacks calls.kept_ret simp: step_callbacks_def split: option.split)
  have all: "passes f" if "map_option (\<lambda>g. g stage (SName step)) (BeforeAllStepsFn cfg) = Some f" for f
    using that cfg by (auto simp: passing_hooks_def)
  have work: "post ?P (step_work env cfg stage step) ?R"
    unfolding step_work_def all_steps_hook_def [of "BeforeAllStepsFn cfg"]
    by (rule post_passing_hook [OF P all], assumption, rule post_passing_hook [OF P hook], assumption,
        rule post_bnd [OF post_run_policy [OF policy own] after])
  have "post (reached (SName step) c) (seqm (step_deferred env cfg (SName step) e ok) (ret e)) ?R" for e ok
    unfolding step_deferred_def
    by (intro post_reached calls.kept_rules calls.kept_ask calls.kept_upd_state calls.kept_take_snapshot) simp_all
  then show ?thesis
    unfolding run_step_def by (intro post_seqm [OF begin_] post_bnd [OF work]) (auto split: prod.split)
qed

lemma set_status_status:
  "upd_state k (\<lambda>s. SetStatus s v) m = Some (u, m') \<Longrightarrow>
     (\<forall>n v'. has_status n v' (pub m') = (if n = k then v = v' else has_status n v' (pub m)))
     \<and> WState (pub m') = WState (pub m) \<and> isStopped m' = isStopped m \<and> weffs m' = weffs m"
  by (auto simp: upd_state_def state_of_def set_state_def bnd_Some_iff SetStatus_def status_update
      split: option.splits)

text \<open>Directed to \<open>T\<close>, another step of the stage is skipped.\<close>

lemma post_other_step:
  assumes "SName step \<noteq> T" and "T \<noteq> []" and "SName step \<in> ks"
  shows "post (awaiting S T ks c) (handleStep env cfg stage step)
    (\<lambda>r s. r = Some ErrSkipStep \<and> awaiting S T ks c s)"
proof (rule postI)
  fix m r m' assume m: "awaiting S T ks c m" and run: "handleStep env cfg stage step m = Some (r, m')"
  from m have T: "NextStep (WState (pub m)) = T" "\<not> finished (WState (pub m))"
    and "\<not> has_status (SName step) StepStatusSuspended (pub m)"
    using assms(3) by (auto simp: awaiting_def)
  with run assms(1,2) have "r = Some ErrSkipStep \<and>
      (m' = m \<or> upd_state (SName step) (\<lambda>s. SetStatus s StepStatusSkipped) m = Some ((), m'))"
    by (auto simp: handleStep_def bnd_Some_iff seqm_Some_iff state_of_def has_status_def
        split: if_split_asm option.split_asm)
  then show "r = Some ErrSkipStep \<and> awaiting S T ks c m'"
    using m assms(1) by (auto simp: awaiting_def status_defs dest!: set_status_status split: if_split_asm)
qed

lemma post_awaited_step:
  assumes cfg: "passing_hooks cfg" and own: "step_callbacks step \<subseteq> callbacks cfg"
    and hook: "\<And>f. SBeforeFn step = Some f \<Longrightarrow> passes f"
    and policy: "MaxRetries step \<noteq> 0" "RetryPolicy step = Some q" "q = Linear \<or> q = Backoff"
    and T: "T = SName step" "T \<noteq> []"
  shows "post (awaiting S T ks c) (handleStep env cfg stage step) (\<lambda>_. reached T c)"
proof (rule postI)
  fix m r m' assume m: "awaiting S T ks c m" and run: "handleStep env cfg stage step m = Some (r, m')"
  let ?clear = "\<lambda>m. m\<lparr>pub := (pub m)\<lparr>WState := (WState (pub m))\<lparr>NextStep := []\<rparr>\<rparr>\<rparr>"
  from m have "NextStep (WState (pub m)) = T" "\<not> finished (WState (pub m))" "calls_are c m"
    and "\<And>v. v \<in> settled_statuses \<Longrightarrow> \<not> has_status T v (pub m)"
    by (auto simp: awaiting_def calls_are_def)
  with run T have "run_step env cfg stage step (?clear m) = Some (r, m')"
    by (auto simp: handleStep_def bnd_Some_iff seqm_Some_iff state_of_def upd_ws_def has_status_def
        settled_statuses_def finished_def split: if_split_asm option.split_asm)
  moreover have "calls_are c (?clear m)" using \<open>calls_are c m\<close> by (simp add: calls_are_def)
  ultimately show "reached T c m'"
    using postD [OF post_run_step [OF cfg own hook policy]] T(1) by metis
qed

lemma post_handle_steps:
  assumes step: "post (awaiting S T ks c) (handleStep env cfg (RName st) step) (\<lambda>_. reached T c)"
    and st: "ready_callbacks st \<subseteq> callbacks cfg" "set (pre @ step # rest) \<subseteq> set (RSteps st)"
    and alive: "\<And>w. \<not> fst (stopSeen env w)" and "T \<noteq> []"
    and "\<forall>s \<in> set pre. SName s \<noteq> T \<and> SName s \<in> ks"
  shows "post (awaiting S T ks c) (handle_steps env cfg st (pre @ step # rest)) (\<lambda>_. reached T c)"
  using st(2) assms(6)
proof (induction pre)
  case Nil
  have rest: "post (reached T c) (case r of None \<Rightarrow> handle_steps env cfg st rest
       | Some e \<Rightarrow>
           if werr_is e ErrBreakStages then ret (Some ErrBreakStages)
           else if werr_is e ErrSkipStep then handle_steps env cfg st rest
           else if werr_is e ErrExitWorkflow then ret (Some ErrExitWorkflow)
           else ret (Some e)) (\<lambda>_. reached T c)" for r
    using Nil.prems(1)
    by (auto intro!: post_reached calls.kept_handle_steps st(1) calls.kept_ret split: option.split)
  have "post (\<lambda>s. \<not> x \<and> awaiting S T ks c s)
      (if x then ask (ctxErr env) else bnd (handleStep env cfg (RName st) step) (\<lambda>r. case r of
         None \<Rightarrow> handle_steps env cfg st rest
       | Some e \<Rightarrow>
           if werr_is e ErrBreakStages then ret (Some ErrBreakStages)
           else if werr_is e ErrSkipStep then handle_steps env cfg st rest
           else if werr_is e ErrExitWorkflow then ret (Some ErrExitWorkflow)
           else ret (Some e))) (\<lambda>_. reached T c)" for x
    using post_bnd [OF step rest] by (auto intro: post_vacuous post_conseq)
  then show ?case by (simp add: post_bnd [OF post_load_stopped [OF alive]])
next
  case (Cons s pre)
  let ?next = "handle_steps env cfg st (pre @ step # rest)"
  have skip: "post (awaiting S T ks c) (handleStep env cfg (RName st) s) (\<lambda>r s. r = Some ErrSkipStep \<and> awaiting S T ks c s)"
    using Cons.prems(2) by (intro post_other_step assms(5)) auto
  have "post (\<lambda>s. r = Some ErrSkipStep \<and> awaiting S T ks c s) (case r of None \<Rightarrow> ?next
       | Some e \<Rightarrow>
           if werr_is e ErrBreakStages then ret (Some ErrBreakStages)
           else if werr_is e ErrSkipStep then ?next
           else if werr_is e ErrExitWorkflow then ret (Some ErrExitWorkflow)
           else ret (Some e)) (\<lambda>_. reached T c)" for r
    using Cons by (cases "r = Some ErrSkipStep") (auto intro: post_vacuous post_conseq)
  from post_bnd [OF skip this] have "post (\<lambda>s. \<not> x \<and> awaiting S T ks c s)
      (if x then ask (ctxErr env) else bnd (handleStep env cfg (RName st) s) (\<lambda>r. case r of
         None \<Rightarrow> ?next
       | Some e \<Rightarrow>
           if werr_is e ErrBreakStages then ret (Some ErrBreakStages)
           else if werr_is e ErrSkipStep then ?next
           else if werr_is e ErrExitWorkflow then ret (Some ErrExitWorkflow)
           else ret (Some e))) (\<lambda>_. reached T c)" for x
    by (auto intro: post_vacuous post_conseq)
  then show ?case by (simp add: post_bnd [OF post_load_stopped [OF alive]])
qed

lemma post_other_stage:
  assumes "RName st \<noteq> S" and "S \<noteq> []"
  shows "post (awaiting S T ks c) (handleStage env cfg st) (\<lambda>r s. r = Some ErrSkipStage \<and> awaiting S T ks c s)"
  using assms by (auto simp: post_def handleStage_def bnd_Some_iff awaiting_def)

lemma post_awaited_stage:
  assumes "post (awaiting [] T ks c) (handle_steps env cfg st (RSteps st)) (\<lambda>_. reached T c)"
    and "RName st = S" and "S \<noteq> []" and "RSteps st \<noteq> []" and "\<And>f. RBeforeFn st = Some f \<Longrightarrow> passes f"
  shows "post (awaiting S T ks c) (handleStage env cfg st) (\<lambda>_. reached T c)"
proof (rule postI)
  fix m r m' assume m: "awaiting S T ks c m" and run: "handleStage env cfg st m = Some (r, m')"
  let ?clear = "\<lambda>m. m\<lparr>pub := (pub m)\<lparr>WState := (WState (pub m))\<lparr>NextStage := []\<rparr>\<rparr>\<rparr>"
  have "on_err (call_hook (RBeforeFn st)) (\<lambda>e. ret (Some e)) (handle_steps env cfg st (RSteps st)) (?clear m) = Some (r, m')"
    using run m assms(2-4) by (auto simp: handleStage_def bnd_Some_iff seqm_Some_iff awaiting_def upd_ws_def)
  moreover have "awaiting [] T ks c (?clear m)"
    using m by (auto simp: awaiting_def finished_def has_status_def)
  ultimately show "reached T c m'"
    using postD [OF post_passing_hook [OF worldless_awaiting assms(5,1)]] by blast
qed

lemma post_handle_stages:
  assumes stage: "post (awaiting S T ks c) (handleStage env cfg st) (\<lambda>_. reached T c)"
    and alive: "\<And>w. \<not> fst (stopSeen env w)" and "S \<noteq> []"
    and "\<forall>s \<in> set pre. RName s \<noteq> S" and own: "\<forall>s \<in> set rest. ready_callbacks s \<subseteq> callbacks cfg"
  shows "post (awaiting S T ks c) (handle_stages env cfg (pre @ st # rest)) (\<lambda>_. reached T c)"
  using assms(4)
proof (induction pre)
  case Nil
  have rest: "post (reached T c) (case r of None \<Rightarrow> handle_stages env cfg rest
       | Some e \<Rightarrow>
           if werr_is e ErrSkipStage then handle_stages env cfg rest
           else if werr_is e ErrBreakStages then ret (Leave None)
           else if werr_is e ErrExitWorkflow then ret (Return None)
           else ret (Leave (Some e))) (\<lambda>_. reached T c)" for r
    using own by (auto intro!: post_reached calls.kept_handle_stages calls.kept_ret split: option.split)
  have "post (\<lambda>s. \<not> x \<and> awaiting S T ks c s)
      (if x then bnd (ask (ctxErr env)) (\<lambda>e. ret (Return e)) else bnd (handleStage env cfg st) (\<lambda>r. case r of
         None \<Rightarrow> handle_stages env cfg rest
       | Some e \<Rightarrow>
           if werr_is e ErrSkipStage then handle_stages env cfg rest
           else if werr_is e ErrBreakStages then ret (Leave None)
           else if werr_is e ErrExitWorkflow then ret (Return None)
           else ret (Leave (Some e)))) (\<lambda>_. reached T c)" for x
    using post_bnd [OF stage rest] by (auto intro: post_vacuous post_conseq)
  then show ?case by (simp add: post_bnd [OF post_load_stopped [OF alive]])
next
  case (Cons s pre)
  let ?next = "handle_stages env cfg (pre @ st # rest)"
  have skip: "post (awaiting S T ks c) (handleStage env cfg s) (\<lambda>r s. r = Some ErrSkipStage \<and> awaiting S T ks c s)"
    using Cons.prems by (intro post_other_stage assms(3)) auto
  have "post (\<lambda>s. r = Some ErrSkipStage \<and> awaiting S T ks c s) (case r of None \<Rightarrow> ?next
       | Some e \<Rightarrow>
           if werr_is e ErrSkipStage then ?next
           else if werr_is e ErrBreakStages then ret (Leave None)
           else if werr_is e ErrExitWorkflow then ret (Return None)
           else ret (Leave (Some e))) (\<lambda>_. reached T c)" for r
    using Cons by (cases "r = Some ErrSkipStage") (auto intro: post_vacuous post_conseq)
  from post_bnd [OF skip this] have "post (\<lambda>s. \<not> x \<and> awaiting S T ks c s)
      (if x then bnd (ask (ctxErr env)) (\<lambda>e. ret (Return e)) else bnd (handleStage env cfg s) (\<lambda>r. case r of
         None \<Rightarrow> ?next
       | Some e \<Rightarrow>
           if werr_is e ErrSkipStage then ?next
           else if werr_is e ErrBreakStages then ret (Leave None)
           else if werr_is e ErrExitWorkflow then ret (Return None)
           else ret (Leave (Some e)))) (\<lambda>_. reached T c)" for x
    by (auto intro: post_vacuous post_conseq)
  then show ?case by (simp add: post_bnd [OF post_load_stopped [OF alive]])
qed

section \<open>Valid configurations\<close>

definition step_name_list :: "('v, 'w) wstage option list \<Rightarrow> string list" where
  "step_name_list stages = concat (map (\<lambda>st. map (SName \<circ> the) (Steps (the st))) stages)"

definition valid_config :: "('v, 'w) workflow \<Rightarrow> bool" where
  "valid_config cfg \<longleftrightarrow>
     no_nil cfg
     \<and> distinct (map (StName \<circ> the) (Stages cfg)) \<and> distinct (step_name_list (Stages cfg))
     \<and> (\<forall>st s. Some st \<in> set (Stages cfg) \<and> Some s \<in> set (Steps st) \<longrightarrow> Func s \<noteq> None)
     \<and> (\<forall>n. compensationStageRef cfg = Some n \<longrightarrow> n \<in> set (map (StName \<circ> the) (Stages cfg)))
     \<and> (\<forall>k. compensationStepRef cfg = Some k \<longrightarrow> k \<in> set (step_name_list (Stages cfg)))"

definition stage_fine :: "('v, 'w) wstep option list \<Rightarrow> bool" where
  "stage_fine steps \<longleftrightarrow> None \<notin> set steps \<and> (\<forall>s. Some s \<in> set steps \<longrightarrow> Func s \<noteq> None)"

definition steps_ok :: "('v, 'w) wstep option list \<Rightarrow> string set \<Rightarrow> bool" where
  "steps_ok steps ix \<longleftrightarrow>
     stage_fine steps \<and> distinct (map (SName \<circ> the) steps) \<and> set (map (SName \<circ> the) steps) \<inter> ix = {}"

lemma steps_ok_simps [simp]:
  "steps_ok [] ix" "\<not> steps_ok (None # rest) ix"
  "steps_ok (Some s # rest) ix \<longleftrightarrow> Func s \<noteq> None \<and> SName s \<notin> ix \<and> steps_ok rest (insert (SName s) ix)"
  by (auto simp: steps_ok_def stage_fine_def)

lemma init_steps_Inl: "init_steps stage steps idx ix m = Some (Inl e, m') \<Longrightarrow> \<not> steps_ok steps (set ix)"
proof (induction steps arbitrary: idx ix m m')
  case (Cons step rest)
  show ?case
  proof (cases step)
    case (Some s)
    show ?thesis
    proof (cases "SName s \<in> set ix \<or> Func s = None")
      case False
      with Cons.prems Some obtain m1 where "init_steps stage rest (Suc idx) (SName s # ix) m1 = Some (Inl e, m')"
        by (auto simp: bnd_Some_iff seqm_Some_iff Let_def sum_case_iffs split: if_split_asm)
      from Cons.IH [OF this] Some show ?thesis by simp
    qed (auto simp: Some)
  qed simp
qed simp

lemma init_steps_steps_ok:
  "init_steps stage steps idx ix m = Some (Inr (ss, ix'), m') \<Longrightarrow> steps_ok steps (set ix) \<and> set ix' = set ix \<union> set (map (SName \<circ> the) steps)"
  by (auto simp: steps_ok_def stage_fine_def dest!: init_steps_Inr)

definition stages_ok :: "('v, 'w) wstage option list \<Rightarrow> string set \<Rightarrow> string set \<Rightarrow> bool" where
  "stages_ok stages gx ix \<longleftrightarrow>
     None \<notin> set stages \<and> (\<forall>st. Some st \<in> set stages \<longrightarrow> stage_fine (Steps st))
     \<and> distinct (map (StName \<circ> the) stages) \<and> set (map (StName \<circ> the) stages) \<inter> gx = {}
     \<and> distinct (step_name_list stages) \<and> set (step_name_list stages) \<inter> ix = {}"

lemma step_name_list_Cons [simp]:
  "step_name_list [] = []"
  "step_name_list (st # stages) = map (SName \<circ> the) (Steps (the st)) @ step_name_list stages"
  by (simp_all add: step_name_list_def)

lemma stages_ok_Cons:
  "stages_ok (Some st # stages) gx ix \<longleftrightarrow>
     StName st \<notin> gx \<and> steps_ok (Steps st) ix
     \<and> stages_ok stages (insert (StName st) gx) (ix \<union> set (map (SName \<circ> the) (Steps st)))"
  (is "?lhs \<longleftrightarrow> ?rhs")
proof -
  have "(\<forall>st'. Some st' \<in> set (Some st # stages) \<longrightarrow> stage_fine (Steps st')) \<longleftrightarrow>
      stage_fine (Steps st) \<and> (\<forall>st'. Some st' \<in> set stages \<longrightarrow> stage_fine (Steps st'))"
    by auto
  moreover have "set (step_name_list (Some st # stages)) \<inter> ix = {} \<longleftrightarrow>
      set (map (SName \<circ> the) (Steps st)) \<inter> ix = {} \<and> set (step_name_list stages) \<inter> ix = {}"
    unfolding step_name_list_Cons set_append option.sel by blast
  moreover have "set (map (StName \<circ> the) (Some st # stages)) \<inter> gx = {} \<longleftrightarrow>
      StName st \<notin> gx \<and> set (map (StName \<circ> the) stages) \<inter> gx = {}"
    by simp
  moreover have "distinct (map (StName \<circ> the) (Some st # stages)) \<longleftrightarrow>
      StName st \<notin> set (map (StName \<circ> the) stages) \<and> distinct (map (StName \<circ> the) stages)"
    by simp
  ultimately show ?thesis
    unfolding stages_ok_def steps_ok_def step_name_list_Cons option.sel distinct_append set_append by auto
qed

lemma step_name_list_names:
  assumes "no_nil cfg"
  shows "set (step_name_list (Stages cfg)) = step_names (Stages cfg)"
proof -
  have "set (step_name_list stages) = step_names stages"
    if "None \<notin> set stages" "\<forall>st. Some st \<in> set stages \<longrightarrow> None \<notin> set (Steps st)" for stages :: "('a, 'b) wstage option list"
    using that
  proof (induction stages)
    case (Cons x stages)
    from Cons.prems(1) have "x \<noteq> None" by (metis list.set_intros(1))
    then obtain st where "x = Some st" by blast
    with Cons show ?case by (auto simp: step_name_list_def somes_the)
  qed (simp add: step_name_list_def)
  with assms show ?thesis by (simp add: no_nil_def)
qed

lemma init_stages_iff:
  "init_stages stages idx gx ix m = Some (r, m') \<Longrightarrow> (\<exists>x. r = Inr x) = stages_ok stages (set gx) (set ix)"
proof (induction stages arbitrary: idx gx ix m r m')
  case Nil
  then show ?case by (simp add: stages_ok_def step_name_list_def)
next
  case (Cons stage rest)
  show ?case
  proof (cases stage)
    case None
    with Cons.prems show ?thesis by (simp add: stages_ok_def)
  next
    case (Some st)
    show ?thesis
    proof (cases "StName st \<in> set gx")
      case True
      with Cons.prems Some show ?thesis by (simp add: stages_ok_Cons)
    next
      case False
      with Cons.prems Some obtain x m1 where steps: "init_steps (StName st) (Steps st) 0 ix m = Some (x, m1)"
        by (auto simp: bnd_Some_iff)
      show ?thesis
      proof (cases x)
        case (Inl e)
        with init_steps_Inl [of "StName st" "Steps st" 0 ix m e m1] steps Cons.prems Some False show ?thesis
          by (auto simp: bnd_Some_iff stages_ok_Cons)
      next
        case (Inr y)
        obtain ss ix' where y: "y = (ss, ix')" by (cases y)
        from Inr y Cons.prems Some False steps obtain r1 m2 where
          rest: "init_stages rest (Suc idx) (StName st # gx) ix' m1 = Some (r1, m2)"
          and r: "(\<exists>x. r = Inr x) = (\<exists>x. r1 = Inr x)"
          by (auto simp: bnd_Some_iff) (rename_tac z, case_tac z; fastforce)
        from init_steps_steps_ok [of "StName st" "Steps st" 0 ix m ss ix' m1] steps Inr y
          Cons.IH [OF rest] r Some False
        show ?thesis by (simp add: stages_ok_Cons)
      qed
    qed
  qed
qed

text \<open>C21. \<open>init\<close> accepts exactly the configurations in which no stage, step or function is nil, stage names
  and step names are unique and the compensation references exist.\<close>

theorem init_accepts_valid:
  "(\<exists>stages m'. init cfg m = Some (Inr stages, m')) \<longleftrightarrow> valid_config cfg"
proof -
  obtain r m1 where run: "init_stages (Stages cfg) 0 [] [] m = Some (r, m1)"
    using totalD [OF total_init_stages, of "[]" m "Stages cfg" 0 "[]"] by (auto simp: present_def)
  have "(\<exists>x. r = Inr x) \<longleftrightarrow> stages_ok (Stages cfg) {} {}"
    using init_stages_iff [OF run] by simp
  moreover have "set gx = set (map (StName \<circ> the) (Stages cfg)) \<and> set ix = step_names (Stages cfg)"
    if "r = Inr (sts, gx, ix)" for sts gx ix
    using init_stages_Inr [OF run [unfolded that]] by simp
  moreover have "set (step_name_list (Stages cfg)) = step_names (Stages cfg)" if "no_nil cfg"
    using that by (rule step_name_list_names)
  moreover have "no_nil cfg" if "stages_ok (Stages cfg) {} {}"
    using that by (simp add: no_nil_def stages_ok_def stage_fine_def)
  ultimately show ?thesis
    unfolding valid_config_def init_def bnd_def run
    by (cases r) (auto simp: ret_def check_ref_def stages_ok_def stage_fine_def no_nil_def split: option.splits if_split_asm)
qed

section \<open>A directed run\<close>

lemma init_valid:
  "valid_config cfg \<Longrightarrow> init cfg m = Some (r, m') \<Longrightarrow> r = Inr (map (readied \<circ> the) (Stages cfg))"
proof -
  assume "valid_config cfg" "init cfg m = Some (r, m')"
  moreover from this(1) obtain stages m1 where "init cfg m = Some (Inr stages, m1)"
    using init_accepts_valid [of cfg m] by blast
  ultimately show ?thesis using init_Inr [of cfg m stages m1] by simp
qed

lemma stage_split:
  assumes "valid_config cfg" and "Some st \<in> set (Stages cfg)"
  obtains pre post where "Stages cfg = pre @ Some st # post"
    "\<forall>s \<in> set (map (readied \<circ> the) pre). RName s \<noteq> StName st"
    "\<forall>s \<in> set (map (readied \<circ> the) post). ready_callbacks s \<subseteq> callbacks cfg"
proof -
  obtain pre post where split: "Stages cfg = pre @ Some st # post"
    using split_list [OF assms(2)] by blast
  have "StName st \<notin> (\<lambda>x. StName (the x)) ` set pre"
    using assms(1) by (simp add: valid_config_def split comp_def)
  then have "\<forall>s \<in> set (map (readied \<circ> the) pre). RName s \<noteq> StName st"
    by (auto simp: readied_def) (metis (mono_tags) image_eqI)
  moreover have "ready_callbacks (readied (the x)) \<subseteq> callbacks cfg" if "x \<in> set post" for x
  proof -
    have "None \<notin> set post" using assms(1) split by (simp add: valid_config_def no_nil_def)
    then have "x \<noteq> None" using that by metis
    then show ?thesis using callbacks_stage [of "the x" cfg] that split by auto
  qed
  ultimately show ?thesis using that [OF split] by auto
qed

lemma post_execute_directed:
  fixes cfg :: "('v, 'w) workflow"
  assumes cfg: "valid_config cfg" "passing_hooks cfg" and alive: "\<And>w. \<not> fst (stopSeen env w)"
    and st: "Some st \<in> set (Stages cfg)" "StName st \<noteq> []" "\<And>f. StBeforeFn st = Some f \<Longrightarrow> passes f"
    and steps: "Steps st = map Some (pre @ step # rest)"
    and step: "SName step \<noteq> []" "\<And>f. SBeforeFn step = Some f \<Longrightarrow> passes f"
      "RetryPolicy step \<in> {None, Some Linear, Some Backoff}"
  shows "post (awaiting (StName st) (SName step) (SName ` set pre) c) (execute env cfg)
    (\<lambda>_. reached (SName step) c)"
proof -
  let ?S = "StName st" and ?T = "SName step" and ?ks = "SName ` set pre"
  let ?step = "setDefaultValues step"
  from stage_split [OF cfg(1) st(1)] obtain ps qs where split: "Stages cfg = ps @ Some st # qs"
    and ps: "\<forall>s \<in> set (map (readied \<circ> the) ps). RName s \<noteq> ?S"
    and qs: "\<forall>s \<in> set (map (readied \<circ> the) qs). ready_callbacks s \<subseteq> callbacks cfg" by blast
  have own: "ready_callbacks (readied st) \<subseteq> callbacks cfg" using callbacks_stage [OF st(1)] .
  have ready: "RSteps (readied st) = map setDefaultValues pre @ ?step # map setDefaultValues rest"
    using steps by (simp add: readied_def)
  have "?T \<notin> SName ` set pre"
    using cfg(1) steps unfolding valid_config_def split step_name_list_def by (simp add: comp_def)
  then have others: "\<forall>s \<in> set (map setDefaultValues pre). SName s \<noteq> ?T \<and> SName s \<in> ?ks"
    by auto (metis image_eqI)
  obtain q where q: "RetryPolicy ?step = Some q" "q = Linear \<or> q = Backoff" using step(3) by auto
  have "post (awaiting [] ?T ?ks c) (handleStep env cfg (RName (readied st)) ?step) (\<lambda>_. reached ?T c)"
    using own ready step q by (intro post_awaited_step [OF cfg(2)]) (auto simp: ready_callbacks_def)
  then have "post (awaiting [] ?T ?ks c) (handle_steps env cfg (readied st) (RSteps (readied st))) (\<lambda>_. reached ?T c)"
    unfolding ready using others by (intro post_handle_steps own alive step(1)) (simp_all add: ready)
  then have stage: "post (awaiting ?S ?T ?ks c) (handleStage env cfg (readied st)) (\<lambda>_. reached ?T c)"
    using st(2,3) by (intro post_awaited_stage) (simp_all add: readied_def steps)
  let ?sts = "map (readied \<circ> the) (Stages cfg)"
  have all: "post (awaiting ?S ?T ?ks c) (handle_stages env cfg ?sts) (\<lambda>_. reached ?T c)"
    using post_handle_stages [OF stage alive st(2) ps qs]
    by (simp only: split map_append list.map comp_apply option.sel)
  have complete: "keeps extends_calls (complete_stages cfg e)" for e
    unfolding complete_stages_def
    by (intro calls.kept_rules calls.kept_hook) (auto intro: calls.kept_upd_ws calls.kept_ret common_in_callbacks)
  have after: "post (reached ?T c) (case end of Return e \<Rightarrow> ret e | Leave e \<Rightarrow> complete_stages cfg e) (\<lambda>_. reached ?T c)" for "end"
    by (cases "end") (auto intro: post_reached complete calls.kept_ret)
  have started: "post (awaiting ?S ?T ?ks c) (upd (\<lambda>m. m\<lparr>executionStarted := b\<rparr>)) (\<lambda>_. awaiting ?S ?T ?ks c)" for b
    by (rule post_upd) (simp add: awaiting_def)
  have hook: "f \<in> set_option (BeforeFn cfg) \<Longrightarrow> passes f" for f using cfg(2) by (simp add: passing_hooks_def)
  have go: "post (awaiting ?S ?T ?ks c)
      (on_err (call_hook (BeforeFn cfg)) (\<lambda>e. ret (Some (WrapErr (''workflow before: '' @ werr_text e) [e])))
         (seqm (upd (\<lambda>m. m\<lparr>executionStarted := True\<rparr>))
         (bnd (handle_stages env cfg ?sts) (\<lambda>end. case end of Return e \<Rightarrow> ret e | Leave e \<Rightarrow> complete_stages cfg e))))
      (\<lambda>_. reached ?T c)"
    using hook by (intro post_passing_hook worldless_awaiting post_seqm [OF started] post_bnd [OF all] after) simp_all
  have going: "post (\<lambda>s. \<not> done \<and> awaiting ?S ?T ?ks c s) (if done then ret None else
      (on_err (call_hook (BeforeFn cfg)) (\<lambda>e. ret (Some (WrapErr (''workflow before: '' @ werr_text e) [e])))
         (seqm (upd (\<lambda>m. m\<lparr>executionStarted := True\<rparr>))
         (bnd (handle_stages env cfg ?sts) (\<lambda>end. case end of Return e \<Rightarrow> ret e | Leave e \<Rightarrow> complete_stages cfg e)))))
      (\<lambda>_. reached ?T c)" for "done"
    using go by (cases "done") (auto intro: post_vacuous)
  have checked: "post (awaiting ?S ?T ?ks c) (gets (\<lambda>m. finished (WState (pub m)))) (\<lambda>done s. \<not> done \<and> awaiting ?S ?T ?ks c s)"
    by (rule post_gets) (simp add: awaiting_def)
  have init: "post (awaiting ?S ?T ?ks c) (init cfg) (\<lambda>r s. r = Inr ?sts \<and> awaiting ?S ?T ?ks c s)"
    using post_init [of ?S ?T ?ks c cfg] init_valid [OF cfg(1)] by (auto simp: post_def)
  show ?thesis
    unfolding execute_def
  proof (rule post_seqm [OF started], rule post_bnd [OF init])
    fix r
    show "post (\<lambda>s. r = Inr ?sts \<and> awaiting ?S ?T ?ks c s) (case r of
        Inl e \<Rightarrow> ret (Some (WrapErr (''workflow init: '' @ werr_text e) [e]))
      | Inr stages \<Rightarrow>
          bnd (gets (\<lambda>m. finished (WState (pub m)))) (\<lambda>done.
          if done then ret None
          else on_err (call_hook (BeforeFn cfg))
            (\<lambda>e. ret (Some (WrapErr (''workflow before: '' @ werr_text e) [e])))
            (seqm (upd (\<lambda>m. m\<lparr>executionStarted := True\<rparr>))
            (bnd (handle_stages env cfg stages) (\<lambda>end. case end of
               Return e \<Rightarrow> ret e
             | Leave e \<Rightarrow> complete_stages cfg e))))) (\<lambda>_. reached ?T c)"
      using post_bnd [OF checked going]
      by (cases "r = Inr ?sts") (auto intro: post_vacuous)
  qed
qed


end
