(* ===== verification/Workflow_Failure.thy ===== *)
theory Workflow_Failure
  imports Workflow_Resume
begin

text \<open>
  Failed runs: the routing to the compensation stage and its limits, a stopped workflow, and the
  behaviours on which the code and its documentation part.
\<close>

section \<open>Routing\<close>

definition observing :: "('v, 'w) workflow \<Rightarrow> bool" where
  \<comment> \<open>the persistence and failure callbacks leave the workflow's data alone\<close>
  "observing cfg \<longleftrightarrow>
     (\<forall>g sh. SnapshotFn cfg = Some g \<longrightarrow> observes (g sh)) \<and> (\<forall>g e. OnFailureFn cfg = Some g \<longrightarrow> observes (g e))"

definition snapshot_effs :: "('v, 'w) workflow \<Rightarrow> 'v wpub \<Rightarrow> 'v weff list" where
  "snapshot_effs cfg p = (case SnapshotFn cfg of None \<Rightarrow> [] | Some _ \<Rightarrow> [Snapshotted (the (GetSnapshot cfg p))])"

lemma called_snapshot_effs [simp]: "called (snapshot_effs cfg p) = []"
  by (simp add: snapshot_effs_def split: option.split)

lemma take_snapshot_observed:
  assumes "no_nil cfg" and "observing cfg"
  shows "\<exists>w. take_snapshot cfg m = Some ((), m\<lparr>wworld := w, weffs := weffs m @ snapshot_effs cfg (pub m)\<rparr>)"
proof (cases "SnapshotFn cfg")
  case None
  then show ?thesis by (intro exI [of _ "wworld m"]) (simp add: take_snapshot_def ret_def snapshot_effs_def)
next
  case (Some g)
  obtain sh where sh: "GetSnapshot cfg (pub m) = Some sh"
    using all_steps_present [of "Stages cfg"] assms(1) by (auto simp: GetSnapshot_def StepStates_def no_nil_def)
  let ?m = "m\<lparr>weffs := weffs m @ [Snapshotted sh]\<rparr>"
  obtain w e where "call_back (g sh) ?m = Some (e, ?m\<lparr>wworld := w\<rparr>)"
    using call_back_observes [of "g sh" ?m] assms(2) Some unfolding observing_def by blast
  then show ?thesis
    by (intro exI [of _ w]) (simp add: take_snapshot_def snapshot_effs_def Some sh seqm_def bnd_def log_eff_def upd_def ret_def)
qed

lemma hook_observed:
  assumes "\<And>f. h = Some f \<Longrightarrow> observes f"
  shows "\<exists>e w. call_hook h m = Some (e, m\<lparr>wworld := w\<rparr>)"
proof (cases h)
  case (Some f)
  with assms have "observes f" by simp
  from call_back_observes [OF this, of m] Some show ?thesis by (auto simp: call_hook_def)
next
  case None
  then have "call_hook h m = Some (None, m\<lparr>wworld := wworld m\<rparr>)" by (simp add: call_hook_def ret_def)
  then show ?thesis by blast
qed

lemma failure_hook_observed:
  "observing cfg \<Longrightarrow> \<exists>x w. call_hook (map_option (\<lambda>f. f e) (OnFailureFn cfg)) m = Some (x, m\<lparr>wworld := w\<rparr>)"
  by (rule hook_observed) (auto simp: observing_def)

lemma Run_not_interrupted:
  assumes "\<And>w. \<not> fst (doneFirst env w)" and "execute env cfg m = Some (err, m1)"
  shows "\<exists>w. workflow_Run env cfg m = finish cfg err (m1\<lparr>wworld := w\<rparr>)"
proof -
  obtain d w where "doneFirst env (wworld m1) = (d, w)" by (cases "doneFirst env (wworld m1)")
  moreover from this assms(1) [of "wworld m1"] have "\<not> d" by simp
  ultimately show ?thesis by (auto simp: workflow_Run_def bnd_def assms(2) ask_def)
qed

text \<open>C16. A failure of step execution is routed: \<open>Run\<close> returns nil, the workflow is directed to the
  compensation step with the error's text, and with persistence the last snapshot carries that.\<close>

theorem failed_run_is_routed:
  assumes exec: "execute env cfg m = Some (Some e, m1)" "executionStarted m1"
    and "\<And>w. \<not> fst (doneFirst env w)"
    and refs: "compensationStageRef cfg = Some S" "compensationStepRef cfg = Some T"
    and obs: "observing cfg" and "no_nil cfg"
  shows "\<exists>m'. workflow_Run env cfg m = Some (None, m')
    \<and> WState (pub m') = (WState (pub m1))\<lparr>WError := werr_text e, NextStage := S, NextStep := T\<rparr>
    \<and> stepStates (pub m') = stepStates (pub m1) \<and> called (weffs m') = called (weffs m1)
    \<and> (SnapshotFn cfg \<noteq> None \<longrightarrow> (\<exists>es sh. weffs m' = es @ [Snapshotted sh] \<and> WorkflowState sh = WState (pub m')))"
proof -
  let ?nav = "\<lambda>m. m\<lparr>pub := (pub m)\<lparr>WState := (WState (pub m))\<lparr>WError := werr_text e, NextStage := S, NextStep := T\<rparr>\<rparr>\<rparr>"
  obtain w where run: "workflow_Run env cfg m = finish cfg (Some e) (m1\<lparr>wworld := w\<rparr>)"
    using Run_not_interrupted [OF assms(3) exec(1)] by blast
  let ?m1 = "m1\<lparr>wworld := w\<rparr>"
  obtain w2 where snap1: "take_snapshot cfg ?m1 = Some ((), ?m1\<lparr>wworld := w2, weffs := weffs ?m1 @ snapshot_effs cfg (pub ?m1)\<rparr>)"
    using take_snapshot_observed [OF assms(7) obs, of ?m1] by blast
  let ?m2 = "?m1\<lparr>wworld := w2, weffs := weffs ?m1 @ snapshot_effs cfg (pub ?m1)\<rparr>"
  obtain x w3 where hook: "call_hook (map_option (\<lambda>f. f e) (OnFailureFn cfg)) ?m2 = Some (x, ?m2\<lparr>wworld := w3\<rparr>)"
    using failure_hook_observed [OF obs, of e ?m2] by blast
  let ?m3 = "?nav (?m2\<lparr>wworld := w3\<rparr>)"
  obtain w4 where snap2: "take_snapshot cfg ?m3 = Some ((), ?m3\<lparr>wworld := w4, weffs := weffs ?m3 @ snapshot_effs cfg (pub ?m3)\<rparr>)"
    using take_snapshot_observed [OF assms(7) obs, of ?m3] by blast
  let ?m4 = "?m3\<lparr>wworld := w4, weffs := weffs ?m3 @ snapshot_effs cfg (pub ?m3)\<rparr>"
  let ?m5 = "?m4\<lparr>pub := (pub ?m4)\<lparr>isSkipError := True\<rparr>\<rparr>"
  have "finish cfg (Some e) ?m1 = Some (None, ?m5)"
    using snap1 hook snap2 exec(2) refs
    by (simp add: finish_def seqm_def bnd_def gets_def route_compensation_def upd_ws_def upd_def ret_def
        wf_state_setters)
  moreover have "\<exists>sh. snapshot_effs cfg (pub ?m3) = [Snapshotted sh] \<and> WorkflowState sh = WState (pub ?m3)" if "SnapshotFn cfg \<noteq> None"
    using that all_steps_present [of "Stages cfg"] assms(7) by (auto simp: snapshot_effs_def GetSnapshot_def StepStates_def no_nil_def)
  ultimately show ?thesis
    unfolding run by auto
qed

section \<open>Failing set-up\<close>

text \<open>\<open>init\<close> touches the states of steps only.\<close>

definition init_frame_rel :: "('v, 'w) wmach \<Rightarrow> ('v, 'w) wmach \<Rightarrow> bool" where
  "init_frame_rel m m' \<longleftrightarrow>
     weffs m' = weffs m \<and> WState (pub m') = WState (pub m) \<and> isStopped m' = isStopped m \<and> isSkipError (pub m') = isSkipError (pub m)"

interpretation init_frame: kept_relation init_frame_rel
  by unfold_locales (simp_all add: init_frame_rel_def)

lemma init_frame: "keeps init_frame_rel (init cfg)"
proof -
  have upd: "keeps init_frame_rel (upd_state k f)" for k f
    by (auto simp: keeps_def init_frame_rel_def upd_state_def bnd_Some_iff state_of_def set_state_def split: option.splits)
  have born: "keeps init_frame_rel (upd (\<lambda>m. if stepStates (pub m) k = None
        then m\<lparr>pub := (pub m)\<lparr>stepStates := (stepStates (pub m))(k \<mapsto> NewStepState)\<rparr>\<rparr> else m))" for k
    by (rule init_frame.kept_upd) (simp add: init_frame_rel_def)
  have steps: "keeps init_frame_rel (init_steps stage steps idx ix)" for stage steps idx ix
    by (induction steps arbitrary: idx ix)
      (auto intro!: init_frame.kept_rules born upd simp: Let_def split: option.split)
  have "keeps init_frame_rel (init_stages stages idx gx ix)" for stages idx gx ix
    by (induction stages arbitrary: idx gx ix)
      (auto intro!: init_frame.kept_rules steps split: option.split sum.split)
  then show ?thesis
    unfolding init_def by (auto intro!: init_frame.kept_rules split: option.split sum.split)
qed

text \<open>Once set, \<open>executionStarted\<close> stays set until the next run begins.\<close>

definition same_started :: "('v, 'w) wmach \<Rightarrow> ('v, 'w) wmach \<Rightarrow> bool" where
  "same_started m m' \<longleftrightarrow> executionStarted m' = executionStarted m"

interpretation started: kept_steps same_started env cfg "\<lambda>_. True" for env cfg
  by unfold_locales (auto simp: same_started_def keeps_def call_back_def split: prod.splits)

text \<open>An execution that fails without having started its steps: \<open>init\<close> or \<open>BeforeFn\<close> failed.\<close>

lemma setup_failure:
  assumes exec: "execute env cfg m = Some (Some e, m1)" "\<not> executionStarted m1"
    and before: "\<And>f. BeforeFn cfg = Some f \<Longrightarrow> observes f"
  shows "init_frame_rel m m1 \<and> (\<exists>x. e = WrapErr (''workflow init: '' @ werr_text x) [x]
      \<or> e = WrapErr (''workflow before: '' @ werr_text x) [x])"
proof -
  obtain x m2 where init: "init cfg (m\<lparr>executionStarted := False\<rparr>) = Some (x, m2)"
    and rest: "(case x of Inl e \<Rightarrow> ret (Some (WrapErr (''workflow init: '' @ werr_text e) [e]))
      | Inr stages \<Rightarrow>
          bnd (gets (\<lambda>m. finished (WState (pub m)))) (\<lambda>done.
          if done then ret None
          else on_err (call_hook (BeforeFn cfg))
            (\<lambda>e. ret (Some (WrapErr (''workflow before: '' @ werr_text e) [e])))
            (seqm (upd (\<lambda>m. m\<lparr>executionStarted := True\<rparr>))
            (bnd (handle_stages env cfg stages) (\<lambda>end. case end of
               Return e \<Rightarrow> ret e
             | Leave e \<Rightarrow> complete_stages cfg e))))) m2 = Some (Some e, m1)"
    using exec(1) by (auto simp: execute_def seqm_Some_iff bnd_Some_iff)
  have framed: "init_frame_rel m m2" using keepsD [OF init_frame init] by (simp add: init_frame_rel_def)
  show ?thesis
  proof (cases x)
    case (Inl y)
    with rest framed show ?thesis by auto
  next
    case (Inr stages)
    obtain b w where hook: "call_hook (BeforeFn cfg) m2 = Some (b, m2\<lparr>wworld := w\<rparr>)"
      using hook_observed [of "BeforeFn cfg" m2] before by blast
    have sts: "keeps same_started (handle_stages env cfg stages)"
      by (rule started.kept_handle_stages) (use ready_stage_from [OF init [unfolded Inr]] callbacks_stage in blast)
    have completes: "keeps same_started (complete_stages cfg e)" for e
      unfolding complete_stages_def
      by (intro started.kept_rules started.kept_hook)
        (auto intro: started.kept_upd_ws started.kept_ret common_in_callbacks)
    have "keeps same_started (bnd (handle_stages env cfg stages)
        (\<lambda>end. case end of Return e \<Rightarrow> ret e | Leave e \<Rightarrow> complete_stages cfg e))"
      by (intro started.kept_bnd sts) (auto intro: started.kept_ret completes split: stages_end.split)
    with rest Inr hook exec(2) framed show ?thesis
      by (cases b) (auto simp: bnd_Some_iff on_err_Some_iff seqm_Some_iff same_started_def init_frame_rel_def keeps_def
          split: if_splits)
  qed
qed


section \<open>A stopped workflow\<close>

lemma handle_stages_stopped:
  assumes "isStopped m" and "stages \<noteq> []"
  shows "\<exists>w1 w2. handle_stages env cfg stages m = Some (Return (fst (ctxErr env w1)), m\<lparr>wworld := w2\<rparr>)"
proof -
  obtain b w where s: "stopSeen env (wworld m) = (b, w)" by (cases "stopSeen env (wworld m)")
  obtain e w2 where c: "ctxErr env w = (e, w2)" by (cases "ctxErr env w")
  from assms(2) obtain st rest where "stages = st # rest" by (cases stages) auto
  with s c assms(1) have "handle_stages env cfg stages m = Some (Return (fst (ctxErr env w)), m\<lparr>wworld := w2\<rparr>)"
    by (simp add: load_stopped_def bnd_def seqm_def ask_def upd_def gets_def ret_def)
  then show ?thesis by blast
qed

text \<open>\<open>isStopped\<close> is never reset, whatever runs follow.\<close>

interpretation stopping: kept_workflow "\<lambda>m m'. isStopped m \<longrightarrow> isStopped m'" env cfg "\<lambda>_. True" for env cfg
  by unfold_locales (auto simp: keeps_def call_back_def split: prod.splits)

text \<open>What a run does besides executing steps calls no step.\<close>

definition same_calls :: "('v, 'w) wmach \<Rightarrow> ('v, 'w) wmach \<Rightarrow> bool" where
  "same_calls m m' \<longleftrightarrow> called (weffs m') = called (weffs m) \<and> (isStopped m \<longrightarrow> isStopped m')"

interpretation nocall: kept_relation same_calls
  by unfold_locales (auto simp: same_calls_def)

lemma nocall_prims:
  fixes cfg :: "('v, 'w) workflow" and f :: "('v, 'w) callback" and h :: "('v, 'w) callback option"
  shows "keeps same_calls (call_back f)" "keeps same_calls (call_hook h)" "keeps same_calls (ask g)" "keeps same_calls (upd_ws u)"
  "keeps same_calls (take_snapshot cfg)" "keeps same_calls (init cfg)"
proof -
  show cb: "keeps same_calls (call_back f)" for f :: "('v, 'w) callback"
    by (auto simp: keeps_def call_back_def same_calls_def split: prod.splits)
  then show "keeps same_calls (call_hook h)" by (auto simp: call_hook_def nocall.kept_ret split: option.split)
  show "keeps same_calls (ask g)" by (auto simp: keeps_def ask_def same_calls_def split: prod.splits)
  show "keeps same_calls (upd_ws u)" by (auto simp: keeps_def upd_ws_def upd_def same_calls_def)
  have "keeps same_calls (log_eff (Snapshotted sh))" for sh :: "'v wsnapshot"
    by (auto simp: keeps_def log_eff_def upd_def same_calls_def)
  then have "keeps same_calls (seqm (log_eff (Snapshotted sh)) (bnd (call_back g) (\<lambda>_. ret ())))" for sh :: "'v wsnapshot" and g :: "('v, 'w) callback"
    by (intro nocall.kept_rules cb)
  then have snap: "same_calls s s'" if "seqm (log_eff (Snapshotted sh)) (bnd (call_back g) (\<lambda>_. ret ())) s = Some (u, s')"
    for sh :: "'v wsnapshot" and g :: "('v, 'w) callback" and s u s'
    using that by (blast dest: keepsD)
  show "keeps same_calls (take_snapshot cfg)"
    by (rule keepsI) (auto simp: take_snapshot_def nocall.kept_refl ret_def split: option.splits dest!: snap [unfolded ret_def])
  show "keeps same_calls (init cfg)"
    using init_frame [of cfg] by (auto simp: keeps_def init_frame_rel_def same_calls_def)
qed

lemma nocall_upd: "(\<And>m. same_calls m (f m)) \<Longrightarrow> keeps same_calls (upd f)"
  by (rule nocall.kept_upd)

lemma nocall_finish: "keeps same_calls (finish cfg err)"
  unfolding finish_def route_compensation_def
  by (auto intro!: nocall.kept_rules nocall_prims nocall_upd split: option.split simp: same_calls_def)

lemma stopped_execute:
  assumes "isStopped m" and "execute env cfg m = Some (r, m')"
  shows "same_calls m m'"
proof -
  have loop: "same_calls s s'" if "isStopped s" "handle_stages env cfg sts s = Some (x, s')" for sts s x s'
    using that handle_stages_stopped [of s sts env cfg] by (cases "sts = []") (auto simp: ret_def same_calls_def)
  have completes: "keeps same_calls (complete_stages cfg e)" for e
    unfolding complete_stages_def by (auto intro!: nocall.kept_rules nocall_prims)
  have steps: "same_calls s s'" if "isStopped s" "bnd (handle_stages env cfg sts)
      (\<lambda>end. case end of Return e \<Rightarrow> ret e | Leave e \<Rightarrow> complete_stages cfg e) s = Some (x, s')" for sts s x s'
  proof -
    note run = that
    obtain y s1 where y: "handle_stages env cfg sts s = Some (y, s1)"
      "(case y of Return e \<Rightarrow> ret e | Leave e \<Rightarrow> complete_stages cfg e) s1 = Some (x, s')"
      using run(2) unfolding bnd_Some_iff by blast
    have "same_calls s1 s'" using y(2) keepsD [OF completes] by (cases y) (auto simp: nocall.kept_refl)
    with loop [OF run(1) y(1)] show ?thesis by (rule nocall.kept_trans)
  qed
  let ?m = "m\<lparr>executionStarted := False\<rparr>"
  obtain x m2 where init: "init cfg ?m = Some (x, m2)"
    and rest: "(case x of Inl e \<Rightarrow> ret (Some (WrapErr (''workflow init: '' @ werr_text e) [e]))
      | Inr stages \<Rightarrow>
          bnd (gets (\<lambda>m. finished (WState (pub m)))) (\<lambda>done.
          if done then ret None
          else on_err (call_hook (BeforeFn cfg))
            (\<lambda>e. ret (Some (WrapErr (''workflow before: '' @ werr_text e) [e])))
            (seqm (upd (\<lambda>m. m\<lparr>executionStarted := True\<rparr>))
            (bnd (handle_stages env cfg stages) (\<lambda>end. case end of
               Return e \<Rightarrow> ret e
             | Leave e \<Rightarrow> complete_stages cfg e))))) m2 = Some (r, m')"
    using assms(2) by (auto simp: execute_def seqm_Some_iff bnd_Some_iff)
  have m2: "same_calls m m2" "isStopped m2"
    using keepsD [OF nocall_prims(6) init] assms(1) by (auto simp: same_calls_def)
  have "same_calls m2 m'"
  proof (cases x)
    case (Inr stages)
    show ?thesis
    proof (cases "finished (WState (pub m2))")
      case False
      obtain b s where hook: "call_hook (BeforeFn cfg) m2 = Some (b, s)" "same_calls m2 s"
        using rest Inr False keepsD [OF nocall_prims(2)] by (fastforce simp: bnd_Some_iff on_err_Some_iff)
      then have "isStopped (s\<lparr>executionStarted := True\<rparr>)" using m2(2) by (simp add: same_calls_def)
      from steps [OF this] hook rest Inr False show ?thesis
        by (cases b) (fastforce simp: bnd_Some_iff on_err_Some_iff seqm_Some_iff same_calls_def)+
    qed (use rest Inr in \<open>auto simp: bnd_Some_iff same_calls_def\<close>)
  qed (use rest in \<open>auto simp: same_calls_def\<close>)
  with m2(1) show ?thesis by (rule nocall.kept_trans)
qed

lemma stopped_Run:
  assumes "isStopped m" and "workflow_Run env cfg m = Some (r, m')"
  shows "same_calls m m'"
proof -
  obtain e m1 where exec: "execute env cfg m = Some (e, m1)" and
    rest: "bnd (ask (doneFirst env)) (\<lambda>done.
     if \<not> done then finish cfg e
     else
       seqm (upd (\<lambda>m. m\<lparr>isStopped := True\<rparr>))
       (let timeout = (if shutdownTimeout cfg = 0 then 10 * Second else shutdownTimeout cfg) in
        bnd (ask (graceOver env timeout)) (\<lambda>over.
        if over then ret (Some (OtherErr ''workflow shutdown execution timeout''))
        else finish cfg e))) m1 = Some (r, m')" (is "?rest m1 = _")
    using assms(2) by (auto simp: workflow_Run_def bnd_Some_iff)
  have "keeps same_calls ?rest"
    by (auto intro!: nocall.kept_rules nocall_prims nocall_finish nocall_upd simp: Let_def same_calls_def)
  from nocall.kept_trans [OF stopped_execute [OF assms(1) exec] keepsD [OF this rest]] show ?thesis .
qed

text \<open>Further runs of the same workflow, each with a context, clock and world of its own; between them the
  caller may change the workflow's data.\<close>

inductive later_runs :: "('v, 'w) workflow \<Rightarrow> ('v, 'w) wmach \<Rightarrow> ('v, 'w) wmach \<Rightarrow> bool" for cfg m where
  no_run: "later_runs cfg m m"
| edit: "later_runs cfg m m1 \<Longrightarrow> later_runs cfg m (m1\<lparr>pub := p, wworld := w\<rparr>)"
| run: "later_runs cfg m m1 \<Longrightarrow> workflow_Run env cfg m1 = Some (r, m2) \<Longrightarrow> later_runs cfg m m2"

lemma later_runs_stopped: "later_runs cfg m m2 \<Longrightarrow> isStopped m \<Longrightarrow> same_calls m m2"
proof (induction rule: later_runs.induct)
  case no_run
  show ?case by (rule nocall.kept_refl)
next
  case (edit m1 p w)
  then show ?case by (simp add: same_calls_def)
next
  case (run m1 env r m2)
  then have "same_calls m m1" "isStopped m1" by (auto simp: same_calls_def)
  with stopped_Run [OF _ run.hyps(2)] show ?case by (auto intro: nocall.kept_trans)
qed

lemma stopped_Run_nil:
  assumes "isStopped m" and "valid_config cfg" and "Stages cfg \<noteq> []" and "\<And>f. BeforeFn cfg = Some f \<Longrightarrow> passes f"
    and "\<And>w. fst (ctxErr env w) = None" and "\<And>w. \<not> fst (doneFirst env w)"
    and "\<not> finished (WState (pub m))"
  shows "\<exists>m'. workflow_Run env cfg m = Some (None, m') \<and> weffs m' = weffs m \<and> WState (pub m') = WState (pub m)"
proof -
  let ?m0 = "m\<lparr>executionStarted := False\<rparr>" and ?sts = "map (readied \<circ> the) (Stages cfg)"
  obtain r m1 where init: "init cfg ?m0 = Some (r, m1)"
    using totalD [OF total_init [of cfg], of ?m0] by auto
  have r: "r = Inr ?sts" using init_valid [OF assms(2) init] .
  have m1: "weffs m1 = weffs m" "WState (pub m1) = WState (pub m)" "isStopped m1"
    using keepsD [OF init_frame init] assms(1) by (simp_all add: init_frame_rel_def)
  obtain w0 where hook: "call_hook (BeforeFn cfg) m1 = Some (None, m1\<lparr>wworld := w0\<rparr>)"
  proof (cases "BeforeFn cfg")
    case None
    then show thesis using that [of "wworld m1"] by (simp add: call_hook_def ret_def)
  next
    case (Some f)
    then have "fst (f p w) = None \<and> fst (snd (f p w)) = p" for p w using assms(4) by (simp add: passes_def)
    then show thesis
      using that [of "snd (snd (f (pub m1) (wworld m1)))"] Some
      by (simp add: call_hook_def call_back_def split_beta)
  qed
  let ?m2 = "m1\<lparr>wworld := w0, executionStarted := True\<rparr>"
  obtain w1 w2 where stages: "handle_stages env cfg ?sts ?m2 = Some (Return (fst (ctxErr env w1)), ?m2\<lparr>wworld := w2\<rparr>)"
    using handle_stages_stopped [of ?m2 ?sts env cfg] m1(3) assms(3) by auto
  have exec: "execute env cfg m = Some (None, ?m2\<lparr>wworld := w2\<rparr>)"
    using init r m1(2) assms(5,7) stages hook
    by (simp add: execute_def seqm_def upd_def bnd_def gets_def on_err_def ret_def)
  obtain w3 where "workflow_Run env cfg m = finish cfg None (?m2\<lparr>wworld := w3\<rparr>)"
    using Run_not_interrupted [OF assms(6) exec] by auto
  with m1 show ?thesis by (simp add: finish_def ret_def)
qed

lemma interrupted_Run_stops:
  assumes "workflow_Run env cfg m = Some (r, m')" and "\<And>w. fst (doneFirst env w)"
  shows "isStopped m'"
proof -
  obtain e m1 where exec: "execute env cfg m = Some (e, m1)"
    using assms(1) by (auto simp: workflow_Run_def bnd_Some_iff)
  obtain w where d: "doneFirst env (wworld m1) = (True, w)"
    using assms(2) [of "wworld m1"] by (cases "doneFirst env (wworld m1)") auto
  let ?m = "m1\<lparr>wworld := w, isStopped := True\<rparr>"
  have "keeps same_calls (let timeout = (if shutdownTimeout cfg = 0 then 10 * Second else shutdownTimeout cfg) in
        bnd (ask (graceOver env timeout)) (\<lambda>over.
        if over then ret (Some (OtherErr ''workflow shutdown execution timeout''))
        else finish cfg e))" (is "keeps _ ?rest")
    by (auto intro!: nocall.kept_rules nocall_prims nocall_finish simp: Let_def)
  moreover have "?rest ?m = Some (r, m')"
    using assms(1) exec d by (simp add: workflow_Run_def bnd_def seqm_def ask_def upd_def)
  ultimately show ?thesis by (auto simp: keeps_def same_calls_def)
qed

text \<open>C23. A run whose context ends before the execution does sets \<open>isStopped\<close>, and nothing resets it: no
  later run of the same workflow calls a step's function, whatever its context, its callbacks and the
  caller do to the data between the runs. With a live context, a valid configuration with a stage and a
  \<open>BeforeFn\<close> that passes, such a run of an unfinished workflow returns nil and leaves the workflow as
  unfinished as it was.\<close>

theorem stopped_workflow_runs_nothing:
  assumes "workflow_Run env\<^sub>0 cfg m\<^sub>0 = Some (r\<^sub>0, m)" and "\<And>w. fst (doneFirst env\<^sub>0 w)" and "later_runs cfg m m1"
  shows "called (weffs m1) = called (weffs m)
    \<and> (valid_config cfg \<and> Stages cfg \<noteq> [] \<and> (\<forall>f. BeforeFn cfg = Some f \<longrightarrow> passes f)
         \<and> (\<forall>w. fst (ctxErr env w) = None) \<and> (\<forall>w. \<not> fst (doneFirst env w)) \<and> \<not> finished (WState (pub m1)) \<longrightarrow>
       (\<exists>m2. workflow_Run env cfg m1 = Some (None, m2) \<and> weffs m2 = weffs m1 \<and> WState (pub m2) = WState (pub m1)))"
proof -
  have "same_calls m m1" "isStopped m1"
    using later_runs_stopped [OF assms(3)] interrupted_Run_stops [OF assms(1,2)] by (auto simp: same_calls_def)
  with stopped_Run_nil [of m1 cfg env] show ?thesis by (auto simp: same_calls_def)
qed

end
