(* ===== verification/Workflow_Snapshot.thy ===== *)
theory Workflow_Snapshot
  imports Workflow_Resume
begin

text \<open>
  Snapshots: what \<open>GetSnapshot\<close> takes from a workflow, \<open>SetSnapshot\<close> gives back to one of the same
  stages and steps.
\<close>

section \<open>Where a state belongs\<close>

definition step_pairs :: "('v, 'w) wstage option list \<Rightarrow> (string \<times> string) list" where
  "step_pairs stages = concat (map (\<lambda>st. map (\<lambda>s. (StName (the st), SName (the s))) (Steps (the st))) stages)"

lemma step_pairs_simps [simp]:
  "step_pairs [] = []"
  "step_pairs (st # stages) = map (\<lambda>s. (StName (the st), SName (the s))) (Steps (the st)) @ step_pairs stages"
  by (simp_all add: step_pairs_def)

lemma step_pairs_names: "map snd (step_pairs stages) = step_name_list stages"
  by (induction stages) simp_all

text \<open>\<open>init\<close> has told the states which stage and step they belong to.\<close>

definition placed :: "('v, 'w) workflow \<Rightarrow> 'v wpub \<Rightarrow> bool" where
  "placed cfg p \<longleftrightarrow>
     (\<forall>(a, b) \<in> set (step_pairs (Stages cfg)). \<forall>s. stepStates p b = Some s \<longrightarrow> CurrentStage s = a \<and> CurrentStep s = b)"

lemma init_steps_placed:
  "init_steps stage steps idx ix m = Some (Inr (ss, ix'), m') \<Longrightarrow>
     (\<forall>n. n \<notin> (SName \<circ> the) ` set steps \<longrightarrow> stepStates (pub m') n = stepStates (pub m) n)
     \<and> (\<forall>n \<in> (SName \<circ> the) ` set steps. \<exists>s. stepStates (pub m') n = Some s \<and> CurrentStage s = stage \<and> CurrentStep s = n)"
proof (induction steps arbitrary: idx ix m ss ix' m')
  case (Cons step rest)
  show ?case
  proof (cases step)
    case (Some s)
    with Cons.prems obtain m1 ss1 x where
      rest: "init_steps stage rest (Suc idx) (SName s # ix) m1 = Some (Inr (ss1, ix'), m')"
      and m1: "stepStates (pub m1) = (stepStates (pub m))(SName s \<mapsto> SetCurrentStep (SetCurrentStage x stage) (SName s))"
      by (auto simp: bnd_Some_iff seqm_Some_iff Let_def sum_case_iffs upd_state_def state_of_def set_state_def
          split: if_split_asm option.split_asm)
    from init_steps_Inr [OF Cons.prems] Some have "SName s \<notin> (SName \<circ> the) ` set rest" by (auto simp: image_iff)
    then have own: "stepStates (pub m') (SName s) = Some (SetCurrentStep (SetCurrentStage x stage) (SName s))"
      using Cons.IH [OF rest] m1 by simp
    show ?thesis
    proof (intro conjI allI ballI impI)
      fix n assume "n \<notin> (SName \<circ> the) ` set (step # rest)"
      then show "stepStates (pub m') n = stepStates (pub m) n" using Cons.IH [OF rest] m1 Some by simp
    next
      fix n assume "n \<in> (SName \<circ> the) ` set (step # rest)"
      then show "\<exists>s. stepStates (pub m') n = Some s \<and> CurrentStage s = stage \<and> CurrentStep s = n"
        using Cons.IH [OF rest] own Some by (auto simp: SetCurrentStep_def SetCurrentStage_def)
    qed
  qed (use Cons.prems in simp)
qed simp

lemma init_stages_placed:
  "init_stages stages idx gx ix m = Some (Inr (sts, gx', ix'), m') \<Longrightarrow>
     (\<forall>n. n \<notin> set (step_name_list stages) \<longrightarrow> stepStates (pub m') n = stepStates (pub m) n)
     \<and> (\<forall>(a, b) \<in> set (step_pairs stages). \<exists>s. stepStates (pub m') b = Some s \<and> CurrentStage s = a \<and> CurrentStep s = b)"
proof (induction stages arbitrary: idx gx ix m sts gx' ix' m')
  case (Cons stage rest)
  show ?case
  proof (cases stage)
    case (Some st)
    with Cons.prems obtain m1 ss ix1 sts1 where
      steps: "init_steps (StName st) (Steps st) 0 ix m = Some (Inr (ss, ix1), m1)"
      and rest: "init_stages rest (Suc idx) (StName st # gx) ix1 m1 = Some (Inr (sts1, gx', ix'), m')"
      by (auto simp: bnd_Some_iff sum_case_iffs split: if_split_asm)
    have "set (step_name_list rest) \<inter> set (map (SName \<circ> the) (Steps st)) = {}"
      using init_stages_iff [OF Cons.prems] Some by (auto simp: stages_ok_Cons stages_ok_def)
    with init_steps_placed [OF steps] Cons.IH [OF rest] Some show ?thesis
      by (auto 4 4 simp: disjoint_iff)
  qed (use Cons.prems in simp)
qed simp

lemma init_placed: "init cfg m = Some (Inr stages, m') \<Longrightarrow> placed cfg (pub m')"
  by (fastforce simp: init_def bnd_Some_iff sum_case_iffs placed_def dest!: init_stages_placed split: option.split_asm)

section \<open>Restoring\<close>

definition put_state :: "'v step_state \<Rightarrow> 'v wpub \<Rightarrow> 'v wpub" where
  "put_state s w = w\<lparr>stepStates := (stepStates w)(CurrentStep s \<mapsto> s)\<rparr>"

lemma put_state_idem [simp]: "put_state s (put_state s w) = put_state s w"
  by (simp add: put_state_def)

lemma restore_step_eq:
  "None \<notin> set steps \<Longrightarrow> restore_step stage steps s w =
     Some (if (CurrentStage s, CurrentStep s) \<in> set (map (\<lambda>x. (stage, SName (the x))) steps) then put_state s w else w)"
proof (induction steps arbitrary: w)
  case (Cons x steps)
  then obtain y where "x = Some y" by (cases x) auto
  with Cons show ?case by (auto simp: put_state_def image_iff)
qed simp

lemma restore_stage_eq:
  "None \<notin> set stages \<Longrightarrow> (\<And>st. Some st \<in> set stages \<Longrightarrow> None \<notin> set (Steps st)) \<Longrightarrow>
     restore_stage stages s w =
       Some (if (CurrentStage s, CurrentStep s) \<in> set (step_pairs stages) then put_state s w else w)"
proof (induction stages arbitrary: w)
  case (Cons x stages)
  then obtain st where st: "x = Some st" by (cases x) auto
  with Cons have "restore_step (StName st) (Steps st) s w =
     Some (if (CurrentStage s, CurrentStep s) \<in> set (map (\<lambda>x. (StName st, SName (the x))) (Steps st)) then put_state s w else w)"
    by (intro restore_step_eq) auto
  with Cons st show ?case by (auto simp: image_iff)
qed simp

lemma restore_states_eq:
  assumes "no_nil cfg"
  shows "(\<And>s. s \<in> set ss \<Longrightarrow> (CurrentStage s, CurrentStep s) \<in> set (step_pairs (Stages cfg))) \<Longrightarrow>
     restore_states (Stages cfg) ss w = Some (foldl (\<lambda>w s. put_state s w) w ss)"
proof (induction ss arbitrary: w)
  case (Cons s ss)
  have "restore_stage (Stages cfg) s w = Some (put_state s w)"
    using Cons.prems [of s] assms by (subst restore_stage_eq) (auto simp: no_nil_def)
  with Cons show ?case by simp
qed simp

lemma put_all:
  "WState (foldl (\<lambda>w s. put_state s w) w ss) = WState w"
  "isSkipError (foldl (\<lambda>w s. put_state s w) w ss) = isSkipError w"
  by (induction ss arbitrary: w) (simp_all add: put_state_def)

lemma put_all_other:
  "n \<notin> CurrentStep ` set ss \<Longrightarrow> stepStates (foldl (\<lambda>w s. put_state s w) w ss) n = stepStates w n"
  by (induction ss arbitrary: w) (auto simp: put_state_def)

lemma put_all_own:
  "distinct (map CurrentStep ss) \<Longrightarrow> s \<in> set ss \<Longrightarrow>
     stepStates (foldl (\<lambda>w s. put_state s w) w ss) (CurrentStep s) = Some s"
proof (induction ss arbitrary: w)
  case (Cons x ss)
  show ?case
  proof (cases "s = x")
    case True
    then have "CurrentStep s \<notin> CurrentStep ` set ss" using Cons.prems(1) by simp
    then have "stepStates (foldl (\<lambda>w s. put_state s w) (put_state x w) ss) (CurrentStep s) = stepStates (put_state x w) (CurrentStep s)"
      by (rule put_all_other)
    with True show ?thesis by (simp add: put_state_def)
  next
    case False
    with Cons show ?thesis by simp
  qed
qed simp

section \<open>Taking\<close>

definition taken :: "'v wpub \<Rightarrow> string \<Rightarrow> 'v step_state list" where
  "taken p n = (case stepStates p n of None \<Rightarrow> [] | Some s \<Rightarrow> if status_Valid (Status s) then [s] else [])"

lemma step_states_of_taken [simp]: "step_states_of p s = taken p (SName s)"
  by (simp add: step_states_of_def taken_def Let_def split: option.split)

lemma all_steps_taken:
  "all_steps stages = Some xs \<Longrightarrow> concat (map (\<lambda>(st, step). step_states_of p step) xs) = concat (map (taken p) (step_name_list stages))"
proof (induction stages arbitrary: xs)
  case (Cons x stages)
  then obtain st ys where st: "x = Some st" "all_steps stages = Some ys"
    "xs = map (\<lambda>s. (st, the s)) (Steps st) @ ys"
    by (cases x) (auto split: if_splits)
  with Cons.IH [OF st(2)] st show ?case by (simp add: comp_def)
qed simp

lemma GetSnapshot_states:
  assumes "GetSnapshot cfg p = Some sh"
  shows "StepsStates sh = concat (map (taken p) (step_name_list (Stages cfg)))
    \<and> WorkflowState sh = WState p \<and> SVars sh = vars p"
  using assms all_steps_taken [of "Stages cfg" _ p] by (auto simp: GetSnapshot_def StepStates_def)

lemma taken_placed:
  assumes "placed cfg p" and "n \<in> set (step_name_list (Stages cfg))" and "s \<in> set (taken p n)"
  shows "CurrentStep s = n \<and> (CurrentStage s, CurrentStep s) \<in> set (step_pairs (Stages cfg))"
proof -
  from assms(2) obtain a where a: "(a, n) \<in> set (step_pairs (Stages cfg))"
    unfolding step_pairs_names [symmetric] by auto
  moreover have "stepStates p n = Some s" using assms(3) by (auto simp: taken_def split: option.splits if_splits)
  ultimately have "CurrentStage s = a \<and> CurrentStep s = n" using assms(1) unfolding placed_def by blast
  with a show ?thesis by simp
qed

lemma taken_distinct:
  assumes "\<And>n s. n \<in> set ns \<Longrightarrow> s \<in> set (taken p n) \<Longrightarrow> CurrentStep s = n" and "distinct ns"
  shows "distinct (map CurrentStep (concat (map (taken p) ns)))"
  using assms
proof (induction ns)
  case (Cons n ns)
  have "distinct (map CurrentStep (taken p n))"
    by (simp add: taken_def split: option.split)
  moreover have "CurrentStep ` set (taken p n) \<inter> CurrentStep ` (\<Union>k \<in> set ns. set (taken p k)) = {}"
    using Cons.prems by fastforce
  ultimately show ?case using Cons by simp
qed simp

text \<open>C22. Round trip: a snapshot restored into a workflow of the same stages and steps gives back the
  workflow's state, the variables and the state of every step that has started, and leaves the
  states of the others as they were.\<close>

theorem snapshot_roundtrip:
  assumes "valid_config cfg" and "placed cfg p" and "GetSnapshot cfg p = Some sh"
  shows "\<exists>q. SetSnapshot cfg sh p0 = Some (None, q) \<and> WState q = WState p \<and> vars q = vars p
    \<and> (\<forall>n \<in> step_names (Stages cfg). stepStates q n =
         (case stepStates p n of Some s \<Rightarrow> if status_Valid (Status s) then Some s else stepStates p0 n
          | None \<Rightarrow> stepStates p0 n))"
proof -
  let ?ns = "step_name_list (Stages cfg)" and ?ss = "StepsStates sh"
  have nil: "no_nil cfg" and dist: "distinct ?ns" using assms(1) by (simp_all add: valid_config_def)
  have ss: "?ss = concat (map (taken p) ?ns)" "WorkflowState sh = WState p" "SVars sh = vars p"
    using GetSnapshot_states [OF assms(3)] by simp_all
  note own = taken_placed [OF assms(2)]
  let ?q = "foldl (\<lambda>w s. put_state s w) p0 ?ss"
  have "restore_states (Stages cfg) ?ss p0 = Some ?q"
    using own by (intro restore_states_eq [OF nil]) (auto simp: ss(1))
  moreover have "stepStates ?q n = (case stepStates p n of Some s \<Rightarrow> if status_Valid (Status s) then Some s else stepStates p0 n
          | None \<Rightarrow> stepStates p0 n)" if n: "n \<in> set ?ns" for n
  proof (cases "\<exists>s. s \<in> set (taken p n)")
    case True
    then obtain s where s: "s \<in> set (taken p n)" by blast
    have "distinct (map CurrentStep ?ss)"
      unfolding ss(1) using own dist by (intro taken_distinct) blast+
    moreover have "s \<in> set ?ss" using s n by (auto simp: ss(1))
    ultimately have "stepStates ?q (CurrentStep s) = Some s" by (rule put_all_own)
    moreover have "CurrentStep s = n" using own [OF n s] by simp
    ultimately show ?thesis using s by (auto simp: taken_def split: option.splits if_splits)
  next
    case False
    have "n \<notin> CurrentStep ` set ?ss"
    proof
      assume "n \<in> CurrentStep ` set ?ss"
      then obtain s k where "s \<in> set (taken p k)" "k \<in> set ?ns" "n = CurrentStep s" by (auto simp: ss(1))
      with own [of k s] False show False by simp
    qed
    then have "stepStates ?q n = stepStates p0 n" by (rule put_all_other)
    with False show ?thesis by (auto simp: taken_def split: option.splits if_splits)
  qed
  ultimately show ?thesis
    using step_name_list_names [OF nil] by (simp add: SetSnapshot_def ss(2,3))
qed

end
