(* ===== verification/Workflow_Samples.thy ===== *)
theory Workflow_Samples
  imports Workflow_Failure Workflow_Snapshot
begin

text \<open>
  A small workflow on a calm environment: the witnesses of the engine's properties, and runs that show
  where the code departs from its documentation. The world is the list of names written so far.
\<close>

section \<open>The sample workflow\<close>

type_synonym wfn = "string list \<Rightarrow> werr option"

definition sample_step :: "string \<Rightarrow> wfn \<Rightarrow> (nat, string list) wstep" where
  "sample_step n f = fst (NewStep n (Some (\<lambda>p w. (f w, p, w @ [n]))) [WithStepMaxRetries 2])"

definition stage_a :: "(nat, string list) wstage" where
  "stage_a = fst (NewStage ''A'' [WithStageSteps
     [Some (sample_step ''a1'' (\<lambda>_. None)), Some (sample_step ''a2'' (\<lambda>_. Some (OtherErr ''x'')))]])"

definition stage_c :: "(nat, string list) wstage" where
  "stage_c = fst (NewStage ''C'' [WithStageSteps
     (map Some ([sample_step ''c0'' (\<lambda>_. None)] @ sample_step ''c1'' (\<lambda>_. None) # []))])"

definition watcher :: "(nat, string list) callback" where
  "watcher p w = (None, p, w)"

definition sample_wf :: "string \<Rightarrow> (nat, string list) callback option \<Rightarrow> (nat, string list) workflow" where
  "sample_wf compStep beforeFn = fst (workflow_New [SetStages [Some stage_a, Some stage_c], WithBeforeFn beforeFn,
     WithCompensationStage ''C'' compStep, wf_WithSnapshotFn (Some (\<lambda>_. watcher))])"

definition calm_wenv :: "string list wenv" where
  "calm_wenv = \<lparr>now = (\<lambda>w. (5, w)), stopSeen = (\<lambda>w. (False, w)), sleepInterrupted = (\<lambda>d w. (False, w)),
     ctxErr = (\<lambda>w. (None, w)), doneFirst = (\<lambda>w. (False, w)), graceOver = (\<lambda>d w. (False, w))\<rparr>"

definition fresh :: "(nat, string list) wmach" where
  "fresh = \<lparr>pub = wpub_zero, isStopped = False, executionStarted = False, prevStep = None, wworld = [], weffs = []\<rparr>"

abbreviation wf1 :: "(nat, string list) workflow" where "wf1 \<equiv> sample_wf ''c1'' None"

definition after_run :: "(nat, string list) workflow \<Rightarrow> (nat, string list) wmach \<Rightarrow> (nat, string list) wmach" where
  "after_run cfg m = snd (the (workflow_Run calm_wenv cfg m))"

lemmas sample_defs = sample_wf_def workflow_New_def SetStages_def WithBeforeFn_def WithCompensationStage_def
  wf_WithSnapshotFn_def stage_a_def stage_c_def sample_step_def NewStep_def NewStage_def
  WithStepMaxRetries_def WithStageSteps_def

lemma sample_wf_simps [simp]:
  "Stages (sample_wf c b) = [Some stage_a, Some stage_c]" "BeforeFn (sample_wf c b) = b"
  "BeforeAllStepsFn (sample_wf c b) = None" "SnapshotFn (sample_wf c b) = Some (\<lambda>_. watcher)"
  "OnFailureFn (sample_wf c b) = None" "AfterFn (sample_wf c b) = None" "AfterAllStepsFn (sample_wf c b) = None"
  "compensationStageRef (sample_wf c b) = Some ''C''" "compensationStepRef (sample_wf c b) = Some c"
  by (simp_all add: sample_wf_def workflow_New_def SetStages_def WithBeforeFn_def WithCompensationStage_def
    wf_WithSnapshotFn_def)

lemma sample_stage_simps [simp]:
  "StName stage_a = ''A''" "StName stage_c = ''C''" "StBeforeFn stage_a = None" "StBeforeFn stage_c = None"
  "StAfterFn stage_a = None" "StAfterFn stage_c = None"
  "Steps stage_a = [Some (sample_step ''a1'' (\<lambda>_. None)), Some (sample_step ''a2'' (\<lambda>_. Some (OtherErr ''x'')))]"
  "Steps stage_c = map Some ([sample_step ''c0'' (\<lambda>_. None)] @ sample_step ''c1'' (\<lambda>_. None) # [])"
  by (simp_all add: stage_a_def stage_c_def NewStage_def WithStageSteps_def)

lemma sample_step_simps [simp]:
  "SName (sample_step n f) = n" "Func (sample_step n f) = Some (\<lambda>p w. (f w, p, w @ [n]))"
  "SBeforeFn (sample_step n f) = None" "SAfterFn (sample_step n f) = None" "RetryPolicy (sample_step n f) = None"
  "MaxRetries (sample_step n f) = 2" "Timeout (sample_step n f) = 0"
  by (simp_all add: sample_step_def NewStep_def WithStepMaxRetries_def)

lemma watcher_passes [simp]: "passes watcher" "observes watcher"
  by (simp_all add: passes_def observes_def watcher_def)

lemma calm_simps [simp]:
  "stopSeen calm_wenv w = (False, w)" "doneFirst calm_wenv w = (False, w)" "ctxErr calm_wenv w = (None, w)"
  by (simp_all add: calm_wenv_def)

lemma sample_run: "map_option (\<lambda>(r, m). (r, called (weffs m), WState (pub m))) (workflow_Run calm_wenv wf1 fresh)
    = Some (None, [''a1'', ''a2'', ''a2''],
        wf_state_zero\<lparr>WError := ''stage [A] failed on step [a2]: x'', NextStage := ''C'', NextStep := ''c1''\<rparr>)"
  by code_simp

section \<open>Witnesses\<close>

lemma sample_callbacks_observe: "f \<in> callbacks (sample_wf c None) \<Longrightarrow> fst (snd (f p w)) = p"
  by (auto simp: callbacks_def common_callbacks_def ready_callbacks_def readied_def step_callbacks_def
      Option.these_def watcher_def)

lemma settled_steps_left_alone_witness:
  "calls_of ''a1'' (weffs (after_run wf1 (after_run wf1 fresh))) = calls_of ''a1'' (weffs (after_run wf1 fresh))"
proof -
  let ?m = "after_run wf1 fresh"
  obtain r m' where run: "workflow_Run calm_wenv wf1 ?m = Some (r, m')"
  proof -
    have "workflow_Run calm_wenv wf1 ?m \<noteq> None" by code_simp
    then show thesis using that by auto
  qed
  have "map_option Status (stepStates (pub ?m) ''a1'') = Some StepStatusCompleted" by code_simp
  then have "has_status ''a1'' StepStatusCompleted (pub ?m)" by (auto simp: has_status_def)
  from settled_steps_left_alone [OF run this] sample_callbacks_observe [of _ "''c1''"] run show ?thesis
    by (simp add: settled_statuses_def respects_status_def after_run_def)
qed

lemma policy_retries_bounded_witness:
  "\<exists>r m' es. run_policy calm_wenv (setDefaultValues (sample_step ''a2'' (\<lambda>_. Some (OtherErr ''x'')))) fresh = Some (r, m')
     \<and> weffs m' = es
     \<and> retry_ended ''a2'' (policy_delay (setDefaultValues (sample_step ''a2'' (\<lambda>_. Some (OtherErr ''x'')))) Linear) 0 2 r es"
  using policy_retries_bounded [of "setDefaultValues (sample_step ''a2'' (\<lambda>_. Some (OtherErr ''x'')))" Linear calm_wenv fresh]
  by (simp add: fresh_def Second_def in_i64_def min_int64_def max_int64_def)

lemma workflow_Run_returns_witness: "\<exists>r m'. workflow_Run calm_wenv wf1 fresh = Some (r, m')"
  using sample_callbacks_observe [of _ "''c1''"]
  by (intro workflow_Run_returns) (auto simp: no_nil_def bounded_retries_def keeps_states_def)

lemma sample_valid: "valid_config wf1"
  by (auto simp: valid_config_def no_nil_def step_name_list_def)


definition exec_end :: "(nat, string list) workflow \<Rightarrow> (nat, string list) wmach \<Rightarrow> werr option \<times> (nat, string list) wmach" where
  "exec_end cfg m = the (execute calm_wenv cfg m)"

lemma failed_run_is_routed_witness:
  "WState (pub (after_run wf1 fresh))
     = (WState (pub (snd (exec_end wf1 fresh))))\<lparr>WError := ''stage [A] failed on step [a2]: x'', NextStage := ''C'', NextStep := ''c1''\<rparr>"
proof -
  have exec: "execute calm_wenv wf1 fresh = Some (exec_end wf1 fresh)"
  proof -
    have "execute calm_wenv wf1 fresh \<noteq> None" by code_simp
    then show ?thesis by (auto simp: exec_end_def)
  qed
  have "fst (exec_end wf1 fresh) = Some (WrapErr ''stage [A] failed on step [a2]: x'' [OtherErr ''x''])"
    "executionStarted (snd (exec_end wf1 fresh))" by code_simp+
  then have "execute calm_wenv wf1 fresh
      = Some (Some (WrapErr ''stage [A] failed on step [a2]: x'' [OtherErr ''x'']), snd (exec_end wf1 fresh))"
    "executionStarted (snd (exec_end wf1 fresh))"
    using exec by (simp_all add: prod_eq_iff)
  from failed_run_is_routed [OF this, of "''C''" "''c1''"] show ?thesis
    by (auto simp: after_run_def observing_def no_nil_def)
qed

lemma snapshot_roundtrip_witness:
  "\<exists>sh q. GetSnapshot wf1 (pub (after_run wf1 fresh)) = Some sh \<and> SetSnapshot wf1 sh wpub_zero = Some (None, q)
     \<and> WState q = WState (pub (after_run wf1 fresh)) \<and> stepStates q ''a1'' = stepStates (pub (after_run wf1 fresh)) ''a1''"
proof -
  let ?p = "pub (after_run wf1 fresh)"
  have "map (\<lambda>n. map_option (\<lambda>s. (CurrentStage s, CurrentStep s)) (stepStates ?p n)) [''a1'', ''a2'', ''c0'', ''c1'']
      = [Some (''A'', ''a1''), Some (''A'', ''a2''), Some (''C'', ''c0''), Some (''C'', ''c1'')]"
    by code_simp
  then have placed: "placed wf1 ?p" by (auto simp: placed_def step_pairs_def)
  obtain sh where sh: "GetSnapshot wf1 ?p = Some sh"
    using all_steps_present [of "Stages wf1"] by (auto simp: GetSnapshot_def StepStates_def)
  have a1: "''a1'' \<in> step_names (Stages wf1)"
  proof -
    have ok: "no_nil wf1" using sample_valid by (simp add: valid_config_def)
    show ?thesis unfolding step_name_list_names [OF ok, symmetric] by simp
  qed
  have "map_option Status (stepStates ?p ''a1'') = Some StepStatusCompleted" by code_simp
  then obtain z where z: "stepStates ?p ''a1'' = Some z" "status_Valid (Status z)"
    by (auto simp: status_Valid_def)
  obtain q where "SetSnapshot wf1 sh wpub_zero = Some (None, q)" "WState q = WState ?p"
    "stepStates q ''a1'' = (case stepStates ?p ''a1'' of Some s \<Rightarrow> if status_Valid (Status s) then Some s
       else stepStates wpub_zero ''a1'' | None \<Rightarrow> stepStates wpub_zero ''a1'')"
    using snapshot_roundtrip [OF sample_valid placed sh, of wpub_zero] a1 by blast
  with sh z show ?thesis by simp
qed

section \<open>Failing set-up\<close>

definition unready :: "(nat, string list) callback" where
  "unready p w = (if w = [] then None else Some (OtherErr ''db down''), p, w)"

abbreviation wf2 :: "(nat, string list) workflow" where "wf2 \<equiv> sample_wf ''c1'' (Some unready)"

definition unready_fresh :: "(nat, string list) wmach" where
  "unready_fresh = fresh\<lparr>wworld := [''started'']\<rparr>"


text \<open>The context of this environment has always ended when the execution is over.\<close>

definition ended_wenv :: "string list wenv" where
  "ended_wenv = calm_wenv\<lparr>doneFirst := \<lambda>w. (True, w)\<rparr>"

definition ended_run :: "werr option \<times> (nat, string list) wmach" where
  "ended_run = the (workflow_Run ended_wenv wf1 fresh)"

lemma stopped_workflow_runs_nothing_witness:
  "\<exists>m2. workflow_Run calm_wenv wf1 (snd ended_run) = Some (None, m2) \<and> weffs m2 = weffs (snd ended_run)
     \<and> WState (pub m2) = WState (pub (snd ended_run))"
proof -
  have "workflow_Run ended_wenv wf1 fresh \<noteq> None" by code_simp
  then have "workflow_Run ended_wenv wf1 fresh = Some (fst ended_run, snd ended_run)" by (auto simp: ended_run_def)
  moreover have "fst (doneFirst ended_wenv w)" for w by (simp add: ended_wenv_def)
  moreover have "\<not> finished (WState (pub (snd ended_run)))" by code_simp
  ultimately show ?thesis
    using stopped_workflow_runs_nothing [OF _ _ later_runs.no_run, of ended_wenv wf1 fresh "fst ended_run" "snd ended_run" calm_wenv]
      sample_valid by simp
qed

section \<open>Where the code departs from its documentation\<close>

text \<open>After a routed failure \<open>isSkipError\<close> stays set: the next run's failing \<open>BeforeFn\<close> is swallowed.\<close>

lemma later_setup_failure_swallowed:
  "map_option fst (workflow_Run calm_wenv wf2 fresh) = Some None
   \<and> fst (exec_end wf2 (after_run wf2 fresh)) = Some (WrapErr ''workflow before: db down'' [OtherErr ''db down''])
   \<and> map_option fst (workflow_Run calm_wenv wf2 (after_run wf2 fresh)) = Some None"
  by (intro conjI) code_simp+

text \<open>A suspended step ends the run as a completed workflow, although it and later steps never ran.\<close>

definition suspended_start :: "(nat, string list) wmach" where
  "suspended_start = fresh\<lparr>pub := (pub fresh)\<lparr>stepStates := [''a1'' \<mapsto> NewStepState\<lparr>Status := StepStatusSuspended\<rparr>]\<rparr>\<rparr>"

lemma suspended_step_completes_workflow:
  "map_option (\<lambda>(r, m). (r, called (weffs m), IsCompleted (WState (pub m)))) (workflow_Run calm_wenv wf1 suspended_start)
     = Some (None, [], True)"
  by code_simp

text \<open>\<open>init\<close> accepts a compensation step outside the compensation stage: the next run skips the whole stage
  and completes without any compensation.\<close>

lemma misplaced_compensation_completes:
  "map_option fst (workflow_Run calm_wenv (sample_wf ''a1'' None) fresh) = Some None
   \<and> map_option (\<lambda>(r, m). (r, called (weffs m), IsCompleted (WState (pub m))))
       (workflow_Run calm_wenv (sample_wf ''a1'' None) (after_run (sample_wf ''a1'' None) fresh))
     = Some (None, [''a1'', ''a2'', ''a2''], True)"
  by (intro conjI) code_simp+

text \<open>A nil stage is an error of \<open>init\<close>, which the failure snapshot then dereferences.\<close>

lemma nil_stage_panics:
  "workflow_Run calm_wenv (wf1\<lparr>Stages := [None]\<rparr>) fresh = None"
  "map_option fst (workflow_Run calm_wenv (wf1\<lparr>Stages := [None], SnapshotFn := None\<rparr>) fresh)
     = Some (Some (WrapErr ''workflow init: stage at index [0] is nil'' [OtherErr ''stage at index [0] is nil'']))"
  by code_simp+

end
