(* ===== verification/Loopper.thy ===== *)
theory Loopper
  imports Go_Steps Go_Time
begin

text \<open>
  Package \<open>loopper\<close> (\<open>loopper/loop.go\<close>, \<open>loopper/options.go\<close>): a loop that runs a function
  periodically and on demand. The goroutines are threads that take atomic steps in any order: the
  callers of \<open>Start\<close>, \<open>Trigger\<close>, \<open>Stop\<close> and \<open>Wait\<close>, the ticker, and one thread per run of the function.

  A section under \<open>mu\<close> is one step, as every access to \<open>started\<close>, \<open>stopped\<close>, \<open>cancel\<close> and every \<open>wg.Add\<close>
  is inside one. What the function does, how long it takes and whether it panics (the panic is
  recovered) is left open, and so are the times of the ticks.
\<close>

section \<open>Options\<close>

record loop_options =
  leading :: bool
  period :: int
  contextTimeout :: int

type_synonym loop_option = "loop_options \<Rightarrow> loop_options"

definition WithLeading :: loop_option where
  "WithLeading o1 = o1\<lparr>leading := True\<rparr>"
definition WithPeriod :: "int \<Rightarrow> loop_option" where
  "WithPeriod d o1 = (if d \<le> 0 then o1 else o1\<lparr>period := d\<rparr>)"
definition WithContextTimeout :: "int \<Rightarrow> loop_option" where
  "WithContextTimeout d o1 = o1\<lparr>contextTimeout := d\<rparr>"

definition loop_defaults :: loop_options where
  "loop_defaults = \<lparr>leading = False, period = Second * 60, contextTimeout = Second * 30\<rparr>"

section \<open>Threads\<close>

text \<open>Whom \<open>tryRun\<close> returns to: \<open>Trigger\<close>, the leading run in \<open>Start\<close>, the ticker.\<close>

datatype caller = ForTrigger | ForLeading | ForTick

text \<open>A thread is about to: take \<open>Start\<close>'s section, look at \<open>leading\<close>, start the ticker's goroutine;
  make the ticker, select in it, mark its end; swap \<open>running\<close>, take \<open>tryRun\<close>'s section, reset \<open>running\<close> after a refusal, start
  the run; call the function, reset \<open>running\<close>, mark the run's end; take \<open>Stop\<close>'s section, cancel (if a
  \<open>cancel\<close> was stored); wait. Or it has returned.\<close>

datatype lpc =
    AtStart | AtLeading | AtSpawnTicker
  | AtNewTicker | AtSelect | AtTickerDone
  | AtSwap caller | AtLock caller | AtStore caller | AtSpawn caller
  | AtFn | AtRelease | AtRunDone
  | AtStop | AtCancel bool
  | AtWait
  | Returned "bool option"

record looper =
  options :: loop_options
  running :: bool
  started :: bool
  stopped :: bool
  wg :: int
  hasCancel :: bool
  cancelled :: bool
  panicked :: bool
  threads :: "lpc list"

definition loop_New :: "bool \<Rightarrow> loop_option list \<Rightarrow> looper option" where
  \<comment> \<open>\<open>None\<close>: the panic for a nil function\<close>
  "loop_New fn_is_nil opts =
     (if fn_is_nil then None
      else Some \<lparr>options = foldl (\<lambda>o1 opt. opt o1) loop_defaults opts, running = False, started = False,
             stopped = False, wg = 0, hasCancel = False, cancelled = False, panicked = False, threads = []\<rparr>)"

section \<open>Steps\<close>

definition goto :: "nat \<Rightarrow> lpc \<Rightarrow> looper \<Rightarrow> looper" where
  "goto t pc l = l\<lparr>threads := (threads l)[t := pc]\<rparr>"

definition spawn :: "lpc \<Rightarrow> looper \<Rightarrow> looper" where
  "spawn pc l = l\<lparr>threads := threads l @ [pc]\<rparr>"

definition wg_Done :: "looper \<Rightarrow> looper" where
  \<comment> \<open>a negative counter panics\<close>
  "wg_Done l = (if wg l \<le> 0 then l\<lparr>panicked := True\<rparr> else l\<lparr>wg := wg l - 1\<rparr>)"

fun return_to :: "caller \<Rightarrow> bool \<Rightarrow> lpc" where
  "return_to ForTrigger b = Returned (Some b)"
| "return_to ForLeading b = AtSpawnTicker"
| "return_to ForTick b = AtSelect"

text \<open>The steps of \<open>Start\<close> and of the ticker. \<open>NewTicker\<close> panics for a period that is not positive; in the
  select \<open>tick\<close> chooses the timer's branch, which is always possible.\<close>

fun start_step :: "nat \<Rightarrow> bool \<Rightarrow> lpc \<Rightarrow> looper \<Rightarrow> looper option" where
  "start_step t tick AtStart l =
     Some (if started l \<or> stopped l then goto t (Returned None) l
           else goto t AtLeading (l\<lparr>started := True, hasCancel := True, wg := wg l + 1\<rparr>))"
| "start_step t tick AtLeading l = Some (goto t (if leading (options l) then AtSwap ForLeading else AtSpawnTicker) l)"
| "start_step t tick AtSpawnTicker l =
     Some (spawn AtNewTicker (goto t (Returned None) l))"
| "start_step t tick AtNewTicker l =
     Some (if period (options l) \<le> 0 then l\<lparr>panicked := True\<rparr> else goto t AtSelect l)"
| "start_step t tick AtSelect l =
     (if tick then Some (goto t (AtSwap ForTick) l)
      else if cancelled l then Some (goto t AtTickerDone l) else None)"
| "start_step t tick AtTickerDone l = Some (goto t (Returned None) (wg_Done l))"
| "start_step t tick _ l = None"

fun tryRun_step :: "nat \<Rightarrow> lpc \<Rightarrow> looper \<Rightarrow> looper option" where
  "tryRun_step t (AtSwap k) l =
     Some (if running l then goto t (return_to k False) l else goto t (AtLock k) (l\<lparr>running := True\<rparr>))"
| "tryRun_step t (AtLock k) l =
     Some (if stopped l then goto t (AtStore k) l else goto t (AtSpawn k) (l\<lparr>wg := wg l + 1\<rparr>))"
| "tryRun_step t (AtStore k) l = Some (goto t (return_to k False) (l\<lparr>running := False\<rparr>))"
| "tryRun_step t (AtSpawn k) l = Some (spawn AtFn (goto t (return_to k True) l))"
| "tryRun_step t AtFn l = Some (goto t AtRelease l)"
| "tryRun_step t AtRelease l = Some (goto t AtRunDone (l\<lparr>running := False\<rparr>))"
| "tryRun_step t AtRunDone l = Some (goto t (Returned None) (wg_Done l))"
| "tryRun_step t _ l = None"

fun stop_wait_step :: "nat \<Rightarrow> lpc \<Rightarrow> looper \<Rightarrow> looper option" where
  "stop_wait_step t AtStop l =
     Some (if stopped l then goto t (Returned None) l else goto t (AtCancel (hasCancel l)) (l\<lparr>stopped := True\<rparr>))"
| "stop_wait_step t (AtCancel c) l = Some (goto t (Returned None) (if c then l\<lparr>cancelled := True\<rparr> else l))"
| "stop_wait_step t AtWait l = (if wg l = 0 then Some (goto t (Returned None) l) else None)"
| "stop_wait_step t _ l = None"

text \<open>A label is a new call, a step of a thread, or the end of the parent context.\<close>

datatype llabel = CallStart | CallTrigger | CallStop | CallWait | ParentDone | Thread nat bool

definition thread_step :: "nat \<Rightarrow> bool \<Rightarrow> looper \<Rightarrow> looper option" where
  "thread_step t tick l =
     (if t < length (threads l) then
        (let pc = threads l ! t in
         case start_step t tick pc l of
           Some l' \<Rightarrow> Some l'
         | None \<Rightarrow> (case tryRun_step t pc l of Some l' \<Rightarrow> Some l' | None \<Rightarrow> stop_wait_step t pc l))
      else None)"

fun loop_step :: "llabel \<Rightarrow> looper \<Rightarrow> looper option" where
  "loop_step CallStart l = Some (spawn AtStart l)"
| "loop_step CallTrigger l = Some (spawn (AtSwap ForTrigger) l)"
| "loop_step CallStop l = Some (spawn AtStop l)"
| "loop_step CallWait l = Some (spawn AtWait l)"
| "loop_step ParentDone l = Some (l\<lparr>cancelled := True\<rparr>)"
| "loop_step (Thread t tick) l = thread_step t tick l"

fun loop_run :: "llabel list \<Rightarrow> looper \<Rightarrow> looper option" where
  "loop_run [] l = Some l"
| "loop_run (x # xs) l = (case loop_step x l of None \<Rightarrow> None | Some l' \<Rightarrow> loop_run xs l')"

definition loop_move :: "looper \<Rightarrow> looper \<Rightarrow> bool" where
  "loop_move l l' \<longleftrightarrow> \<not> panicked l \<and> (\<exists>x. loop_step x l = Some l')"

end
