(* ===== verification/Loopper_Props.thy ===== *)
theory Loopper_Props
  imports Loopper
begin

text \<open>
  Properties of the loop over all interleavings: runs exclude each other, the wait group counts what is
  outstanding and never goes negative, nothing is added to it after \<open>Stop\<close>, and there is one ticker.
\<close>

section \<open>Counting threads\<close>

definition tally :: "(lpc \<Rightarrow> int) \<Rightarrow> lpc list \<Rightarrow> int" where
  "tally f ts = sum_list (map f ts)"

lemma tally_simps [simp]:
  "tally f [] = 0" "tally f (x # ts) = f x + tally f ts" "tally f (ts @ us) = tally f ts + tally f us"
  by (simp_all add: tally_def)

lemma tally_update: "t < length ts \<Longrightarrow> tally f (ts[t := pc]) = tally f ts - f (ts ! t) + f pc"
  by (induction ts arbitrary: t) (auto split: nat.split simp: less_Suc_eq_0_disj)

lemma tally_member:
  assumes "\<And>pc. f pc \<ge> 0" and "t < length ts"
  shows "f (ts ! t) \<le> tally f ts"
proof -
  have "0 \<le> tally f us" for us using assms(1) by (induction us) auto
  then show ?thesis using assms(2)
    by (induction ts arbitrary: t) (auto simp: less_Suc_eq_0_disj intro: add_increasing assms(1))
qed

lemma tally_two:
  assumes "\<And>pc. f pc \<ge> 0" and "s < length ts" "t < length ts" "s \<noteq> t" and "f (Returned None) = 0"
  shows "f (ts ! s) + f (ts ! t) \<le> tally f ts"
proof -
  have "f ((ts[s := Returned None]) ! t) \<le> tally f (ts[s := Returned None])"
    by (rule tally_member) (use assms in simp_all)
  with assms(2-5) show ?thesis by (simp add: tally_update)
qed

text \<open>How often a program point counts: as the holder of \<open>running\<close>, as the ticker (or the \<open>Start\<close> that will
  start it), and in the wait group.\<close>

fun of_caller :: "caller \<Rightarrow> int" where
  "of_caller ForTrigger = 0" | "of_caller ForLeading = 1" | "of_caller ForTick = 1"

fun holds :: "lpc \<Rightarrow> int" where
  "holds (AtLock k) = 1" | "holds (AtStore k) = 1" | "holds (AtSpawn k) = 1"
| "holds AtFn = 1" | "holds AtRelease = 1" | "holds _ = 0"

fun ticks :: "lpc \<Rightarrow> int" where
  "ticks AtLeading = 1" | "ticks AtSpawnTicker = 1" | "ticks AtNewTicker = 1" | "ticks AtSelect = 1" | "ticks AtTickerDone = 1"
| "ticks (AtSwap k) = of_caller k" | "ticks (AtLock k) = of_caller k" | "ticks (AtStore k) = of_caller k"
| "ticks (AtSpawn k) = of_caller k" | "ticks _ = 0"

fun adds :: "lpc \<Rightarrow> int" where
  "adds (AtSpawn k) = of_caller k + 1" | "adds AtFn = 1" | "adds AtRelease = 1" | "adds AtRunDone = 1"
| "adds pc = ticks pc"

lemma of_caller_nonneg: "of_caller k \<ge> 0"
  by (cases k) auto

lemma counts_nonneg: "holds pc \<ge> 0" "ticks pc \<ge> 0" "adds pc \<ge> 0" "ticks pc \<le> adds pc"
  by (cases pc; simp add: of_caller_nonneg)+

lemma return_to_counts [simp]: "holds (return_to k b) = 0" "ticks (return_to k b) = of_caller k" "adds (return_to k b) = of_caller k"
  by (cases k; simp)+

section \<open>The invariant\<close>

definition counted :: "looper \<Rightarrow> bool" where
  "counted l \<longleftrightarrow>
     tally holds (threads l) = (if running l then 1 else 0)
     \<and> tally ticks (threads l) \<le> (if started l then 1 else 0)
     \<and> wg l = tally adds (threads l)
     \<and> period (options l) > 0 \<and> \<not> panicked l
     \<and> (started l \<longrightarrow> hasCancel l)"

lemma goto_simps [simp]:
  "threads (goto t pc l) = (threads l)[t := pc]" "running (goto t pc l) = running l" "wg (goto t pc l) = wg l"
  "started (goto t pc l) = started l" "stopped (goto t pc l) = stopped l" "options (goto t pc l) = options l"
  "panicked (goto t pc l) = panicked l" "hasCancel (goto t pc l) = hasCancel l" "cancelled (goto t pc l) = cancelled l"
  by (simp_all add: goto_def)

lemma spawn_simps [simp]:
  "threads (spawn pc l) = threads l @ [pc]" "running (spawn pc l) = running l" "wg (spawn pc l) = wg l"
  "started (spawn pc l) = started l" "stopped (spawn pc l) = stopped l" "options (spawn pc l) = options l"
  "panicked (spawn pc l) = panicked l" "hasCancel (spawn pc l) = hasCancel l" "cancelled (spawn pc l) = cancelled l"
  by (simp_all add: spawn_def)

lemma counted_thread:
  assumes "counted l" and "thread_step t tick l = Some l'"
  shows "counted l'"
proof -
  from assms(2) have t: "t < length (threads l)" by (simp add: thread_step_def split: if_splits)
  have le: "holds (threads l ! t) \<le> tally holds (threads l)" "ticks (threads l ! t) \<le> tally ticks (threads l)"
    "adds (threads l ! t) \<le> tally adds (threads l)"
    by (rule tally_member [OF _ t], rule counts_nonneg)+
  show ?thesis
    using assms t le
    by (cases "threads l ! t"; clarsimp simp: thread_step_def; auto simp: counted_def tally_update wg_Done_def split: if_splits)
qed

lemma counted_step: "counted l \<Longrightarrow> loop_step x l = Some l' \<Longrightarrow> counted l'"
  by (cases x) (auto simp: counted_thread, auto simp: counted_def)

definition documented_options :: "loop_option set" where
  "documented_options = {WithLeading} \<union> range WithPeriod \<union> range WithContextTimeout"

lemma period_positive:
  "set opts \<subseteq> documented_options \<Longrightarrow> period o1 > 0 \<Longrightarrow> period (foldl (\<lambda>o1 opt. opt o1) o1 opts) > 0"
proof (induction opts arbitrary: o1)
  case (Cons opt opts)
  then have "period (opt o1) > 0"
    by (auto simp: documented_options_def WithLeading_def WithPeriod_def WithContextTimeout_def)
  with Cons show ?case by simp
qed simp

lemma counted_New:
  "set opts \<subseteq> documented_options \<Longrightarrow> loop_New False opts = Some l \<Longrightarrow> counted l"
  using period_positive [of opts loop_defaults]
  by (auto simp: loop_New_def counted_def loop_defaults_def Second_def)

interpretation loop_counts: step_invariant loop_move l0 "\<lambda>_. True" "\<lambda>l. counted l0 \<longrightarrow> counted l" for l0
  by unfold_locales (auto simp: loop_move_def intro: counted_step)

text \<open>Once stopped, the loop stays stopped and the wait group only shrinks.\<close>

lemma stopped_step:
  assumes "stopped l" and "counted l" and "loop_step x l = Some l'"
  shows "stopped l' \<and> wg l' \<le> wg l"
proof (cases x)
  case (Thread t tick)
  with assms show ?thesis
    by (cases "threads l ! t") (auto simp: thread_step_def wg_Done_def split: if_splits)
qed (use assms in auto)

interpretation loop_stopped: step_invariant loop_move l0 "\<lambda>l. counted l0 \<longrightarrow> counted l"
  "\<lambda>l. counted l0 \<and> stopped l0 \<longrightarrow> stopped l \<and> wg l \<le> wg l0" for l0
proof
  fix l l'
  assume "counted l0 \<longrightarrow> counted l" "counted l0 \<and> stopped l0 \<longrightarrow> stopped l \<and> wg l \<le> wg l0" "loop_move l l'"
  then show "counted l0 \<and> stopped l0 \<longrightarrow> stopped l' \<and> wg l' \<le> wg l0"
    using stopped_step [of l _ l'] by (fastforce simp: loop_move_def)
qed (use loop_counts.always in auto)

lemma reachable_counted:
  "loop_New False opts = Some l0 \<Longrightarrow> set opts \<subseteq> documented_options \<Longrightarrow> reaches loop_move l0 l \<Longrightarrow> counted l"
  using loop_counts.always counted_New by blast

lemma at_most_one:
  assumes "\<And>pc. f pc \<ge> 0" "f (Returned None) = 0" and "tally f ts \<le> 1"
    and "i < length ts" "j < length ts" "f (ts ! i) = 1" "f (ts ! j) = 1"
  shows "i = j"
proof (rule ccontr)
  assume "i \<noteq> j"
  with assms have "f (ts ! i) + f (ts ! j) \<le> tally f ts"
    by (intro tally_two) auto
  with assms show False by simp
qed

section \<open>Theorems\<close>

text \<open>C27. In no interleaving of \<open>Start\<close>, \<open>Trigger\<close>, \<open>Stop\<close>, \<open>Wait\<close> and the ticker do two runs of the function
  overlap.\<close>

theorem loop_runs_exclude_each_other:
  assumes "loop_New False opts = Some l0" "set opts \<subseteq> documented_options" "reaches loop_move l0 l"
    and "i < length (threads l)" "j < length (threads l)" "threads l ! i = AtFn" "threads l ! j = AtFn"
  shows "i = j"
  using reachable_counted [OF assms(1-3)] assms(4-7)
  by (intro at_most_one [where f = holds and ts = "threads l"]) (auto simp: counted_def counts_nonneg split: if_splits)

text \<open>C28. Once the loop is stopped and the wait group is down to zero (when \<open>Wait\<close> returns), nothing runs and
  nothing will: no run of the function, no ticker, whatever is called later.\<close>

theorem stopped_and_waited_is_final:
  assumes "loop_New False opts = Some l0" "set opts \<subseteq> documented_options" "reaches loop_move l0 l"
    and "stopped l" "wg l = 0" "reaches loop_move l l'" and "t < length (threads l')"
  shows "wg l' = 0 \<and> threads l' ! t \<noteq> AtFn \<and> threads l' ! t \<noteq> AtSelect"
proof -
  note l = reachable_counted [OF assms(1-3)]
  have l': "counted l'" "wg l' \<le> 0"
    using loop_counts.always [OF assms(6)] loop_stopped.always [OF assms(6)] l assms(4,5) by auto
  have "adds (threads l' ! t) \<le> tally adds (threads l')"
    by (rule tally_member [OF _ assms(7)]) (rule counts_nonneg)
  with l' counts_nonneg(3) [of "threads l' ! t"] show ?thesis by (auto simp: counted_def)
qed

text \<open>The loop never panics (no negative wait group, no ticker with a period that is not positive) and
  has at most one ticker, however often \<open>Start\<close> is called.\<close>

theorem loop_never_panics:
  assumes "loop_New False opts = Some l0" "set opts \<subseteq> documented_options" "reaches loop_move l0 l"
  shows "\<not> panicked l \<and> wg l \<ge> 0
    \<and> (\<forall>i < length (threads l). \<forall>j < length (threads l).
         threads l ! i = AtSelect \<and> threads l ! j = AtSelect \<longrightarrow> i = j)"
proof -
  note l = reachable_counted [OF assms]
  have "0 \<le> tally adds ts" for ts by (induction ts) (auto intro: counts_nonneg add_nonneg_nonneg)
  moreover have "i = j" if "i < length (threads l)" "j < length (threads l)"
    "threads l ! i = AtSelect" "threads l ! j = AtSelect" for i j
    using l that by (intro at_most_one [where f = ticks and ts = "threads l"])
      (auto simp: counted_def counts_nonneg split: if_splits)
  ultimately show ?thesis using l by (auto simp: counted_def)
qed

section \<open>Witnesses\<close>

text \<open>Two triggers and a start with a leading run; then stop, and everything ends.\<close>

definition sample_loop :: looper where
  "sample_loop = the (loop_New False [WithLeading, WithPeriod 5])"

definition busy_labels :: "llabel list" where
  "busy_labels = [CallTrigger, CallTrigger, CallStart, Thread 0 True, Thread 1 True, Thread 0 True, Thread 0 True,
     Thread 2 True, Thread 2 True, Thread 2 True, Thread 2 True]"

definition ending_labels :: "llabel list" where
  "ending_labels = busy_labels @ [CallStop, CallWait, Thread 5 True, Thread 5 True, Thread 3 True, Thread 3 True, Thread 3 True,
     Thread 4 True, Thread 4 True, Thread 4 True, Thread 4 True, Thread 4 True, Thread 4 False, Thread 4 True, Thread 6 True]"

definition loop_after :: "llabel list \<Rightarrow> looper" where
  "loop_after xs = the (loop_run xs sample_loop)"

lemma loop_run_reaches: "loop_run xs l = Some l' \<Longrightarrow> counted l \<Longrightarrow> reaches loop_move l l'"
proof (induction xs arbitrary: l)
  case (Cons x xs)
  then obtain l1 where l1: "loop_step x l = Some l1" "loop_run xs l1 = Some l'"
    by (auto split: option.splits)
  have "loop_move l l1" using l1(1) Cons.prems(2) by (auto simp: loop_move_def counted_def)
  then have "reaches loop_move l l1" by (auto intro: reaches.intros)
  moreover have "reaches loop_move l1 l'" using Cons.IH [OF l1(2)] counted_step [OF Cons.prems(2) l1(1)] .
  ultimately show ?case by (rule reaches_trans [rotated])
qed (auto intro: reaches.start)

lemma sample_options: "set [WithLeading, WithPeriod 5] \<subseteq> documented_options"
  by (auto simp: documented_options_def)

lemma sample_New: "loop_New False [WithLeading, WithPeriod 5] = Some sample_loop"
  by (simp add: sample_loop_def loop_New_def)

lemma sample_reaches: "loop_run xs sample_loop \<noteq> None \<Longrightarrow> reaches loop_move sample_loop (loop_after xs)"
  using loop_run_reaches [of xs sample_loop] counted_New [OF sample_options sample_New] by (auto simp: loop_after_def)

lemma loop_runs_exclude_each_other_witness:
  "threads (loop_after busy_labels) ! 3 = AtFn \<and> threads (loop_after busy_labels) ! 0 \<noteq> AtFn"
proof -
  have "loop_run busy_labels sample_loop \<noteq> None" by code_simp
  note r = sample_reaches [OF this]
  have *: "threads (loop_after busy_labels) ! 3 = AtFn" "length (threads (loop_after busy_labels)) = 5" by code_simp+
  with loop_runs_exclude_each_other [OF sample_New sample_options r, of 0 3] show ?thesis by auto
qed

lemma stopped_and_waited_is_final_witness:
  "wg (loop_after ending_labels) = 0 \<and> threads (loop_after ending_labels) ! 4 \<noteq> AtSelect"
proof -
  have "loop_run ending_labels sample_loop \<noteq> None" by code_simp
  note r = sample_reaches [OF this]
  have "stopped (loop_after ending_labels)" "wg (loop_after ending_labels) = 0"
    "4 < length (threads (loop_after ending_labels))" by code_simp+
  from stopped_and_waited_is_final [OF sample_New sample_options r this(1,2) reaches.start this(3)]
  show ?thesis by simp
qed

lemma loop_never_panics_witness: "\<not> panicked (loop_after busy_labels) \<and> wg (loop_after busy_labels) \<ge> 0"
proof -
  have "loop_run busy_labels sample_loop \<noteq> None" by code_simp
  from loop_never_panics [OF sample_New sample_options sample_reaches [OF this]] show ?thesis by simp
qed

end
