(* ===== verification/Go_Duration.thy ===== *)
theory Go_Duration
  imports Go_Time
begin

text \<open>
  \<open>time.ParseDuration\<close>, and that it reads back what \<open>Duration.String\<close> writes. The code multiplies a
  fraction by its unit in floating point, \<open>uint64(float64(f) * (float64(unit) / scale))\<close>; this product
  is the parameter \<open>frac f unit scale\<close>.
\<close>

section \<open>ParseDuration\<close>

datatype duration_error =
    InvalidDuration string
  | MissingUnit string
  | UnknownUnit string string

definition is_digit :: "char \<Rightarrow> bool" where
  "is_digit c \<longleftrightarrow> digit_of c \<noteq> None"

definition digit_value :: "char \<Rightarrow> nat" where
  "digit_value c = the (digit_of c)"

fun leading_int :: "nat \<Rightarrow> string \<Rightarrow> (nat \<times> string) option" where
  "leading_int x [] = Some (x, [])"
| "leading_int x (c # cs) =
     (if \<not> is_digit c then Some (x, c # cs)
      else if x > 2 ^ 63 div 10 then None
      else let y = x * 10 + digit_value c in
           if y > 2 ^ 63 then None else leading_int y cs)"

text \<open>Digits after the point; those that no longer fit are skipped.\<close>

fun leading_fraction :: "nat \<Rightarrow> nat \<Rightarrow> bool \<Rightarrow> string \<Rightarrow> nat \<times> nat \<times> string" where
  "leading_fraction x scale overflow [] = (x, scale, [])"
| "leading_fraction x scale overflow (c # cs) =
     (if \<not> is_digit c then (x, scale, c # cs)
      else if overflow \<or> x > (2 ^ 63 - 1) div 10 \<or> x * 10 + digit_value c > 2 ^ 63
      then leading_fraction x scale True cs
      else leading_fraction (x * 10 + digit_value c) (scale * 10) False cs)"

definition micro_sign :: string where "micro_sign = [char_of (194::nat), char_of (181::nat)]"
definition greek_mu :: string where "greek_mu = [char_of (206::nat), char_of (188::nat)]"

definition unit_map :: "string \<Rightarrow> nat option" where
  "unit_map = map_of
     [(''ns'', 1), (''us'', 10 ^ 3), (micro_sign @ ''s'', 10 ^ 3), (greek_mu @ ''s'', 10 ^ 3), (''ms'', 10 ^ 6),
      (''s'', 10 ^ 9), (''m'', 60 * 10 ^ 9), (''h'', 3600 * 10 ^ 9)]"

definition unit_char :: "char \<Rightarrow> bool" where
  "unit_char c \<longleftrightarrow> c \<noteq> CHR ''.'' \<and> \<not> is_digit c"

text \<open>One number with its unit: its value in nanoseconds and the rest of the input.\<close>

definition parse_number :: "string \<Rightarrow> string \<Rightarrow> duration_error + nat \<times> nat \<times> nat \<times> string" where
  "parse_number orig s =
     (if s = [] \<or> unit_char (hd s) then Inl (InvalidDuration orig)
      else case leading_int 0 s of
        None \<Rightarrow> Inl (InvalidDuration orig)
      | Some (v, s1) \<Rightarrow>
          let pre = length s1 \<noteq> length s;
              point = s1 \<noteq> [] \<and> hd s1 = CHR ''.'';
              (f, scale, s2) = (if point then leading_fraction 0 1 False (tl s1) else (0, 1, s1));
              after = point \<and> length s2 \<noteq> length (tl s1)
          in if \<not> pre \<and> \<not> after then Inl (InvalidDuration orig) else Inr (v, f, scale, s2))"

definition parse_unit :: "(nat \<Rightarrow> nat \<Rightarrow> nat \<Rightarrow> nat) \<Rightarrow> string \<Rightarrow> string \<Rightarrow> duration_error + nat \<times> string" where
  "parse_unit frac orig s =
     (case parse_number orig s of
        Inl e \<Rightarrow> Inl e
      | Inr (v, f, scale, s2) \<Rightarrow>
          let u = takeWhile unit_char s2 in
          if u = [] then Inl (MissingUnit orig)
          else case unit_map u of
            None \<Rightarrow> Inl (UnknownUnit u orig)
          | Some unit \<Rightarrow>
              if v > 2 ^ 63 div unit then Inl (InvalidDuration orig)
              else let w = (if f > 0 then v * unit + frac f unit scale else v * unit) in
                   if f > 0 \<and> w > 2 ^ 63 then Inl (InvalidDuration orig)
                   else Inr (w, dropWhile unit_char s2))"

lemma leading_int_length: "leading_int x s = Some (v, s1) \<Longrightarrow> length s1 \<le> length s"
  by (induction x s rule: leading_int.induct) (auto simp: Let_def split: if_splits)

lemma leading_fraction_length: "leading_fraction x scale ov s = (f, sc, s2) \<Longrightarrow> length s2 \<le> length s"
  by (induction x scale ov s rule: leading_fraction.induct) (auto simp: Let_def split: if_splits)

lemma parse_number_length: "parse_number orig s = Inr (v, f, sc, s2) \<Longrightarrow> length s2 \<le> length s"
  by (auto simp: parse_number_def Let_def split: if_splits option.splits prod.splits
      dest!: leading_int_length leading_fraction_length)

lemma parse_unit_length: "parse_unit frac orig s = Inr (w, s') \<Longrightarrow> length s' < length s"
proof -
  have *: "takeWhile unit_char t \<noteq> [] \<Longrightarrow> length (dropWhile unit_char t) < length t" for t
    by (cases t) (auto simp: length_dropWhile_le less_Suc_eq_le split: if_splits)
  show "parse_unit frac orig s = Inr (w, s') \<Longrightarrow> length s' < length s"
    by (auto simp: parse_unit_def Let_def split: sum.splits if_splits option.splits
        dest!: parse_number_length intro: less_le_trans [OF *])
qed

text \<open>The sum is kept in a \<open>uint64\<close>.\<close>

function parse_units :: "(nat \<Rightarrow> nat \<Rightarrow> nat \<Rightarrow> nat) \<Rightarrow> string \<Rightarrow> nat \<Rightarrow> string \<Rightarrow> duration_error + nat" where
  "parse_units frac orig d s =
     (if s = [] then Inr d
      else case parse_unit frac orig s of
        Inl e \<Rightarrow> Inl e
      | Inr (w, s') \<Rightarrow>
          let d' = (d + w) mod 2 ^ 64 in
          if d' > 2 ^ 63 then Inl (InvalidDuration orig) else parse_units frac orig d' s')"
  by auto
termination
  by (relation "measure (\<lambda>(_, _, _, s). length s)") (auto dest: parse_unit_length)

declare parse_units.simps [simp del]

definition ParseDuration :: "(nat \<Rightarrow> nat \<Rightarrow> nat \<Rightarrow> nat) \<Rightarrow> string \<Rightarrow> duration_error + int" where
  "ParseDuration frac s0 =
     (let signed = s0 \<noteq> [] \<and> (hd s0 = CHR ''-'' \<or> hd s0 = CHR ''+'');
          neg = signed \<and> hd s0 = CHR ''-'';
          s = (if signed then tl s0 else s0)
      in if s = ''0'' then Inr 0
         else if s = [] then Inl (InvalidDuration s0)
         else case parse_units frac s0 0 s of
           Inl e \<Rightarrow> Inl e
         | Inr d \<Rightarrow>
             if neg then Inr (i64 (- i64 (int d)))
             else if d > 2 ^ 63 - 1 then Inl (InvalidDuration s0)
             else Inr (int d))"

section \<open>Reading back what String writes\<close>

text \<open>Digits with leading zeros: the last \<open>k\<close> digits of \<open>n\<close>.\<close>

fun pad :: "nat \<Rightarrow> nat \<Rightarrow> string" where
  "pad 0 n = []"
| "pad (Suc k) n = pad k (n div 10) @ [digit_char (n mod 10)]"

lemma digit_char_facts [simp]:
  "d < 10 \<Longrightarrow> is_digit (digit_char d)" "d < 10 \<Longrightarrow> digit_value (digit_char d) = d"
  by (simp_all add: is_digit_def digit_value_def)

lemma parse_digits_grow: "parse_digits x ds = Some n \<Longrightarrow> x * 10 ^ length ds \<le> n"
proof (induction x ds arbitrary: n rule: parse_digits.induct)
  case (2 x c cs)
  then obtain d where "parse_digits (10 * x + d) cs = Some n" "(10 * x + d) * 10 ^ length cs \<le> n"
    by (auto split: option.splits)
  moreover have "x * 10 ^ length (c # cs) \<le> (10 * x + d) * 10 ^ length cs" by (simp add: algebra_simps)
  ultimately show ?case by linarith
qed simp

lemma leading_int_reads:
  assumes "parse_digits x ds = Some n" and "n \<le> 2 ^ 63" and "rest = [] \<or> \<not> is_digit (hd rest)"
  shows "leading_int x (ds @ rest) = Some (n, rest)"
  using assms(1,2)
proof (induction x ds rule: parse_digits.induct)
  case (1 acc)
  then show ?case using assms(3) by (cases rest) auto
next
  case (2 x c cs)
  then obtain d where d: "digit_of c = Some d" "parse_digits (10 * x + d) cs = Some n"
    by (auto split: option.splits)
  have "10 * x + d \<le> (10 * x + d) * 10 ^ length cs" by simp
  also note parse_digits_grow [OF d(2)]
  also note "2.prems"(2)
  finally have "10 * x + d \<le> 2 ^ 63" .
  with d 2 show ?case by (simp add: is_digit_def digit_value_def Let_def mult.commute)
qed

lemma leading_int_nat_digits:
  "n \<le> 2 ^ 63 \<Longrightarrow> rest = [] \<or> \<not> is_digit (hd rest) \<Longrightarrow> leading_int 0 (nat_digits n @ rest) = Some (n, rest)"
  by (rule leading_int_reads [OF parse_nat_digits])

lemma leading_fraction_pad:
  assumes "(x + 1) * 10 ^ m \<le> 10 ^ 18"
  shows "leading_fraction x scale False (pad m w @ rest)
    = leading_fraction (x * 10 ^ m + w mod 10 ^ m) (scale * 10 ^ m) False rest"
  using assms
proof (induction m arbitrary: w rest)
  case (Suc m)
  let ?x = "x * 10 ^ m + w div 10 mod 10 ^ m"
  have small: "(x + 1) * 10 ^ m \<le> 10 ^ 17" using Suc.prems by simp
  have "?x + 1 \<le> (x + 1) * 10 ^ m"
    using mod_less_divisor [of "10 ^ m" "w div 10"] by (simp add: algebra_simps Suc_leI)
  with small have "?x < 10 ^ 17" by linarith
  then have guard: "\<not> ?x > (2 ^ 63 - 1) div 10" "\<not> ?x * 10 + w mod 10 > 2 ^ 63"
    by (auto simp: not_less intro: order.trans [of _ "10 ^ 17 * 10 + 9"])
  have "w mod 10 ^ Suc m = w div 10 mod 10 ^ m * 10 + w mod 10"
    using mod_mult2_eq [of w 10 "10 ^ m"] by simp
  then have sum: "?x * 10 + w mod 10 = x * 10 ^ Suc m + w mod 10 ^ Suc m" by (simp add: algebra_simps)
  have "leading_fraction x scale False (pad (Suc m) w @ rest)
      = leading_fraction ?x (scale * 10 ^ m) False (digit_char (w mod 10) # rest)"
    using Suc.IH [OF order.trans [OF small]] by simp
  also have "\<dots> = leading_fraction (?x * 10 + w mod 10) (scale * 10 ^ m * 10) False rest"
    using guard by simp
  finally show ?case by (simp only: sum) (simp add: algebra_simps)
qed simp

lemma frac_digits_printing: "frac_digits k v True acc = (v div 10 ^ k, True, pad k v @ acc)"
  by (induction k arbitrary: v acc) (simp_all add: Let_def div_mult2_eq [symmetric])

lemma frac_digits_skipping:
  "10 ^ k dvd v \<and> frac_digits k v False [] = (v div 10 ^ k, False, [])
   \<or> (\<exists>j<k. 10 ^ j dvd v \<and> frac_digits k v False [] = (v div 10 ^ k, True, pad (k - j) (v div 10 ^ j))
        \<and> v mod 10 ^ k \<noteq> 0)"
proof (induction k arbitrary: v)
  case (Suc k)
  show ?case
  proof (cases "v mod 10 = 0")
    case True
    then obtain u where u: "v = 10 * u" by auto
    have "frac_digits (Suc k) v False [] = frac_digits k u False []" by (simp add: u Let_def)
    moreover have "v div 10 ^ Suc k = u div 10 ^ k" "v mod 10 ^ Suc k = 10 * (u mod 10 ^ k)" by (simp_all add: u)
    moreover have "10 ^ Suc j dvd v \<longleftrightarrow> 10 ^ j dvd u" "v div 10 ^ Suc j = u div 10 ^ j" for j by (simp_all add: u)
    ultimately show ?thesis using Suc.IH [of u] by (metis Suc_less_eq diff_Suc_Suc mult_eq_0_iff zero_neq_numeral)
  next
    case False
    then have "v mod 10 ^ Suc k \<noteq> 0" by (metis dvd_eq_mod_eq_0 dvd_power dvd_trans zero_less_Suc)
    moreover have "frac_digits (Suc k) v False [] = (v div 10 ^ Suc k, True, pad (Suc k) v)"
      using False by (simp add: Let_def frac_digits_printing div_mult2_eq [symmetric])
    ultimately show ?thesis by (intro disjI2 exI [of _ 0]) simp
  qed
qed simp

text \<open>The floating-point product is exact whenever the scale divides the unit: every number involved is an
  integer below \<open>2^53\<close>.\<close>

definition exact_frac :: "(nat \<Rightarrow> nat \<Rightarrow> nat \<Rightarrow> nat) \<Rightarrow> bool" where
  "exact_frac frac \<longleftrightarrow>
     (\<forall>f unit scale. scale dvd unit \<and> f < scale \<and> unit < 2 ^ 53 \<longrightarrow> frac f unit scale = f * (unit div scale))"

definition ends_number :: "string \<Rightarrow> bool" where
  "ends_number rest \<longleftrightarrow> rest = [] \<or> \<not> unit_char (hd rest)"

definition unit_name :: "string \<Rightarrow> nat \<Rightarrow> bool" where
  "unit_name u unit \<longleftrightarrow> u \<noteq> [] \<and> list_all unit_char u \<and> unit_map u = Some unit \<and> 0 < unit"

lemma utf8_not_dot: "char_of (194 :: nat) \<noteq> CHR ''.''" "char_of (181 :: nat) \<noteq> CHR ''.''"
  by code_simp+

lemma unit_names:
  "unit_name ''ns'' 1" "unit_name (micro_sign @ ''s'') (10 ^ 3)" "unit_name ''ms'' (10 ^ 6)" "unit_name ''s'' (10 ^ 9)"
  "unit_name ''m'' (60 * 10 ^ 9)" "unit_name ''h'' (3600 * 10 ^ 9)"
  using utf8_not_dot
  by (simp_all add: unit_name_def unit_map_def micro_sign_def greek_mu_def unit_char_def is_digit_def digit_of_def Let_def)

lemma take_unit:
  assumes "unit_name u unit" and "ends_number rest"
  shows "takeWhile unit_char (u @ rest) = u" "dropWhile unit_char (u @ rest) = rest"
  using assms by (cases rest; auto simp: unit_name_def ends_number_def list_all_iff)+

lemma unit_hd: "unit_name u unit \<Longrightarrow> u \<noteq> [] \<and> unit_char (hd (u @ rest))"
  by (cases u) (auto simp: unit_name_def)

lemma nat_digits_hd: "is_digit (hd (nat_digits n @ s))"
  using digits_are_digits [of "hd (nat_digits n)" n] by (simp add: is_digit_def)

lemma nat_digits_hd' [simp]: "is_digit (hd (nat_digits n))"
  using nat_digits_hd [of n "[]"] by simp

lemma parse_unit_whole:
  assumes u: "unit_name u unit" and "ends_number rest" and "v \<le> 2 ^ 63 div unit"
  shows "parse_unit frac orig (nat_digits v @ u @ rest) = Inr (v * unit, rest)"
proof -
  have "v \<le> 2 ^ 63" using assms(3) by (meson div_le_dividend le_trans)
  then have "leading_int 0 (nat_digits v @ u @ rest) = Some (v, u @ rest)"
    using unit_hd [OF u, of rest] by (intro leading_int_nat_digits) (auto simp: unit_char_def)
  then have "parse_number orig (nat_digits v @ u @ rest) = Inr (v, 0, 1, u @ rest)"
    using unit_hd [OF u, of rest] nat_digits_hd [of v "u @ rest"]
    by (auto simp: parse_number_def unit_char_def Let_def)
  then show ?thesis
    using take_unit [OF assms(1,2)] u assms(3) by (simp add: parse_unit_def unit_name_def Let_def)
qed

lemma parse_number_fraction:
  assumes u: "unit_name u unit" and "v \<le> 2 ^ 63" and "0 < m" "m \<le> 18"
  shows "parse_number orig (nat_digits v @ (CHR ''.'' # pad m w) @ u @ rest) = Inr (v, w mod 10 ^ m, 10 ^ m, u @ rest)"
proof -
  let ?s = "nat_digits v @ (CHR ''.'' # pad m w) @ u @ rest"
  have dot: "\<not> is_digit CHR ''.''" by (simp add: is_digit_def digit_of_def Let_def)
  have "pad m w \<noteq> []" using assms(3) by (cases m) auto
  moreover have int: "leading_int 0 ?s = Some (v, (CHR ''.'' # pad m w) @ u @ rest)"
    using dot assms(2) by (intro leading_int_nat_digits) auto
  moreover have "leading_fraction 0 1 False (pad m w @ u @ rest) = (w mod 10 ^ m, 10 ^ m, u @ rest)"
  proof -
    have "(10 :: nat) ^ m \<le> 10 ^ 18" using assms(4) by (intro power_increasing) auto
    then show ?thesis
      using leading_fraction_pad [of 0 m 1 w "u @ rest"] unit_hd [OF u, of rest]
      by (cases "u @ rest") (auto simp: unit_char_def)
  qed
  ultimately show ?thesis
    using nat_digits_hd [of v] by (auto simp: parse_number_def unit_char_def Let_def)
qed

lemma parse_unit_fraction:
  assumes frac: "exact_frac frac" and u: "unit_name u (10 ^ k)" and "ends_number rest" and "k \<le> 9"
    and "v * 10 ^ k + n mod 10 ^ k \<le> 2 ^ 63"
  shows "parse_unit frac orig (nat_digits v @ snd (fmt_frac n k) @ u @ rest) = Inr (v * 10 ^ k + n mod 10 ^ k, rest)"
proof -
  have v: "v * 10 ^ k \<le> 2 ^ 63" "v \<le> 2 ^ 63 div 10 ^ k"
    using assms(5) by (auto simp: less_eq_div_iff_mult_less_eq)
  from frac_digits_skipping [of k n] show ?thesis
  proof (elim disjE exE conjE)
    assume "10 ^ k dvd n" "frac_digits k n False [] = (n div 10 ^ k, False, [])"
    with parse_unit_whole [OF u assms(3) v(2)] show ?thesis by (auto simp: fmt_frac_def dvd_eq_mod_eq_0)
  next
    fix j assume j: "j < k" "10 ^ j dvd n" "n mod 10 ^ k \<noteq> 0"
      and f: "frac_digits k n False [] = (n div 10 ^ k, True, pad (k - j) (n div 10 ^ j))"
    let ?m = "k - j" and ?w = "n div 10 ^ j mod 10 ^ (k - j)"
    have split: "10 ^ k = 10 ^ j * (10 :: nat) ^ ?m" using j(1) by (simp add: power_add [symmetric])
    have w: "?w * 10 ^ j = n mod 10 ^ k"
      using j(2) mod_mult2_eq [of n "10 ^ j" "10 ^ ?m"] unfolding split by (simp add: dvd_eq_mod_eq_0 mult.commute)
    then have "?w > 0" using j(3) by (metis gr0I mult_0)
    moreover have "frac ?w (10 ^ k) (10 ^ ?m) = n mod 10 ^ k"
    proof -
      have "(10 :: nat) ^ k \<le> 10 ^ 9" using assms(4) by (intro power_increasing) auto
      then have "(10 :: nat) ^ k < 2 ^ 53" by simp
      moreover have "10 ^ k div 10 ^ ?m = (10 :: nat) ^ j" unfolding split by simp
      moreover have "10 ^ ?m dvd (10 :: nat) ^ k" unfolding split by simp
      ultimately show ?thesis using frac w unfolding exact_frac_def by simp
    qed
    moreover have "v \<le> 2 ^ 63" using v(2) by (meson div_le_dividend le_trans)
    ultimately show ?thesis
      using parse_number_fraction [OF u, of v ?m orig "n div 10 ^ j" rest] f j(1) assms(4,5) v(2)
        take_unit [OF u assms(3)] u
      by (simp add: fmt_frac_def parse_unit_def unit_name_def Let_def)
  qed
qed

lemma parse_units_step:
  assumes "parse_unit frac orig s = Inr (w, s')" and "d + w \<le> 2 ^ 63" and "s \<noteq> []"
  shows "parse_units frac orig d s = parse_units frac orig (d + w) s'"
  using assms by (simp add: parse_units.simps [of frac orig d s] Let_def)

lemma parse_units_done [simp]: "parse_units frac orig d [] = Inr d"
  by (simp add: parse_units.simps)

lemma parse_units_whole:
  assumes "unit_name u unit" and "ends_number rest" and "d + v * unit \<le> 2 ^ 63"
  shows "parse_units frac orig d (nat_digits v @ u @ rest) = parse_units frac orig (d + v * unit) rest"
proof (rule parse_units_step [OF parse_unit_whole [OF assms(1,2)]])
  show "v \<le> 2 ^ 63 div unit" using assms(1,3) by (simp add: less_eq_div_iff_mult_less_eq unit_name_def)
qed (use assms(3) in simp_all)

lemma parse_units_fraction:
  assumes "exact_frac frac" and "unit_name u (10 ^ k)" and "k \<le> 9" and "d + (v * 10 ^ k + n mod 10 ^ k) \<le> 2 ^ 63"
  shows "parse_units frac orig d (nat_digits v @ snd (fmt_frac n k) @ u) = Inr (d + (v * 10 ^ k + n mod 10 ^ k))"
  using parse_units_step [OF parse_unit_fraction [OF assms(1,2) _ assms(3), of "[]" v n orig] assms(4)] assms(4)
  by (simp add: ends_number_def)

lemma ends_number_digits [simp]: "ends_number (nat_digits n @ s)"
  using nat_digits_hd [of n s] by (simp add: ends_number_def unit_char_def)

lemma fmt_frac_div: "fst (fmt_frac n k) = n div 10 ^ k"
  using frac_digits_skipping [of k n] by (auto simp: fmt_frac_def)

text \<open>\<open>Duration.String\<close> without the sign, from one second on and below.\<close>

definition clock_body :: "nat \<Rightarrow> string \<Rightarrow> string" where
  "clock_body secs f =
     (let mins = secs div 60; hours = mins div 60;
          s = nat_digits (secs mod 60) @ f @ ''s'';
          m = nat_digits (mins mod 60) @ ''m'' @ s
      in if mins = 0 then s else if hours = 0 then m else nat_digits hours @ ''h'' @ m)"

definition duration_body :: "nat \<Rightarrow> string" where
  "duration_body u =
     (if u = 0 then ''0s''
      else if u < 1000 then nat_digits u @ ''ns''
      else if u < 1000000 then nat_digits (fst (fmt_frac u 3)) @ snd (fmt_frac u 3) @ micro_sign @ ''s''
      else if u < 1000000000 then nat_digits (fst (fmt_frac u 6)) @ snd (fmt_frac u 6) @ ''ms''
      else clock_body (fst (fmt_frac u 9)) (snd (fmt_frac u 9)))"

lemma duration_string_body:
  "duration_string d = (if d < 0 then ''-'' @ duration_body (nat \<bar>d\<bar>) else duration_body (nat \<bar>d\<bar>))"
proof -
  define u where "u = nat \<bar>d\<bar>"
  have "d < 0 \<longrightarrow> u \<noteq> 0" by (simp add: u_def)
  then show ?thesis
    unfolding duration_string_def u_def [symmetric] duration_body_def clock_body_def Let_def case_prod_beta micro_sign_def
    by auto
qed

lemma clock_body_shape: "is_digit (hd (clock_body secs f))" "clock_body secs f \<noteq> []" "last (clock_body secs f) = CHR ''s''"
  by (simp_all add: clock_body_def Let_def nat_digits_hd)

lemma duration_body_shape: "is_digit (hd (duration_body u))" "duration_body u \<noteq> []" "duration_body u \<noteq> ''0''"
proof -
  have "is_digit CHR ''0''" by code_simp
  then show "is_digit (hd (duration_body u))" by (simp add: duration_body_def nat_digits_hd clock_body_shape)
  show "duration_body u \<noteq> []" by (simp add: duration_body_def clock_body_shape)
  have "last (duration_body u) = CHR ''s''" by (simp add: duration_body_def clock_body_shape)
  then show "duration_body u \<noteq> ''0''" by auto
qed

lemma base60: "t < 60 \<Longrightarrow> (a * 60 + t) div 60 = a" "t < 60 \<Longrightarrow> (a * 60 + t) mod 60 = t" for t a :: nat
  by simp_all

lemma parse_clock_body:
  assumes frac: "exact_frac frac" and u: "secs * 10 ^ 9 + n mod 10 ^ 9 \<le> 2 ^ 63"
  shows "parse_units frac orig 0 (clock_body secs (snd (fmt_frac n 9))) = Inr (secs * 10 ^ 9 + n mod 10 ^ 9)"
proof -
  define B where "B = (10 :: nat) ^ 9"
  define f where "f = snd (fmt_frac n 9)"
  obtain h m t where secs: "secs = (h * 60 + m) * 60 + t" and small: "t < 60" "m < 60"
    using mod_less_divisor [of 60 "secs div 60"] mod_less_divisor [of 60 secs] by (metis div_mult_mod_eq zero_less_numeral)
  let ?S = "nat_digits t @ f @ ''s''" and ?t = "t * B + n mod B"
  have le: "h * (3600 * B) + m * (60 * B) + ?t \<le> 2 ^ 63"
    using u [folded B_def] by (simp add: secs algebra_simps)
  have S: "parse_units frac orig d ?S = Inr (d + ?t)" if "d + ?t \<le> 2 ^ 63" for d
    using parse_units_fraction [OF frac unit_names(4), of d t n orig, folded B_def f_def] that by simp
  have M: "parse_units frac orig d (nat_digits m @ ''m'' @ ?S) = Inr (d + m * (60 * B) + ?t)"
    if "d + m * (60 * B) + ?t \<le> 2 ^ 63" for d
    using parse_units_whole [OF unit_names(5) ends_number_digits, of d m frac orig t "f @ ''s''", folded B_def] S that by simp
  have H: "parse_units frac orig 0 (nat_digits h @ ''h'' @ nat_digits m @ ''m'' @ ?S) = Inr (h * (3600 * B) + m * (60 * B) + ?t)"
  proof -
    have "0 + h * (3600 * B) \<le> 2 ^ 63" using le by linarith
    from parse_units_whole [OF unit_names(6) ends_number_digits, of 0 h frac orig m "''m'' @ ?S", folded B_def, OF this]
    show ?thesis using M [OF le] by simp
  qed
  have body: "clock_body secs f = (if h = 0 then if m = 0 then ?S else nat_digits m @ ''m'' @ ?S
      else nat_digits h @ ''h'' @ nat_digits m @ ''m'' @ ?S)"
  proof -
    have 1: "secs div 60 = h * 60 + m" "secs mod 60 = t" unfolding secs by (rule base60 [OF small(1)])+
    have 2: "(h * 60 + m) div 60 = h" "(h * 60 + m) mod 60 = m" by (rule base60 [OF small(2)])+
    show ?thesis unfolding clock_body_def Let_def 1 2 by auto
  qed
  have sum: "secs * B + n mod B = h * (3600 * B) + m * (60 * B) + ?t"
    by (simp add: secs algebra_simps)
  show ?thesis
    unfolding B_def [symmetric] f_def [symmetric] body sum using S [of 0] M [of 0] H le by simp
qed

lemma parse_duration_body:
  assumes frac: "exact_frac frac" and u: "u \<le> 2 ^ 63"
  shows "parse_units frac orig 0 (duration_body u) = Inr u"
proof -
  consider "u = 0" | "0 < u" "u < 1000" | "1000 \<le> u" "u < 1000000" | "1000000 \<le> u" "u < 1000000000"
    | "1000000000 \<le> u" by linarith
  then show ?thesis
  proof cases
    case 1
    moreover have "nat_digits 0 = ''0''" by code_simp
    ultimately show ?thesis
      using parse_units_whole [OF unit_names(4), of "[]" 0 0 frac orig] by (simp add: duration_body_def ends_number_def)
  next
    case 2
    then show ?thesis
      using parse_units_whole [OF unit_names(1), of "[]" 0 u frac orig] u by (simp add: duration_body_def ends_number_def)
  next
    case 3
    then show ?thesis
      using parse_units_fraction [OF frac unit_names(2), of 0 "u div 10 ^ 3" u orig] u
      by (simp add: duration_body_def fmt_frac_div)
  next
    case 4
    then show ?thesis
      using parse_units_fraction [OF frac unit_names(3), of 0 "u div 10 ^ 6" u orig] u
      by (simp add: duration_body_def fmt_frac_div)
  next
    case 5
    then show ?thesis
      using parse_clock_body [OF frac, of "u div 10 ^ 9" u orig] u by (simp add: duration_body_def fmt_frac_div)
  qed
qed

lemma ParseDuration_string:
  assumes "exact_frac frac" and "in_i64 d"
  shows "ParseDuration frac (duration_string d) = Inr d"
proof -
  define u where "u = nat \<bar>d\<bar>"
  have d: "d = (if d < 0 then - int u else int u)" "u \<le> 2 ^ 63" "\<not> d < 0 \<Longrightarrow> u \<le> 2 ^ 63 - 1"
    using assms(2) by (auto simp: u_def in_i64_def min_int64_def max_int64_def)
  have wrap: "i64 (- i64 (int u)) = - int u"
    using d(2) by (cases "u = 2 ^ 63") (auto simp: i64_id in_i64_def min_int64_def max_int64_def, simp add: i64_def)
  have sign: "\<not> is_digit CHR ''-''" "\<not> is_digit CHR ''+''" by code_simp+
  show ?thesis
    using parse_duration_body [OF assms(1) d(2)] duration_body_shape [of u] d sign wrap
    by (cases "d < 0") (auto simp: ParseDuration_def duration_string_body u_def [symmetric] Let_def)
qed

end
