(* ===== verification/Go_Utf8.thy ===== *)
theory Go_Utf8
  imports Go_Strings
begin

text \<open>
  The parts of Go's \<open>unicode/utf8\<close>, \<open>bytes\<close> and \<open>strings\<close> that look at runes: \<open>DecodeRune\<close>,
  \<open>DecodeLastRune\<close>, \<open>AppendRune\<close>, \<open>unicode.IsSpace\<close>, \<open>TrimSpace\<close> and \<open>strings.Map\<close>. A rune is a natural
  number; invalid input decodes to \<open>RuneError\<close> of size one.
\<close>

section \<open>Decoding and encoding\<close>

definition RuneError :: nat where "RuneError = 65533"

definition byte_of :: "char \<Rightarrow> nat" where
  "byte_of c = of_char c"

definition is_cont :: "nat \<Rightarrow> bool" where
  "is_cont b \<longleftrightarrow> 128 \<le> b \<and> b \<le> 191"

text \<open>What a first byte announces: the size of the sequence and the range of the second byte.\<close>

definition first_byte :: "nat \<Rightarrow> (nat \<times> nat \<times> nat) option" where
  "first_byte b =
     (if 194 \<le> b \<and> b \<le> 223 then Some (2, 128, 191)
      else if b = 224 then Some (3, 160, 191)
      else if b = 237 then Some (3, 128, 159)
      else if 225 \<le> b \<and> b \<le> 239 then Some (3, 128, 191)
      else if b = 240 then Some (4, 144, 191)
      else if 241 \<le> b \<and> b \<le> 243 then Some (4, 128, 191)
      else if b = 244 then Some (4, 128, 143)
      else None)"

fun decode_rune :: "string \<Rightarrow> nat \<times> nat" where
  "decode_rune [] = (RuneError, 0)"
| "decode_rune (c0 # cs) =
     (let b0 = byte_of c0 in
      if b0 < 128 then (b0, 1)
      else case first_byte b0 of
        None \<Rightarrow> (RuneError, 1)
      | Some (sz, lo, hi) \<Rightarrow>
          (case cs of
             [] \<Rightarrow> (RuneError, 1)
           | c1 # cs1 \<Rightarrow>
               let b1 = byte_of c1 in
               if b1 < lo \<or> hi < b1 then (RuneError, 1)
               else if sz = 2 then (b0 mod 32 * 64 + b1 mod 64, 2)
               else (case cs1 of
                  [] \<Rightarrow> (RuneError, 1)
                | c2 # cs2 \<Rightarrow>
                    let b2 = byte_of c2 in
                    if \<not> is_cont b2 then (RuneError, 1)
                    else if sz = 3 then (b0 mod 16 * 4096 + b1 mod 64 * 64 + b2 mod 64, 3)
                    else (case cs2 of
                       [] \<Rightarrow> (RuneError, 1)
                     | c3 # _ \<Rightarrow>
                         let b3 = byte_of c3 in
                         if \<not> is_cont b3 then (RuneError, 1)
                         else (b0 mod 8 * 262144 + b1 mod 64 * 4096 + b2 mod 64 * 64 + b3 mod 64, 4)))))"

definition is_scalar :: "nat \<Rightarrow> bool" where
  "is_scalar r \<longleftrightarrow> r < 55296 \<or> 57344 \<le> r \<and> r < 1114112"

definition encode_scalar :: "nat \<Rightarrow> string" where
  "encode_scalar r =
     map char_of
       (if r < 128 then [r]
        else if r < 2048 then [192 + r div 64, 128 + r mod 64]
        else if r < 65536 then [224 + r div 4096, 128 + r div 64 mod 64, 128 + r mod 64]
        else [240 + r div 262144, 128 + r div 4096 mod 64, 128 + r div 64 mod 64, 128 + r mod 64])"

definition encode_rune :: "nat \<Rightarrow> string" where
  "encode_rune r = encode_scalar (if is_scalar r then r else RuneError)"

lemma byte_of_char_of [simp]: "n < 256 \<Longrightarrow> byte_of (char_of n) = n"
  by (simp add: byte_of_def)

lemma byte_of_less: "byte_of c < 256"
  by (simp add: byte_of_def)

lemma decode_size: "cs \<noteq> [] \<Longrightarrow> 0 < snd (decode_rune cs) \<and> snd (decode_rune cs) \<le> length cs"
  by (cases cs) (auto simp: Let_def split: option.splits list.splits)

lemma decode_two:
  "2 \<le> x \<Longrightarrow> x < 32 \<Longrightarrow> y < 64 \<Longrightarrow>
   decode_rune (char_of (192 + x) # char_of (128 + y) # s) = (x * 64 + y, 2)"
  by (simp add: first_byte_def Let_def mod_add_left_eq [symmetric, of 192] mod_add_left_eq [symmetric, of 128])

lemma decode_three:
  assumes "x < 16" "y < 64" "z < 64" and "x = 0 \<Longrightarrow> 32 \<le> y" and "x = 13 \<Longrightarrow> y < 32"
  shows "decode_rune (char_of (224 + x) # char_of (128 + y) # char_of (128 + z) # s) = (x * 4096 + y * 64 + z, 3)"
  using assms
  by (cases "x = 0") (auto simp: first_byte_def is_cont_def Let_def mod_add_left_eq [symmetric, of 224] mod_add_left_eq [symmetric, of 128])

lemma decode_four:
  assumes "x \<le> 4" "y < 64" "z < 64" "u < 64" and "x = 0 \<Longrightarrow> 16 \<le> y" and "x = 4 \<Longrightarrow> y < 16"
  shows "decode_rune (char_of (240 + x) # char_of (128 + y) # char_of (128 + z) # char_of (128 + u) # s)
    = (x * 262144 + y * 4096 + z * 64 + u, 4)"
  using assms
  by (cases "x = 0"; cases "x = 4") (auto simp: first_byte_def is_cont_def Let_def mod_add_left_eq [symmetric, of 240] mod_add_left_eq [symmetric, of 128])

text \<open>Six-bit groups of a number.\<close>

lemma six_bits: "r = r div 64 * 64 + r mod 64" for r :: nat
  by simp

lemma twelve_bits: "r = r div 4096 * 4096 + r div 64 mod 64 * 64 + r mod 64" for r :: nat
proof -
  have "r div 64 = r div 4096 * 64 + r div 64 mod 64"
    using six_bits [of "r div 64"] by (simp add: div_mult2_eq [symmetric])
  with six_bits [of r] show ?thesis by linarith
qed

lemma eighteen_bits: "r = r div 262144 * 262144 + r div 4096 mod 64 * 4096 + r div 64 mod 64 * 64 + r mod 64" for r :: nat
proof -
  have "r div 4096 = r div 262144 * 64 + r div 4096 mod 64"
    using six_bits [of "r div 4096"] by (simp add: div_mult2_eq [symmetric])
  with twelve_bits [of r] show ?thesis by linarith
qed

lemma decode_encode:
  assumes "is_scalar r"
  shows "decode_rune (encode_rune r @ s) = (r, length (encode_rune r))"
proof -
  consider "r < 128" | "128 \<le> r" "r < 2048" | "2048 \<le> r" "r < 65536" | "65536 \<le> r" by linarith
  then show ?thesis
  proof cases
    case 1
    with assms show ?thesis by (simp add: encode_rune_def encode_scalar_def Let_def)
  next
    case 2
    then have "2 \<le> r div 64" "r div 64 < 32" by linarith+
    then have "decode_rune (char_of (192 + r div 64) # char_of (128 + r mod 64) # s) = (r, 2)"
      using decode_two [of "r div 64" "r mod 64" s] six_bits [of r] by (simp del: decode_rune.simps)
    with 2 assms show ?thesis
      by (simp add: encode_rune_def encode_scalar_def del: decode_rune.simps)
  next
    case 3
    have *: "r div 4096 < 16" "r div 4096 = 0 \<Longrightarrow> 32 \<le> r div 64 mod 64"
      "r div 4096 = 13 \<Longrightarrow> r div 64 mod 64 < 32"
      using 3 assms twelve_bits [of r] unfolding is_scalar_def by linarith+
    have "decode_rune (char_of (224 + r div 4096) # char_of (128 + r div 64 mod 64) # char_of (128 + r mod 64) # s) = (r, 3)"
      using decode_three [OF *(1) _ _ *(2,3), of "r mod 64" s] twelve_bits [of r] by (simp del: decode_rune.simps)
    with 3 assms show ?thesis by (simp add: encode_rune_def encode_scalar_def del: decode_rune.simps)
  next
    case 4
    have *: "r div 262144 \<le> 4" "r div 262144 = 0 \<Longrightarrow> 16 \<le> r div 4096 mod 64"
      "r div 262144 = 4 \<Longrightarrow> r div 4096 mod 64 < 16"
      using 4 assms eighteen_bits [of r] unfolding is_scalar_def by linarith+
    have "decode_rune (char_of (240 + r div 262144) # char_of (128 + r div 4096 mod 64) # char_of (128 + r div 64 mod 64)
        # char_of (128 + r mod 64) # s) = (r, 4)"
      using decode_four [OF *(1) _ _ _ *(2,3), of "r div 64 mod 64" "r mod 64" s] eighteen_bits [of r]
      by (simp del: decode_rune.simps)
    with 4 assms show ?thesis by (simp add: encode_rune_def encode_scalar_def del: decode_rune.simps)
  qed
qed

lemma decode_prefix:
  assumes "p \<noteq> []" and "fst (decode_rune p) \<noteq> RuneError"
  shows "decode_rune (p @ q) = decode_rune p"
proof -
  consider (1) c0 where "p = [c0]" | (2) c0 c1 where "p = [c0, c1]" | (3) c0 c1 c2 where "p = [c0, c1, c2]"
    | (4) c0 c1 c2 c3 s where "p = c0 # c1 # c2 # c3 # s"
    using assms(1) by (metis list.exhaust)
  then show ?thesis
    by cases (use assms(2) in \<open>auto simp: Let_def split: option.splits if_splits\<close>)
qed

section \<open>Runes of a string\<close>

function runes :: "string \<Rightarrow> nat list" where
  "runes s = (if s = [] then [] else fst (decode_rune s) # runes (drop (snd (decode_rune s)) s))"
  by auto
termination
  by (relation "measure length") (use decode_size in fastforce)+

declare runes.simps [simp del]

definition encode :: "nat list \<Rightarrow> string" where
  "encode rs = concat (map encode_rune rs)"

lemma runes_Nil [simp]: "runes [] = []"
  by (simp add: runes.simps)

lemma encode_simps [simp]: "encode [] = []" "encode (r # rs) = encode_rune r @ encode rs" "encode (xs @ ys) = encode xs @ encode ys"
  by (simp_all add: encode_def)

lemma encode_rune_not_Nil [simp]: "encode_rune r \<noteq> []"
  by (simp add: encode_rune_def encode_scalar_def)

lemma runes_encode: "(\<And>r. r \<in> set rs \<Longrightarrow> is_scalar r) \<Longrightarrow> runes (encode rs) = rs"
proof (induction rs)
  case (Cons r rs)
  then show ?case by (subst runes.simps) (simp add: decode_encode)
qed simp

text \<open>\<open>strings.Map(filter, s)\<close> where \<open>filter\<close> keeps the runes of \<open>p\<close> and drops the others.\<close>

definition strings_filter :: "(nat \<Rightarrow> bool) \<Rightarrow> string \<Rightarrow> string" where
  "strings_filter p s = encode (filter p (runes s))"

section \<open>White space\<close>

definition IsSpace :: "nat \<Rightarrow> bool" where
  "IsSpace r \<longleftrightarrow> 9 \<le> r \<and> r \<le> 13 \<or> r = 32 \<or> r = 133 \<or> r = 160 \<or> r = 5760 \<or> 8192 \<le> r \<and> r \<le> 8202
     \<or> r = 8232 \<or> r = 8233 \<or> r = 8239 \<or> r = 8287 \<or> r = 12288"

definition decode_last :: "string \<Rightarrow> nat \<times> nat" where
  "decode_last s =
     (if s = [] then (RuneError, 0)
      else if byte_of (last s) < 128 then (byte_of (last s), 1)
      else let n = length s;
               j = (case find (\<lambda>j. j \<le> n \<and> \<not> is_cont (byte_of (s ! (n - j)))) [2, 3, 4] of
                      Some j \<Rightarrow> j | None \<Rightarrow> min n 5);
               (r, sz) = decode_rune (drop (n - j) s)
           in if sz = j then (r, sz) else (RuneError, 1))"

function trim_left :: "string \<Rightarrow> string" where
  "trim_left s =
     (if s \<noteq> [] \<and> IsSpace (fst (decode_rune s)) then trim_left (drop (snd (decode_rune s)) s) else s)"
  by auto
termination
  by (relation "measure length") (use decode_size in fastforce)+

lemma decode_last_size: "s \<noteq> [] \<Longrightarrow> 0 < snd (decode_last s)"
  by (auto simp: decode_last_def Let_def find_Some_iff split: option.splits prod.splits)

function trim_right :: "string \<Rightarrow> string" where
  "trim_right s =
     (if s \<noteq> [] \<and> IsSpace (fst (decode_last s)) then trim_right (take (length s - snd (decode_last s)) s) else s)"
  by auto
termination
  by (relation "measure length") (use decode_last_size in fastforce)+

declare trim_left.simps [simp del] trim_right.simps [simp del]

definition TrimSpace :: "string \<Rightarrow> string" where
  "TrimSpace s = trim_right (trim_left s)"

lemma trim_left_done: "trim_left s = [] \<or> \<not> IsSpace (fst (decode_rune (trim_left s)))"
  by (induction s rule: trim_left.induct) (metis trim_left.simps)

lemma trim_right_done: "trim_right s = [] \<or> \<not> IsSpace (fst (decode_last (trim_right s)))"
  by (induction s rule: trim_right.induct) (metis trim_right.simps)

lemma trim_left_suffix: "\<exists>w. s = w @ trim_left s"
proof (induction s rule: trim_left.induct)
  case (1 s)
  show ?case
  proof (cases "s \<noteq> [] \<and> IsSpace (fst (decode_rune s))")
    case True
    from "1.IH" [OF True] obtain w where "drop (snd (decode_rune s)) s = w @ trim_left (drop (snd (decode_rune s)) s)" ..
    moreover have "trim_left s = trim_left (drop (snd (decode_rune s)) s)"
      using True by (simp add: trim_left.simps [of s])
    ultimately have "s = (take (snd (decode_rune s)) s @ w) @ trim_left s"
      by (metis append.assoc append_take_drop_id)
    then show ?thesis ..
  next
    case False
    then have "s = [] @ trim_left s" by (auto simp add: trim_left.simps [of s])
    then show ?thesis ..
  qed
qed

lemma trim_right_prefix: "\<exists>w. s = trim_right s @ w"
proof (induction s rule: trim_right.induct)
  case (1 s)
  define n where "n = length s - snd (decode_last s)"
  show ?case
  proof (cases "s \<noteq> [] \<and> IsSpace (fst (decode_last s))")
    case True
    from "1.IH" [OF True, folded n_def] obtain w where "take n s = trim_right (take n s) @ w" ..
    moreover have "trim_right s = trim_right (take n s)"
      using True by (simp add: trim_right.simps [of s] n_def)
    ultimately have "s = trim_right s @ (w @ drop n s)"
      by (metis append.assoc append_take_drop_id)
    then show ?thesis ..
  next
    case False
    then have "s = trim_right s @ []" by (auto simp add: trim_right.simps [of s])
    then show ?thesis ..
  qed
qed

lemma TrimSpace_infix: "\<exists>v w. s = v @ TrimSpace s @ w"
  by (metis TrimSpace_def trim_left_suffix trim_right_prefix)

lemma not_space_error [simp]: "\<not> IsSpace RuneError"
  by (simp add: IsSpace_def RuneError_def)

lemma TrimSpace_idem [simp]: "TrimSpace (TrimSpace s) = TrimSpace s"
proof -
  let ?t = "TrimSpace s"
  obtain w where w: "trim_left s = ?t @ w" by (metis TrimSpace_def trim_right_prefix)
  have "trim_left ?t = ?t"
  proof (cases "?t = []")
    case False
    have "\<not> IsSpace (fst (decode_rune ?t))"
    proof
      assume sp: "IsSpace (fst (decode_rune ?t))"
      then have "decode_rune (?t @ w) = decode_rune ?t" by (intro decode_prefix [OF False]) auto
      with sp w False trim_left_done [of s] show False by auto
    qed
    then show ?thesis by (simp add: trim_left.simps [of ?t])
  qed (simp add: trim_left.simps [of "[]"])
  moreover have "trim_right ?t = ?t"
    using trim_right_done [of "trim_left s"] by (auto simp: TrimSpace_def trim_right.simps [of "trim_right (trim_left s)"])
  ultimately show ?thesis by (simp add: TrimSpace_def)
qed

end
