(* ===== verification/Dbutil.thy ===== *)
theory Dbutil
  imports Go_Duration Go_Utf8
begin

text \<open>
  Package \<open>dbutil\<close>: \<open>Duration\<close> and \<open>JSONField\<close> as column and JSON values, \<open>Pagination\<close>,
  \<open>FindResponseWithCount\<close> and \<open>WrapTx\<close>. A method on a pointer receiver takes the old value and gives
  the error and the new value. The JSON codec and the database driver are parameters.
\<close>

section \<open>Errors and driver values\<close>

datatype 'je db_error =
    JsonError 'je
  | BadDuration duration_error
  | UnsupportedScanType
  | CannotScanIntoJSONField
  | InvalidJSONInDatabase string
  | InvalidJSONData
  | NilJSONField
  | FailedToMarshal 'je

text \<open>An \<open>any\<close> as the drivers and callers hand it over: nil, a string, bytes or anything else.\<close>

datatype 'o dbvalue = VNil | VString string | VBytes string | VOther 'o

section \<open>Duration (\<open>duration.go\<close>)\<close>

definition set_duration :: "(nat \<Rightarrow> nat \<Rightarrow> nat \<Rightarrow> nat) \<Rightarrow> string \<Rightarrow> int \<Rightarrow> 'je db_error option \<times> int" where
  "set_duration frac s d =
     (case ParseDuration frac s of Inl e \<Rightarrow> (Some (BadDuration e), d) | Inr d' \<Rightarrow> (None, d'))"

definition Duration_UnmarshalJSON ::
  "(nat \<Rightarrow> nat \<Rightarrow> nat \<Rightarrow> nat) \<Rightarrow> (string \<Rightarrow> 'je + string) \<Rightarrow> string \<Rightarrow> int \<Rightarrow> 'je db_error option \<times> int" where
  "Duration_UnmarshalJSON frac unmarshal data d =
     (case unmarshal data of Inl e \<Rightarrow> (Some (JsonError e), d) | Inr s \<Rightarrow> set_duration frac s d)"

definition Duration_MarshalJSON :: "(string \<Rightarrow> 'je + string) \<Rightarrow> int \<Rightarrow> 'je + string" where
  "Duration_MarshalJSON marshal d = marshal (duration_string d)"

definition Duration_Value :: "int \<Rightarrow> 'o dbvalue" where
  "Duration_Value d = VString (duration_string d)"

definition Duration_Scan :: "(nat \<Rightarrow> nat \<Rightarrow> nat \<Rightarrow> nat) \<Rightarrow> 'o dbvalue \<Rightarrow> int \<Rightarrow> 'je db_error option \<times> int" where
  "Duration_Scan frac val d =
     (case val of
        VString s \<Rightarrow> set_duration frac s d
      | VBytes s \<Rightarrow> set_duration frac s d
      | _ \<Rightarrow> (Some UnsupportedScanType, d))"

definition Duration_String :: "int \<Rightarrow> string" where
  "Duration_String d = duration_string d"

section \<open>JSONField (\<open>json.go\<close>)\<close>

text \<open>\<open>None\<close> is the nil slice.\<close>

type_synonym jsonfield = "string option"

definition field_bytes :: "jsonfield \<Rightarrow> string" where
  "field_bytes j = (case j of None \<Rightarrow> [] | Some b \<Rightarrow> b)"

definition JSONField_MarshalJSON :: "jsonfield \<Rightarrow> string" where
  "JSONField_MarshalJSON j = (if field_bytes j = [] then ''null'' else field_bytes j)"

definition JSONField_UnmarshalJSON :: "string \<Rightarrow> jsonfield option \<Rightarrow> 'je db_error option \<times> jsonfield option" where
  \<comment> \<open>the receiver may be a nil pointer; appending nothing to a nil slice leaves it nil\<close>
  "JSONField_UnmarshalJSON data ptr =
     (case ptr of
        None \<Rightarrow> (Some NilJSONField, None)
      | Some j \<Rightarrow> (None, Some (if j = None \<and> data = [] then None else Some data)))"

definition UnmarshalFromAny :: "('o \<Rightarrow> 'je + string) \<Rightarrow> 'o dbvalue \<Rightarrow> jsonfield \<Rightarrow> 'je db_error option \<times> jsonfield" where
  "UnmarshalFromAny marshal val j =
     (case val of
        VNil \<Rightarrow> (None, None)
      | VString s \<Rightarrow> (None, Some s)
      | VBytes s \<Rightarrow> (None, Some s)
      | VOther v \<Rightarrow> (case marshal v of Inl e \<Rightarrow> (Some (FailedToMarshal e), j) | Inr b \<Rightarrow> (None, Some b)))"

definition scan_json :: "(string \<Rightarrow> bool) \<Rightarrow> string \<Rightarrow> jsonfield \<Rightarrow> 'je db_error option \<times> jsonfield" where
  "scan_json json_valid data j =
     (let trimmed = TrimSpace data in
      if trimmed = [] then (None, None)
      else if \<not> json_valid trimmed then (Some (InvalidJSONInDatabase data), j)
      else (None, Some trimmed))"

definition JSONField_Scan :: "(string \<Rightarrow> bool) \<Rightarrow> 'o dbvalue \<Rightarrow> jsonfield \<Rightarrow> 'je db_error option \<times> jsonfield" where
  "JSONField_Scan json_valid val j =
     (case val of
        VNil \<Rightarrow> (None, None)
      | VString s \<Rightarrow> scan_json json_valid s j
      | VBytes s \<Rightarrow> scan_json json_valid s j
      | VOther _ \<Rightarrow> (Some CannotScanIntoJSONField, j))"

definition JSONField_Value :: "(string \<Rightarrow> bool) \<Rightarrow> jsonfield \<Rightarrow> 'je db_error + 'o dbvalue" where
  "JSONField_Value json_valid j =
     (if field_bytes j = [] then Inr VNil
      else if \<not> json_valid (field_bytes j) then Inl InvalidJSONData
      else Inr (VString (field_bytes j)))"

definition ConvertToMap :: "(string \<Rightarrow> 'je + (string, 'v) gomap) \<Rightarrow> jsonfield \<Rightarrow> (string, 'v) gomap" where
  "ConvertToMap unmarshal j =
     (if field_bytes j = [] then Some Mapping.empty
      else case unmarshal (field_bytes j) of Inl _ \<Rightarrow> Some Mapping.empty | Inr m \<Rightarrow> m)"

definition ConvertToAny :: "(string \<Rightarrow> 'd \<Rightarrow> 'je option \<times> 'd) \<Rightarrow> jsonfield \<Rightarrow> 'd \<Rightarrow> 'je option \<times> 'd" where
  "ConvertToAny unmarshal_into j dst =
     (if field_bytes j = [] then (None, dst) else unmarshal_into (field_bytes j) dst)"

section \<open>Pagination (\<open>pagination.go\<close>, \<open>response.go\<close>)\<close>

type_synonym uint32 = "32 word"

record pagination_options = MaxLimit :: uint32

type_synonym pagination_option = "pagination_options \<Rightarrow> pagination_options"

definition WithMaxLimit :: "uint32 \<Rightarrow> pagination_option" where
  "WithMaxLimit v o1 = o1\<lparr>MaxLimit := v\<rparr>"

datatype pagination_error = PageZero | PageSizeTooSmall | PageSizeTooBig uint32

definition max_limit :: "pagination_option list \<Rightarrow> uint32" where
  "max_limit opts = MaxLimit (foldl (\<lambda>o1 opt. opt o1) \<lparr>MaxLimit = 0\<rparr> opts)"

definition Pagination ::
  "uint32 option \<Rightarrow> uint32 option \<Rightarrow> pagination_option list \<Rightarrow> pagination_error + uint32 \<times> uint32" where
  "Pagination page pageSize opts =
     (let limit = (case pageSize of None \<Rightarrow> 100 | Some n \<Rightarrow> n);
          offset = (case page of None \<Rightarrow> 0 | Some p \<Rightarrow> (p - 1) * limit)
      in if page = Some 0 then Inl PageZero
         else if limit < 1 then Inl PageSizeTooSmall
         else if max_limit opts > 0 \<and> limit > max_limit opts then Inl (PageSizeTooBig (max_limit opts))
         else Inr (limit, offset))"

record 'a find_response =
  Items :: "'a list option"
  Count :: uint32

definition NewFindResponseWithCount :: "'a list option \<Rightarrow> uint32 \<Rightarrow> 'a find_response" where
  "NewFindResponseWithCount items count =
     \<lparr>Items = (if items = None then Some [] else items), Count = count\<rparr>"

section \<open>Transactions (\<open>tx.go\<close>)\<close>

text \<open>
  A \<open>sql.Tx\<close> hands at most one \<open>Commit\<close> or \<open>Rollback\<close> to the driver; later calls get \<open>ErrTxDone\<close>.
  \<open>Commit\<close> refuses when the context has ended. The log records what the driver was asked. A
  \<open>txFunc\<close> stands for everything that happens while it runs, also for the rollback \<open>database/sql\<close>
  issues when the context ends meanwhile; it may return or panic.
\<close>

datatype tx_event = TxBegin | TxFn | TxCommit | TxRollback

record ('w, 'e) sql_driver =
  drv_begin :: "'w \<Rightarrow> 'e option \<times> 'w"
  drv_commit :: "'w \<Rightarrow> 'e option \<times> 'w"
  drv_rollback :: "'w \<Rightarrow> 'e option \<times> 'w"
  ctx_err :: "'w \<Rightarrow> 'e option"
  ErrTxDone :: 'e

record 'w tx =
  tx_done :: bool
  tx_log :: "tx_event list"
  db :: 'w

datatype 'e fn_result = FnReturned "'e option" | FnPanicked

definition tx_Commit :: "('w, 'e) sql_driver \<Rightarrow> 'w tx \<Rightarrow> 'e option \<times> 'w tx" where
  "tx_Commit drv t =
     (if tx_done t then (Some (ErrTxDone drv), t)
      else case ctx_err drv (db t) of
        Some e \<Rightarrow> (Some e, t)
      | None \<Rightarrow>
          let (e, w) = drv_commit drv (db t)
          in (e, t\<lparr>tx_done := True, tx_log := tx_log t @ [TxCommit], db := w\<rparr>))"

definition tx_Rollback :: "('w, 'e) sql_driver \<Rightarrow> 'w tx \<Rightarrow> 'e option \<times> 'w tx" where
  "tx_Rollback drv t =
     (if tx_done t then (Some (ErrTxDone drv), t)
      else let (e, w) = drv_rollback drv (db t)
           in (e, t\<lparr>tx_done := True, tx_log := tx_log t @ [TxRollback], db := w\<rparr>))"

text \<open>The deferred \<open>Rollback\<close> runs on every way out once the transaction has begun.\<close>

definition WrapTx ::
  "('w, 'e) sql_driver \<Rightarrow> ('w tx \<Rightarrow> 'e fn_result \<times> 'w tx) \<Rightarrow> 'w \<Rightarrow> 'e fn_result \<times> 'w tx" where
  "WrapTx drv txFunc w0 =
     (let (e, w) = drv_begin drv w0; t0 = \<lparr>tx_done = False, tx_log = [TxBegin], db = w\<rparr> in
      if e \<noteq> None then (FnReturned e, t0)
      else let (r, t1) = txFunc (t0\<lparr>tx_log := tx_log t0 @ [TxFn]\<rparr>);
               (r', t2) = (if r = FnReturned None
                           then (let (ce, t) = tx_Commit drv t1 in (FnReturned ce, t))
                           else (r, t1))
           in (r', snd (tx_Rollback drv t2)))"

end
