(* ===== verification/Dbutil_Props.thy ===== *)
theory Dbutil_Props
  imports Dbutil
begin

text \<open>
  Properties of \<open>dbutil\<close>: durations and JSON columns survive the database, pages partition the rows as
  long as the offset fits, and a transaction ends exactly once.
\<close>

section \<open>Durations\<close>

text \<open>C33. Every duration of the 64-bit range is read back unchanged from what \<open>Value\<close> stores, as a string
  or as bytes, and from what \<open>MarshalJSON\<close> writes.\<close>

theorem duration_roundtrip:
  assumes "exact_frac frac" and "in_i64 d"
    and "\<forall>s. marshal (duration_string d) = Inr s \<longrightarrow> unmarshal s = Inr (duration_string d)"
  shows "Duration_Scan frac (Duration_Value d) old = (None, d)
    \<and> Duration_Scan frac (VBytes (Duration_String d)) old = (None, d)
    \<and> (Duration_MarshalJSON marshal d = Inr s \<longrightarrow> Duration_UnmarshalJSON frac unmarshal s old = (None, d))"
  using ParseDuration_string [OF assms(1,2)] assms(3)
  by (simp add: Duration_Scan_def Duration_Value_def Duration_String_def Duration_MarshalJSON_def
      Duration_UnmarshalJSON_def set_duration_def)

text \<open>An unreadable value is an error and leaves the duration as it was.\<close>

lemma duration_scan_error: "Duration_Scan frac v d = (Some e, d') \<Longrightarrow> d' = d"
  by (auto simp: Duration_Scan_def set_duration_def split: dbvalue.splits sum.splits)

section \<open>JSON columns\<close>

definition stored_json :: "(string \<Rightarrow> bool) \<Rightarrow> jsonfield \<Rightarrow> bool" where
  "stored_json json_valid j \<longleftrightarrow> j = None \<or> (\<exists>b. j = Some b \<and> b \<noteq> [] \<and> json_valid b \<and> TrimSpace b = b)"

lemma scan_json_result:
  "case (scan_json json_valid data j :: 'je db_error option \<times> jsonfield) of (Some e, j') \<Rightarrow> j' = j
   | (None, j') \<Rightarrow> stored_json json_valid j' \<and> (\<forall>b. j' = Some b \<longrightarrow> (\<exists>x y. data = x @ b @ y))"
  using TrimSpace_infix [of data] by (auto simp: scan_json_def stored_json_def Let_def)

lemma stored_json_Value:
  "stored_json json_valid j \<Longrightarrow> JSONField_Value json_valid j = Inr (case j of None \<Rightarrow> VNil | Some b \<Rightarrow> VString b)"
  by (auto simp: stored_json_def JSONField_Value_def field_bytes_def)

lemma stored_json_Scan:
  "JSONField_Scan json_valid VNil any = (None, None)"
  "stored_json json_valid (Some b) \<Longrightarrow> JSONField_Scan json_valid (VString b) any = (None, Some b)"
  by (auto simp: stored_json_def JSONField_Scan_def scan_json_def Let_def)

text \<open>C34. A column read without error is nil or valid JSON without surrounding white space, a contiguous
  part of the data; \<open>Value\<close> accepts it and reading that back gives it again. After an error the field
  is unchanged.\<close>

theorem JSONField_Scan_typed:
  "case (JSONField_Scan json_valid v j :: 'je db_error option \<times> jsonfield) of
     (Some e, j') \<Rightarrow> j' = j
   | (None, j') \<Rightarrow>
       stored_json json_valid j'
       \<and> (\<forall>b data. j' = Some b \<and> v \<in> {VString data, VBytes data} \<longrightarrow> (\<exists>x y. data = x @ b @ y))
       \<and> (case JSONField_Value json_valid j' of
            Inl e \<Rightarrow> False
          | Inr w \<Rightarrow> w = (case j' of None \<Rightarrow> VNil | Some b \<Rightarrow> VString b)
                    \<and> JSONField_Scan json_valid w any = (None, j'))"
proof (cases v)
  case (VString data)
  then have "JSONField_Scan json_valid v j = (scan_json json_valid data j :: 'je db_error option \<times> jsonfield)"
    by (simp add: JSONField_Scan_def)
  with scan_json_result [where ?'je = 'je, of json_valid data j] VString show ?thesis
    by (auto simp: stored_json_Value stored_json_Scan split: prod.splits option.splits)
next
  case (VBytes data)
  then have "JSONField_Scan json_valid v j = (scan_json json_valid data j :: 'je db_error option \<times> jsonfield)"
    by (simp add: JSONField_Scan_def)
  with scan_json_result [where ?'je = 'je, of json_valid data j] VBytes show ?thesis
    by (auto simp: stored_json_Value stored_json_Scan split: prod.splits option.splits)
qed (simp_all add: JSONField_Scan_def stored_json_def JSONField_Value_def field_bytes_def)

text \<open>\<open>UnmarshalJSON\<close> and \<open>UnmarshalFromAny\<close> validate nothing, but \<open>Value\<close> refuses what is not JSON.\<close>

lemma Value_validates: "JSONField_Value json_valid j = Inr (VString b) \<Longrightarrow> json_valid b"
  by (auto simp: JSONField_Value_def split: if_splits)

section \<open>Pagination\<close>

lemma page_rows:
  assumes "1 \<le> (n :: nat)"
  shows "q * n \<le> i \<and> i < q * n + n \<longleftrightarrow> i div n = q"
proof
  assume "q * n \<le> i \<and> i < q * n + n"
  then show "i div n = q" by (intro div_nat_eqI) (simp_all add: algebra_simps)
next
  assume "i div n = q"
  with assms show "q * n \<le> i \<and> i < q * n + n"
    using div_mult_mod_eq [of i n] mod_less_divisor [of n i] by (metis add_less_cancel_left le_add1 less_le_trans zero_less_one)
qed

text \<open>C36. A page is accepted exactly when its number and size are at least one and the size is within the
  maximum; as long as its offset fits 32 bits, the accepted page \<open>p\<close> holds exactly the rows \<open>i\<close> with
  \<open>i div limit = p - 1\<close>, so that the pages of one size partition the rows.\<close>

theorem Pagination_partitions:
  "case Pagination page pageSize opts of
     Inl e \<Rightarrow> page = Some 0 \<or> pageSize = Some 0
       \<or> (max_limit opts \<noteq> 0 \<and> (case pageSize of None \<Rightarrow> 100 | Some n \<Rightarrow> n) > max_limit opts)
   | Inr (limit, offset) \<Rightarrow>
       let p = (case page of None \<Rightarrow> 1 | Some p \<Rightarrow> unat p) in
       1 \<le> p \<and> limit = (case pageSize of None \<Rightarrow> 100 | Some n \<Rightarrow> n) \<and> 1 \<le> unat limit
       \<and> (max_limit opts \<noteq> 0 \<longrightarrow> limit \<le> max_limit opts)
       \<and> unat offset = (p - 1) * unat limit mod 2 ^ 32
       \<and> ((p - 1) * unat limit < 2 ^ 32 \<longrightarrow>
            unat offset \<le> i \<and> i < unat offset + unat limit \<longleftrightarrow> i div unat limit = p - 1)"
proof (cases "Pagination page pageSize opts")
  case (Inl e)
  then show ?thesis
    by (auto simp: Pagination_def Let_def word_gt_0 word_less_1 split: if_splits option.splits)
next
  case (Inr r)
  obtain limit offset where r: "r = (limit, offset)" by (cases r)
  let ?p = "case page of None \<Rightarrow> 1 | Some p \<Rightarrow> unat p"
  have facts: "page \<noteq> Some 0" "limit = (case pageSize of None \<Rightarrow> 100 | Some n \<Rightarrow> n)" "limit \<noteq> 0"
    "offset = (case page of None \<Rightarrow> 0 | Some p \<Rightarrow> (p - 1) * limit)"
    "max_limit opts \<noteq> 0 \<longrightarrow> limit \<le> max_limit opts"
    using Inr r by (auto simp: Pagination_def Let_def word_gt_0 word_less_1 not_less split: if_splits)
  have p: "1 \<le> ?p"
    using facts(1) by (cases page) (auto simp: Suc_le_eq unat_gt_0)
  have limit: "1 \<le> unat limit" using facts(3) by (simp add: Suc_le_eq unat_gt_0)
  have offset: "unat offset = (?p - 1) * unat limit mod 2 ^ 32"
  proof (cases page)
    case (Some p)
    then have "unat (p - 1) = unat p - 1" using facts(1) by (simp add: unat_minus_one)
    with Some facts(4) show ?thesis by (simp add: unat_word_ariths)
  qed (use facts(4) in simp)
  have "unat offset \<le> i \<and> i < unat offset + unat limit \<longleftrightarrow> i div unat limit = ?p - 1"
    if "(?p - 1) * unat limit < 2 ^ 32"
    using that offset limit page_rows [of "unat limit" "?p - 1" i] by simp
  with Inr r facts p limit offset show ?thesis by (simp add: Let_def)
qed

text \<open>The product is not checked: a page whose offset does not fit 32 bits gets a small offset.\<close>

lemma pagination_offset_wraps: "Pagination (Some 42949674) None [] = Inr (100, 4)"
  by code_simp

section \<open>Transactions\<close>

text \<open>A \<open>txFunc\<close> that leaves finishing the transaction to \<open>WrapTx\<close> and the context.\<close>

definition leaves_finishing :: "('w tx \<Rightarrow> 'e fn_result \<times> 'w tx) \<Rightarrow> bool" where
  "leaves_finishing txFunc \<longleftrightarrow>
     (\<forall>t. \<not> tx_done t \<longrightarrow>
        (let t' = snd (txFunc t) in
           tx_done t' = (tx_log t' = tx_log t @ [TxRollback]) \<and> tx_log t' \<in> {tx_log t, tx_log t @ [TxRollback]}))"

text \<open>C35. A transaction that began is finished when \<open>WrapTx\<close> ends, also by a panic: the driver gets exactly
  one \<open>Commit\<close> or \<open>Rollback\<close> and nothing after it. \<open>WrapTx\<close> returns nil only when \<open>txFunc\<close> returned
  nil and the driver's \<open>Commit\<close> succeeded; a failure or panic of \<open>txFunc\<close> is passed on and never
  committed.\<close>

theorem WrapTx_finishes_once:
  assumes "leaves_finishing txFunc" and "WrapTx drv txFunc w0 = (r, t)" and "fst (drv_begin drv w0) = None"
  shows "tx_done t \<and> tx_log t \<in> {[TxBegin, TxFn, TxCommit], [TxBegin, TxFn, TxRollback]}
    \<and> (let (fr, t1) = txFunc \<lparr>tx_done = False, tx_log = [TxBegin, TxFn], db = snd (drv_begin drv w0)\<rparr> in
       (fr \<noteq> FnReturned None \<longrightarrow> r = fr \<and> tx_log t = [TxBegin, TxFn, TxRollback])
       \<and> (r = FnReturned None \<longrightarrow> fr = FnReturned None \<and> tx_log t = [TxBegin, TxFn, TxCommit]
            \<and> fst (drv_commit drv (db t1)) = None \<and> db t = snd (drv_commit drv (db t1))))"
proof -
  define t0 where "t0 = \<lparr>tx_done = False, tx_log = [TxBegin, TxFn], db = snd (drv_begin drv w0)\<rparr>"
  obtain fr t1 where fn: "txFunc t0 = (fr, t1)" by (cases "txFunc t0")
  have t1: "tx_done t1 = (tx_log t1 = [TxBegin, TxFn, TxRollback])"
    "tx_log t1 = [TxBegin, TxFn] \<or> tx_log t1 = [TxBegin, TxFn, TxRollback]"
    using assms(1) fn unfolding leaves_finishing_def by (auto simp: t0_def Let_def dest!: spec [of _ t0])
  obtain w where w: "drv_begin drv w0 = (None, w)" using assms(3) by (cases "drv_begin drv w0") auto
  have run: "(r, t) = (let (r', t2) = (if fr = FnReturned None then (let (ce, u) = tx_Commit drv t1 in (FnReturned ce, u)) else (fr, t1))
      in (r', snd (tx_Rollback drv t2)))"
    using assms(2) fn by (simp add: WrapTx_def t0_def Let_def w)
  show ?thesis
    unfolding t0_def [symmetric] fn
    using t1 run by (auto simp: tx_Commit_def tx_Rollback_def Let_def split: prod.splits if_splits option.splits)
qed

lemma WrapTx_begin_fails: "drv_begin drv w0 = (Some e, w) \<Longrightarrow> fst (WrapTx drv txFunc w0) = FnReturned (Some e)"
  by (simp add: WrapTx_def)

section \<open>Witnesses\<close>

text \<open>Exact arithmetic satisfies the hypothesis on the product; JSON strings are quoted.\<close>

definition exact_product :: "nat \<Rightarrow> nat \<Rightarrow> nat \<Rightarrow> nat" where
  "exact_product f unit scale = f * unit div scale"

definition quote_json :: "string \<Rightarrow> unit + string" where
  "quote_json s = Inr (CHR 0x22 # s @ [CHR 0x22])"

definition unquote_json :: "string \<Rightarrow> unit + string" where
  "unquote_json s = Inr (butlast (tl s))"

lemma exact_product: "exact_frac exact_product"
  by (auto simp: exact_frac_def exact_product_def)

lemma duration_roundtrip_witness:
  "Duration_Scan exact_product (Duration_Value (- (2 ^ 63)) :: unit dbvalue) 0 = ((None :: unit db_error option), - (2 ^ 63))
   \<and> Duration_UnmarshalJSON exact_product unquote_json (CHR 0x22 # duration_string (- (2 ^ 63)) @ [CHR 0x22]) 0 = (None, - (2 ^ 63))"
proof -
  have d: "in_i64 (- (2 ^ 63))" by (simp add: in_i64_def min_int64_def max_int64_def)
  have q: "\<forall>s. quote_json (duration_string (- (2 ^ 63))) = Inr s \<longrightarrow> unquote_json s = Inr (duration_string (- (2 ^ 63)))"
    by (auto simp: quote_json_def unquote_json_def)
  show ?thesis
    using duration_roundtrip [where frac = exact_product and marshal = quote_json and unmarshal = unquote_json, OF exact_product d q, where old = 0 and s = "CHR 0x22 # duration_string (- (2 ^ 63)) @ [CHR 0x22]"]
    by (auto simp: Duration_MarshalJSON_def quote_json_def)
qed

definition sample_valid :: "string \<Rightarrow> bool" where
  "sample_valid s \<longleftrightarrow> s = ''null'' \<or> hd s = CHR ''{'' \<and> last s = CHR ''}''"

lemma JSONField_Scan_typed_witness:
  "\<exists>x y. ''  {} '' = x @ ''{}'' @ y"
proof -
  have "TrimSpace ''  {} '' = ''{}''"
    by (simp add: TrimSpace_def trim_left.simps trim_right.simps Let_def byte_of_def decode_last_def IsSpace_def)
  then have "JSONField_Scan sample_valid (VBytes ''  {} '' :: unit dbvalue) None = ((None :: unit db_error option), Some ''{}'')"
    by (simp add: JSONField_Scan_def scan_json_def sample_valid_def)
  with JSONField_Scan_typed [where ?'je = unit and json_valid = sample_valid
      and v = "VBytes ''  {} '' :: unit dbvalue" and j = None] show ?thesis by auto
qed

lemma Pagination_partitions_witness:
  "unat (150 :: uint32) \<le> 170 \<and> 170 < unat (150 :: uint32) + unat (50 :: uint32)"
proof -
  have "Pagination (Some 4) (Some 50) [WithMaxLimit 60] = Inr (50, 150)" by code_simp
  with Pagination_partitions [of "Some 4" "Some 50" "[WithMaxLimit 60]" 170] show ?thesis by (simp add: Let_def)
qed

text \<open>A database that counts: the state is the number of rows; the function inserts one.\<close>

definition counting_db :: "(nat, string) sql_driver" where
  "counting_db = \<lparr>drv_begin = \<lambda>n. (None, n), drv_commit = \<lambda>n. (None, n), drv_rollback = \<lambda>n. (None, n - 1),
     ctx_err = \<lambda>n. None, ErrTxDone = ''done''\<rparr>"

definition insert_row :: "nat tx \<Rightarrow> string fn_result \<times> nat tx" where
  "insert_row t = (FnPanicked, t\<lparr>db := db t + 1\<rparr>)"

lemma WrapTx_finishes_once_witness:
  "tx_log (snd (WrapTx counting_db insert_row 7)) = [TxBegin, TxFn, TxRollback]"
proof -
  have 1: "leaves_finishing insert_row" by (simp add: leaves_finishing_def insert_row_def Let_def)
  have 2: "fst (drv_begin counting_db 7) = None" by (simp add: counting_db_def)
  show ?thesis
    using WrapTx_finishes_once [OF 1 _ 2, of "fst (WrapTx counting_db insert_row 7)" "snd (WrapTx counting_db insert_row 7)"]
    by (simp add: insert_row_def Let_def)
qed

end
