(* ===== verification/Randutil.thy ===== *)
theory Randutil
  imports Go_Strings
begin

text \<open>
  Package \<open>randutil\<close>: random numbers, strings and keys. \<open>crypto/rand\<close> is a parameter: \<open>rand_read\<close>
  gives an error or that many bytes (as numbers), \<open>rand_int\<close> an error or a number below its bound.
\<close>

type_synonym ('w, 'e) rand_reader = "'w \<Rightarrow> nat \<Rightarrow> ('e + nat list) \<times> 'w"

datatype 'e rand_error =
    ReaderError 'e
  | LengthZero
  | LengthTooLarge
  | AlphabetTooLarge nat
  | KeyTooShort int

section \<open>Numbers (\<open>number.go\<close>)\<close>

definition number_min :: "nat \<Rightarrow> int" where
  "number_min len = 10 ^ (len - 1)"

definition number_max :: "nat \<Rightarrow> int" where
  "number_max len = (let m = 10 ^ len - 1 in if m > max_int64 then max_int64 else m)"

definition GenerateRandomNumber ::
  "('w \<Rightarrow> int \<Rightarrow> ('e + int) \<times> 'w) \<Rightarrow> nat \<Rightarrow> 'w \<Rightarrow> ('e rand_error + int) \<times> 'w" where
  "GenerateRandomNumber rand_int len w =
     (if len = 0 then (Inl LengthZero, w)
      else if len > 19 then (Inl LengthTooLarge, w)
      else let span = number_max len - number_min len + 1 in
           case rand_int w span of
             (Inl e, w') \<Rightarrow> (Inl (ReaderError e), w')
           | (Inr n, w') \<Rightarrow> (Inr (i64 (n + number_min len)), w'))"

section \<open>Strings (\<open>string.go\<close>)\<close>

definition defaultAlphabet :: string where
  "defaultAlphabet = ''abcdefghijklmnopqrstuvwxyzABCDEFGHIJKLMNOPQRSTUVWXYZ0123456789_-@#$%''"

record string_options = alphabet :: string

type_synonym string_option = "string_options \<Rightarrow> string_options"

definition WithAlphabet :: "string \<Rightarrow> string_option" where
  "WithAlphabet a o1 = (if a \<noteq> [] then o1\<lparr>alphabet := a\<rparr> else o1)"

definition accept_below :: "string \<Rightarrow> nat" where
  "accept_below al = 256 - 256 mod length al"

definition pick :: "string \<Rightarrow> nat \<Rightarrow> char" where
  "pick al rb = al ! (rb mod length al)"

text \<open>The bytes of a buffer, up to \<open>n\<close> characters in all; \<open>out\<close> is what is written so far.\<close>

fun fill :: "nat \<Rightarrow> string \<Rightarrow> string \<Rightarrow> nat list \<Rightarrow> string" where
  "fill n al out [] = out"
| "fill n al out (rb # rbs) =
     (if rb \<ge> accept_below al then fill n al out rbs
      else let out' = out @ [pick al rb] in
           if length out' = n then out' else fill n al out' rbs)"

partial_function (option) random_loop ::
  "('w, 'e) rand_reader \<Rightarrow> nat \<Rightarrow> string \<Rightarrow> string \<Rightarrow> 'w \<Rightarrow> (('e rand_error + string) \<times> 'w) option" where
  "random_loop rand_read n al out w =
     (if length out < n then
        (case rand_read w 64 of
           (Inl e, w') \<Rightarrow> Some (Inl (ReaderError e), w')
         | (Inr buf, w') \<Rightarrow> random_loop rand_read n al (fill n al out buf) w')
      else Some (Inr out, w))"

text \<open>\<open>None\<close>: the loop does not end, or the remainder by an empty alphabet panics.\<close>

definition GenerateRandomString ::
  "('w, 'e) rand_reader \<Rightarrow> int \<Rightarrow> string_option list \<Rightarrow> 'w \<Rightarrow> (('e rand_error + string) \<times> 'w) option" where
  "GenerateRandomString rand_read n opts w =
     (if n \<le> 0 then Some (Inr [], w)
      else let al = alphabet (foldl (\<lambda>o1 opt. opt o1) \<lparr>alphabet = defaultAlphabet\<rparr> opts) in
           if length al > 256 then Some (Inl (AlphabetTooLarge (length al)), w)
           else if al = [] then None
           else random_loop rand_read (nat n) al [] w)"

section \<open>Keys (\<open>key.go\<close>)\<close>

definition MinKeySize :: int where "MinKeySize = 16"
definition RecommendedKeySize :: int where "RecommendedKeySize = 32"

definition GenerateKeyBytes :: "('w, 'e) rand_reader \<Rightarrow> int \<Rightarrow> 'w \<Rightarrow> ('e rand_error + nat list) \<times> 'w" where
  "GenerateKeyBytes rand_read nBytes w =
     (if nBytes < MinKeySize then (Inl (KeyTooShort nBytes), w)
      else case rand_read w (nat nBytes) of
        (Inl e, w') \<Rightarrow> (Inl (ReaderError e), w')
      | (Inr b, w') \<Rightarrow> (Inr b, w'))"

text \<open>\<open>base64.RawURLEncoding\<close>: six bits per character, no padding.\<close>

definition url_alphabet :: string where
  "url_alphabet = ''ABCDEFGHIJKLMNOPQRSTUVWXYZabcdefghijklmnopqrstuvwxyz0123456789-_''"

fun base64_url :: "nat list \<Rightarrow> string" where
  "base64_url (a # b # c # bs) =
     url_alphabet ! (a div 4) # url_alphabet ! (a mod 4 * 16 + b div 16) # url_alphabet ! (b mod 16 * 4 + c div 64)
       # url_alphabet ! (c mod 64) # base64_url bs"
| "base64_url [a, b] = [url_alphabet ! (a div 4), url_alphabet ! (a mod 4 * 16 + b div 16), url_alphabet ! (b mod 16 * 4)]"
| "base64_url [a] = [url_alphabet ! (a div 4), url_alphabet ! (a mod 4 * 16)]"
| "base64_url [] = []"

definition GenerateKey :: "('w, 'e) rand_reader \<Rightarrow> int \<Rightarrow> 'w \<Rightarrow> ('e rand_error + string) \<times> 'w" where
  "GenerateKey rand_read nBytes w =
     (case GenerateKeyBytes rand_read nBytes w of
        (Inl e, w') \<Rightarrow> (Inl e, w')
      | (Inr b, w') \<Rightarrow> (Inr (base64_url b), w'))"

end
