(* ===== verification/Randutil_Props.thy ===== *)
theory Randutil_Props
  imports Randutil
begin

text \<open>
  Properties of \<open>randutil\<close>: rejection sampling computes the first accepted bytes of the source mapped
  evenly onto the alphabet, numbers have the requested digits, keys can be decoded.
\<close>

section \<open>Rejection sampling\<close>

text \<open>The bytes of the next \<open>k\<close> buffers of the source, if none of the reads fails.\<close>

fun buffers :: "('w, 'e) rand_reader \<Rightarrow> nat \<Rightarrow> 'w \<Rightarrow> nat list option" where
  "buffers rand_read 0 w = Some []"
| "buffers rand_read (Suc k) w =
     (case rand_read w 64 of (Inl e, _) \<Rightarrow> None
      | (Inr buf, w') \<Rightarrow> (case buffers rand_read k w' of None \<Rightarrow> None | Some bs \<Rightarrow> Some (buf @ bs)))"

abbreviation accepted :: "string \<Rightarrow> nat list \<Rightarrow> nat list" where
  "accepted al bs \<equiv> filter (\<lambda>b. b < accept_below al) bs"

lemma fill_spec:
  "length out < n \<Longrightarrow> fill n al out buf = out @ map (pick al) (take (n - length out) (accepted al buf))"
proof (induction n al out buf rule: fill.induct)
  case (2 n al out rb rbs)
  then have "n - length out = Suc (n - Suc (length out))" by simp
  with 2 show ?case by (auto simp: Let_def not_le)
qed simp

lemma random_loop_spec:
  assumes "buffers rand_read k w = Some bs" and "length out \<le> n" and "n \<le> length out + length (accepted al bs)"
  shows "\<exists>w'. random_loop rand_read n al out w
    = Some (Inr (out @ map (pick al) (take (n - length out) (accepted al bs))), w')"
  using assms
proof (induction k arbitrary: w out bs)
  case 0
  then show ?case by (simp add: random_loop.simps)
next
  case (Suc k)
  show ?case
  proof (cases "length out < n")
    case False
    with Suc.prems show ?thesis by (simp add: random_loop.simps)
  next
    case True
    from Suc.prems(1) obtain buf w' bs' where buf: "rand_read w 64 = (Inr buf, w')"
      "buffers rand_read k w' = Some bs'" "bs = buf @ bs'"
      by (auto split: prod.splits sum.splits option.splits)
    let ?out = "out @ map (pick al) (take (n - length out) (accepted al buf))"
    have step: "random_loop rand_read n al out w = random_loop rand_read n al ?out w'"
      using True buf(1) by (subst random_loop.simps) (simp add: fill_spec)
    have "length ?out \<le> n" "n \<le> length ?out + length (accepted al bs')"
      using True Suc.prems(3) buf(3) by auto
    from Suc.IH [OF buf(2) this] obtain w'' where
      "random_loop rand_read n al ?out w' = Some (Inr (?out @ map (pick al) (take (n - length ?out) (accepted al bs'))), w'')" ..
    moreover have "n - length ?out = n - length out - length (accepted al buf)"
      using True by (simp add: min_def)
    ultimately show ?thesis using step by (auto simp: buf(3))
  qed
qed

lemma accepted_evenly:
  assumes "0 < length al" "length al \<le> 256" "i < length al"
  shows "card {b. b < accept_below al \<and> b mod length al = i} = 256 div length al"
proof -
  let ?L = "length al"
  have acc: "accept_below al = 256 div ?L * ?L"
    unfolding accept_below_def by (simp add: minus_mod_eq_div_mult)
  have "{b. b < accept_below al \<and> b mod ?L = i} = (\<lambda>q. q * ?L + i) ` {..< 256 div ?L}" (is "?A = ?B")
  proof
    show "?B \<subseteq> ?A"
    proof
      fix b assume "b \<in> ?B"
      then obtain q where q: "q < 256 div ?L" "b = q * ?L + i" by auto
      from q(1) have "(q + 1) * ?L \<le> 256 div ?L * ?L" by (intro mult_le_mono1) simp
      with q(2) assms(3) show "b \<in> ?A" unfolding acc by simp
    qed
    show "?A \<subseteq> ?B"
    proof
      fix b assume b: "b \<in> ?A"
      then have "b = b div ?L * ?L + i" using div_mult_mod_eq [of b ?L] by simp
      moreover have "b div ?L < 256 div ?L" using b assms(1) unfolding acc by (simp add: div_less_iff_less_mult)
      ultimately show "b \<in> ?B" by blast
    qed
  qed
  moreover have "inj_on (\<lambda>q. q * ?L + i) {..< 256 div ?L}" using assms(1) by (auto simp: inj_on_def)
  ultimately show ?thesis by (simp add: card_image)
qed

text \<open>C37. As soon as the source has given \<open>n\<close> acceptable bytes, \<open>GenerateRandomString\<close> returns, and the
  string is the first \<open>n\<close> of them mapped to the alphabet; every index of the alphabet is the image of
  the same number of acceptable byte values.\<close>

theorem random_string_is_reference:
  assumes "al = alphabet (foldl (\<lambda>o1 opt. opt o1) \<lparr>alphabet = defaultAlphabet\<rparr> opts)"
    and "0 < length al" "length al \<le> 256" and "0 < n"
    and "buffers rand_read k w = Some bs" and "nat n \<le> length (accepted al bs)"
  shows "(\<exists>w'. GenerateRandomString rand_read n opts w = Some (Inr (map (pick al) (take (nat n) (accepted al bs))), w'))
    \<and> length (map (pick al) (take (nat n) (accepted al bs))) = nat n
    \<and> set (map (pick al) (take (nat n) (accepted al bs))) \<subseteq> set al
    \<and> (\<forall>i < length al. card {b. b < accept_below al \<and> b mod length al = i} = 256 div length al)"
proof (intro conjI allI impI)
  show "\<exists>w'. GenerateRandomString rand_read n opts w = Some (Inr (map (pick al) (take (nat n) (accepted al bs))), w')"
    using random_loop_spec [OF assms(5), of "[]" "nat n" al] assms
    by (simp add: GenerateRandomString_def Let_def)
  show "set (map (pick al) (take (nat n) (accepted al bs))) \<subseteq> set al"
    using assms(2) by (auto simp: pick_def)
qed (use assms accepted_evenly in simp_all)

section \<open>Numbers\<close>

lemma length_nat_digits: "10 ^ k \<le> n \<Longrightarrow> n < 10 ^ Suc k \<Longrightarrow> length (nat_digits n) = Suc k"
proof (induction k arbitrary: n)
  case 0
  then show ?case by (subst nat_digits.simps) simp
next
  case (Suc k)
  from Suc.prems have "10 ^ k \<le> n div 10" "n div 10 < 10 ^ Suc k" by (simp_all add: less_eq_div_iff_mult_less_eq div_less_iff_less_mult)
  note Suc.IH [OF this]
  moreover have "\<not> n < 10"
  proof -
    have "(1 :: nat) \<le> 10 ^ k" by simp
    with Suc.prems(1) show ?thesis unfolding power_Suc by linarith
  qed
  ultimately show ?case by (subst nat_digits.simps) simp
qed

text \<open>With a source that respects its bound, a number of \<open>len\<close> digits (1 to 19) has exactly that many
  decimal digits, fits 64 bits without wrapping, and the values the source gives and the numbers in
  the range correspond one to one; other lengths are errors that read nothing.\<close>

theorem random_number_in_range:
  assumes "\<forall>w b. 0 < b \<longrightarrow> (case fst (rand_int w b) of Inl e \<Rightarrow> True | Inr v \<Rightarrow> 0 \<le> v \<and> v < b)"
  shows "case GenerateRandomNumber rand_int len w of
      (Inl LengthZero, w') \<Rightarrow> len = 0 \<and> w' = w
    | (Inl LengthTooLarge, w') \<Rightarrow> 19 < len \<and> w' = w
    | (Inl e, w') \<Rightarrow> (\<exists>r. e = ReaderError r \<and> fst (rand_int w (number_max len - number_min len + 1)) = Inl r)
    | (Inr v, w') \<Rightarrow> 1 \<le> len \<and> len \<le> 19 \<and> 10 ^ (len - 1) \<le> v \<and> v \<le> min (10 ^ len - 1) max_int64
        \<and> length (itoa v) = len
        \<and> fst (rand_int w (number_max len - number_min len + 1)) = Inr (v - 10 ^ (len - 1))"
proof (cases "1 \<le> len \<and> len \<le> 19")
  case False
  then show ?thesis by (auto simp: GenerateRandomNumber_def)
next
  case True
  then obtain k where k: "len = Suc k" "k \<le> 18" by (cases len) auto
  have "(10 :: int) ^ k \<le> 10 ^ 18" using k(2) by (intro power_increasing) auto
  then have min: "1 \<le> number_min len" "number_min len \<le> number_max len" "number_max len \<le> max_int64"
    by (auto simp: number_min_def number_max_def k(1) max_int64_def Let_def)
  define span where "span = number_max len - number_min len + 1"
  have "0 < span" using min by (simp add: span_def)
  with assms have src: "case fst (rand_int w span) of Inl e \<Rightarrow> True | Inr v \<Rightarrow> 0 \<le> v \<and> v < span" by blast
  show ?thesis
  proof (cases "rand_int w span")
    case (Pair r w')
    show ?thesis
    proof (cases r)
      case (Inl e)
      with Pair True show ?thesis by (auto simp: GenerateRandomNumber_def span_def)
    next
      case (Inr n)
      let ?v = "n + number_min len"
      from src Pair Inr have n: "0 \<le> n" "n < span" by auto
      then have v: "number_min len \<le> ?v" "?v \<le> number_max len" by (auto simp: span_def)
      with min have "i64 ?v = ?v" by (intro i64_id) (auto simp: in_i64_def min_int64_def)
      moreover have "length (itoa ?v) = len"
      proof -
        have "?v < 10 ^ Suc k" using v(2) by (auto simp: number_max_def k(1) Let_def split: if_splits)
        moreover have "10 ^ k \<le> ?v" using v(1) by (simp add: number_min_def k(1))
        moreover define u where "u = nat ?v"
        ultimately have "10 ^ k \<le> int u" "int u < 10 ^ Suc k" "?v = int u"
          using min n by auto
        then have "10 ^ k \<le> u" "u < 10 ^ Suc k" by (metis of_nat_le_iff of_nat_numeral of_nat_power, metis of_nat_less_iff of_nat_numeral of_nat_power)
        with \<open>?v = int u\<close> show ?thesis by (simp add: itoa_def length_nat_digits k(1))
      qed
      moreover have "GenerateRandomNumber rand_int len w = (Inr (i64 ?v), w')"
        using Pair Inr True by (simp add: GenerateRandomNumber_def span_def [symmetric] Let_def)
      moreover have "?v \<le> min (10 ^ len - 1) max_int64"
        using v(2) by (auto simp: number_max_def Let_def split: if_splits)
      ultimately show ?thesis
        using Pair Inr True v(1) by (simp add: span_def [symmetric]) (simp add: number_min_def)
    qed
  qed
qed

section \<open>Keys\<close>

definition url_index :: "char \<Rightarrow> nat" where
  "url_index c = (case find (\<lambda>i. url_alphabet ! i = c) [0..<64] of Some i \<Rightarrow> i | None \<Rightarrow> 0)"

fun base64_bytes :: "nat list \<Rightarrow> nat list" where
  "base64_bytes (x # y # z # u # xs) = (x * 4 + y div 16) # (y mod 16 * 16 + z div 4) # (z mod 4 * 64 + u) # base64_bytes xs"
| "base64_bytes [x, y, z] = [x * 4 + y div 16, y mod 16 * 16 + z div 4]"
| "base64_bytes [x, y] = [x * 4 + y div 16]"
| "base64_bytes _ = []"

lemma url_index_all: "list_all (\<lambda>i. url_index (url_alphabet ! i) = i) [0..<64]"
  by code_simp

lemma url_index [simp]: "i < 64 \<Longrightarrow> url_index (url_alphabet ! i) = i"
  using url_index_all by (simp add: list_all_iff)

lemma base64_decodes: "list_all (\<lambda>b. b < 256) bs \<Longrightarrow> base64_bytes (map url_index (base64_url bs)) = bs"
proof (induction bs rule: base64_url.induct)
  case (1 a b c bs)
  have "a div 4 < 64" "a mod 4 * 16 + b div 16 < 64" "b mod 16 * 4 + c div 64 < 64" "c mod 64 < 64"
    using 1(2) by auto
  moreover have "b div 16 < 16" "c div 64 < 4" using 1(2) by auto
  ultimately show ?case using 1 by simp
qed auto

section \<open>Witnesses\<close>

text \<open>A source that counts up from its state.\<close>

definition counting_read :: "(nat, unit) rand_reader" where
  "counting_read w n = (Inr (map (\<lambda>i. (w + i) mod 256) [0..<n]), w + n)"

definition largest_int :: "nat \<Rightarrow> int \<Rightarrow> (unit + int) \<times> nat" where
  "largest_int w b = (Inr (b - 1), w + 1)"

lemma random_string_is_reference_witness:
  "\<exists>w'. GenerateRandomString counting_read 5 [WithAlphabet ''abc''] 253 = Some (Inr ''bcabc'', w')"
proof -
  have al: "''abc'' = alphabet (foldl (\<lambda>o1 opt. opt o1) \<lparr>alphabet = defaultAlphabet\<rparr> [WithAlphabet ''abc''])"
    by (simp add: WithAlphabet_def)
  have bs: "buffers counting_read 1 253 = Some (map (\<lambda>i. (253 + i) mod 256) [0..<64])"
    by (simp add: counting_read_def)
  have out: "nat 5 \<le> length (accepted ''abc'' (map (\<lambda>i. (253 + i) mod 256) [0..<64]))"
    "map (pick ''abc'') (take (nat 5) (accepted ''abc'' (map (\<lambda>i. (253 + i) mod 256) [0..<64]))) = ''bcabc''"
    by code_simp+
  from random_string_is_reference [OF al _ _ _ bs out(1)] show ?thesis unfolding out(2) by simp
qed

lemma random_number_in_range_witness:
  "10 ^ 18 \<le> (9223372036854775807 :: int) \<and> (9223372036854775807 :: int) \<le> max_int64"
proof -
  have "\<forall>w b. 0 < b \<longrightarrow> (case fst (largest_int w b) of Inl e \<Rightarrow> True | Inr v \<Rightarrow> 0 \<le> v \<and> v < b)"
    by (simp add: largest_int_def)
  note * = random_number_in_range [OF this, where len = 19 and w = 0]
  have "GenerateRandomNumber largest_int 19 0 = (Inr 9223372036854775807, 1)" by code_simp
  with * show ?thesis by simp
qed

end
