(* ===== verification/Strutil.thy ===== *)
theory Strutil
  imports Go_Utf8 Go_Duration
begin

text \<open>
  Package \<open>strutil\<close>: \<open>FormatNumberWithPrecision\<close>, \<open>ClearUTF8String\<close> and \<open>RemoveNullBytes\<close>, and that they
  do what they are for. \<open>unicode.IsPrint\<close>, a table, is the parameter \<open>IsPrint\<close>. \<open>FormatDuration\<close>, which
  computes in floating point, is in \<open>Strutil_Duration\<close>.
\<close>

section \<open>FormatNumberWithPrecision (\<open>format.go\<close>)\<close>

function add_zeros :: "nat \<Rightarrow> string \<Rightarrow> string" where
  "add_zeros precision number =
     (if length number \<le> precision then add_zeros precision (''0'' @ number) else number)"
  by auto
termination by (relation "measure (\<lambda>(p, s). Suc p - length s)") auto

declare add_zeros.simps [simp del]

definition FormatNumberWithPrecision :: "string \<Rightarrow> int \<Rightarrow> string" where
  "FormatNumberWithPrecision number precision =
     (if precision \<le> 0 then number
      else let minus = number \<noteq> [] \<and> hd number = CHR ''-'';
               sign = (if minus then ''-'' else []);
               digits = add_zeros (nat precision) (replace_char CHR ''.'' [] (if minus then tl number else number));
               decimalIndex = length digits - nat precision
           in sign @ take decimalIndex digits @ ''.'' @ drop decimalIndex digits)"

lemma add_zeros_eq: "add_zeros p s = replicate (Suc p - length s) CHR ''0'' @ s"
proof (induction p s rule: add_zeros.induct)
  case (1 p s)
  show ?case
  proof (cases "length s \<le> p")
    case True
    then have "Suc p - length s = Suc (Suc p - length (''0'' @ s))" by simp
    with 1 [OF True] True show ?thesis
      by (simp add: add_zeros.simps [of p s] replicate_append_same [symmetric] del: replicate.simps)
        (simp add: replicate_app_Cons_same)
  qed (simp add: add_zeros.simps [of p s])
qed

lemma pad_zero: "pad k 0 = replicate k CHR ''0''"
proof (induction k)
  case (Suc k)
  moreover have "digit_char 0 = CHR ''0''" by code_simp
  ultimately show ?case by (simp add: replicate_append_same)
qed simp

lemma length_pad [simp]: "length (pad k n) = k"
  by (induction k arbitrary: n) simp_all

lemma padded_digits: "add_zeros p (nat_digits n) = nat_digits (n div 10 ^ p) @ pad p n"
proof (induction p arbitrary: n)
  case 0
  then show ?case by (simp add: add_zeros_eq Suc_le_eq)
next
  case (Suc p)
  show ?case
  proof (cases "n < 10")
    case True
    then have "n div 10 ^ Suc p = 0" by (simp add: order_less_le_trans)
    moreover have "nat_digits 0 = ''0''" by code_simp
    ultimately show ?thesis
      using True by (simp add: add_zeros_eq nat_digits.simps [of n] pad_zero replicate_append_same)
  next
    case False
    have "add_zeros (Suc p) (nat_digits n) = add_zeros p (nat_digits (n div 10)) @ [digit_char (n mod 10)]"
      using False by (simp add: add_zeros_eq nat_digits.simps [of n])
    with Suc.IH show ?thesis by (simp add: div_mult2_eq)
  qed
qed

lemma no_point: "replace_char CHR ''.'' [] (nat_digits n) = nat_digits n"
proof -
  have "replace_char c [] s = s" if "c \<notin> set s" for c s
    using that by (induction s) (auto simp: replace_char_def)
  moreover have "CHR ''.'' \<notin> set (nat_digits n)"
    using digits_are_digits [of "CHR ''.''" n] by (auto simp: digit_of_def Let_def)
  ultimately show ?thesis by blast
qed

text \<open>For the decimal text of an integer \<open>v\<close> the result is the fixed-point text of \<open>v / 10^p\<close>.\<close>

lemma FormatNumber_fixed_point:
  assumes "0 < p"
  shows "FormatNumberWithPrecision (itoa v) (int p)
    = (if v < 0 then ''-'' else []) @ nat_digits (nat \<bar>v\<bar> div 10 ^ p) @ ''.'' @ pad p (nat \<bar>v\<bar>)"
proof (cases "v < 0")
  case True
  then show ?thesis
    using assms by (simp add: FormatNumberWithPrecision_def itoa_def Let_def no_point padded_digits)
next
  case False
  obtain c cs where c: "nat_digits (nat v) = c # cs" by (cases "nat_digits (nat v)") auto
  have "c \<noteq> CHR ''-''" using hd_nat_digits [OF c] by simp
  then have "\<not> (itoa v \<noteq> [] \<and> hd (itoa v) = CHR ''-'')" using False c by (simp add: itoa_def)
  with False assms show ?thesis
    by (simp add: FormatNumberWithPrecision_def Let_def) (simp add: itoa_def no_point padded_digits)
qed

section \<open>ClearUTF8String, RemoveNullBytes (\<open>string.go\<close>)\<close>

definition RemoveNullBytes :: "string \<Rightarrow> string" where
  "RemoveNullBytes s = filter (\<lambda>c. c \<noteq> char_of (0 :: nat)) s"

lemma decode_shrinks: "s \<noteq> [] \<Longrightarrow> (r, sz) = decode_rune s \<Longrightarrow> length s - sz < length s"
  using decode_size [of s] by (cases "decode_rune s") auto

text \<open>What the loop writes for the remaining bytes.\<close>

function clear_loop :: "bool \<Rightarrow> string \<Rightarrow> string" where
  "clear_loop lastWasSpace b =
     (if b = [] then []
      else let (r, sz) = decode_rune b in
        if r = RuneError \<and> sz = 1 then
          (if \<not> lastWasSpace then '' '' @ clear_loop True (drop 1 b) else clear_loop lastWasSpace (drop 1 b))
        else if r = 32 then
          (if \<not> lastWasSpace then '' '' @ clear_loop True (drop sz b) else clear_loop lastWasSpace (drop sz b))
        else take sz b @ clear_loop False (drop sz b))"
  by auto
termination
  by (relation "measure (\<lambda>(_, b). length b)") (simp_all add: decode_shrinks)

declare clear_loop.simps [simp del]

definition ClearUTF8String :: "(nat \<Rightarrow> bool) \<Rightarrow> string \<Rightarrow> string" where
  "ClearUTF8String IsPrint s = strings_filter IsPrint (TrimSpace (clear_loop True (RemoveNullBytes s)))"

lemma scalar_two: "is_scalar (b mod 32 * 64 + c mod 64)"
proof -
  have "b mod 32 < 32" "c mod 64 < 64" by simp_all
  then show ?thesis unfolding is_scalar_def by linarith
qed

lemma scalar_three:
  assumes "first_byte b = Some (3, lo, hi)" "\<not> c < lo" "\<not> hi < c"
  shows "is_scalar (b mod 16 * 4096 + c mod 64 * 64 + d mod 64)"
proof -
  have 1: "224 \<le> b" "b \<le> 239" "b = 237 \<Longrightarrow> 128 \<le> c \<and> c \<le> 159"
    using assms by (auto simp: first_byte_def split: if_splits)
  have 2: "b mod 16 < 16" "c mod 64 < 64" "d mod 64 < 64" by simp_all
  have 3: "b mod 16 = 13 \<Longrightarrow> c mod 64 < 32"
  proof -
    assume "b mod 16 = 13"
    moreover have "b mod 16 = b - 224" using 1(1,2) mod_less [of "b - 224" 16] mod_add_left_eq [of 224 16 "b - 224"] by simp
    ultimately have "b = 237" using 1(1) by simp
    from 1(3) [OF this] obtain y where "c = 128 + y" "y < 32" by (auto simp: le_iff_add)
    moreover have "(128 + y) mod 64 = y mod 64" using mod_add_left_eq [of 128 64 y] by simp
    ultimately show ?thesis by simp
  qed
  consider "b mod 16 \<le> 12" | "b mod 16 = 13" | "14 \<le> b mod 16" by linarith
  then show ?thesis
    using 2 3 unfolding is_scalar_def by cases linarith+
qed

lemma scalar_four:
  assumes "first_byte b = Some (sz, lo, hi)" "sz \<noteq> 2" "sz \<noteq> 3" "\<not> c < lo" "\<not> hi < c"
  shows "is_scalar (b mod 8 * 262144 + c mod 64 * 4096 + d mod 64 * 64 + e mod 64)"
proof -
  have 1: "240 \<le> b" "b \<le> 244" "b = 240 \<Longrightarrow> 144 \<le> c \<and> c \<le> 191" "b = 244 \<Longrightarrow> 128 \<le> c \<and> c \<le> 143"
    using assms by (auto simp: first_byte_def split: if_splits)
  have 2: "c mod 64 < 64" "d mod 64 < 64" "e mod 64 < 64" by simp_all
  have b: "b mod 8 = b - 240" using 1(1,2) mod_less [of "b - 240" 8] mod_add_left_eq [of 240 8 "b - 240"] by simp
  have c: "128 \<le> c \<Longrightarrow> c \<le> 191 \<Longrightarrow> c mod 64 = c - 128"
    using mod_less [of "c - 128" 64] mod_add_left_eq [of 128 64 "c - 128"] by simp
  consider "b = 240" | "241 \<le> b" "b \<le> 243" | "b = 244" using 1 by linarith
  then show ?thesis
  proof cases
    case 1
    with \<open>b = 240 \<Longrightarrow> _\<close> c b have "b mod 8 = 0" "16 \<le> c mod 64" by auto
    with 2 show ?thesis unfolding is_scalar_def by linarith
  next
    case 2
    with b have "1 \<le> b mod 8" "b mod 8 \<le> 3" by auto
    with \<open>c mod 64 < 64\<close> \<open>d mod 64 < 64\<close> \<open>e mod 64 < 64\<close> show ?thesis unfolding is_scalar_def by linarith
  next
    case 3
    with \<open>b = 244 \<Longrightarrow> _\<close> c b have "b mod 8 = 4" "c mod 64 < 16" by auto
    with 2 show ?thesis unfolding is_scalar_def by linarith
  qed
qed

lemma decode_scalar: "is_scalar (fst (decode_rune s))"
proof -
  have err: "is_scalar RuneError" by (simp add: is_scalar_def RuneError_def)
  have sizes: "first_byte b = Some (sz, lo, hi) \<Longrightarrow> sz = 2 \<or> sz = 3 \<or> sz = 4" for b sz lo hi
    by (auto simp: first_byte_def split: if_splits)
  have ascii: "b < 128 \<Longrightarrow> is_scalar b" for b by (simp add: is_scalar_def)
  show ?thesis
    by (cases s) (auto simp: Let_def err ascii scalar_two scalar_three scalar_four dest: sizes split: option.splits list.splits)
qed

text \<open>On runes: \<open>squeeze\<close> keeps the first of adjacent spaces (none at the start), \<open>trim_runes\<close> drops white
  space at both ends.\<close>

fun squeeze :: "bool \<Rightarrow> nat list \<Rightarrow> nat list" where
  "squeeze after_space [] = []"
| "squeeze after_space (r # rs) =
     (if r = 32 then (if after_space then squeeze True rs else 32 # squeeze True rs) else r # squeeze False rs)"

definition trim_end :: "nat list \<Rightarrow> nat list" where
  "trim_end rs = rev (dropWhile IsSpace (rev rs))"

definition trim_runes :: "nat list \<Rightarrow> nat list" where
  "trim_runes rs = trim_end (dropWhile IsSpace rs)"

lemma byte_of_eq_iff: "m < 256 \<Longrightarrow> n < 256 \<Longrightarrow> char_of m = char_of n \<longleftrightarrow> m = (n :: nat)"
  by (metis byte_of_char_of)

text \<open>The bytes of one rune: one below 128, or a first byte followed by continuation bytes.\<close>

definition rune_bytes :: "nat \<Rightarrow> nat list \<Rightarrow> bool" where
  "rune_bytes r bs \<longleftrightarrow>
     (bs = [r] \<and> r < 128
      \<or> 128 \<le> r \<and> length bs \<in> {2, 3, 4} \<and> \<not> is_cont (hd bs) \<and> 128 \<le> hd bs \<and> list_all is_cont (tl bs))
     \<and> list_all (\<lambda>b. b < 256) bs"

lemma encode_rune_bytes:
  assumes "is_scalar r"
  obtains bs where "encode_rune r = map char_of bs" "rune_bytes r bs"
proof -
  consider "r < 128" | "128 \<le> r" "r < 2048" | "2048 \<le> r" "r < 65536" | "65536 \<le> r" "r < 1114112"
    using assms unfolding is_scalar_def by linarith
  moreover have groups: "r mod 64 \<le> 63" "r div 64 mod 64 \<le> 63" "r div 4096 mod 64 \<le> 63"
    by (simp_all add: less_Suc_eq_le [symmetric])
  ultimately show ?thesis
  proof cases
    case 1
    show ?thesis
      by (rule that [of "[r]"]) (use 1 assms in \<open>simp_all add: encode_rune_def encode_scalar_def rune_bytes_def\<close>)
  next
    case 2
    then have "r div 64 < 32" by linarith
    with 2 assms groups show ?thesis
      by (intro that [of "[192 + r div 64, 128 + r mod 64]"])
        (simp_all add: encode_rune_def encode_scalar_def rune_bytes_def is_cont_def)
  next
    case 3
    then have "r div 4096 < 16" by linarith
    with 3 assms groups show ?thesis
      by (intro that [of "[224 + r div 4096, 128 + r div 64 mod 64, 128 + r mod 64]"])
        (simp_all add: encode_rune_def encode_scalar_def rune_bytes_def is_cont_def)
  next
    case 4
    then have "r div 262144 < 5" by linarith
    with 4 assms groups show ?thesis
      by (intro that [of "[240 + r div 262144, 128 + r div 4096 mod 64, 128 + r div 64 mod 64, 128 + r mod 64]"])
        (simp_all add: encode_rune_def encode_scalar_def rune_bytes_def is_cont_def)
  qed
qed

lemma encode_rune_no_NUL:
  assumes "is_scalar r" "r \<noteq> 0"
  shows "char_of (0 :: nat) \<notin> set (encode_rune r)"
proof -
  from encode_rune_bytes [OF assms(1)] obtain bs where bs: "encode_rune r = map char_of bs" "rune_bytes r bs" .
  have "b \<noteq> 0 \<and> b < 256" if "b \<in> set bs" for b
    using bs(2) assms(2) that unfolding rune_bytes_def
    by (cases bs) (auto simp: list_all_iff is_cont_def)
  then show ?thesis unfolding bs(1) using byte_of_eq_iff [of 0] by fastforce
qed

lemma RemoveNullBytes_encode:
  "(\<And>r. r \<in> set rs \<Longrightarrow> is_scalar r) \<Longrightarrow> RemoveNullBytes (encode rs) = encode (filter (\<lambda>r. r \<noteq> 0) rs)"
proof (induction rs)
  case (Cons r rs)
  have "filter (\<lambda>c. c \<noteq> char_of (0 :: nat)) (encode_rune r) = (if r = 0 then [] else encode_rune r)"
  proof (cases "r = 0")
    case True
    then show ?thesis by (simp add: encode_rune_def encode_scalar_def is_scalar_def)
  next
    case False
    with encode_rune_no_NUL [of r] Cons.prems show ?thesis by (auto intro!: filter_True)
  qed
  with Cons show ?case by (simp add: RemoveNullBytes_def)
qed (simp add: RemoveNullBytes_def)

lemma space_char: "char_of (32 :: nat) = CHR '' ''"
  by code_simp

lemma clear_loop_encode:
  "(\<And>r. r \<in> set rs \<Longrightarrow> is_scalar r) \<Longrightarrow> clear_loop after (encode rs) = encode (squeeze after rs)"
proof (induction rs arbitrary: after)
  case (Cons r rs)
  have "decode_rune (encode_rune r @ encode rs) = (r, length (encode_rune r))"
    using Cons.prems by (intro decode_encode) simp
  moreover have "length (encode_rune RuneError) = 3" "RuneError \<noteq> 32"
    by (simp_all add: RuneError_def encode_rune_def encode_scalar_def is_scalar_def)
  moreover have "encode_rune 32 = '' ''"
    using space_char by (simp add: encode_rune_def encode_scalar_def is_scalar_def)
  ultimately show ?case
    using Cons by (cases "r = RuneError"; subst clear_loop.simps) simp_all
qed (simp add: clear_loop.simps)

lemma decode_last_tail:
  assumes t: "length t = j" "j \<in> {2, 3, 4}" "128 \<le> byte_of (last t)" "\<not> is_cont (byte_of (t ! 0))"
    "\<And>i. 0 < i \<Longrightarrow> i < j \<Longrightarrow> is_cont (byte_of (t ! i))" and dec: "decode_rune t = (r, j)"
  shows "decode_last (s @ t) = (r, j)"
proof -
  define P where "P = (\<lambda>i. i \<le> length (s @ t) \<and> \<not> is_cont (byte_of ((s @ t) ! (length (s @ t) - i))))"
  have nth: "(s @ t) ! (length (s @ t) - i) = t ! (j - i)" if "i \<le> j" for i
  proof -
    have "length (s @ t) - i = length s + (j - i)" using that t(1) by simp
    then show ?thesis by (simp only: nth_append_length_plus)
  qed
  have "P j" using t nth [of j] by (simp add: P_def)
  moreover have "\<not> P i" if "0 < i" "i < j" for i
    using that t(5) [of "j - i"] nth [of i] by (simp add: P_def)
  ultimately have "find P [2, 3, 4] = Some j" using t(2) by auto
  moreover have "t \<noteq> []" using t(1,2) by auto
  moreover then have "s @ t \<noteq> []" "last (s @ t) = last t" "drop (length (s @ t) - j) (s @ t) = t" using t(1,2) by auto
  ultimately show ?thesis
    using t(3) dec by (simp only: decode_last_def P_def [symmetric] Let_def) simp
qed

lemma decode_last_encode:
  assumes "is_scalar r"
  shows "decode_last (s @ encode_rune r) = (r, length (encode_rune r))"
proof -
  from encode_rune_bytes [OF assms] obtain bs where bs: "encode_rune r = map char_of bs" "rune_bytes r bs" .
  have dec: "decode_rune (map char_of bs) = (r, length bs)"
    using decode_encode [OF assms, of "[]"] bs(1) by simp
  have byte: "i < length bs \<Longrightarrow> byte_of (map char_of bs ! i) = bs ! i" for i
    using bs(2) by (simp add: rune_bytes_def list_all_length)
  show ?thesis
  proof (cases "bs = [r] \<and> r < 128")
    case True
    with bs(1) show ?thesis by (simp add: decode_last_def)
  next
    case False
    with bs(2) have c: "length bs \<in> {2, 3, 4}" "\<not> is_cont (hd bs)" "list_all is_cont (tl bs)"
      unfolding rune_bytes_def by auto
    then obtain b bs' where b: "bs = b # bs'" "bs' \<noteq> []" by (cases bs; cases "tl bs") auto
    have tail: "is_cont (byte_of (map char_of bs ! i))" if "0 < i" "i < length bs" for i
      using that c(3) byte [of i] b by (simp add: list_all_length nth_Cons split: nat.splits)
    have "last (map char_of bs) = map char_of bs ! (length bs - 1)" using b by (simp add: last_conv_nth)
    with tail [of "length bs - 1"] b have "128 \<le> byte_of (last (map char_of bs))" by (simp add: is_cont_def)
    with c b byte [of 0] tail dec show ?thesis
      unfolding bs(1) by (simp only: length_map) (intro decode_last_tail; simp)
  qed
qed

lemma trim_left_encode:
  "(\<And>r. r \<in> set rs \<Longrightarrow> is_scalar r) \<Longrightarrow> trim_left (encode rs) = encode (dropWhile IsSpace rs)"
proof (induction rs)
  case (Cons r rs)
  then show ?case by (subst trim_left.simps) (simp add: decode_encode)
qed (simp add: trim_left.simps)

lemma trim_right_encode:
  "(\<And>r. r \<in> set rs \<Longrightarrow> is_scalar r) \<Longrightarrow> trim_right (encode rs) = encode (trim_end rs)"
proof (induction rs rule: rev_induct)
  case (snoc r rs)
  then show ?case by (subst trim_right.simps) (simp add: decode_last_encode trim_end_def)
qed (simp add: trim_right.simps trim_end_def)

lemma TrimSpace_encode:
  assumes "\<And>r. r \<in> set rs \<Longrightarrow> is_scalar r"
  shows "TrimSpace (encode rs) = encode (trim_runes rs)"
proof -
  have "r \<in> set (dropWhile IsSpace rs) \<Longrightarrow> is_scalar r" for r using assms by (auto dest: set_dropWhileD)
  with trim_left_encode [OF assms] trim_right_encode show ?thesis by (simp add: TrimSpace_def trim_runes_def)
qed

lemma set_squeeze: "set (squeeze after rs) \<subseteq> set rs"
  by (induction after rs rule: squeeze.induct) auto

lemma runes_scalar: "r \<in> set (runes s) \<Longrightarrow> is_scalar r"
proof (induction s rule: runes.induct)
  case (1 s)
  then show ?case by (subst (asm) (2) runes.simps) (auto simp: decode_scalar split: if_splits)
qed

lemma ClearUTF8String_encode:
  assumes rs: "\<forall>r \<in> set rs. is_scalar r"
  shows "ClearUTF8String IsPrint (encode rs)
    = encode (filter IsPrint (trim_runes (squeeze True (filter (\<lambda>r. r \<noteq> 0) rs))))"
proof -
  let ?ts = "squeeze True (filter (\<lambda>r. r \<noteq> 0) rs)"
  have ts: "r \<in> set ?ts \<Longrightarrow> is_scalar r" for r
    using set_squeeze [of True "filter (\<lambda>r. r \<noteq> 0) rs"] rs by auto
  have "set (trim_runes ?ts) \<subseteq> set ?ts"
    unfolding trim_runes_def trim_end_def by (auto dest!: set_dropWhileD)
  with ts have "runes (encode (trim_runes ?ts)) = trim_runes ?ts" by (intro runes_encode) auto
  moreover have "clear_loop True (RemoveNullBytes (encode rs)) = encode ?ts"
    using rs RemoveNullBytes_encode [of rs] clear_loop_encode [of "filter (\<lambda>r. r \<noteq> 0) rs" True] by auto
  ultimately show ?thesis
    using TrimSpace_encode [OF ts] by (simp add: ClearUTF8String_def strings_filter_def)
qed

text \<open>The documentation lists the trimming last. The code trims first: where a rune that is not printable
  stood before or between spaces, the result starts with a space or keeps two in a row.\<close>

lemma cleaned_spaces:
  "\<not> IsPrint 7 \<Longrightarrow> IsPrint 32 \<Longrightarrow> IsPrint 97 \<Longrightarrow> ClearUTF8String IsPrint (encode [7, 32, 97]) = encode [32, 97]"
  "\<not> IsPrint 9 \<Longrightarrow> IsPrint 32 \<Longrightarrow> IsPrint 97 \<Longrightarrow> IsPrint 98 \<Longrightarrow>
     ClearUTF8String IsPrint (encode [97, 32, 9, 32, 98]) = encode [97, 32, 32, 98]"
  by (subst ClearUTF8String_encode; simp add: is_scalar_def trim_runes_def trim_end_def IsSpace_def)+

text \<open>C38. Whatever the input, the result is valid UTF-8 made of printable runes only. For valid input the
  result is made in this order: NULs removed, adjacent spaces squeezed, white space trimmed at both ends,
  and then the runes that are not printable dropped, after which nothing is trimmed or squeezed again.\<close>

theorem ClearUTF8String_cleans:
  "(\<exists>rs. ClearUTF8String IsPrint s = encode rs \<and> runes (ClearUTF8String IsPrint s) = rs
      \<and> (\<forall>r \<in> set rs. is_scalar r \<and> IsPrint r))
   \<and> (\<forall>rs. (\<forall>r \<in> set rs. is_scalar r) \<longrightarrow>
        ClearUTF8String IsPrint (encode rs)
        = encode (filter IsPrint (trim_runes (squeeze True (filter (\<lambda>r. r \<noteq> 0) rs)))))"
proof (intro conjI allI impI exI)
  let ?rs = "filter IsPrint (runes (TrimSpace (clear_loop True (RemoveNullBytes s))))"
  show "ClearUTF8String IsPrint s = encode ?rs" by (simp add: ClearUTF8String_def strings_filter_def)
  then show "runes (ClearUTF8String IsPrint s) = ?rs" using runes_scalar by (auto intro!: runes_encode)
  show "\<forall>r \<in> set ?rs. is_scalar r \<and> IsPrint r" using runes_scalar by auto
qed (rule ClearUTF8String_encode)

lemma ClearUTF8String_cleans_witness:
  "ClearUTF8String (\<lambda>r. 32 \<le> r) (encode [32, 0, 8364, 32, 0, 32, 104, 7, 9]) = encode [8364, 32, 104]"
proof -
  have "\<forall>r \<in> set [32, 0, 8364, 32, 0, 32, 104, 7, 9]. is_scalar r" by (simp add: is_scalar_def)
  with ClearUTF8String_cleans [of "\<lambda>r. 32 \<le> r"]
  have "ClearUTF8String (\<lambda>r. 32 \<le> r) (encode [32, 0, 8364, 32, 0, 32, 104, 7, 9])
    = encode (filter (\<lambda>r. 32 \<le> r) (trim_runes (squeeze True (filter (\<lambda>r. r \<noteq> 0) [32, 0, 8364, 32, 0, 32, 104, 7, 9]))))"
    by blast
  then show ?thesis by (simp add: trim_runes_def trim_end_def IsSpace_def)
qed

end
