(* ===== verification/Go_Float.thy ===== *)
theory Go_Float
  imports Complex_Main
begin

text \<open>
  Rounding to \<open>float64\<close> (53 significant bits, to the nearest, ties to even) of numbers that are not negative
  and below \<open>2^53\<close>, and when a whole number plus a fraction keeps its integer part through it.
\<close>

text \<open>The number of binary places that are kept: as many as fit 53 bits, at most 1074.\<close>

fun places :: "nat \<Rightarrow> rat \<Rightarrow> nat" where
  "places 0 x = 0"
| "places (Suc k) x = (if x * 2 ^ Suc k < 2 ^ 53 then Suc k else places k x)"

definition nearest :: "rat \<Rightarrow> int" where
  "nearest y =
     (let f = floor y; d = y - of_int f in
      if d < 1 / 2 then f else if d > 1 / 2 then f + 1 else if even f then f else f + 1)"

definition float64 :: "rat \<Rightarrow> rat" where
  "float64 x = (let k = places 1074 x in of_int (nearest (x * 2 ^ k)) / 2 ^ k)"

lemma places_ge:
  assumes "j \<le> n" and "x * 2 ^ j < 2 ^ 53"
  shows "j \<le> places n x"
  using assms
proof (induction n)
  case (Suc n)
  then show ?case by (cases "j = Suc n") auto
qed simp

lemma places_eq:
  assumes "k \<le> n" "0 \<le> x" "x * 2 ^ k < 2 ^ 53" "2 ^ 53 \<le> x * 2 ^ Suc k"
  shows "places n x = k"
  using assms(1)
proof (induction n)
  case (Suc n)
  have "2 ^ 53 \<le> x * 2 ^ Suc n" if "k \<le> n"
  proof -
    have "(2 :: rat) ^ Suc k \<le> 2 ^ Suc n" using that by (intro power_increasing) auto
    then have "x * 2 ^ Suc k \<le> x * 2 ^ Suc n" using assms(2) by (rule mult_left_mono)
    with assms(4) show ?thesis by linarith
  qed
  with Suc assms(3) show ?case by (cases "k = Suc n") auto
qed simp

lemma nearest_le: "y \<le> of_int m \<Longrightarrow> nearest y \<le> m"
proof -
  assume y: "y \<le> of_int m"
  then have "floor y \<le> m" by (simp add: floor_le_iff)
  moreover have "floor y = m \<Longrightarrow> y = of_int m" using y by (metis antisym of_int_floor_le)
  ultimately show ?thesis by (cases "floor y = m") (auto simp: nearest_def Let_def)
qed

lemma nearest_ge: "of_int m \<le> y \<Longrightarrow> m \<le> nearest y"
proof -
  assume "of_int m \<le> y"
  then have "m \<le> floor y" by (simp add: le_floor_iff)
  then show ?thesis by (auto simp: nearest_def Let_def)
qed

text \<open>A bound with few enough binary places is respected.\<close>

lemma float64_le:
  assumes "x \<le> of_int m / 2 ^ j" and "j \<le> 1074" and "x * 2 ^ j < 2 ^ 53"
  shows "float64 x \<le> of_int m / 2 ^ j"
proof -
  define k where "k = places 1074 x"
  have "j \<le> k" unfolding k_def by (rule places_ge [OF assms(2,3)])
  then have split: "(2 :: rat) ^ k = 2 ^ j * 2 ^ (k - j)" by (simp add: power_add [symmetric])
  have "x * 2 ^ k \<le> of_int m / 2 ^ j * 2 ^ k" using assms(1) by (intro mult_right_mono) auto
  also have "\<dots> = of_int (m * 2 ^ (k - j))" by (simp add: split)
  finally have "nearest (x * 2 ^ k) \<le> m * 2 ^ (k - j)" by (rule nearest_le)
  then have "of_int (nearest (x * 2 ^ k)) \<le> (of_int (m * 2 ^ (k - j)) :: rat)" by (simp only: of_int_le_iff)
  then have "float64 x \<le> of_int (m * 2 ^ (k - j)) / 2 ^ k"
    unfolding float64_def Let_def k_def [symmetric] by (rule divide_right_mono) simp
  then show ?thesis by (simp add: split)
qed

lemma float64_ge: "of_int m \<le> x \<Longrightarrow> of_int m \<le> float64 x"
proof -
  assume x: "of_int m \<le> x"
  define k where "k = places 1074 x"
  have "of_int (m * 2 ^ k) \<le> x * 2 ^ k" using x by simp
  then have "m * 2 ^ k \<le> nearest (x * 2 ^ k)" by (rule nearest_ge)
  then have "(of_int (m * 2 ^ k) :: rat) \<le> of_int (nearest (x * 2 ^ k))" by (simp only: of_int_le_iff)
  then show ?thesis unfolding float64_def Let_def k_def [symmetric] by (simp add: pos_le_divide_eq)
qed

text \<open>\<open>float64(h) + float64(n)/float64(N)\<close> has the integer part \<open>h\<close>, as long as one unit of \<open>1/N\<close> next to \<open>h\<close> can
  be told apart.\<close>

lemma float64_floor:
  assumes n: "0 \<le> n" "n < N" and N: "N \<le> 2 ^ j" and j: "j \<le> 53" and h: "0 \<le> h" "(h + 1) * 2 ^ j \<le> 2 ^ 53"
  shows "floor (float64 (of_int h + float64 (of_int n / of_int N))) = h"
proof -
  define q where "q = (of_int n / of_int N :: rat)"
  have Npos: "0 < N" using n by simp
  have q: "0 \<le> q" "q < 1" using n by (simp_all add: q_def)
  have "of_int n \<le> (of_int (N - 1) :: rat)" using n by (simp only: of_int_le_iff)
  then have "q \<le> of_int (N - 1) / of_int N" unfolding q_def using Npos by (intro divide_right_mono) auto
  also have "\<dots> = 1 - 1 / of_int N" using Npos by (simp add: field_simps)
  also have "\<dots> \<le> 1 - 1 / 2 ^ j"
  proof -
    have "of_int N \<le> (of_int (2 ^ j) :: rat)" using N by (simp only: of_int_le_iff)
    then have "1 / 2 ^ j \<le> (1 / of_int N :: rat)" using Npos by (intro divide_left_mono) auto
    then show ?thesis by simp
  qed
  also have "\<dots> = of_int (2 ^ j - 1) / 2 ^ j" by (simp add: diff_divide_distrib)
  finally have "q \<le> of_int (2 ^ j - 1) / 2 ^ j" .
  moreover have "q * 2 ^ j < 2 ^ 53"
  proof -
    have "q * 2 ^ j < 1 * 2 ^ j" using q by (intro mult_strict_right_mono) auto
    also have "\<dots> \<le> (2 :: rat) ^ 53" using power_increasing [OF j, of "2 :: rat"] by simp
    finally show ?thesis .
  qed
  ultimately have up: "float64 q \<le> of_int (2 ^ j - 1) / 2 ^ j" using j by (intro float64_le) auto
  have low: "0 \<le> float64 q" using float64_ge [of 0 q] q by simp
  define x where "x = of_int h + float64 q"
  have x: "x \<le> of_int (h * 2 ^ j + (2 ^ j - 1)) / 2 ^ j" using up by (simp add: x_def add_divide_distrib)
  have eq: "of_int (h * 2 ^ j + (2 ^ j - 1)) / 2 ^ j = of_int (h + 1) - (1 / 2 ^ j :: rat)"
    by (simp add: field_simps)
  have pos: "0 < (1 / 2 ^ j :: rat)" by simp
  have "x * 2 ^ j < 2 ^ 53"
  proof -
    have "x < of_int (h + 1)" using x eq pos by linarith
    then have "x * 2 ^ j < of_int (h + 1) * 2 ^ j" by (intro mult_strict_right_mono) auto
    also have "\<dots> = of_int ((h + 1) * 2 ^ j)" by simp
    also have "\<dots> \<le> (of_int (2 ^ 53) :: rat)" using h(2) by (simp only: of_int_le_iff)
    finally show ?thesis by simp
  qed
  then have "float64 x \<le> of_int (h * 2 ^ j + (2 ^ j - 1)) / 2 ^ j" using j by (intro float64_le x) auto
  then have "float64 x < of_int (h + 1)" using eq pos by linarith
  moreover have "of_int h \<le> float64 x" using low by (intro float64_ge) (simp add: x_def)
  ultimately show ?thesis unfolding q_def [symmetric] x_def [symmetric] by (simp add: floor_eq_iff)
qed

text \<open>The value of a rounding, from the number of places and the nearest integer.\<close>

lemma nearest_unique:
  assumes "of_int m - 1 / 2 < y" and "y < of_int m + 1 / 2"
  shows "nearest y = m"
proof (cases "of_int m \<le> y")
  case True
  then have "floor y = m" using assms(2) by (simp add: floor_eq_iff)
  with assms(2) show ?thesis by (simp add: nearest_def)
next
  case False
  then have "floor y = m - 1" using assms(1) by (simp add: floor_eq_iff)
  with assms(1) show ?thesis by (simp add: nearest_def)
qed

lemma float64_eq:
  assumes "k \<le> 1074" "0 \<le> x" "x * 2 ^ k < 2 ^ 53" "2 ^ 53 \<le> x * 2 ^ Suc k"
    and "of_int m - 1 / 2 < x * 2 ^ k" "x * 2 ^ k < of_int m + 1 / 2"
  shows "float64 x = of_int m / 2 ^ k"
  unfolding float64_def places_eq [OF assms(1-4)] Let_def nearest_unique [OF assms(5,6)] ..

end
