(* ===== verification/Strutil_Duration.thy ===== *)
theory Strutil_Duration
  imports Go_Float Go_Time
begin

text \<open>
  \<open>FormatDuration\<close> (\<open>strutil/format.go\<close>), with the floating-point values of \<open>Duration.Seconds\<close>, \<open>Minutes\<close>
  and \<open>Hours\<close> that it truncates, and for which durations these truncate to the right integers.
\<close>

section \<open>Model\<close>

definition go_quot :: "int \<Rightarrow> int \<Rightarrow> int" where
  \<comment> \<open>Go's integer division by a positive number truncates towards zero\<close>
  "go_quot a b = (if a < 0 then - (- a div b) else a div b)"

text \<open>\<open>int(d.Seconds())\<close> and its like for a duration that is not negative: whole units plus the rest divided
  by the unit, each rounded.\<close>

definition int_units :: "int \<Rightarrow> int \<Rightarrow> int" where
  "int_units unit d = floor (float64 (of_int (d div unit) + float64 (of_int (d mod unit) / of_int unit)))"

definition FormatDuration :: "int \<Rightarrow> string" where
  "FormatDuration d =
     (if d < Second then itoa (go_quot d Millisecond) @ ''ms''
      else if d < Minute then itoa (int_units Second d) @ ''s''
      else if d < Hour then
        (let minutes = int_units Minute d; seconds = int_units Second d mod 60 in
         if seconds > 0 then itoa minutes @ ''m '' @ itoa seconds @ ''s'' else itoa minutes @ ''m'')
      else if d < 24 * Hour then
        (let hours = int_units Hour d; minutes = int_units Minute d mod 60 in
         if minutes > 0 then itoa hours @ ''h '' @ itoa minutes @ ''m'' else itoa hours @ ''h'')
      else
        (let totalHours = int_units Hour d; days = totalHours div 24; hours = totalHours mod 24;
             minutes = int_units Minute d mod 60 in
         if minutes > 0 then itoa days @ ''d '' @ itoa hours @ ''h '' @ itoa minutes @ ''m''
         else if hours > 0 then itoa days @ ''d '' @ itoa hours @ ''h''
         else itoa days @ ''d''))"

section \<open>Truncation is exact up to 2048 hours\<close>

lemma int_units_exact:
  assumes "0 \<le> d" "d < 2048 * Hour"
  shows "int_units Second d = d div Second" "int_units Minute d = d div Minute" "int_units Hour d = d div Hour"
proof -
  have "int_units unit d = d div unit" if "0 < unit" "unit \<le> 2 ^ j" "j \<le> 53" "(d div unit + 1) * 2 ^ j \<le> 2 ^ 53" for unit j
    unfolding int_units_def using assms(1) that by (intro float64_floor [where j = j]) (auto simp: pos_imp_zdiv_nonneg_iff)
  note exact = this
  have "d div Second < 7372800" "d div Minute < 122880" "d div Hour < 2048"
    using assms(2) by (simp_all add: time_units div_less_iff_less_mult)
  then show "int_units Second d = d div Second" "int_units Minute d = d div Minute" "int_units Hour d = d div Hour"
    by (intro exact [of _ 30] exact [of _ 36] exact [of _ 42]; simp add: time_units)+
qed

text \<open>The pieces of a duration in whole units, printed without the pieces that are zero at the end.\<close>

definition duration_pieces :: "int \<Rightarrow> string" where
  "duration_pieces d =
     (let seconds = d div Second; minutes = d div Minute; hours = d div Hour; days = d div (24 * Hour) in
      if minutes = 0 then itoa seconds @ ''s''
      else if hours = 0 then itoa minutes @ ''m'' @ (if seconds mod 60 = 0 then [] else '' '' @ itoa (seconds mod 60) @ ''s'')
      else if days = 0 then itoa hours @ ''h'' @ (if minutes mod 60 = 0 then [] else '' '' @ itoa (minutes mod 60) @ ''m'')
      else itoa days @ ''d''
        @ (if hours mod 24 = 0 \<and> minutes mod 60 = 0 then [] else '' '' @ itoa (hours mod 24) @ ''h'')
        @ (if minutes mod 60 = 0 then [] else '' '' @ itoa (minutes mod 60) @ ''m''))"

text \<open>C39. From one second to 2048 hours the text shows the exact whole days, hours, minutes and seconds, in
  spite of the floating-point truncation.\<close>

theorem FormatDuration_exact:
  assumes "Second \<le> d" and "d < 2048 * Hour"
  shows "FormatDuration d = duration_pieces d"
proof -
  have d: "0 \<le> d" using assms(1) by (simp add: time_units)
  note exact = int_units_exact [OF d assms(2)]
  have zero: "d div Minute = 0 \<longleftrightarrow> d < Minute" "d div Hour = 0 \<longleftrightarrow> d < Hour" "d div (24 * Hour) = 0 \<longleftrightarrow> d < 24 * Hour"
    using d by (auto simp: time_units zdiv_eq_0_iff)
  have days: "d div Hour div 24 = d div (24 * Hour)"
    by (simp add: zdiv_zmult2_eq [symmetric] time_units)
  have mono: "Minute \<le> Hour" "Hour \<le> 24 * Hour" by (simp_all add: time_units)
  have nonneg: "0 \<le> d div Second mod 60" "0 \<le> d div Minute mod 60" "0 \<le> d div Hour mod 24" by simp_all
  show ?thesis
    unfolding FormatDuration_def duration_pieces_def Let_def exact zero days
    using assms(1) mono nonneg by (auto simp: not_less)
qed

lemma FormatDuration_exact_witness: "FormatDuration (50 * Hour + 7 * Minute - 1) = ''2d 2h 6m''"
proof -
  have "FormatDuration (50 * Hour + 7 * Minute - 1) = duration_pieces (50 * Hour + 7 * Minute - 1)"
    by (rule FormatDuration_exact) (simp_all add: time_units)
  also have "\<dots> = ''2d 2h 6m''" by code_simp
  finally show ?thesis .
qed

text \<open>Above 4096 hours the hours are rounded up in the last nanosecond, while the minutes are not.\<close>

lemma hours_rounded_up: "int_units Hour (4097 * Hour - 1) = 4097"
proof -
  have 1: "(4097 * Hour - 1) div Hour = 4096" "(4097 * Hour - 1) mod Hour = 3599999999999" by (simp_all add: time_units)
  have 2: "float64 (of_int 3599999999999 / of_int Hour) = of_int 9007199254738490 / 2 ^ 53"
    by (rule float64_eq) (simp_all add: time_units)
  have 3: "float64 (of_int 4096 + of_int 9007199254738490 / 2 ^ 53) = of_int (4097 * 2 ^ 40) / 2 ^ 40"
    by (rule float64_eq) simp_all
  show ?thesis unfolding int_units_def 1 2 3 by simp
qed

lemma minutes_not_rounded_up: "int_units Minute (4097 * Hour - 1) = 245819"
proof -
  have 1: "(4097 * Hour - 1) div Minute = 245819" "(4097 * Hour - 1) mod Minute = 59999999999" by (simp_all add: time_units)
  have 2: "float64 (of_int 59999999999 / of_int Minute) = of_int 9007199254590872 / 2 ^ 53"
    by (rule float64_eq) (simp_all add: time_units)
  have 3: "float64 (of_int 245819 + of_int 9007199254590872 / 2 ^ 53) = of_int (245819 * 2 ^ 35 + 34359738367) / 2 ^ 35"
    by (rule float64_eq) simp_all
  show ?thesis unfolding int_units_def 1 2 3 by (simp add: floor_eq_iff)
qed

lemma FormatDuration_off_by_an_hour: "FormatDuration (4097 * Hour - 1) = ''170d 17h 59m''"
proof -
  have "\<not> 4097 * Hour - 1 < Second" "\<not> 4097 * Hour - 1 < Minute" "\<not> 4097 * Hour - 1 < Hour" "\<not> 4097 * Hour - 1 < 24 * Hour"
    by (simp_all add: time_units)
  moreover have "itoa 170 = ''170''" "itoa 17 = ''17''" "itoa 59 = ''59''" by code_simp+
  ultimately show ?thesis by (simp add: FormatDuration_def hours_rounded_up minutes_not_rounded_up Let_def)
qed

end
