(* ===== verification/Syncutil.thy ===== *)
theory Syncutil
  imports Go_Prelude
begin

text \<open>
  Package \<open>syncutil\<close>: \<open>Map\<close>, \<open>Slice\<close> and \<open>Locker\<close>. Every operation runs under its object's lock, so a
  concurrent history is a sequence of calls. The operations of \<open>Map\<close> and \<open>Slice\<close> are the statements the source
  has, \<open>Lock\<close>, \<open>defer Unlock\<close> and the body, so that what a panic under the lock leaves behind is a result.
  Slices and maps are addresses of arrays and maps in a memory that the object shares with its callers: a
  caller keeps the slices and maps it made or got back and may read and write them at any time.
\<close>

datatype 'r outcome = Returns 'r | Panics | Blocks

section \<open>Methods with a lock\<close>

record rwmutex =
  writer :: bool
  readers :: nat

definition unlocked :: rwmutex where
  "unlocked = \<lparr>writer = False, readers = 0\<rparr>"

record locked =
  mu :: rwmutex

type_synonym ('s, 'r) op_body = "'s \<Rightarrow> 'r outcome \<times> 's"

definition and_then :: "('s, 'r) op_body \<Rightarrow> ('r \<Rightarrow> ('s, 'q) op_body) \<Rightarrow> ('s, 'q) op_body" where
  "and_then m f s =
     (case m s of (Returns x, s1) \<Rightarrow> f x s1 | (Panics, s1) \<Rightarrow> (Panics, s1) | (Blocks, s1) \<Rightarrow> (Blocks, s1))"

text \<open>\<open>defer u\<close> followed by \<open>m\<close>: \<open>u\<close> runs when \<open>m\<close> returns and when it panics.\<close>

definition deferring :: "('s, unit) op_body \<Rightarrow> ('s, 'r) op_body \<Rightarrow> ('s, 'r) op_body" where
  "deferring u m s =
     (case m s of
        (Returns x, s1) \<Rightarrow> (Returns x, snd (u s1))
      | (Panics, s1) \<Rightarrow> (Panics, snd (u s1))
      | (Blocks, s1) \<Rightarrow> (Blocks, s1))"

definition yields :: "('s \<Rightarrow> 'r \<times> 's) \<Rightarrow> ('s, 'r) op_body" where
  "yields f s = (let (x, s1) = f s in (Returns x, s1))"

definition Lock :: "('z locked_scheme, unit) op_body" where
  "Lock s = (if writer (mu s) \<or> readers (mu s) > 0 then (Blocks, s)
             else (Returns (), s\<lparr>mu := (mu s)\<lparr>writer := True\<rparr>\<rparr>))"

definition Unlock :: "('z locked_scheme, unit) op_body" where
  "Unlock s = (if writer (mu s) then (Returns (), s\<lparr>mu := (mu s)\<lparr>writer := False\<rparr>\<rparr>) else (Panics, s))"

definition RLock :: "('z locked_scheme, unit) op_body" where
  "RLock s = (if writer (mu s) then (Blocks, s)
              else (Returns (), s\<lparr>mu := (mu s)\<lparr>readers := readers (mu s) + 1\<rparr>\<rparr>))"

definition RUnlock :: "('z locked_scheme, unit) op_body" where
  "RUnlock s = (if readers (mu s) > 0 then (Returns (), s\<lparr>mu := (mu s)\<lparr>readers := readers (mu s) - 1\<rparr>\<rparr>)
                else (Panics, s))"

text \<open>The two forms methods have: \<open>Lock; m; Unlock\<close>, and \<open>RLock; defer RUnlock; m\<close>.\<close>

definition between_locks :: "('z locked_scheme, 'r) op_body \<Rightarrow> ('z locked_scheme, 'r) op_body" where
  "between_locks m = and_then Lock (\<lambda>_. and_then m (\<lambda>r. and_then Unlock (\<lambda>_. yields (Pair r))))"

definition read_locked :: "('z locked_scheme, 'r) op_body \<Rightarrow> ('z locked_scheme, 'r) op_body" where
  "read_locked m = and_then RLock (\<lambda>_. deferring RUnlock m)"

lemmas lock_defs = between_locks_def read_locked_def and_then_def deferring_def yields_def Lock_def Unlock_def
  RLock_def RUnlock_def

section \<open>Objects under a lock\<close>

text \<open>\<open>calls\<close> performs a sequence of operations, each call recovering from its panic if there is one.\<close>

fun calls :: "('op \<Rightarrow> ('s, 'r) op_body) \<Rightarrow> 'op list \<Rightarrow> 's \<Rightarrow> 'r outcome list \<times> 's" where
  "calls step [] s = ([], s)"
| "calls step (x # xs) s = (let (r, s1) = step x s; (rs, s2) = calls step xs s1 in (r # rs, s2))"

text \<open>An object with an invariant \<open>ok\<close> whose operations, while its lock is free, follow the sequential
  specification \<open>spec\<close> on the abstract value; where \<open>spec\<close> has no result the operation panics and keeps the
  lock. Operations that are not \<open>locking\<close> are the callers' own.\<close>

locale guarded_object =
  fixes ok :: "'z locked_scheme \<Rightarrow> bool"
    and step :: "'op \<Rightarrow> ('z locked_scheme, 'r) op_body"
    and val :: "'z locked_scheme \<Rightarrow> 'a"
    and spec :: "'op \<Rightarrow> 'a \<Rightarrow> ('r \<times> 'a) option"
    and locking :: "'op \<Rightarrow> bool"
  assumes blocked: "ok s \<Longrightarrow> writer (mu s) \<Longrightarrow> locking x \<Longrightarrow> step x s = (Blocks, s)"
    and follows: "ok s \<Longrightarrow> writer (mu s) \<longrightarrow> \<not> locking x \<Longrightarrow> spec x (val s) = Some (r, a) \<Longrightarrow>
      \<exists>s'. step x s = (Returns r, s') \<and> ok s' \<and> val s' = a \<and> writer (mu s') = writer (mu s)"
    and breaks: "ok s \<Longrightarrow> \<not> writer (mu s) \<Longrightarrow> spec x (val s) = None \<Longrightarrow>
      \<exists>s'. step x s = (Panics, s') \<and> ok s' \<and> val s' = val s \<and> writer (mu s')"
    and breaking: "spec x a = None \<Longrightarrow> locking x"
begin

text \<open>What the specification allows: results as long as there is one; after a panic no locking operation
  returns any more.\<close>

fun history :: "bool \<Rightarrow> 'op list \<Rightarrow> 'a \<Rightarrow> 'r outcome list" where
  "history stuck [] a = []"
| "history stuck (x # xs) a =
     (if stuck \<and> locking x then Blocks # history stuck xs a
      else case spec x a of
             Some (r, a') \<Rightarrow> Returns r # history stuck xs a'
           | None \<Rightarrow> Panics # history True xs a)"

lemma calls_history: "ok s \<Longrightarrow> fst (calls step xs s) = history (writer (mu s)) xs (val s)"
proof (induction xs arbitrary: s)
  case (Cons x xs)
  consider "writer (mu s)" "locking x" | r a where "writer (mu s) \<longrightarrow> \<not> locking x" "spec x (val s) = Some (r, a)"
    | "\<not> writer (mu s)" "spec x (val s) = None"
    using breaking by (cases "spec x (val s)") auto
  then show ?case
  proof cases
    case 1
    with blocked [OF Cons.prems] Cons.IH [OF Cons.prems] show ?thesis by (simp add: case_prod_beta)
  next
    case 2
    with follows [OF Cons.prems] obtain s' where "step x s = (Returns r, s')" "ok s'" "val s' = a"
      "writer (mu s') = writer (mu s)" by blast
    with 2 Cons.IH [of s'] show ?thesis by (auto simp: case_prod_beta)
  next
    case 3
    with breaks [OF Cons.prems] obtain s' where "step x s = (Panics, s')" "ok s'" "val s' = val s" "writer (mu s')"
      by blast
    with 3 Cons.IH [of s'] show ?thesis by (simp add: case_prod_beta)
  qed
qed simp

lemma calls_total:
  assumes "ok s" and "\<not> writer (mu s)" and "\<And>x a. spec x a \<noteq> None"
  shows "Blocks \<notin> set (fst (calls step xs s)) \<and> Panics \<notin> set (fst (calls step xs s))"
proof -
  have "Blocks \<notin> set (history False xs a) \<and> Panics \<notin> set (history False xs a)" for a
    by (induction xs arbitrary: a) (use assms(3) in \<open>auto split: option.splits\<close>)
  with calls_history [OF assms(1)] assms(2) show ?thesis by simp
qed

end

section \<open>Slice (\<open>slices.go\<close>)\<close>

text \<open>A slice is the address of its array and a length; the array's length is the capacity. \<open>slices\<close> are those
  the callers hold.\<close>

type_synonym slice = "nat \<times> nat"

record 'a sslice = locked +
  mem :: "'a list list"
  items :: slice
  slices :: "slice list"

definition contents :: "'a list list \<Rightarrow> slice \<Rightarrow> 'a list" where
  "contents h s = take (snd s) (h ! fst s)"

text \<open>\<open>make([]T, n)\<close>, a slice literal and the copy into a new slice allocate an array.\<close>

definition new_slice :: "'a list \<Rightarrow> 'a list list \<Rightarrow> slice \<times> 'a list list" where
  "new_slice xs h = ((length h, length xs), h @ [xs])"

text \<open>\<open>append\<close> writes behind the slice while the capacity suffices, else it moves the elements to a new
  array, of a capacity the run-time system chooses (\<open>grow\<close>).\<close>

definition go_append :: "(nat \<Rightarrow> nat \<Rightarrow> nat) \<Rightarrow> 'a \<Rightarrow> slice \<Rightarrow> 'a list \<Rightarrow> 'a list list \<Rightarrow> slice \<times> 'a list list" where
  "go_append grow zero s xs h =
     (let array = h ! fst s; n = snd s + length xs
      in if n \<le> length array
         then ((fst s, n), h[fst s := take (snd s) array @ xs @ drop n array])
         else ((length h, n),
               h @ [take (snd s) array @ xs @ replicate (grow (length array) n - n) zero]))"

text \<open>\<open>copy(dst, src)\<close> of slices of one length.\<close>

definition go_copy :: "slice \<Rightarrow> slice \<Rightarrow> 'a list list \<Rightarrow> 'a list list" where
  "go_copy dst src h = h[fst dst := contents h src @ drop (snd dst) (h ! fst dst)]"

definition NewSlice :: "'a sslice" where
  "NewSlice = \<lparr>mu = unlocked, mem = [[]], items = (0, 0), slices = []\<rparr>"

definition NewSliceWithLength :: "'a \<Rightarrow> int \<Rightarrow> 'a sslice option" where
  \<comment> \<open>\<open>make\<close> panics for a negative length\<close>
  "NewSliceWithLength zero n =
     (if n < 0 then None
      else Some \<lparr>mu = unlocked, mem = [replicate (nat n) zero], items = (0, nat n), slices = []\<rparr>)"

text \<open>The methods. \<open>AddMany\<close> gets a slice of a caller, \<open>GetAll\<close> gives it one.\<close>

definition held_slice :: "'a sslice \<Rightarrow> nat \<Rightarrow> 'a list" where
  "held_slice s k = (if k < length (slices s) then contents (mem s) (slices s ! k) else [])"

definition append_items :: "(nat \<Rightarrow> nat \<Rightarrow> nat) \<Rightarrow> 'a \<Rightarrow> 'a list \<Rightarrow> 'a sslice \<Rightarrow> 'a sslice" where
  "append_items grow zero xs s =
     (let (items', h) = go_append grow zero (items s) xs (mem s) in s\<lparr>items := items', mem := h\<rparr>)"

definition Slice_Add :: "(nat \<Rightarrow> nat \<Rightarrow> nat) \<Rightarrow> 'a \<Rightarrow> 'a \<Rightarrow> ('a sslice, unit) op_body" where
  "Slice_Add grow zero x = between_locks (yields (\<lambda>s. ((), append_items grow zero [x] s)))"

definition store_item :: "int \<Rightarrow> 'a \<Rightarrow> ('a sslice, unit) op_body" where
  \<comment> \<open>\<open>s.items[index] = item\<close>\<close>
  "store_item i x s =
     (if 0 \<le> i \<and> i < int (snd (items s))
      then (Returns (), s\<lparr>mem := (mem s)[fst (items s) := (mem s ! fst (items s))[nat i := x]]\<rparr>)
      else (Panics, s))"

definition Slice_AddToIndex :: "int \<Rightarrow> 'a \<Rightarrow> ('a sslice, unit) op_body" where
  "Slice_AddToIndex i x = between_locks (store_item i x)"

definition Slice_AddMany :: "(nat \<Rightarrow> nat \<Rightarrow> nat) \<Rightarrow> 'a \<Rightarrow> nat \<Rightarrow> ('a sslice, unit) op_body" where
  "Slice_AddMany grow zero k = between_locks (yields (\<lambda>s. ((), append_items grow zero (held_slice s k) s)))"

definition copy_items :: "'a \<Rightarrow> 'a sslice \<Rightarrow> nat \<times> 'a sslice" where
  "copy_items zero s =
     (let (result, h) = new_slice (replicate (snd (items s)) zero) (mem s)
      in (length (slices s), s\<lparr>mem := go_copy result (items s) h, slices := slices s @ [result]\<rparr>))"

definition Slice_GetAll :: "'a \<Rightarrow> ('a sslice, nat) op_body" where
  "Slice_GetAll zero = read_locked (yields (copy_items zero))"

definition Slice_Len :: "('a sslice, nat) op_body" where
  "Slice_Len = read_locked (yields (\<lambda>s. (snd (items s), s)))"

text \<open>What callers do with their own slices, without the lock.\<close>

definition caller_make :: "'a list \<Rightarrow> 'a sslice \<Rightarrow> nat \<times> 'a sslice" where
  "caller_make xs s = (let (n, h) = new_slice xs (mem s) in (length (slices s), s\<lparr>mem := h, slices := slices s @ [n]\<rparr>))"

definition caller_write :: "nat \<Rightarrow> nat \<Rightarrow> 'a \<Rightarrow> 'a sslice \<Rightarrow> 'a sslice" where
  "caller_write k i x s =
     (if k < length (slices s) \<and> i < snd (slices s ! k)
      then s\<lparr>mem := (mem s)[fst (slices s ! k) := (mem s ! fst (slices s ! k))[i := x]]\<rparr> else s)"

datatype 'a slice_op =
    SAdd 'a | SAddToIndex int 'a | SAddMany nat | SGetAll | SLen
  | CMake "'a list" | CWrite nat nat 'a | CRead nat
datatype 'a slice_result = SUnit | SList "'a list" | SRef nat | SInt nat

definition giving :: "('r \<Rightarrow> 'q) \<Rightarrow> ('s, 'r) op_body \<Rightarrow> ('s, 'q) op_body" where
  "giving f m = and_then m (\<lambda>x. yields (Pair (f x)))"

fun slice_step :: "(nat \<Rightarrow> nat \<Rightarrow> nat) \<Rightarrow> 'a \<Rightarrow> 'a slice_op \<Rightarrow> ('a sslice, 'a slice_result) op_body" where
  "slice_step grow zero (SAdd x) = giving (\<lambda>_. SUnit) (Slice_Add grow zero x)"
| "slice_step grow zero (SAddToIndex i x) = giving (\<lambda>_. SUnit) (Slice_AddToIndex i x)"
| "slice_step grow zero (SAddMany k) = giving (\<lambda>_. SUnit) (Slice_AddMany grow zero k)"
| "slice_step grow zero SGetAll = giving SRef (Slice_GetAll zero)"
| "slice_step grow zero SLen = giving SInt Slice_Len"
| "slice_step grow zero (CMake xs) = giving SRef (yields (caller_make xs))"
| "slice_step grow zero (CWrite k i x) = yields (\<lambda>s. (SUnit, caller_write k i x s))"
| "slice_step grow zero (CRead k) = yields (\<lambda>s. (SList (held_slice s k), s))"

section \<open>Map (\<open>maps.go\<close>)\<close>

text \<open>\<open>map_items\<close> is the address of the map; \<open>held_maps\<close> are those \<open>GetAll\<close> has given to callers.\<close>

record ('k, 'v) smap = locked +
  map_mem :: "('k, 'v) mapping list"
  map_items :: nat
  held_maps :: "nat list"

abbreviation the_map :: "('k, 'v) smap \<Rightarrow> ('k, 'v) mapping" where
  "the_map m \<equiv> map_mem m ! map_items m"

definition NewMap :: "('k, 'v) smap" where
  "NewMap = \<lparr>mu = unlocked, map_mem = [Mapping.empty], map_items = 0, held_maps = []\<rparr>"

definition NewMapWithCapacity :: "int \<Rightarrow> ('k, 'v) smap" where
  \<comment> \<open>the capacity is a hint\<close>
  "NewMapWithCapacity capacity = NewMap"

text \<open>The callback of \<open>Range\<close> acts on the caller's state; Go fixes no iteration order, so the operations
  that iterate take one.\<close>

datatype ('k, 'v, 'x) map_op =
    MSet 'k 'v | MGet 'k | MDelete 'k | MHas 'k | MGetAll | MKeys "'k list" | MValues "'k list"
  | MRange "'k list" "'k \<Rightarrow> 'v \<Rightarrow> 'x \<Rightarrow> bool \<times> 'x" 'x | MLen | MClear
  | CMapSet nat 'k 'v | CMapRead nat

datatype ('k, 'v, 'x) map_result =
    MUnit | MFound "'v option" | MBool bool | MRef nat | MMap "('k, 'v) mapping" | MKeyList "'k list" | MValueList "'v list"
  | MState 'x | MInt nat

fun range_loop :: "('k, 'v) mapping \<Rightarrow> ('k \<Rightarrow> 'v \<Rightarrow> 'x \<Rightarrow> bool \<times> 'x) \<Rightarrow> 'k list \<Rightarrow> 'x \<Rightarrow> 'x" where
  "range_loop m fn [] x = x"
| "range_loop m fn (k # ks) x =
     (case Mapping.lookup m k of
        None \<Rightarrow> range_loop m fn ks x
      | Some v \<Rightarrow> (let (continue, x') = fn k v x in if continue then range_loop m fn ks x' else x'))"

definition map_keys_of :: "('k, 'v) mapping \<Rightarrow> 'k list \<Rightarrow> 'k list" where
  "map_keys_of m order = filter (\<lambda>k. Mapping.lookup m k \<noteq> None) order"

definition write_map :: "nat \<Rightarrow> (('k, 'v) mapping \<Rightarrow> ('k, 'v) mapping) \<Rightarrow> ('k, 'v) smap \<Rightarrow> ('k, 'v) smap" where
  "write_map a f m = m\<lparr>map_mem := (map_mem m)[a := f (map_mem m ! a)]\<rparr>"

text \<open>\<open>GetAll\<close> copies into a map of its own, \<open>Clear\<close> puts a new map in place of the old one.\<close>

definition copy_map :: "('k, 'v) smap \<Rightarrow> nat \<times> ('k, 'v) smap" where
  "copy_map m = (length (held_maps m),
     m\<lparr>map_mem := map_mem m @ [the_map m], held_maps := held_maps m @ [length (map_mem m)]\<rparr>)"

definition clear_map :: "('k, 'v) smap \<Rightarrow> ('k, 'v) smap" where
  "clear_map m = m\<lparr>map_mem := map_mem m @ [Mapping.empty], map_items := length (map_mem m)\<rparr>"

fun map_step :: "('k, 'v, 'x) map_op \<Rightarrow> (('k, 'v) smap, ('k, 'v, 'x) map_result) op_body" where
  "map_step (MSet k v) = between_locks (yields (\<lambda>m. (MUnit, write_map (map_items m) (Mapping.update k v) m)))"
| "map_step (MGet k) = read_locked (yields (\<lambda>m. (MFound (Mapping.lookup (the_map m) k), m)))"
| "map_step (MDelete k) = between_locks (yields (\<lambda>m. (MUnit, write_map (map_items m) (Mapping.delete k) m)))"
| "map_step (MHas k) = read_locked (yields (\<lambda>m. (MBool (Mapping.lookup (the_map m) k \<noteq> None), m)))"
| "map_step MGetAll = giving MRef (read_locked (yields copy_map))"
| "map_step (MKeys order) = read_locked (yields (\<lambda>m. (MKeyList (map_keys_of (the_map m) order), m)))"
| "map_step (MValues order) = read_locked (yields (\<lambda>m.
     (MValueList (map (\<lambda>k. the (Mapping.lookup (the_map m) k)) (map_keys_of (the_map m) order)), m)))"
| "map_step (MRange order fn x) = read_locked (yields (\<lambda>m. (MState (range_loop (the_map m) fn order x), m)))"
| "map_step MLen = read_locked (yields (\<lambda>m. (MInt (Mapping.size (the_map m)), m)))"
| "map_step MClear = between_locks (yields (\<lambda>m. (MUnit, clear_map m)))"
| "map_step (CMapSet i k v) = yields (\<lambda>m. (MUnit,
     if i < length (held_maps m) then write_map (held_maps m ! i) (Mapping.update k v) m else m))"
| "map_step (CMapRead i) = yields (\<lambda>m. (MMap
     (if i < length (held_maps m) then map_mem m ! (held_maps m ! i) else Mapping.empty), m))"

section \<open>Locker (\<open>locker.go\<close>)\<close>

text \<open>The locker holds a pointer; \<open>Set\<close> allocates a new cell. A pointer that \<open>GetPointer\<close> gave away can be
  written without the lock.\<close>

record 'a locker =
  cells :: "'a list"
  pointer :: nat

definition NewLocker :: "'a \<Rightarrow> 'a locker" where
  "NewLocker v = \<lparr>cells = [v], pointer = 0\<rparr>"

definition locker_Set :: "'a \<Rightarrow> 'a locker \<Rightarrow> 'a locker" where
  "locker_Set v l = l\<lparr>cells := cells l @ [v], pointer := length (cells l)\<rparr>"

definition write_pointer :: "nat \<Rightarrow> 'a \<Rightarrow> 'a locker \<Rightarrow> 'a locker" where
  "write_pointer p v l = l\<lparr>cells := (cells l)[p := v]\<rparr>"

definition locker_Get :: "'a locker \<Rightarrow> 'a" where
  "locker_Get l = cells l ! pointer l"

definition locker_Update :: "('a \<Rightarrow> 'a) \<Rightarrow> 'a locker \<Rightarrow> 'a locker" where
  "locker_Update fn l = write_pointer (pointer l) (fn (locker_Get l)) l"

definition GetPointer :: "'a locker \<Rightarrow> nat" where
  "GetPointer l = pointer l"

end
