(* ===== verification/Syncutil_Props.thy ===== *)
theory Syncutil_Props
  imports Syncutil
begin

text \<open>
  Properties of \<open>syncutil\<close>: under any history \<open>Slice\<close> and \<open>Map\<close> implement a plain list and a plain map,
  which no caller reaches through the slices and maps it holds, as long as no index is out of range;
  \<open>Locker\<close> and escaped pointers.
\<close>

section \<open>Slice\<close>

text \<open>The specification is about values: the elements, and the lists the callers hold.\<close>

fun list_spec :: "'a slice_op \<Rightarrow> 'a list \<times> 'a list list \<Rightarrow> ('a slice_result \<times> 'a list \<times> 'a list list) option" where
  "list_spec (SAdd x) (xs, cs) = Some (SUnit, xs @ [x], cs)"
| "list_spec (SAddToIndex i x) (xs, cs) =
     (if 0 \<le> i \<and> i < int (length xs) then Some (SUnit, xs[nat i := x], cs) else None)"
| "list_spec (SAddMany k) (xs, cs) = Some (SUnit, xs @ (if k < length cs then cs ! k else []), cs)"
| "list_spec SGetAll (xs, cs) = Some (SRef (length cs), xs, cs @ [xs])"
| "list_spec SLen (xs, cs) = Some (SInt (length xs), xs, cs)"
| "list_spec (CMake ys) (xs, cs) = Some (SRef (length cs), xs, cs @ [ys])"
| "list_spec (CWrite k i x) (xs, cs) = Some (SUnit, xs, cs[k := (cs ! k)[i := x]])"
| "list_spec (CRead k) (xs, cs) = Some (SList (if k < length cs then cs ! k else []), xs, cs)"

fun slice_locking :: "'a slice_op \<Rightarrow> bool" where
  "slice_locking (CMake xs) = False"
| "slice_locking (CWrite k i x) = False"
| "slice_locking (CRead k) = False"
| "slice_locking _ = True"

text \<open>The invariant: every slice lies in its array, and no two slices share one.\<close>

definition fits :: "'a list list \<Rightarrow> slice \<Rightarrow> bool" where
  "fits h s \<longleftrightarrow> fst s < length h \<and> snd s \<le> length (h ! fst s)"

definition slice_ok :: "'a sslice \<Rightarrow> bool" where
  "slice_ok s \<longleftrightarrow> fits (mem s) (items s) \<and> list_all (fits (mem s)) (slices s)
     \<and> distinct (fst (items s) # map fst (slices s))"

definition slice_val :: "'a sslice \<Rightarrow> 'a list \<times> 'a list list" where
  "slice_val s = (contents (mem s) (items s), map (contents (mem s)) (slices s))"

lemma contents_elsewhere: "a \<noteq> fst s \<Longrightarrow> contents (h[a := xs]) s = contents h s"
  by (simp add: contents_def)

lemma fits_elsewhere: "a \<noteq> fst s \<Longrightarrow> fits (h[a := xs]) s = fits h s"
  by (simp add: fits_def)

lemma contents_append: "fits h s \<Longrightarrow> contents (h @ [xs]) s = contents h s"
  by (simp add: contents_def fits_def nth_append)

lemma fits_append: "fits h s \<Longrightarrow> fits (h @ [xs]) s"
  by (simp add: fits_def nth_append)

text \<open>Memory changes away from a list of slices.\<close>

lemma others_elsewhere:
  assumes "a \<notin> fst ` set ss"
  shows "list_all (fits (h[a := xs])) ss = list_all (fits h) ss" "map (contents (h[a := xs])) ss = map (contents h) ss"
  using assms by (induction ss) (auto simp: contents_elsewhere fits_elsewhere)

lemma others_append:
  assumes "list_all (fits h) ss"
  shows "list_all (fits (h @ [xs])) ss" "map (contents (h @ [xs])) ss = map (contents h) ss" "length h \<notin> fst ` set ss"
  using assms by (induction ss) (auto simp: contents_append fits_append, auto simp: fits_def)

lemma append_items_ok:
  assumes "slice_ok s"
  shows "slice_ok (append_items grow zero xs s)
    \<and> slice_val (append_items grow zero xs s) = (fst (slice_val s) @ xs, snd (slice_val s))
    \<and> mu (append_items grow zero xs s) = mu s"
proof -
  obtain a n where i: "items s = (a, n)" by (cases "items s")
  let ?n = "n + length xs"
  have fit: "a < length (mem s)" "n \<le> length (mem s ! a)" and sep: "a \<notin> fst ` set (slices s)"
    using assms i by (auto simp: slice_ok_def fits_def)
  show ?thesis
  proof (cases "?n \<le> length (mem s ! a)")
    case True
    then have "append_items grow zero xs s
        = s\<lparr>items := (a, ?n), mem := (mem s)[a := take n (mem s ! a) @ xs @ drop ?n (mem s ! a)]\<rparr>"
      by (simp add: append_items_def go_append_def i Let_def)
    then show ?thesis
      using assms True fit sep i
      by (simp add: slice_ok_def slice_val_def others_elsewhere) (simp add: fits_def contents_def)
  next
    case False
    then have "append_items grow zero xs s = s\<lparr>items := (length (mem s), ?n),
        mem := mem s @ [take n (mem s ! a) @ xs @ replicate (grow (length (mem s ! a)) ?n - ?n) zero]\<rparr>"
      by (simp add: append_items_def go_append_def i Let_def)
    then show ?thesis
      using assms False fit i
      by (simp add: slice_ok_def slice_val_def others_append) (simp add: fits_def contents_def)
  qed
qed

lemma new_slice_ok:
  assumes "slice_ok s"
  shows "slice_ok (snd (caller_make xs s)) \<and> mu (snd (caller_make xs s)) = mu s
    \<and> slice_val (snd (caller_make xs s)) = (fst (slice_val s), snd (slice_val s) @ [xs])"
  using assms
  by (simp add: slice_ok_def slice_val_def caller_make_def new_slice_def others_append contents_append fits_append)
    (auto simp: fits_def contents_def)

text \<open>\<open>GetAll\<close> has made a slice of its own.\<close>

lemma copy_items_eq:
  assumes "slice_ok s"
  shows "copy_items zero s = caller_make (contents (mem s) (items s)) s"
proof -
  have "length (contents (mem s) (items s)) = snd (items s)"
    using assms by (simp add: slice_ok_def fits_def contents_def)
  moreover have "contents (mem s @ [xs]) (items s) = contents (mem s) (items s)" for xs
    using assms by (intro contents_append) (simp add: slice_ok_def)
  ultimately show ?thesis
    by (simp add: copy_items_def caller_make_def new_slice_def go_copy_def)
qed

lemma write_item_ok:
  assumes "slice_ok s" "i < snd (items s)"
  shows "slice_ok (s\<lparr>mem := (mem s)[fst (items s) := (mem s ! fst (items s))[i := x]]\<rparr>)
    \<and> slice_val (s\<lparr>mem := (mem s)[fst (items s) := (mem s ! fst (items s))[i := x]]\<rparr>)
       = ((fst (slice_val s))[i := x], snd (slice_val s))"
  using assms
  by (simp add: slice_ok_def slice_val_def others_elsewhere) (auto simp: fits_def contents_def take_update_swap)

lemma caller_write_ok:
  assumes "slice_ok s"
  shows "slice_ok (caller_write k i x s) \<and> mu (caller_write k i x s) = mu s
    \<and> slice_val (caller_write k i x s) = (fst (slice_val s), (snd (slice_val s))[k := (snd (slice_val s) ! k)[i := x]])"
proof (cases "k < length (slices s) \<and> i < snd (slices s ! k)")
  case True
  then obtain pre c post where split: "slices s = pre @ c # post" "length pre = k"
    by (metis id_take_nth_drop length_take min.absorb4)
  then have c: "slices s ! k = c" by auto
  have fit: "fits (mem s) c" and sep: "fst c \<noteq> fst (items s)" "fst c \<notin> fst ` set pre" "fst c \<notin> fst ` set post"
    using assms by (auto simp: slice_ok_def split(1))
  have "contents ((mem s)[fst c := (mem s ! fst c)[i := x]]) c = (contents (mem s) c)[i := x]"
    "fits ((mem s)[fst c := (mem s ! fst c)[i := x]]) c"
    using fit by (auto simp: fits_def contents_def take_update_swap)
  then show ?thesis
    using assms True sep split
    by (simp add: caller_write_def c slice_ok_def slice_val_def others_elsewhere contents_elsewhere fits_elsewhere
        nth_append list_update_append)
next
  case False
  have same: "caller_write k i x s = s" unfolding caller_write_def using False by (rule if_not_P)
  have "(snd (slice_val s))[k := (snd (slice_val s) ! k)[i := x]] = snd (slice_val s)"
  proof (cases "k < length (slices s)")
    case True
    then have "length (contents (mem s) (slices s ! k)) = snd (slices s ! k)"
      using assms by (auto simp: slice_ok_def list_all_length fits_def contents_def)
    with True False have "(snd (slice_val s) ! k)[i := x] = snd (slice_val s) ! k"
      by (simp add: slice_val_def list_update_beyond)
    then show ?thesis by simp
  qed (simp add: slice_val_def list_update_beyond)
  with assms same show ?thesis by simp
qed

lemma held_slice_val: "held_slice s k = (if k < length (snd (slice_val s)) then snd (slice_val s) ! k else [])"
  by (simp add: held_slice_def slice_val_def)

lemma mu_irrelevant [simp]: "slice_val (s\<lparr>mu := l\<rparr>) = slice_val s" "slice_ok (s\<lparr>mu := l\<rparr>) = slice_ok s"
  by (simp_all add: slice_val_def slice_ok_def)

lemma slice_length: "slice_ok s \<Longrightarrow> length (fst (slice_val s)) = snd (items s)"
  by (simp add: slice_ok_def slice_val_def fits_def contents_def)

text \<open>What the body \<open>f\<close> of a method does on values.\<close>

definition effect ::
    "('z locked_scheme \<Rightarrow> bool) \<Rightarrow> ('z locked_scheme \<Rightarrow> 'a) \<Rightarrow> ('z locked_scheme \<Rightarrow> 'r \<times> 'z locked_scheme) \<Rightarrow> ('a \<Rightarrow> 'r \<times> 'a) \<Rightarrow> bool" where
  "effect good val f g \<longleftrightarrow> (\<forall>s. good s \<longrightarrow>
     fst (f s) = fst (g (val s)) \<and> good (snd (f s)) \<and> val (snd (f s)) = snd (g (val s)) \<and> mu (snd (f s)) = mu s)"

lemma caller_make_effect: "effect slice_ok slice_val (caller_make ys) (\<lambda>a. (length (snd a), fst a, snd a @ [ys]))"
proof -
  have "fst (caller_make ys s) = length (snd (slice_val s))" for s :: "'a sslice"
    by (simp add: caller_make_def new_slice_def slice_val_def)
  then show ?thesis by (simp add: effect_def new_slice_ok)
qed

lemma slice_effects:
  fixes zero :: 'c
  shows
  "effect slice_ok slice_val (\<lambda>s. ((), append_items grow zero xs s)) (\<lambda>a. ((), fst a @ xs, snd a))"
  "effect slice_ok slice_val (\<lambda>s. ((), append_items grow zero (held_slice s k) s))
     (\<lambda>a. ((), fst a @ (if k < length (snd a) then snd a ! k else []), snd a))"
  "effect slice_ok slice_val (copy_items zero) (\<lambda>a. (length (snd a), fst a, snd a @ [fst a]))"
  "effect slice_ok slice_val (\<lambda>s. (snd (items s), s)) (\<lambda>a. (length (fst a), a))"
  "effect slice_ok slice_val (\<lambda>s. (SUnit, caller_write k i x s)) (\<lambda>a. (SUnit, fst a, (snd a)[k := (snd a ! k)[i := x]]))"
  "effect slice_ok slice_val (\<lambda>s. (SList (held_slice s k), s)) (\<lambda>a. (SList (if k < length (snd a) then snd a ! k else []), a))"
proof -
  have "fst (slice_val s) = contents (mem s) (items s)" for s :: "'c sslice" by (simp add: slice_val_def)
  with caller_make_effect [where 'a = 'c] show "effect slice_ok slice_val (copy_items zero) (\<lambda>a. (length (snd a), fst a, snd a @ [fst a]))"
    by (simp add: effect_def copy_items_eq)
qed (simp_all add: effect_def append_items_ok held_slice_val caller_write_ok slice_length)

lemma effectD:
  assumes "effect good val f g" "good s"
  shows "\<exists>t. f s = (fst (g (val s)), t) \<and> good t \<and> val t = snd (g (val s)) \<and> mu t = mu s"
  using assms by (cases "f s") (auto simp: effect_def dest!: spec)

text \<open>A method whose lock is free runs its body and leaves the lock free; under a held lock it blocks.\<close>

lemma locked_effect:
  fixes s :: "'z locked_scheme"
  assumes f: "effect good val f g" "good s" and idle: "\<not> writer (mu s)" "readers (mu s) = 0"
    and mu: "\<And>s l. good (s\<lparr>mu := l\<rparr>) = good s" "\<And>s l. val (s\<lparr>mu := l\<rparr>) = val s"
  shows "\<exists>t. between_locks (yields f) s = (Returns (fst (g (val s))), t) \<and> good t \<and> val t = snd (g (val s))
      \<and> \<not> writer (mu t) \<and> readers (mu t) = 0"
    and "\<exists>t. read_locked (yields f) s = (Returns (fst (g (val s))), t) \<and> good t \<and> val t = snd (g (val s))
      \<and> \<not> writer (mu t) \<and> readers (mu t) = 0"
proof -
  obtain t where t: "f (s\<lparr>mu := (mu s)\<lparr>writer := True\<rparr>\<rparr>) = (fst (g (val s)), t)" "good t" "val t = snd (g (val s))"
    "mu t = (mu s)\<lparr>writer := True\<rparr>"
    using effectD [OF f(1), of "s\<lparr>mu := (mu s)\<lparr>writer := True\<rparr>\<rparr>"] f(2) by (auto simp: mu)
  then have "between_locks (yields f) s = (Returns (fst (g (val s))), t\<lparr>mu := (mu t)\<lparr>writer := False\<rparr>\<rparr>)"
    using idle by (simp add: lock_defs)
  with t idle show "\<exists>t. between_locks (yields f) s = (Returns (fst (g (val s))), t) \<and> good t \<and> val t = snd (g (val s))
      \<and> \<not> writer (mu t) \<and> readers (mu t) = 0"
    by (auto simp: mu)
next
  obtain t where t: "f (s\<lparr>mu := (mu s)\<lparr>readers := readers (mu s) + 1\<rparr>\<rparr>) = (fst (g (val s)), t)" "good t"
    "val t = snd (g (val s))" "mu t = (mu s)\<lparr>readers := readers (mu s) + 1\<rparr>"
    using effectD [OF f(1), of "s\<lparr>mu := (mu s)\<lparr>readers := readers (mu s) + 1\<rparr>\<rparr>"] f(2) by (auto simp: mu)
  then have "read_locked (yields f) s = (Returns (fst (g (val s))), t\<lparr>mu := (mu t)\<lparr>readers := readers (mu t) - 1\<rparr>\<rparr>)"
    using idle by (simp add: lock_defs)
  with t idle show "\<exists>t. read_locked (yields f) s = (Returns (fst (g (val s))), t) \<and> good t \<and> val t = snd (g (val s))
      \<and> \<not> writer (mu t) \<and> readers (mu t) = 0"
    by (auto simp: mu)
qed

lemma locks_blocked:
  "writer (mu s) \<Longrightarrow> between_locks m s = (Blocks, s)" "writer (mu s) \<Longrightarrow> read_locked m s = (Blocks, s)"
  by (simp_all add: lock_defs)

lemma giving_simps [simp]:
  "m s = (Returns x, t) \<Longrightarrow> giving f m s = (Returns (f x), t)" "m s = (Panics, t) \<Longrightarrow> giving f m s = (Panics, t)"
  "m s = (Blocks, t) \<Longrightarrow> giving f m s = (Blocks, t)"
  by (simp_all add: giving_def and_then_def yields_def)

lemmas slice_methods = Slice_Add_def Slice_AddToIndex_def Slice_AddMany_def Slice_GetAll_def Slice_Len_def

definition idle_slice :: "'a sslice \<Rightarrow> bool" where
  "idle_slice s \<longleftrightarrow> slice_ok s \<and> readers (mu s) = 0"

lemma slice_locked:
  assumes "effect slice_ok slice_val f g" "idle_slice s" "\<not> writer (mu s)"
  shows "\<exists>t. giving h (between_locks (yields f)) s = (Returns (h (fst (g (slice_val s)))), t)
      \<and> idle_slice t \<and> slice_val t = snd (g (slice_val s)) \<and> \<not> writer (mu t)"
    and "\<exists>t. giving h (read_locked (yields f)) s = (Returns (h (fst (g (slice_val s)))), t)
      \<and> idle_slice t \<and> slice_val t = snd (g (slice_val s)) \<and> \<not> writer (mu t)"
  using locked_effect [OF assms(1), of s] assms(2,3) by (auto simp: idle_slice_def)

lemma slice_free:
  assumes "effect slice_ok slice_val f g" "idle_slice s"
  shows "\<exists>t. yields f s = (Returns (fst (g (slice_val s))), t)
      \<and> idle_slice t \<and> slice_val t = snd (g (slice_val s)) \<and> writer (mu t) = writer (mu s)"
  using effectD [OF assms(1), of s] assms(2) by (auto simp: idle_slice_def yields_def)

text \<open>\<open>AddToIndex\<close>: its panic comes between \<open>Lock\<close> and \<open>Unlock\<close>.\<close>

lemma slice_AddToIndex:
  assumes s: "idle_slice s" "\<not> writer (mu s)"
  shows "0 \<le> i \<Longrightarrow> i < int (length (fst (slice_val s))) \<Longrightarrow> \<exists>t. Slice_AddToIndex i x s = (Returns (), t) \<and> idle_slice t
      \<and> slice_val t = ((fst (slice_val s))[nat i := x], snd (slice_val s)) \<and> \<not> writer (mu t)"
    and "\<not> (0 \<le> i \<and> i < int (length (fst (slice_val s)))) \<Longrightarrow> \<exists>t. Slice_AddToIndex i x s = (Panics, t) \<and> idle_slice t
      \<and> slice_val t = slice_val s \<and> writer (mu t)"
proof -
  have len: "length (fst (slice_val s)) = snd (items s)"
    using s by (simp add: idle_slice_def slice_length)
  let ?t = "s\<lparr>mem := (mem s)[fst (items s) := (mem s ! fst (items s))[nat i := x]]\<rparr>"
  let ?l = "(mu s)\<lparr>writer := False\<rparr>" and ?w = "(mu s)\<lparr>writer := True\<rparr>"
  show "\<exists>t. Slice_AddToIndex i x s = (Returns (), t) \<and> idle_slice t
      \<and> slice_val t = ((fst (slice_val s))[nat i := x], snd (slice_val s)) \<and> \<not> writer (mu t)"
    if "0 \<le> i" "i < int (length (fst (slice_val s)))"
  proof (intro exI conjI)
    show "Slice_AddToIndex i x s = (Returns (), ?t\<lparr>mu := ?l\<rparr>)"
      using s that len by (simp add: slice_methods lock_defs store_item_def idle_slice_def)
    have "nat i < snd (items s)" using that len by simp
    from write_item_ok [OF _ this, of x] s
    show "idle_slice (?t\<lparr>mu := ?l\<rparr>)" "slice_val (?t\<lparr>mu := ?l\<rparr>) = ((fst (slice_val s))[nat i := x], snd (slice_val s))"
      by (auto simp: idle_slice_def)
  qed simp
  show "\<exists>t. Slice_AddToIndex i x s = (Panics, t) \<and> idle_slice t \<and> slice_val t = slice_val s \<and> writer (mu t)"
    if "\<not> (0 \<le> i \<and> i < int (length (fst (slice_val s))))"
  proof (intro exI conjI)
    show "Slice_AddToIndex i x s = (Panics, s\<lparr>mu := ?w\<rparr>)"
      using s that len by (auto simp: slice_methods lock_defs store_item_def idle_slice_def)
  qed (use s in \<open>simp_all add: idle_slice_def\<close>)
qed

interpretation slice: guarded_object idle_slice "slice_step grow zero" slice_val list_spec slice_locking
  for grow and zero :: 'a
proof
  fix s :: "'a sslice" and x :: "'a slice_op"
  show "slice_step grow zero x s = (Blocks, s)" if "idle_slice s" "writer (mu s)" "slice_locking x"
    using that by (cases x) (simp_all add: slice_methods locks_blocked)
next
  fix s :: "'a sslice" and x r a
  assume s: "idle_slice s" "writer (mu s) \<longrightarrow> \<not> slice_locking x" "list_spec x (slice_val s) = Some (r, a)"
  obtain ys cs where v: "slice_val s = (ys, cs)" by fastforce
  show "\<exists>s'. slice_step grow zero x s = (Returns r, s') \<and> idle_slice s' \<and> slice_val s' = a \<and> writer (mu s') = writer (mu s)"
  proof (cases x)
    case (SAdd y)
    then show ?thesis
      using slice_locked(1) [OF slice_effects(1) [of grow zero "[y]"] s(1), where h = "\<lambda>_. SUnit"] s v by (auto simp: slice_methods)
  next
    case (SAddToIndex i y)
    with s(3) v have i: "0 \<le> i" "i < int (length ys)" and r: "r = SUnit" "a = (ys[nat i := y], cs)"
      by (auto split: if_splits)
    from i SAddToIndex s(1,2) v obtain t where "Slice_AddToIndex i y s = (Returns (), t)" "idle_slice t"
      "slice_val t = (ys[nat i := y], cs)" "\<not> writer (mu t)"
      using slice_AddToIndex(1) [of s i y] by auto
    with SAddToIndex s(2) r show ?thesis by auto
  next
    case (SAddMany k)
    then show ?thesis
      using slice_locked(1) [OF slice_effects(2) [of grow zero k] s(1), where h = "\<lambda>_. SUnit"] s v by (auto simp: slice_methods)
  next
    case SGetAll
    then show ?thesis
      using slice_locked(2) [OF slice_effects(3) [of zero] s(1), where h = SRef] s v by (auto simp: slice_methods)
  next
    case SLen
    then show ?thesis
      using slice_locked(2) [OF slice_effects(4) s(1), where h = SInt] s v by (auto simp: slice_methods)
  next
    case (CMake zs)
    then obtain t where "yields (caller_make zs) s = (Returns (length cs), t)" "idle_slice t" "slice_val t = (ys, cs @ [zs])"
      "writer (mu t) = writer (mu s)"
      using slice_free [OF caller_make_effect [of zs] s(1)] v by fastforce
    with CMake s v show ?thesis by auto
  next
    case (CWrite k i y)
    then show ?thesis using slice_free [OF slice_effects(5) [of k i y] s(1)] s v by simp
  next
    case (CRead k)
    then show ?thesis using slice_free [OF slice_effects(6) [of k] s(1)] s v by (cases "k < length cs"; auto)
  qed
next
  fix s :: "'a sslice" and x
  assume s: "idle_slice s" "\<not> writer (mu s)" "list_spec x (slice_val s) = None"
  obtain ys cs where v: "slice_val s = (ys, cs)" by fastforce
  with s obtain i y where "x = SAddToIndex i y" "\<not> (0 \<le> i \<and> i < int (length ys))"
    by (cases x) (auto split: if_splits)
  then show "\<exists>s'. slice_step grow zero x s = (Panics, s') \<and> idle_slice s' \<and> slice_val s' = slice_val s \<and> writer (mu s')"
    using slice_AddToIndex(2) [OF s(1,2), of i y] v by fastforce
next
  show "list_spec x a = None \<Longrightarrow> slice_locking x" for x :: "'a slice_op" and a
    by (cases x; cases a) simp_all
qed

text \<open>What the callers see: results of a plain list that is nobody else's, and lists of their own that only
  they change; after a panic the locking operations block.\<close>

fun list_history :: "bool \<Rightarrow> 'a slice_op list \<Rightarrow> 'a list \<times> 'a list list \<Rightarrow> 'a slice_result outcome list" where
  "list_history stuck [] a = []"
| "list_history stuck (x # ops) a =
     (if stuck \<and> slice_locking x then Blocks # list_history stuck ops a
      else case list_spec x a of
             Some (r, a') \<Rightarrow> Returns r # list_history stuck ops a'
           | None \<Rightarrow> Panics # list_history True ops a)"

lemma history_list: "slice.history stuck ops a = list_history stuck ops a"
  by (induction ops arbitrary: stuck a) (simp_all split: option.splits)

lemma new_slices:
  "idle_slice NewSlice" "slice_val NewSlice = ([], [])" "\<not> writer (mu NewSlice)"
  "NewSliceWithLength zero n = Some s \<Longrightarrow> idle_slice s \<and> slice_val s = (replicate (nat n) zero, []) \<and> \<not> writer (mu s)"
  by (auto simp: NewSlice_def NewSliceWithLength_def idle_slice_def slice_ok_def slice_val_def fits_def contents_def
      unlocked_def split: if_splits)

text \<open>C40. In memory, where slices share arrays and \<open>append\<close> writes in place when there is capacity, every
  history of a \<open>Slice\<close> answers as a plain list does, and every slice a caller holds, also one that \<open>GetAll\<close>
  returned or \<open>AddMany\<close> was given, has its own elements: neither the callers' writes nor the object's
  operations reach the other side. An \<open>AddToIndex\<close> out of range panics between \<open>Lock\<close> and \<open>Unlock\<close>: from
  then on every operation of the object blocks, also when the panic is recovered.\<close>

theorem slice_follows_list:
  "fst (calls (slice_step grow zero) ops NewSlice) = list_history False ops ([], [])
   \<and> (NewSliceWithLength zero n = Some s \<longrightarrow>
        fst (calls (slice_step grow zero) ops s) = list_history False ops (replicate (nat n) zero, []))"
  using slice.calls_history [of NewSlice grow zero ops] slice.calls_history [of s grow zero ops] 
  by (auto simp: history_list new_slices)

lemma slice_follows_list_witness:
  "fst (calls (slice_step (\<lambda>c n. 2 * n) (0 :: nat))
      [SAddToIndex 1 9, SGetAll, CWrite 0 0 5, SAdd 4, SGetAll, CRead 0, CRead 1, SAddToIndex 3 7, SLen, CRead 0]
      (the (NewSliceWithLength 0 2)))
   = [Returns SUnit, Returns (SRef 0), Returns SUnit, Returns SUnit, Returns (SRef 1), Returns (SList [5, 9]),
      Returns (SList [0, 9, 4]), Panics, Blocks, Returns (SList [5, 9])]"
proof -
  have "NewSliceWithLength (0 :: nat) 2 = Some \<lparr>mu = unlocked, mem = [replicate 2 0], items = (0, 2), slices = []\<rparr>"
    by (simp add: NewSliceWithLength_def)
  with slice_follows_list [of "\<lambda>c n. 2 * n" "0 :: nat" "[SAddToIndex 1 9, SGetAll, CWrite 0 0 5, SAdd 4, SGetAll, CRead 0,
      CRead 1, SAddToIndex 3 7, SLen, CRead 0]" 2]
  show ?thesis by (simp add: numeral_2_eq_2)
qed

section \<open>Map\<close>

fun map_spec :: "('k, 'v, 'x) map_op \<Rightarrow> ('k \<Rightarrow> 'v option) \<times> ('k, 'v) mapping list \<Rightarrow>
    (('k, 'v, 'x) map_result \<times> ('k \<Rightarrow> 'v option) \<times> ('k, 'v) mapping list) option" where
  "map_spec (MSet k v) (m, cs) = Some (MUnit, m(k := Some v), cs)"
| "map_spec (MGet k) (m, cs) = Some (MFound (m k), m, cs)"
| "map_spec (MDelete k) (m, cs) = Some (MUnit, m(k := None), cs)"
| "map_spec (MHas k) (m, cs) = Some (MBool (m k \<noteq> None), m, cs)"
| "map_spec MGetAll (m, cs) = Some (MRef (length cs), m, cs @ [Mapping.Mapping m])"
| "map_spec (MKeys order) (m, cs) = Some (MKeyList (filter (\<lambda>k. m k \<noteq> None) order), m, cs)"
| "map_spec (MValues order) (m, cs) = Some (MValueList (map (\<lambda>k. the (m k)) (filter (\<lambda>k. m k \<noteq> None) order)), m, cs)"
| "map_spec (MRange order fn x) (m, cs) = Some (MState (range_loop (Mapping.Mapping m) fn order x), m, cs)"
| "map_spec MLen (m, cs) = Some (MInt (card (dom m)), m, cs)"
| "map_spec MClear (m, cs) = Some (MUnit, \<lambda>_. None, cs)"
| "map_spec (CMapSet i k v) (m, cs) = Some (MUnit, m, cs[i := Mapping.update k v (cs ! i)])"
| "map_spec (CMapRead i) (m, cs) = Some (MMap (if i < length cs then cs ! i else Mapping.empty), m, cs)"

fun map_locking :: "('k, 'v, 'x) map_op \<Rightarrow> bool" where
  "map_locking (CMapSet i k v) = False"
| "map_locking (CMapRead i) = False"
| "map_locking _ = True"

definition map_ok :: "('k, 'v) smap \<Rightarrow> bool" where
  "map_ok m \<longleftrightarrow> list_all (\<lambda>a. a < length (map_mem m)) (map_items m # held_maps m) \<and> distinct (map_items m # held_maps m)"

definition map_val :: "('k, 'v) smap \<Rightarrow> ('k \<Rightarrow> 'v option) \<times> ('k, 'v) mapping list" where
  "map_val m = (Mapping.lookup (the_map m), map (\<lambda>a. map_mem m ! a) (held_maps m))"

lemma Mapping_lookup [simp]: "Mapping.Mapping (Mapping.lookup m) = m"
  by (simp add: Mapping.lookup.rep_eq rep_inverse)

lemma map_size: "Mapping.size m = card (dom (Mapping.lookup m))"
  by (simp add: Mapping.size_def keys_dom_lookup)

lemma map_mu_irrelevant [simp]: "map_val (s\<lparr>mu := l\<rparr>) = map_val s" "map_ok (s\<lparr>mu := l\<rparr>) = map_ok s"
  by (simp_all add: map_val_def map_ok_def)

lemma write_items_ok:
  assumes "map_ok m"
  shows "map_ok (write_map (map_items m) f m) \<and> mu (write_map (map_items m) f m) = mu m
    \<and> map_val (write_map (map_items m) f m) = (Mapping.lookup (f (the_map m)), snd (map_val m))"
  using assms by (auto simp: map_ok_def map_val_def write_map_def list_all_iff nth_list_update)

lemma write_held_ok:
  assumes "map_ok m" "i < length (held_maps m)"
  shows "map_ok (write_map (held_maps m ! i) f m) \<and> mu (write_map (held_maps m ! i) f m) = mu m
    \<and> map_val (write_map (held_maps m ! i) f m) = (fst (map_val m), (snd (map_val m))[i := f (snd (map_val m) ! i)])"
proof -
  have "held_maps m ! i < length (map_mem m)" "held_maps m ! i \<noteq> map_items m"
    using assms nth_mem [of i "held_maps m"] unfolding map_ok_def list_all_iff by force+
  moreover have "map (\<lambda>a. ((map_mem m)[held_maps m ! i := y]) ! a) (held_maps m) = (map ((!) (map_mem m)) (held_maps m))[i := y]" for y
    using assms by (intro nth_equalityI) (auto simp: map_ok_def list_all_length nth_list_update nth_eq_iff_index_eq)
  ultimately show ?thesis
    using assms by (simp add: map_ok_def map_val_def write_map_def)
qed

lemma map_effects:
  "effect map_ok map_val (\<lambda>m. (MUnit, write_map (map_items m) (Mapping.update k v) m)) (\<lambda>a. (MUnit, (fst a)(k := Some v), snd a))"
  "effect map_ok map_val (\<lambda>m. (MUnit, write_map (map_items m) (Mapping.delete k) m)) (\<lambda>a. (MUnit, (fst a)(k := None), snd a))"
  "effect map_ok map_val copy_map (\<lambda>a. (length (snd a), fst a, snd a @ [Mapping.Mapping (fst a)]))"
  "effect map_ok map_val (\<lambda>m. (MUnit, clear_map m)) (\<lambda>a. (MUnit, \<lambda>_. None, snd a))"
  "effect map_ok map_val (\<lambda>m. (MUnit, if i < length (held_maps m) then write_map (held_maps m ! i) (Mapping.update k v) m else m))
     (\<lambda>a. (MUnit, fst a, (snd a)[i := Mapping.update k v (snd a ! i)]))"
  "(\<And>m. h m = h' (map_val m)) \<Longrightarrow> effect map_ok map_val (\<lambda>m. (h m, m)) (\<lambda>a. (h' a, a))"
proof -
  show "effect map_ok map_val copy_map (\<lambda>a. (length (snd a), fst a, snd a @ [Mapping.Mapping (fst a)]))"
    unfolding effect_def
    by (auto simp: copy_map_def map_val_def map_ok_def list_all_iff nth_append)
  show "effect map_ok map_val (\<lambda>m. (MUnit, clear_map m)) (\<lambda>a. (MUnit, \<lambda>_. None, snd a))"
    unfolding effect_def
    by (auto simp: clear_map_def map_val_def map_ok_def list_all_iff nth_append fun_eq_iff)
  show "effect map_ok map_val (\<lambda>m. (MUnit, if i < length (held_maps m) then write_map (held_maps m ! i) (Mapping.update k v) m else m))
     (\<lambda>a. (MUnit, fst a, (snd a)[i := Mapping.update k v (snd a ! i)]))"
    using write_held_ok by (auto simp: effect_def map_val_def list_update_beyond)
qed (auto simp: effect_def write_items_ok fun_eq_iff lookup_update_if lookup_delete_if, auto simp: map_val_def lookup_update_if lookup_delete_if)

definition idle_map :: "('k, 'v) smap \<Rightarrow> bool" where
  "idle_map m \<longleftrightarrow> map_ok m \<and> readers (mu m) = 0"

lemma map_locked:
  assumes "effect map_ok map_val f g" "idle_map m" "\<not> writer (mu m)"
  shows "\<exists>t. between_locks (yields f) m = (Returns (fst (g (map_val m))), t)
      \<and> idle_map t \<and> map_val t = snd (g (map_val m)) \<and> \<not> writer (mu t)"
    and "\<exists>t. read_locked (yields f) m = (Returns (fst (g (map_val m))), t)
      \<and> idle_map t \<and> map_val t = snd (g (map_val m)) \<and> \<not> writer (mu t)"
  using locked_effect [OF assms(1), of m] assms(2,3) by (auto simp: idle_map_def)

lemma map_read:
  assumes "idle_map m" "\<not> writer (mu m)" "\<And>m. h m = h' (map_val m)"
  shows "\<exists>t. read_locked (yields (\<lambda>m. (h m, m))) m = (Returns (h' (map_val m)), t)
      \<and> idle_map t \<and> map_val t = map_val m \<and> \<not> writer (mu t)"
  using map_locked(2) [OF map_effects(6) [of h h'] assms(1,2)] assms(3) by simp

lemma map_free:
  assumes "effect map_ok map_val f g" "idle_map m"
  shows "\<exists>t. yields f m = (Returns (fst (g (map_val m))), t)
      \<and> idle_map t \<and> map_val t = snd (g (map_val m)) \<and> writer (mu t) = writer (mu m)"
  using effectD [OF assms(1), of m] assms(2) by (auto simp: idle_map_def yields_def)

interpretation smap: guarded_object idle_map map_step map_val map_spec map_locking
proof
  fix s :: "('k, 'v) smap" and x :: "('k, 'v, 'x) map_op"
  show "map_step x s = (Blocks, s)" if "idle_map s" "writer (mu s)" "map_locking x"
    using that by (cases x) (simp_all add: locks_blocked)
next
  fix s :: "('k, 'v) smap" and x :: "('k, 'v, 'x) map_op" and r a
  assume s: "idle_map s" "writer (mu s) \<longrightarrow> \<not> map_locking x" "map_spec x (map_val s) = Some (r, a)"
  obtain m cs where v: "map_val s = (m, cs)" by fastforce
  have look: "Mapping.lookup (the_map m) = fst (map_val m)" for m :: "('k, 'v) smap" by (simp add: map_val_def)
  have the_map: "the_map m = Mapping.Mapping (fst (map_val m))" for m :: "('k, 'v) smap" by (simp add: map_val_def)
  note reads = map_read [OF s(1)]
  show "\<exists>s'. map_step x s = (Returns r, s') \<and> idle_map s' \<and> map_val s' = a \<and> writer (mu s') = writer (mu s)"
  proof (cases x)
    case (MSet k w)
    then show ?thesis using map_locked(1) [OF map_effects(1) [of k w] s(1)] s v by auto
  next
    case (MGet k)
    then show ?thesis using reads [of "\<lambda>m. MFound (Mapping.lookup (the_map m) k)" "\<lambda>a. MFound (fst a k)"] s v by (auto simp: look)
  next
    case (MDelete k)
    then show ?thesis using map_locked(1) [OF map_effects(2) [of k] s(1)] s v by auto
  next
    case (MHas k)
    then show ?thesis
      using reads [of "\<lambda>m. MBool (Mapping.lookup (the_map m) k \<noteq> None)" "\<lambda>a. MBool (fst a k \<noteq> None)"] s v by (auto simp: look)
  next
    case MGetAll
    obtain t where "read_locked (yields copy_map) s = (Returns (length cs), t)" "idle_map t"
      "map_val t = (m, cs @ [Mapping.Mapping m])" "\<not> writer (mu t)"
      using map_locked(2) [OF map_effects(3) s(1)] s(2) v MGetAll by fastforce
    with MGetAll s v show ?thesis by auto
  next
    case (MKeys order)
    then show ?thesis
      using reads [of "\<lambda>m. MKeyList (map_keys_of (the_map m) order)" "\<lambda>a. MKeyList (filter (\<lambda>k. fst a k \<noteq> None) order)"] s v
      by (auto simp: look map_keys_of_def)
  next
    case (MValues order)
    then show ?thesis
      using reads [of "\<lambda>m. MValueList (map (\<lambda>k. the (Mapping.lookup (the_map m) k)) (map_keys_of (the_map m) order))"
          "\<lambda>a. MValueList (map (\<lambda>k. the (fst a k)) (filter (\<lambda>k. fst a k \<noteq> None) order))"] s v
      by (auto simp: look map_keys_of_def)
  next
    case (MRange order fn y)
    then show ?thesis
      using reads [of "\<lambda>m. MState (range_loop (the_map m) fn order y)"
          "\<lambda>a. MState (range_loop (Mapping.Mapping (fst a)) fn order y)"] s v by (auto simp: the_map)
  next
    case MLen
    then show ?thesis
      using reads [of "\<lambda>m. MInt (Mapping.size (the_map m))" "\<lambda>a. MInt (card (dom (fst a)))"] s v
      by (auto simp: map_size look)
  next
    case MClear
    then show ?thesis using map_locked(1) [OF map_effects(4) s(1)] s v by auto
  next
    case (CMapSet i k w)
    then show ?thesis using map_free [OF map_effects(5) [of i k w] s(1)] s v by auto
  next
    case (CMapRead i)
    have "effect map_ok map_val (\<lambda>m :: ('k, 'v) smap. (MMap (if i < length (held_maps m) then map_mem m ! (held_maps m ! i) else Mapping.empty) :: ('k, 'v, 'x) map_result, m))
        (\<lambda>a. (MMap (if i < length (snd a) then snd a ! i else Mapping.empty), a))"
      by (rule map_effects(6)) (simp add: map_val_def)
    from map_free [OF this s(1)] CMapRead s v show ?thesis by (cases "map_val s") auto
  qed
next
  show "\<exists>s'. map_step x s = (Panics, s') \<and> idle_map s' \<and> map_val s' = map_val s \<and> writer (mu s')"
    if "idle_map s" "\<not> writer (mu s)" "map_spec x (map_val s) = None" for s :: "('k, 'v) smap" and x :: "('k, 'v, 'x) map_op"
    using that by (cases x; cases "map_val s") simp_all
next
  show "map_spec x a = None \<Longrightarrow> map_locking x" for x :: "('k, 'v, 'x) map_op" and a
    by (cases x; cases a) simp_all
qed

text \<open>Operations of a \<open>Map\<close> never block one another for good.\<close>

lemma map_calls_return:
  "idle_map m \<Longrightarrow> \<not> writer (mu m) \<Longrightarrow>
    Blocks \<notin> set (fst (calls map_step ops m)) \<and> Panics \<notin> set (fst (calls map_step ops m))"
proof -
  have "map_spec x a \<noteq> None" for x :: "('a, 'b, 'c) map_op" and a by (cases x; cases a) auto
  then show "idle_map m \<Longrightarrow> \<not> writer (mu m) \<Longrightarrow> ?thesis" using smap.calls_total [of m ops] by blast
qed

section \<open>Locker\<close>

definition locker_ok :: "'a locker \<Rightarrow> bool" where
  "locker_ok l \<longleftrightarrow> pointer l < length (cells l)"

lemma locker_ok:
  "locker_ok (NewLocker v)" "locker_ok (locker_Set v l)" "locker_ok l \<Longrightarrow> locker_ok (locker_Update fn l)"
  "locker_ok l \<Longrightarrow> locker_ok (write_pointer p v l)"
  by (simp_all add: locker_ok_def NewLocker_def locker_Set_def locker_Update_def write_pointer_def)

lemma locker_Get:
  "locker_Get (NewLocker v) = v" "locker_Get (locker_Set v l) = v"
  "locker_ok l \<Longrightarrow> locker_Get (locker_Update fn l) = fn (locker_Get l)"
  by (simp_all add: locker_ok_def locker_Get_def NewLocker_def locker_Set_def locker_Update_def write_pointer_def nth_append)

text \<open>A pointer given away before a \<open>Set\<close> no longer reaches the value; one given away since does.\<close>

lemma escaped_pointer:
  "locker_ok l \<Longrightarrow> locker_Get (write_pointer (GetPointer l) w (locker_Set v l)) = v"
  "locker_ok l \<Longrightarrow> locker_Get (write_pointer (GetPointer l) w l) = w"
  by (simp_all add: locker_ok_def locker_Get_def GetPointer_def locker_Set_def write_pointer_def nth_append)

end
