(* ===== verification/Spec2Isabelle.thy ===== *)
theory Spec2Isabelle
  imports Pipeline_Saga Pipeline_Observe Pipeline_Cancel Loggers Clocks Retry_Props Broker_Props Workflow_Samples Loopper_Props Dbutil_Props Randutil_Props Strutil Strutil_Duration Syncutil_Props
begin

text \<open>
  Verification of the Go module \<open>xutils\<close>: a collection of independent packages, each modelled here from its
  source. The two engines, \<open>pipeline\<close> and \<open>workflow\<close>, are the bulk of it; \<open>retry\<close>, \<open>broker\<close>,
  \<open>loopper\<close>, \<open>dbutil\<close>, \<open>syncutil\<close>, \<open>randutil\<close> and \<open>strutil\<close> are small and self-contained. The packages do
  not call one another, except that most log through the interface of \<open>loggerutil\<close>.

  \<^bold>\<open>How Go is modelled.\<close> Sequential code that reads and writes a state is a function
  \<open>'s \<Rightarrow> ('a \<times> 's) option\<close> (\<open>Go_Prelude\<close>): \<open>None\<close> is a run-time panic or a run that never
  returns; errors are ordinary results. The outside world (clock, storage, user callbacks, contexts, random
  source, database driver) is a state \<open>'w\<close> that parameters of the model read and advance, so a theorem holds for
  every behaviour of it; what the engines do to the world is also kept as a list of effects. Concurrent code
  (\<open>broker\<close>, \<open>loopper\<close>) is a transition system of atomic steps, one program point per goroutine, and its
  theorems are about all reachable states (\<open>Go_Steps\<close>). Durations and counters are \<open>int\<close> with the
  wrap-around \<open>i64\<close> written out where code computes with them; \<open>uint32\<close> and \<open>uint64\<close> values are
  words. Slices and maps are values; where the code makes copies because they are not, there is a heap
  (\<open>Pipeline_Clone\<close>, \<open>Pipeline_Observe\<close>, and \<open>Syncutil\<close>, where slices share arrays with a capacity and \<open>append\<close>
  may write in place). Loops that may run forever are partial functions into
  \<open>option\<close>, so that returning is a theorem (for workflow runs, the infinite retry policy and random strings); there
  is no fuel anywhere. Bounds that appear: 1074 binary places in
  \<open>float64\<close> (those of the format), and the 2048 hours for \<open>FormatDuration\<close>, up to which one nanosecond is
  told apart next to any whole hour.

  \<^bold>\<open>The language's library.\<close> \<open>Go_Strings\<close>: decimal numbers, splitting, joining, quoting.
  \<open>Go_Time\<close>: durations, \<open>Duration.String\<close>. \<open>Go_Duration\<close>: \<open>time.ParseDuration\<close>, and that it
  reads back every printed duration. \<open>Go_Utf8\<close>: \<open>unicode/utf8\<close>, white space, \<open>TrimSpace\<close>.
  \<open>Go_Float\<close>: rounding to \<open>float64\<close>. \<open>Go_Fmt\<close>: \<open>fmt.Sprintf\<close> for the verbs and argument types the log
  calls use, with what it prints for missing and superfluous arguments.

  \<^bold>\<open>Package pipeline\<close> (\<open>src/pipeline\<close>): durable execution of a tree of steps with snapshots, resumption and
  compensation.
  \<^item> \<open>Pipeline_Errors\<close> (\<open>errors.go\<close>), \<open>Pipeline_State\<close> (\<open>state.go\<close>, \<open>compact.go\<close>, path keys),
    \<open>Pipeline_Def\<close> (\<open>pipeline.go\<close>, \<open>helpers.go\<close>, validation), \<open>Pipeline_Env\<close> (\<open>options.go\<close>,
    \<open>observer.go\<close>, snapshots and diagnostics of \<open>executor.go\<close>), \<open>Pipeline_Exec\<close> (the handlers of
    \<open>executor.go\<close> up to \<open>Run\<close>), \<open>Pipeline_Clone\<close> (\<open>migration.go\<close>). The machine state \<open>mach\<close>
    holds the \<open>RunState\<close> record with the source's fields, the data store, the world and the effects.
  \<^item> \<open>Pipeline_Rules\<close>: the locale \<open>run_property\<close> proves once that a relation kept by the primitive operations
    is kept by every run; \<open>Pipeline_Safety\<close>, \<open>Pipeline_Durable\<close> and \<open>Pipeline_Resolve\<close> interpret it
    (failed snapshots end the run, revisions, versions, what is returned is what was persisted, recorded
    compensators resolve and are never forgotten; \<open>run_on\<close> are the states that runs of a pipeline make).
  \<^item> \<open>Pipeline_Compensation\<close>: which compensators run, in which order, over any number of interruptions.
    \<open>Pipeline_Total\<close>: no panic. \<open>Pipeline_Saga\<close>: the abstract saga over a tree of actions and
    branches and the refinement of it by \<open>Run\<close>, on the calm environment of \<open>Pipeline_Calm\<close> (nothing fails but
    the callbacks; what retries do is a function \<open>tries\<close> of the attempts).
    \<open>Pipeline_Samples\<close>: concrete environments for the witnesses. \<open>Pipeline_Cancel\<close>: where the state of a
    cancelled run points, and that a run resumed on it calls nothing of a Branch it was cancelled in
    (another interpretation of \<open>run_property\<close>).
  \<^item> \<open>Pipeline_Observe\<close>: errors, paths and counters as cells of a heap, the copies \<open>observe\<close> and
    \<open>cloneObserverCause\<close> make of them, and that an observer writing its copy cannot reach the executor's.

  \<^bold>\<open>Package workflow\<close> (\<open>src/workflow\<close>): stages of steps with retries, navigation and compensation routing.
  \<open>Workflow_State\<close> has the data, options and setters, \<open>Workflow\<close> the engine of \<open>workflow.go\<close> and
  \<open>step_retry_policies.go\<close>. \<open>Workflow_Rules\<close> has the rules for whole runs (the locales \<open>kept_steps\<close> and, extending it,
  \<open>kept_workflow\<close>),
  \<open>Workflow_Props\<close> settled steps and retry bounds, \<open>Workflow_Total\<close> that runs return,
  \<open>Workflow_Resume\<close> the validation by \<open>init\<close> and where a directed run starts, \<open>Workflow_Failure\<close> the
  routing of failures and the runs of a stopped workflow, \<open>Workflow_Snapshot\<close> the round trip of snapshots, \<open>Workflow_Samples\<close> the witnesses and the
  runs on which code and documentation part.

  \<^bold>\<open>Packages retry, broker, loopper.\<close> \<open>Retry\<close> models options, policies and \<open>Do\<close>, \<open>Retry_Props\<close>
  proves complete traces, with every answer of the context in them, and the delays. \<open>Broker\<close> models channels, the subscriber map, the broker's loop and the
  client calls; \<open>Broker_Props\<close> proves delivery, the absence of panics and what \<open>Stop\<close> achieves.
  \<open>Loopper\<close> models \<open>Start\<close>, \<open>Trigger\<close>, \<open>Stop\<close>, \<open>Wait\<close>, \<open>tryRun\<close> and the ticker;
  \<open>Loopper_Props\<close> proves mutual exclusion and that a stopped and drained loop stays so.

  \<^bold>\<open>Utility packages.\<close> \<open>Dbutil\<close> (durations and JSON as columns, pagination, transactions), \<open>Randutil\<close>
  (numbers, strings by rejection sampling, keys), \<open>Strutil\<close> and \<open>Strutil_Duration\<close> (formatting, cleaning of
  UTF-8), \<open>Syncutil\<close> (map, slice and cell under a lock, the methods as the statements between \<open>Lock\<close> and
  \<open>Unlock\<close> over a memory shared with the callers; the locale \<open>guarded_object\<close> states what a history of calls
  answers and what a panic under the lock does). Their properties are in the \<open>_Props\<close> theories.
  \<open>Loggers\<close>: package \<open>loggerutil\<close> (\<open>EmptyLogger\<close>, \<open>TestLogger\<close>; the locale \<open>appending\<close> for loggers that only
  add to their output), the log methods of \<open>pipeline/logger.go\<close> and \<open>workflow_helpers.go\<close>, the recovery of an
  observer's panic, and that every format the two engines log takes exactly its arguments. \<open>Clocks\<close>: the
  system clock's \<open>Sleep\<close> as a \<open>select\<close> (the locale \<open>sleeper\<close>), \<open>TimeIt\<close> of \<open>timeutil\<close>, \<open>PrintJSON\<close> of
  \<open>testutil\<close>.

  \<^bold>\<open>Parameters.\<close> User callbacks, storage, clocks and contexts; the JSON codec (its hypotheses: a string it wrote is
  read back); \<open>crypto/rand\<close> (a number stays below its bound); the SQL driver; \<open>unicode.IsPrint\<close>; the capacity
  \<open>append\<close> chooses (\<open>grow\<close>); the type names \<open>%T\<close> prints in \<open>GetData\<close>; the product of
  a fraction and its unit in \<open>ParseDuration\<close> (\<open>exact_frac\<close>: exact when all factors are integers below \<open>2^53\<close>).
  Go's unordered iteration over maps is a parameter of the environment or an argument.

  \<^bold>\<open>Not modelled.\<close> \<open>cacheutil\<close>, an interface without code; the \<open>doc.go\<close> files, which are comments. In the
  engines the log calls themselves are left out, because no result depends on them (\<open>Loggers\<close> has what a call
  does), and so are the options and setters that only store a logger (of \<open>retry\<close>, \<open>broker\<close>, \<open>loopper\<close> and
  \<open>workflow\<close>) and accessors that read a field.
\<close>

end
